(* ===== verification/Prelude.thy ===== *)
theory Prelude
  imports Main "HOL-Library.AList"
begin

text \<open>
  Shared vocabulary of the development: the parts of Go that the sources use.

  \<^item> \<open>int\<close> and \<open>int64\<close> values are HOL integers; \<open>wrap64\<close> is the two's complement
    reduction of an arithmetic result and is written wherever the source computes without
    a guard of its own.
  \<^item> a \<open>time.Time\<close> is a number of nanoseconds since the epoch (unbounded, as Go's type is
    far wider than \<open>int64\<close> nanoseconds), a \<open>time.Duration\<close> is a number of nanoseconds;
    \<open>Time.Sub\<close> saturates, as in the Go library.
  \<^item> a Go map that the code ranges over or takes the length of is an association list with
    distinct keys; its order stands for the iteration order, which no theorem fixes.
  \<^item> a string is a byte string.
\<close>

named_theorems map_simps \<open>lookups in updated association lists\<close>

subsection \<open>Machine integers\<close>

definition max_int64 :: int where
  "max_int64 = 9223372036854775807"

definition min_int64 :: int where
  "min_int64 = - 9223372036854775808"

definition in64 :: "int \<Rightarrow> bool" where
  "in64 x \<longleftrightarrow> min_int64 \<le> x \<and> x \<le> max_int64"

definition wrap64 :: "int \<Rightarrow> int" where
  "wrap64 x = (x + 9223372036854775808) mod 18446744073709551616 - 9223372036854775808"

lemmas int64_defs = max_int64_def min_int64_def in64_def wrap64_def

lemma wrap64_id [simp]: "in64 x \<Longrightarrow> wrap64 x = x"
  by (simp add: int64_defs)

lemma in64_wrap64 [simp]: "in64 (wrap64 x)"
proof -
  have "0 \<le> (x + 9223372036854775808) mod 18446744073709551616"
    "(x + 9223372036854775808) mod 18446744073709551616 < 18446744073709551616"
    by simp_all
  then show ?thesis
    unfolding in64_def wrap64_def max_int64_def min_int64_def by linarith
qed

subsection \<open>Time\<close>

type_synonym gtime = int
type_synonym duration = int

definition second :: duration where
  "second = 1000000000"

definition minute :: duration where
  "minute = 60 * second"

text \<open>The zero \<open>time.Time\<close>: midnight UTC, January 1 of year 1.\<close>

definition zero_time :: gtime where
  "zero_time = - 62135596800000000000"

text \<open>\<open>Time.Sub\<close>: the difference, saturated to the range of a duration.\<close>

definition time_sub :: "gtime \<Rightarrow> gtime \<Rightarrow> duration" where
  "time_sub a b = max min_int64 (min max_int64 (a - b))"

lemma time_sub_mono: "b' \<le> b \<Longrightarrow> time_sub a b \<le> time_sub a b'"
  unfolding time_sub_def by linarith

lemmas time_defs = second_def minute_def zero_time_def time_sub_def

subsection \<open>Maps with an iteration order\<close>

type_synonym ('k, 'v) gmap = "('k \<times> 'v) list"

abbreviation mget :: "('k, 'v) gmap \<Rightarrow> 'k \<Rightarrow> 'v option" where
  "mget m k \<equiv> map_of m k"

abbreviation mput :: "'k \<Rightarrow> 'v \<Rightarrow> ('k, 'v) gmap \<Rightarrow> ('k, 'v) gmap" where
  "mput \<equiv> AList.update"

abbreviation mdel :: "'k \<Rightarrow> ('k, 'v) gmap \<Rightarrow> ('k, 'v) gmap" where
  "mdel \<equiv> AList.delete"

abbreviation mkeys :: "('k, 'v) gmap \<Rightarrow> 'k list" where
  "mkeys m \<equiv> map fst m"

text \<open>An assignment through a pointer that may have left the map: it is visible in the map
  only while the key is still there.\<close>

definition mput_if :: "'k \<Rightarrow> 'v \<Rightarrow> ('k, 'v) gmap \<Rightarrow> ('k, 'v) gmap" where
  "mput_if k v m = (if mget m k = None then m else mput k v m)"

text \<open>The sum of a measure over the entries of a map.\<close>

definition msum :: "('k \<times> 'v \<Rightarrow> int) \<Rightarrow> ('k, 'v) gmap \<Rightarrow> int" where
  "msum f m = sum_list (map f m)"

lemma msum_Nil [simp]: "msum f [] = 0"
  by (simp add: msum_def)

lemma msum_Cons [simp]: "msum f (p # m) = f p + msum f m"
  by (simp add: msum_def)

lemma mget_mput [map_simps]: "mget (mput k v m) k' = (if k' = k then Some v else mget m k')"
  by (simp add: update_conv')

lemma mget_mdel [map_simps]: "mget (mdel k m) k' = (if k' = k then None else mget m k')"
  by (simp add: delete_conv')

lemma distinct_mput [simp]: "distinct (mkeys m) \<Longrightarrow> distinct (mkeys (mput k v m))"
  by (rule distinct_update)

lemma distinct_mdel [simp]: "distinct (mkeys m) \<Longrightarrow> distinct (mkeys (mdel k m))"
  by (rule distinct_delete)

lemma mkeys_mput: "mget m k \<noteq> None \<Longrightarrow> mkeys (mput k v m) = mkeys m"
  by (induction m) (auto split: if_splits)

lemma length_mput_old [simp]: "mget m k \<noteq> None \<Longrightarrow> length (mput k v m) = length m"
  by (metis length_map mkeys_mput)

lemma length_mput_new: "mget m k = None \<Longrightarrow> length (mput k v m) = Suc (length m)"
  by (induction m) (auto split: if_splits)

lemma length_mput_le: "length (mput k v m) \<le> Suc (length m)"
  by (cases "mget m k = None") (simp_all add: length_mput_new)

lemma length_mdel_le: "length (mdel k m) \<le> length m"
  by (rule length_delete_le)

lemma mdel_absent: "mget m k = None \<Longrightarrow> mdel k m = m"
  by (induction m) (auto simp: AList.delete_eq split: if_splits)

lemma length_mdel_less:
  assumes "mget m k \<noteq> None"
  shows "length (mdel k m) < length m"
  using assms by (induction m) (auto simp: AList.delete_eq split: if_splits intro: le_imp_less_Suc)

lemma length_mdel_present:
  assumes "distinct (mkeys m)" "mget m k \<noteq> None"
  shows "Suc (length (mdel k m)) = length m"
  using assms
proof (induction m)
  case (Cons p m)
  show ?case
  proof (cases "fst p = k")
    case True
    with Cons.prems have "mget m k = None"
      by (auto simp: map_of_eq_None_iff)
    with True show ?thesis
      by (cases p) (simp add: mdel_absent)
  next
    case False
    with Cons show ?thesis by (cases p) auto
  qed
qed simp

lemma set_mput:
  "distinct (mkeys m) \<Longrightarrow> set (mput k v m) = insert (k, v) {p \<in> set m. fst p \<noteq> k}"
  by (induction m) (auto simp: rev_image_eqI split: if_splits)

lemma set_mdel: "set (mdel k m) = {p \<in> set m. fst p \<noteq> k}"
  by (auto simp: AList.delete_eq)

lemma in_set_mget: "distinct (mkeys m) \<Longrightarrow> (k, v) \<in> set m \<longleftrightarrow> mget m k = Some v"
  by auto

lemma in_set_mgetD: "distinct (mkeys m) \<Longrightarrow> p \<in> set m \<Longrightarrow> mget m (fst p) = Some (snd p)"
  by (cases p) auto

declare map_of_eq_Some_iff [simp del]

lemma msum_absent_del [simp]: "mget m k = None \<Longrightarrow> msum f (mdel k m) = msum f m"
  by (simp add: mdel_absent)

text \<open>How an update and a removal change a sum.\<close>

definition mold :: "('k \<times> 'v \<Rightarrow> int) \<Rightarrow> 'k \<Rightarrow> ('k, 'v) gmap \<Rightarrow> int" where
  "mold f k m = (case mget m k of None \<Rightarrow> 0 | Some v \<Rightarrow> f (k, v))"

lemma mold_simps [simp]:
  "mget m k = None \<Longrightarrow> mold f k m = 0"
  "mget m k = Some v \<Longrightarrow> mold f k m = f (k, v)"
  by (simp_all add: mold_def)

lemma msum_mput: "distinct (mkeys m) \<Longrightarrow> msum f (mput k v m) = msum f m - mold f k m + f (k, v)"
proof (induction m)
  case (Cons p m)
  then show ?case
    by (cases p) (auto simp: mold_def split: option.splits)
qed (simp add: mold_def)

lemma msum_mdel: "distinct (mkeys m) \<Longrightarrow> msum f (mdel k m) = msum f m - mold f k m"
proof (induction m)
  case (Cons p m)
  show ?case
  proof (cases "fst p = k")
    case True
    with Cons.prems have "mget m k = None" by (auto simp: map_of_eq_None_iff)
    with True show ?thesis by (cases p) (simp add: mold_def)
  next
    case False
    with Cons show ?thesis by (cases p) (simp add: mold_def)
  qed
qed (simp add: mold_def)

lemma msum_nonneg: "(\<And>p. p \<in> set m \<Longrightarrow> 0 \<le> f p) \<Longrightarrow> 0 \<le> msum f m"
  by (induction m) auto

lemma msum_cong: "(\<And>p. p \<in> set m \<Longrightarrow> f p = g p) \<Longrightarrow> msum f m = msum g m"
  by (induction m) auto

lemma msum_member_le:
  "(\<And>p. p \<in> set m \<Longrightarrow> 0 \<le> f p) \<Longrightarrow> p \<in> set m \<Longrightarrow> f p \<le> msum f m"
proof (induction m)
  case (Cons q m)
  then have "0 \<le> f q" "0 \<le> msum f m" by (simp_all add: msum_nonneg)
  with Cons show ?case by (cases "p = q") (simp, fastforce)
qed simp

lemma msum_zero: "(\<And>p. p \<in> set m \<Longrightarrow> f p = 0) \<Longrightarrow> msum f m = 0"
  by (induction m) auto

lemma msum_filter: "msum f (filter P m) = msum (\<lambda>p. if P p then f p else 0) m"
  by (induction m) auto

text \<open>Sums over the entries with values in any commutative monoid, such as multisets.\<close>

definition gsum :: "('k \<times> 'v \<Rightarrow> 'm::comm_monoid_add) \<Rightarrow> ('k, 'v) gmap \<Rightarrow> 'm" where
  "gsum f m = sum_list (map f m)"

lemma gsum_Nil [simp]: "gsum f [] = 0"
  by (simp add: gsum_def)

lemma gsum_Cons [simp]: "gsum f (p # m) = f p + gsum f m"
  by (simp add: gsum_def)

lemma gsum_split:
  assumes "distinct (mkeys m)" "mget m k = Some v"
  shows "gsum f m = f (k, v) + gsum f (mdel k m)"
  using assms
proof (induction m)
  case (Cons p m)
  show ?case
  proof (cases "fst p = k")
    case True
    with Cons.prems have "mget m k = None" by (auto simp: map_of_eq_None_iff)
    with True Cons.prems show ?thesis by (cases p) (simp add: mdel_absent)
  next
    case False
    with Cons show ?thesis by (cases p) (simp add: ac_simps)
  qed
qed simp

lemma mdel_mput_same [simp]: "mdel k (mput k v m) = mdel k m"
  by (induction m) (auto simp: AList.delete_eq)

lemma gsum_mput:
  "distinct (mkeys m) \<Longrightarrow> gsum f (mput k v m) = f (k, v) + gsum f (mdel k m)"
  by (subst gsum_split [where k = k and v = v]) (simp_all add: map_simps)

lemma gsum_cong: "(\<And>p. p \<in> set m \<Longrightarrow> f p = g p) \<Longrightarrow> gsum f m = gsum g m"
  by (induction m) auto

end
