(* ===== verification/GoStrings.thy ===== *)
theory GoStrings
  imports Prelude
begin

text \<open>
  The functions of Go's \<open>strings\<close> package that the sources call, on byte strings.
  \<open>ToLower\<close> is given on ASCII: bytes from 0x80 upwards (the encodings of non-ASCII runes) are
  left as they are. UTF-8 decoding and \<open>TrimSpace\<close> are given on all byte strings.
\<close>

definition code :: "char \<Rightarrow> nat" where
  "code c = of_char c"

definition is_upper :: "char \<Rightarrow> bool" where
  "is_upper c \<longleftrightarrow> 65 \<le> code c \<and> code c \<le> 90"

definition is_lower :: "char \<Rightarrow> bool" where
  "is_lower c \<longleftrightarrow> 97 \<le> code c \<and> code c \<le> 122"

definition is_digit :: "char \<Rightarrow> bool" where
  "is_digit c \<longleftrightarrow> 48 \<le> code c \<and> code c \<le> 57"

definition lower_char :: "char \<Rightarrow> char" where
  "lower_char c = (if is_upper c then char_of (code c + 32) else c)"

definition toLower :: "string \<Rightarrow> string" where
  "toLower s = map lower_char s"

definition NUL :: char where
  "NUL = CHR 0x00"

text \<open>\<open>strings.Cut\<close> at a one-byte separator: what precedes it and what follows it.\<close>

definition cut :: "char \<Rightarrow> string \<Rightarrow> string \<times> string" where
  "cut c s = (takeWhile (\<lambda>d. d \<noteq> c) s, drop 1 (dropWhile (\<lambda>d. d \<noteq> c) s))"

text \<open>\<open>strings.Split\<close> at a one-byte separator.\<close>

fun splitOn :: "char \<Rightarrow> string \<Rightarrow> string list" where
  "splitOn c [] = [[]]"
| "splitOn c (d # s) =
     (if d = c then [] # splitOn c s
      else (case splitOn c s of [] \<Rightarrow> [[d]] | w # ws \<Rightarrow> (d # w) # ws))"

definition hasPrefix :: "string \<Rightarrow> string \<Rightarrow> bool" where
  "hasPrefix s p \<longleftrightarrow> take (length p) s = p"

definition hasSuffix :: "string \<Rightarrow> string \<Rightarrow> bool" where
  "hasSuffix s p \<longleftrightarrow> length p \<le> length s \<and> drop (length s - length p) s = p"

text \<open>\<open>strings.LastIndexByte\<close>: the last position of a byte, -1 when it does not occur.\<close>

definition lastIndexByte :: "string \<Rightarrow> char \<Rightarrow> int" where
  "lastIndexByte s c =
     (if c \<in> set s then int (length s) - 1 - int (length (takeWhile (\<lambda>d. d \<noteq> c) (rev s))) else -1)"

lemma splitOn_not_Nil [simp]: "splitOn c s \<noteq> []"
  by (cases s) (auto split: list.split)

lemma takeWhile_sep: "c \<notin> set s \<Longrightarrow> takeWhile (\<lambda>d. d \<noteq> c) (s @ c # t) = s"
  by (induction s) auto

lemma fst_cut_append: "c \<notin> set s \<Longrightarrow> fst (cut c (s @ c # t)) = s"
  by (simp add: cut_def takeWhile_sep)

lemma dropWhile_sep: "c \<notin> set s \<Longrightarrow> dropWhile (\<lambda>d. d \<noteq> c) (s @ c # t) = c # t"
  by (induction s) auto

lemma snd_cut_append: "c \<notin> set s \<Longrightarrow> snd (cut c (s @ c # t)) = t"
  by (simp add: cut_def dropWhile_sep)

subsection \<open>UTF-8\<close>

definition inRange :: "nat \<Rightarrow> nat \<Rightarrow> char \<Rightarrow> bool" where
  "inRange lo hi c \<longleftrightarrow> lo \<le> code c \<and> code c \<le> hi"

definition runeError :: nat where
  "runeError = 65533"

text \<open>\<open>utf8.DecodeRuneInString\<close> on a non-empty string: the rune and its width; an invalid
  encoding is one byte wide and yields \<open>RuneError\<close>.\<close>

fun decodeRune :: "string \<Rightarrow> nat \<times> nat" where
  "decodeRune [] = (runeError, 0)"
| "decodeRune (a # s) =
     (if code a < 128 then (code a, 1)
      else
        (case s of
           [] \<Rightarrow> (runeError, 1)
         | b # s1 \<Rightarrow>
             if inRange 194 223 a
             then (if inRange 128 191 b then ((code a - 192) * 64 + (code b - 128), 2) else (runeError, 1))
             else
               (case s1 of
                  [] \<Rightarrow> (runeError, 1)
                | c # s2 \<Rightarrow>
                    if inRange 224 239 a
                    then
                      (if inRange (if code a = 224 then 160 else 128) (if code a = 237 then 159 else 191) b \<and>
                          inRange 128 191 c
                       then ((code a - 224) * 4096 + (code b - 128) * 64 + (code c - 128), 3)
                       else (runeError, 1))
                    else
                      (case s2 of
                         [] \<Rightarrow> (runeError, 1)
                       | d # _ \<Rightarrow>
                           if inRange 240 244 a \<and>
                              inRange (if code a = 240 then 144 else 128) (if code a = 244 then 143 else 191) b \<and>
                              inRange 128 191 c \<and> inRange 128 191 d
                           then ((code a - 240) * 262144 + (code b - 128) * 4096 + (code c - 128) * 64 + (code d - 128), 4)
                           else (runeError, 1)))))"

text \<open>The runes a \<open>range\<close> over the string yields, each with the validity of its encoding.\<close>

function runes :: "string \<Rightarrow> (nat \<times> bool) list" where
  "runes [] = []"
| "runes (c # s) =
     (let (r, w) = decodeRune (c # s) in (r, \<not> (w = 1 \<and> code c \<ge> 128)) # runes (drop (w - 1) s))"
  by pat_completeness auto

termination
  by (relation "measure length") auto

definition utf8Valid :: "string \<Rightarrow> bool" where
  "utf8Valid s = list_all snd (runes s)"

text \<open>\<open>unicode.IsSpace\<close>.\<close>

definition isSpaceRune :: "nat \<Rightarrow> bool" where
  "isSpaceRune r \<longleftrightarrow> (9 \<le> r \<and> r \<le> 13) \<or> r = 32 \<or> r = 133 \<or> r = 160 \<or> r = 5760 \<or> (8192 \<le> r \<and> r \<le> 8202) \<or>
     r = 8232 \<or> r = 8233 \<or> r = 8239 \<or> r = 8287 \<or> r = 12288"

text \<open>\<open>utf8.DecodeLastRuneInString\<close>: the position where the last rune starts is found by stepping
  back over at most three continuation bytes.\<close>

definition lastRuneStart :: "string \<Rightarrow> nat" where
  "lastRuneStart s =
     (let n = length s; conts = takeWhile (\<lambda>c. inRange 128 191 c) (take 3 (drop 1 (rev s)))
      in n - 1 - min (length conts + 1) (min 3 (n - 1)))"

definition decodeLastRune :: "string \<Rightarrow> nat \<times> nat" where
  "decodeLastRune s =
     (if s = [] then (runeError, 0)
      else if code (last s) < 128 then (code (last s), 1)
      else
        (let start = lastRuneStart s; (r, w) = decodeRune (drop start s)
         in if start + w = length s then (r, w) else (runeError, 1)))"

function trimLeftSpace :: "string \<Rightarrow> string" where
  "trimLeftSpace [] = []"
| "trimLeftSpace (c # s) =
     (let (r, w) = decodeRune (c # s) in if isSpaceRune r then trimLeftSpace (drop (w - 1) s) else c # s)"
  by pat_completeness auto

termination
  by (relation "measure length") auto

lemma decodeRune_width: "s \<noteq> [] \<Longrightarrow> 0 < snd (decodeRune s)"
  by (cases s) (auto split: list.splits)

lemma decodeLastRune_width: "0 < snd (decodeLastRune (c # s))"
proof -
  have "drop (lastRuneStart (c # s)) (c # s) \<noteq> []" by (simp add: lastRuneStart_def Let_def)
  from decodeRune_width [OF this] show ?thesis by (auto simp: decodeLastRune_def Let_def split: prod.splits)
qed

function trimRightSpace :: "string \<Rightarrow> string" where
  "trimRightSpace [] = []"
| "trimRightSpace (c # s) =
     (let (r, w) = decodeLastRune (c # s)
      in if isSpaceRune r then trimRightSpace (take (length (c # s) - w) (c # s)) else c # s)"
  by pat_completeness auto

termination
  using decodeLastRune_width by (relation "measure length") (auto simp: prod_eq_iff)

definition trimSpace :: "string \<Rightarrow> string" where
  "trimSpace s = trimRightSpace (trimLeftSpace s)"

text \<open>Printable ASCII has nothing to trim; the equation keeps evaluation of such strings short.\<close>

lemma trimSpace_graphic:
  assumes "list_all (inRange 33 126) s"
  shows "trimSpace s = s"
proof (cases s)
  case (Cons c t)
  have "code c < 128" "\<not> isSpaceRune (code c)"
    using assms Cons by (auto simp: inRange_def isSpaceRune_def)
  then have l: "trimLeftSpace s = s" by (simp add: Cons)
  have "inRange 33 126 (last s)" using assms Cons by (metis last_in_set list.distinct(1) list_all_iff)
  then have "code (last s) < 128" "\<not> isSpaceRune (code (last s))" by (auto simp: inRange_def isSpaceRune_def)
  then have "decodeLastRune s = (code (last s), 1)" "\<not> isSpaceRune (code (last s))"
    by (simp_all add: decodeLastRune_def Cons)
  then have "trimRightSpace s = s" by (simp add: Cons)
  then show ?thesis by (simp add: trimSpace_def l)
qed (simp add: trimSpace_def)

lemma trimSpace_code [code]:
  "trimSpace s = (if list_all (inRange 33 126) s then s else trimRightSpace (trimLeftSpace s))"
  using trimSpace_graphic trimSpace_def by simp

text \<open>Whether \<open>strings.TrimSpace\<close> would change a valid UTF-8 string.\<close>

definition edgeSpace :: "string \<Rightarrow> bool" where
  "edgeSpace s = (case runes s of [] \<Rightarrow> False | rs \<Rightarrow> isSpaceRune (fst (hd rs)) \<or> isSpaceRune (fst (last rs)))"

text \<open>\<open>strings.Contains\<close>.\<close>

fun contains :: "string \<Rightarrow> string \<Rightarrow> bool" where
  "contains [] p = (p = [])"
| "contains (c # s) p = (hasPrefix (c # s) p \<or> contains s p)"

lemma runes_ascii: "\<forall>c \<in> set s. code c < 128 \<Longrightarrow> runes s = map (\<lambda>c. (code c, True)) s"
  by (induction s) auto

lemma utf8Valid_ascii: "\<forall>c \<in> set s. code c < 128 \<Longrightarrow> utf8Valid s"
  by (simp add: utf8Valid_def runes_ascii list_all_iff)

lemma edgeSpace_ascii:
  assumes "\<forall>c \<in> set s. code c < 128 \<and> \<not> isSpaceRune (code c)"
  shows "\<not> edgeSpace s"
proof (cases "s = []")
  case False
  have r: "runes s = map (\<lambda>c. (code c, True)) s" by (rule runes_ascii) (use assms in simp)
  have "hd s \<in> set s" "last s \<in> set s" using False by simp_all
  then have "\<not> isSpaceRune (fst (hd (runes s))) \<and> \<not> isSpaceRune (fst (last (runes s)))"
    using assms False by (simp add: r hd_map last_map)
  then show ?thesis by (simp add: edgeSpace_def list.case_eq_if)
qed (simp add: edgeSpace_def)

text \<open>ASCII strings are decided without decoding, which keeps evaluation short.\<close>

lemma utf8Valid_code [code]:
  "utf8Valid s = (if list_all (\<lambda>c. code c < 128) s then True else list_all snd (runes s))"
  using utf8Valid_ascii by (auto simp: list_all_iff utf8Valid_def)

lemma edgeSpace_code [code]:
  "edgeSpace s =
     (if list_all (inRange 33 126) s then False
      else case runes s of [] \<Rightarrow> False | rs \<Rightarrow> isSpaceRune (fst (hd rs)) \<or> isSpaceRune (fst (last rs)))"
proof (cases "list_all (inRange 33 126) s")
  case True
  then have "\<forall>c \<in> set s. code c < 128 \<and> \<not> isSpaceRune (code c)"
    by (auto simp: list_all_iff inRange_def isSpaceRune_def)
  with True show ?thesis using edgeSpace_ascii by simp
qed (simp add: edgeSpace_def)

end
