(* ===== verification/AuthLimiter.thy ===== *)
theory AuthLimiter
  imports Prelude GoStrings
begin

text \<open>
  The authentication limiter of the submission server, \<open>src/internal/smtpd/limiter.go\<close>:
  failures and reservations in flight per source address, per address and user name, and
  per user name.

  The three Go maps hold pointers to \<open>attemptState\<close>. A pointer is in one map under one key
  only, so the maps hold the structures themselves; where \<open>reserve\<close> keeps a pointer across a
  call that can take the entry out of its map, the model keeps the contents of the structure
  beside the map and writes back only to an entry that is still there (\<open>mput_if\<close>).
  The clock is an argument \<open>now\<close> of each operation. The mutex makes each operation one step.
\<close>

subsection \<open>State\<close>

definition freeAttempts :: int where
  "freeAttempts = 5"

definition lockoutBase :: duration where
  "lockoutBase = 2 * second"

definition lockoutMax :: duration where
  "lockoutMax = 5 * minute"

definition entryExpiry :: duration where
  "entryExpiry = 30 * minute"

definition capSweepInterval :: duration where
  "capSweepInterval = second"

definition maxAuthIPEntries :: int where
  "maxAuthIPEntries = 10000"

definition maxAuthKeyEntries :: int where
  "maxAuthKeyEntries = 10000"

definition maxAuthUserEntries :: int where
  "maxAuthUserEntries = 10000"

record attemptState =
  failures :: int
  until :: gtime
  seen :: gtime
  inFlight :: int

text \<open>\<open>new(attemptState)\<close>.\<close>

definition newAttemptState :: attemptState where
  "newAttemptState = \<lparr>failures = 0, until = zero_time, seen = zero_time, inFlight = 0\<rparr>"

record authLimiter =
  byIP :: "(string, attemptState) gmap"
  byKey :: "(string, attemptState) gmap"
  byUser :: "(string, attemptState) gmap"
  pruned :: gtime
  maxIP :: int
  maxKey :: int
  maxUser :: int
  expiry :: duration
  pruneEvery :: duration
  lastCapSweep :: gtime
  fullSweeps :: int

definition newAuthLimiterSized :: "int \<Rightarrow> int \<Rightarrow> duration \<Rightarrow> duration \<Rightarrow> gtime \<Rightarrow> authLimiter" where
  "newAuthLimiterSized mIP mKey ex pr now =
     \<lparr>byIP = [], byKey = [], byUser = [], pruned = now,
      maxIP = (if mIP \<le> 0 then maxAuthIPEntries else mIP),
      maxKey = (if mKey \<le> 0 then maxAuthKeyEntries else mKey),
      maxUser = maxAuthUserEntries,
      expiry = (if ex \<le> 0 then entryExpiry else ex),
      pruneEvery = (if pr \<le> 0 then entryExpiry else pr),
      lastCapSweep = zero_time, fullSweeps = 0\<rparr>"

definition newAuthLimiter :: "gtime \<Rightarrow> authLimiter" where
  "newAuthLimiter now =
     newAuthLimiterSized maxAuthIPEntries maxAuthKeyEntries entryExpiry entryExpiry now"

subsection \<open>Keys and budgets\<close>

definition canonicalLimiterKey :: "string \<Rightarrow> string \<Rightarrow> string \<times> string \<times> string" where
  "canonicalLimiterKey ip username =
     (let canonUser = toLower (trimSpace username) in (ip, ip @ NUL # canonUser, canonUser))"

definition ipFromKey :: "string \<Rightarrow> string" where
  "ipFromKey key = fst (cut NUL key)"

fun canReserve :: "attemptState option \<Rightarrow> gtime \<Rightarrow> bool" where
  "canReserve None now = True"
| "canReserve (Some st) now =
     (if now < until st then False
      else if failures st < freeAttempts then failures st + inFlight st < freeAttempts
      else inFlight st = 0)"

definition emptyState :: "attemptState \<Rightarrow> gtime \<Rightarrow> bool" where
  "emptyState st now \<longleftrightarrow> failures st = 0 \<and> inFlight st = 0 \<and> \<not> now < until st"

definition safeToPrune :: "duration \<Rightarrow> attemptState \<Rightarrow> gtime \<Rightarrow> bool" where
  "safeToPrune ex st now =
     (if inFlight st > 0 \<or> now < until st then False
      else if emptyState st now then True
      else time_sub now (seen st) > ex)"

subsection \<open>Removing identities\<close>

text \<open>What \<open>dropIdentityLocked\<close> does to the address structure of the identity it removes.\<close>

definition subtractIdentity :: "attemptState \<Rightarrow> gtime \<Rightarrow> attemptState \<Rightarrow> attemptState" where
  "subtractIdentity st now ist =
     (let f = (if failures st > 0
               then (if failures ist \<ge> failures st then failures ist - failures st else 0)
               else failures ist);
          i = (if inFlight st > 0
               then (if inFlight ist \<ge> inFlight st then inFlight ist - inFlight st else 0)
               else inFlight ist)
      in ist\<lparr>failures := f, inFlight := i,
             until := (if f < freeAttempts then zero_time else until ist), seen := now\<rparr>)"

definition dropIdentityLocked :: "string \<Rightarrow> attemptState \<Rightarrow> gtime \<Rightarrow> authLimiter \<Rightarrow> authLimiter" where
  "dropIdentityLocked key st now l =
     (let ip = ipFromKey key;
          l1 = (case mget (byIP l) ip of
                  None \<Rightarrow> l
                | Some ist \<Rightarrow>
                    (let ist' = subtractIdentity st now ist
                     in l\<lparr>byIP := (if emptyState ist' now then mdel ip (byIP l)
                                    else mput ip ist' (byIP l))\<rparr>))
      in l1\<lparr>byKey := mdel key (byKey l1)\<rparr>)"

text \<open>The sweep. Its boolean result is ignored by both callers and is left out.\<close>

definition pruneKeys :: "gtime \<Rightarrow> authLimiter \<Rightarrow> (string \<times> attemptState) list \<Rightarrow> authLimiter" where
  "pruneKeys now l ks =
     foldl (\<lambda>l p. if safeToPrune (expiry l) (snd p) now
                  then dropIdentityLocked (fst p) (snd p) now l else l) l ks"

definition forcePrune :: "gtime \<Rightarrow> authLimiter \<Rightarrow> authLimiter" where
  "forcePrune now l =
     (let l1 = l\<lparr>pruned := now, fullSweeps := fullSweeps l + 1\<rparr>;
          l2 = pruneKeys now l1 (byKey l1);
          l3 = l2\<lparr>byIP := filter (\<lambda>p. \<not> safeToPrune (expiry l2) (snd p) now) (byIP l2)\<rparr>
      in l3\<lparr>byUser := filter (\<lambda>p. inFlight (snd p) \<noteq> 0) (byUser l3)\<rparr>)"

definition maybePeriodicPrune :: "gtime \<Rightarrow> authLimiter \<Rightarrow> authLimiter" where
  "maybePeriodicPrune now l =
     (if time_sub now (pruned l) < pruneEvery l then l else forcePrune now l)"

text \<open>The selection loop of the two evictions: the oldest idle entry, \<open>''''\<close> for none.\<close>

fun pickOldest :: "(string \<times> attemptState \<Rightarrow> bool) \<Rightarrow> (string \<times> attemptState) list \<Rightarrow>
    string \<times> gtime \<Rightarrow> string \<times> gtime" where
  "pickOldest skip [] acc = acc"
| "pickOldest skip (p # m) (ok, ot) =
     pickOldest skip m
       (if skip p then (ok, ot)
        else if ok = '''' \<or> seen (snd p) < ot then (fst p, seen (snd p)) else (ok, ot))"

definition busyState :: "gtime \<Rightarrow> attemptState \<Rightarrow> bool" where
  "busyState now st \<longleftrightarrow> inFlight st \<noteq> 0 \<or> now < until st"

definition oldestKey :: "gtime \<Rightarrow> authLimiter \<Rightarrow> string" where
  "oldestKey now l = fst (pickOldest (\<lambda>p. busyState now (snd p)) (byKey l) ('''', zero_time))"

definition evictOldestKey :: "gtime \<Rightarrow> authLimiter \<Rightarrow> bool \<times> authLimiter" where
  "evictOldestKey now l =
     (let k = oldestKey now l
      in if k = '''' then (False, l)
         else (case mget (byKey l) k of
                 None \<Rightarrow> (False, l)
               | Some st \<Rightarrow> (True, dropIdentityLocked k st now l)))"

definition oldestIP :: "gtime \<Rightarrow> authLimiter \<Rightarrow> string" where
  "oldestIP now l =
     (let unsafe = map (ipFromKey \<circ> fst) (filter (\<lambda>p. busyState now (snd p)) (byKey l))
      in fst (pickOldest (\<lambda>p. fst p \<in> set unsafe \<or> busyState now (snd p)) (byIP l)
                ('''', zero_time)))"

definition evictOldestIP :: "gtime \<Rightarrow> authLimiter \<Rightarrow> bool \<times> authLimiter" where
  "evictOldestIP now l =
     (let ip = oldestIP now l
      in if ip = '''' then (False, l)
         else (True, l\<lparr>byKey := filter (\<lambda>p. ipFromKey (fst p) \<noteq> ip) (byKey l),
                       byIP := mdel ip (byIP l)\<rparr>))"

subsection \<open>Reserving\<close>

text \<open>The admission check and the publication of the reservation: everything of \<open>reserve\<close>
  after room has been made. \<open>ipSt\<close>, \<open>keySt\<close> and \<open>userSt\<close> are the local pointers, by the
  contents of what they point to (\<open>None\<close> for nil).\<close>

definition bump :: "gtime \<Rightarrow> attemptState \<Rightarrow> attemptState" where
  "bump now st = st\<lparr>inFlight := inFlight st + 1, seen := now\<rparr>"

definition publish :: "string \<Rightarrow> attemptState option \<Rightarrow> gtime \<Rightarrow> (string, attemptState) gmap \<Rightarrow>
    (string, attemptState) gmap" where
  "publish k st now m =
     (case st of None \<Rightarrow> mput k (bump now newAttemptState) m
               | Some s \<Rightarrow> mput_if k (bump now s) m)"

definition reserveAdmit :: "string \<Rightarrow> string \<Rightarrow> string \<Rightarrow> attemptState option \<Rightarrow> attemptState option \<Rightarrow>
    attemptState option \<Rightarrow> gtime \<Rightarrow> authLimiter \<Rightarrow> bool \<times> authLimiter" where
  "reserveAdmit ipKey key userKey ipSt keySt userSt now l =
     (if userSt = None \<and> int (length (byUser l)) \<ge> maxUser l then (False, l)
      else if \<not> canReserve ipSt now \<or> \<not> canReserve keySt now \<or>
              (case userSt of None \<Rightarrow> False | Some u \<Rightarrow> inFlight u \<ge> freeAttempts)
      then (False, l)
      else (True, l\<lparr>byIP := publish ipKey ipSt now (byIP l),
                    byKey := publish key keySt now (byKey l),
                    byUser := publish userKey userSt now (byUser l)\<rparr>))"

text \<open>The replacement of an identity at capacity. The address structure the caller points to
  is changed by the eviction when the victim is an identity of the same address.\<close>

definition reserveEvicting :: "string \<Rightarrow> string \<Rightarrow> string \<Rightarrow> attemptState option \<Rightarrow> attemptState option \<Rightarrow>
    attemptState option \<Rightarrow> gtime \<Rightarrow> authLimiter \<Rightarrow> bool \<times> authLimiter" where
  "reserveEvicting ipKey key userKey ipSt keySt userSt now l =
     (if keySt = None \<and> int (length (byKey l)) \<ge> maxKey l
      then
        (let (ok, l') = evictOldestKey now l;
             victim = oldestKey now l;
             ipSt' = (if ok \<and> ipFromKey victim = ipKey
                      then map_option (subtractIdentity (the (mget (byKey l) victim)) now) ipSt
                      else ipSt)
         in if \<not> ok then (False, l')
            else reserveAdmit ipKey key userKey ipSt' keySt userSt now l')
      else reserveAdmit ipKey key userKey ipSt keySt userSt now l)"

definition roomForIP :: "attemptState option \<Rightarrow> gtime \<Rightarrow> authLimiter \<Rightarrow> bool \<times> authLimiter" where
  "roomForIP ipSt now l =
     (if ipSt = None \<and> int (length (byIP l)) \<ge> maxIP l then evictOldestIP now l else (True, l))"

text \<open>The branch of \<open>reserve\<close> for a map at capacity. \<open>userSt\<close> was read before the sweep and is
  not read again.\<close>

definition reserveFull :: "string \<Rightarrow> string \<Rightarrow> string \<Rightarrow> attemptState option \<Rightarrow> gtime \<Rightarrow>
    authLimiter \<Rightarrow> bool \<times> authLimiter" where
  "reserveFull ipKey key userKey userSt now l =
     (if time_sub now (lastCapSweep l) < capSweepInterval then (False, l)
      else
        (let l2 = forcePrune now (l\<lparr>lastCapSweep := now\<rparr>);
             ipSt = mget (byIP l2) ipKey;
             keySt = mget (byKey l2) key;
             (ok, l3) = roomForIP ipSt now l2
         in if \<not> ok then (False, l3)
            else reserveEvicting ipKey key userKey ipSt keySt userSt now l3))"

definition atCapacity :: "string \<Rightarrow> string \<Rightarrow> authLimiter \<Rightarrow> bool" where
  "atCapacity ipKey key l \<longleftrightarrow>
     (mget (byIP l) ipKey = None \<and> int (length (byIP l)) \<ge> maxIP l) \<or>
     (mget (byKey l) key = None \<and> int (length (byKey l)) \<ge> maxKey l)"

definition reserve :: "string \<Rightarrow> string \<Rightarrow> gtime \<Rightarrow> authLimiter \<Rightarrow> bool \<times> authLimiter" where
  "reserve ip username now l0 =
     (let l1 = maybePeriodicPrune now l0;
          (ipKey, key, userKey) = canonicalLimiterKey ip username;
          userSt = mget (byUser l1) userKey
      in if atCapacity ipKey key l1 then reserveFull ipKey key userKey userSt now l1
         else reserveAdmit ipKey key userKey (mget (byIP l1) ipKey) (mget (byKey l1) key)
                userSt now l1)"

subsection \<open>Terminal operations\<close>

definition lockout :: "int \<Rightarrow> duration" where
  "lockout n = min (wrap64 (push_bit (nat (min (n - freeAttempts) 10)) lockoutBase)) lockoutMax"

definition failState :: "gtime \<Rightarrow> attemptState \<Rightarrow> attemptState" where
  "failState now st =
     (let st1 = st\<lparr>inFlight := (if inFlight st > 0 then inFlight st - 1 else inFlight st),
                   failures := failures st + 1, seen := now\<rparr>
      in if failures st1 < freeAttempts then st1
         else st1\<lparr>until := now + lockout (failures st1)\<rparr>)"

definition convertFail :: "(string, attemptState) gmap \<Rightarrow> string \<Rightarrow> gtime \<Rightarrow>
    (string, attemptState) gmap" where
  "convertFail m key now =
     (case mget m key of None \<Rightarrow> m | Some st \<Rightarrow> mput key (failState now st) m)"

definition releaseState :: "gtime \<Rightarrow> attemptState \<Rightarrow> attemptState" where
  "releaseState now st =
     st\<lparr>inFlight := (if inFlight st > 0 then inFlight st - 1 else inFlight st), seen := now\<rparr>"

definition releaseInFlight :: "(string, attemptState) gmap \<Rightarrow> string \<Rightarrow> gtime \<Rightarrow>
    (string, attemptState) gmap" where
  "releaseInFlight m key now =
     (case mget m key of None \<Rightarrow> m | Some st \<Rightarrow> mput key (releaseState now st) m)"

definition releaseUser :: "string \<Rightarrow> gtime \<Rightarrow> authLimiter \<Rightarrow> authLimiter" where
  "releaseUser userKey now l =
     (case mget (byUser l) userKey of
        None \<Rightarrow> l
      | Some st \<Rightarrow>
          (let st' = releaseState now st
           in l\<lparr>byUser := (if inFlight st' = 0 then mdel userKey (byUser l)
                            else mput userKey st' (byUser l))\<rparr>))"

definition dropIfEmpty :: "string \<Rightarrow> gtime \<Rightarrow> (string, attemptState) gmap \<Rightarrow>
    (string, attemptState) gmap" where
  "dropIfEmpty k now m =
     (case mget m k of None \<Rightarrow> m | Some st \<Rightarrow> if emptyState st now then mdel k m else m)"

definition dropEmpty :: "string \<Rightarrow> string \<Rightarrow> gtime \<Rightarrow> authLimiter \<Rightarrow> authLimiter" where
  "dropEmpty key ipKey now l =
     l\<lparr>byKey := dropIfEmpty key now (byKey l), byIP := dropIfEmpty ipKey now (byIP l)\<rparr>"

text \<open>Whether the identity has a reservation to terminate; the guard of all three.\<close>

definition hasReservation :: "string \<Rightarrow> authLimiter \<Rightarrow> bool" where
  "hasReservation key l \<longleftrightarrow> (case mget (byKey l) key of None \<Rightarrow> False | Some st \<Rightarrow> inFlight st \<noteq> 0)"

definition failed :: "string \<Rightarrow> string \<Rightarrow> gtime \<Rightarrow> authLimiter \<Rightarrow> authLimiter" where
  "failed ip username now l =
     (let (ipKey, key, userKey) = canonicalLimiterKey ip username
      in if \<not> hasReservation key l then l
         else releaseUser userKey now
                (l\<lparr>byKey := convertFail (byKey l) key now,
                   byIP := convertFail (byIP l) ipKey now\<rparr>))"

definition canceled :: "string \<Rightarrow> string \<Rightarrow> gtime \<Rightarrow> authLimiter \<Rightarrow> authLimiter" where
  "canceled ip username now l =
     (let (ipKey, key, userKey) = canonicalLimiterKey ip username
      in if \<not> hasReservation key l then l
         else dropEmpty key ipKey now
                (releaseUser userKey now
                  (l\<lparr>byKey := releaseInFlight (byKey l) key now,
                     byIP := releaseInFlight (byIP l) ipKey now\<rparr>)))"

definition clearState :: "gtime \<Rightarrow> attemptState \<Rightarrow> attemptState" where
  "clearState now st =
     st\<lparr>inFlight := (if inFlight st > 0 then inFlight st - 1 else inFlight st),
        failures := 0, until := zero_time, seen := now\<rparr>"

definition creditIP :: "int \<Rightarrow> gtime \<Rightarrow> attemptState \<Rightarrow> attemptState" where
  "creditIP cleared now ist =
     (let f = (if cleared > 0
               then (if failures ist \<ge> cleared then failures ist - cleared else 0)
               else failures ist)
      in ist\<lparr>inFlight := (if inFlight ist > 0 then inFlight ist - 1 else inFlight ist),
             failures := f,
             until := (if f < freeAttempts then zero_time else until ist), seen := now\<rparr>)"

definition succeeded :: "string \<Rightarrow> string \<Rightarrow> gtime \<Rightarrow> authLimiter \<Rightarrow> authLimiter" where
  "succeeded ip username now l =
     (let (ipKey, key, userKey) = canonicalLimiterKey ip username
      in case mget (byKey l) key of
           None \<Rightarrow> l
         | Some st \<Rightarrow>
             if inFlight st = 0 then l
             else
               (let keys = dropIfEmpty key now (mput key (clearState now st) (byKey l));
                    ips = (case mget (byIP l) ipKey of
                             None \<Rightarrow> byIP l
                           | Some ist \<Rightarrow>
                               dropIfEmpty ipKey now
                                 (mput ipKey (creditIP (failures st) now ist) (byIP l)))
                in releaseUser userKey now (l\<lparr>byKey := keys, byIP := ips\<rparr>)))"

subsection \<open>The consistency check\<close>

definition failSum :: "string \<Rightarrow> (string, attemptState) gmap \<Rightarrow> int" where
  "failSum ip m = msum (\<lambda>p. if ipFromKey (fst p) = ip then failures (snd p) else 0) m"

definition flightSum :: "string \<Rightarrow> (string, attemptState) gmap \<Rightarrow> int" where
  "flightSum ip m = msum (\<lambda>p. if ipFromKey (fst p) = ip then inFlight (snd p) else 0) m"

text \<open>\<open>assertAggregatesLocked\<close>: true where the method returns nil.\<close>

definition assertAggregatesLocked :: "authLimiter \<Rightarrow> bool" where
  "assertAggregatesLocked l \<longleftrightarrow>
     (\<forall>p \<in> set (byKey l). \<not> (failures (snd p) < 0 \<or> inFlight (snd p) < 0)) \<and>
     (\<forall>p \<in> set (byIP l). \<not> (failures (snd p) < 0 \<or> inFlight (snd p) < 0) \<and>
        failures (snd p) = failSum (fst p) (byKey l) \<and>
        inFlight (snd p) = flightSum (fst p) (byKey l)) \<and>
     (\<forall>k \<in> set (mkeys (byKey l)). ipFromKey k \<in> set (mkeys (byIP l)) \<or>
        (failSum (ipFromKey k) (byKey l) = 0 \<and> flightSum (ipFromKey k) (byKey l) = 0)) \<and>
     int (length (byIP l)) \<le> maxIP l \<and>
     int (length (byKey l)) \<le> maxKey l \<and>
     int (length (byUser l)) \<le> maxUser l \<and>
     (\<forall>p \<in> set (byUser l). failures (snd p) = 0 \<and> 0 < inFlight (snd p) \<and>
        inFlight (snd p) \<le> freeAttempts)"

end
