(* ===== verification/AuthLimiter_Inv.thy ===== *)
theory AuthLimiter_Inv
  imports AuthLimiter
begin

text \<open>
  The invariant of the authentication limiter: address totals are the sums over the
  identities of the address, an address is at least as recently seen and at least as long
  locked out as each of its identities. Every operation keeps it when the clock does not
  run backwards, except the eviction inside \<open>reserve\<close> of an identity of the very address
  that is reserving.
\<close>

definition keyOk :: "gtime \<Rightarrow> (string, attemptState) gmap \<Rightarrow> string \<Rightarrow> attemptState \<Rightarrow> bool" where
  "keyOk T ips k st \<longleftrightarrow>
     0 \<le> failures st \<and> 0 \<le> inFlight st \<and> 0 < failures st + inFlight st \<and>
     (failures st < freeAttempts \<longrightarrow> until st = zero_time) \<and>
     (freeAttempts \<le> failures st \<longrightarrow> until st \<le> T + lockout (failures st)) \<and>
     (\<exists>ist. mget ips (ipFromKey k) = Some ist \<and> seen st \<le> seen ist \<and> until st \<le> until ist)"

definition ipOk :: "gtime \<Rightarrow> (string, attemptState) gmap \<Rightarrow> string \<Rightarrow> attemptState \<Rightarrow> bool" where
  "ipOk T keys ip ist \<longleftrightarrow>
     failures ist = failSum ip keys \<and> inFlight ist = flightSum ip keys \<and>
     seen ist \<le> T \<and> zero_time \<le> until ist"

definition userOk :: "attemptState \<Rightarrow> bool" where
  "userOk st \<longleftrightarrow> failures st = 0 \<and> 0 < inFlight st \<and> inFlight st \<le> freeAttempts"

definition mapsOk :: "gtime \<Rightarrow> (string, attemptState) gmap \<Rightarrow> (string, attemptState) gmap \<Rightarrow> bool" where
  "mapsOk T ips keys \<longleftrightarrow>
     zero_time \<le> T \<and> distinct (mkeys ips) \<and> distinct (mkeys keys) \<and>
     (\<forall>k st. mget keys k = Some st \<longrightarrow> keyOk T ips k st) \<and>
     (\<forall>ip ist. mget ips ip = Some ist \<longrightarrow> ipOk T keys ip ist)"

definition usersOk :: "(string, attemptState) gmap \<Rightarrow> bool" where
  "usersOk us \<longleftrightarrow> distinct (mkeys us) \<and> (\<forall>u st. mget us u = Some st \<longrightarrow> userOk st)"

definition auth_inv :: "gtime \<Rightarrow> authLimiter \<Rightarrow> bool" where
  "auth_inv T l \<longleftrightarrow> mapsOk T (byIP l) (byKey l) \<and> usersOk (byUser l) \<and>
     int (length (byIP l)) \<le> maxIP l \<and> int (length (byKey l)) \<le> maxKey l \<and>
     int (length (byUser l)) \<le> maxUser l"

subsection \<open>Lockouts\<close>

lemma lockout_in64: "0 < p \<Longrightarrow> p \<le> 1024 \<Longrightarrow> in64 (2000000000 * p)"
  unfolding in64_def min_int64_def max_int64_def by linarith

lemma lockout_eq:
  "lockout n = min (2000000000 * 2 ^ nat (min (n - freeAttempts) 10)) lockoutMax"
proof -
  have "(2::int) ^ nat (min (n - freeAttempts) 10) \<le> 2 ^ 10"
    by (intro power_increasing) auto
  then have "in64 (2000000000 * 2 ^ nat (min (n - freeAttempts) 10))"
    by (intro lockout_in64) simp_all
  then show ?thesis
    by (simp add: lockout_def lockoutBase_def second_def push_bit_eq_mult mult.commute)
qed

lemma lockout_bounds: "0 < lockout n \<and> lockout n \<le> lockoutMax"
  by (simp add: lockout_eq lockoutMax_def minute_def second_def)

lemma lockout_mono: "m \<le> n \<Longrightarrow> lockout m \<le> lockout n"
proof -
  assume "m \<le> n"
  then have "nat (min (m - freeAttempts) 10) \<le> nat (min (n - freeAttempts) 10)"
    by (auto simp: min_def)
  then have "(2::int) ^ nat (min (m - freeAttempts) 10) \<le> 2 ^ nat (min (n - freeAttempts) 10)"
    by (intro power_increasing) auto
  then show ?thesis
    unfolding lockout_eq by (intro min.mono) simp_all
qed

subsection \<open>Sums over the identities of an address\<close>

lemma failSum_mput:
  "distinct (mkeys m) \<Longrightarrow> failSum ip (mput k st m) =
     failSum ip m + (if ipFromKey k = ip
       then failures st - (case mget m k of None \<Rightarrow> 0 | Some s \<Rightarrow> failures s) else 0)"
  by (auto simp: failSum_def msum_mput mold_def split: option.splits)

lemma flightSum_mput:
  "distinct (mkeys m) \<Longrightarrow> flightSum ip (mput k st m) =
     flightSum ip m + (if ipFromKey k = ip
       then inFlight st - (case mget m k of None \<Rightarrow> 0 | Some s \<Rightarrow> inFlight s) else 0)"
  by (auto simp: flightSum_def msum_mput mold_def split: option.splits)

lemma failSum_mdel:
  "distinct (mkeys m) \<Longrightarrow> failSum ip (mdel k m) =
     failSum ip m - (if ipFromKey k = ip
       then (case mget m k of None \<Rightarrow> 0 | Some s \<Rightarrow> failures s) else 0)"
  by (auto simp: failSum_def msum_mdel mold_def split: option.splits)

lemma flightSum_mdel:
  "distinct (mkeys m) \<Longrightarrow> flightSum ip (mdel k m) =
     flightSum ip m - (if ipFromKey k = ip
       then (case mget m k of None \<Rightarrow> 0 | Some s \<Rightarrow> inFlight s) else 0)"
  by (auto simp: flightSum_def msum_mdel mold_def split: option.splits)

lemmas sum_upd = failSum_mput flightSum_mput failSum_mdel flightSum_mdel

lemma keySum_facts:
  assumes "mapsOk T ips keys" "mget keys k = Some st"
  shows "failures st \<le> failSum (ipFromKey k) keys" "inFlight st \<le> flightSum (ipFromKey k) keys"
proof -
  have pos: "0 \<le> failures (snd p) \<and> 0 \<le> inFlight (snd p)" if "p \<in> set keys" for p
  proof -
    have "mget keys (fst p) = Some (snd p)"
      using assms(1) that by (auto simp: mapsOk_def in_set_mgetD)
    with assms(1) show ?thesis by (auto simp: mapsOk_def keyOk_def)
  qed
  have mem: "(k, st) \<in> set keys" using assms(2) by (rule map_of_SomeD)
  show "failures st \<le> failSum (ipFromKey k) keys"
    using msum_member_le [OF _ mem, of "\<lambda>p. if ipFromKey (fst p) = ipFromKey k then failures (snd p) else 0"] pos
    by (auto simp: failSum_def)
  show "inFlight st \<le> flightSum (ipFromKey k) keys"
    using msum_member_le [OF _ mem, of "\<lambda>p. if ipFromKey (fst p) = ipFromKey k then inFlight (snd p) else 0"] pos
    by (auto simp: flightSum_def)
qed

lemma sums_absent:
  assumes "\<And>k st. mget keys k = Some st \<Longrightarrow> ipFromKey k \<noteq> ip" "distinct (mkeys keys)"
  shows "failSum ip keys = 0" "flightSum ip keys = 0"
proof -
  have "ipFromKey (fst p) \<noteq> ip" if "p \<in> set keys" for p
    using assms that in_set_mgetD by blast
  then show "failSum ip keys = 0" "flightSum ip keys = 0"
    unfolding failSum_def flightSum_def by (auto intro: msum_zero)
qed

text \<open>An identity of an address, with the facts the invariant gives about both.\<close>

lemma mapsOk_keyE:
  assumes "mapsOk T ips keys" "mget keys k = Some st"
  obtains ist where "mget ips (ipFromKey k) = Some ist"
    "0 \<le> failures st" "0 \<le> inFlight st" "0 < failures st + inFlight st"
    "failures st \<le> failures ist" "inFlight st \<le> inFlight ist"
    "seen st \<le> seen ist" "until st \<le> until ist" "seen ist \<le> T" "zero_time \<le> until ist"
    "failures ist = failSum (ipFromKey k) keys" "inFlight ist = flightSum (ipFromKey k) keys"
    "failures st < freeAttempts \<longrightarrow> until st = zero_time"
proof -
  from assms have "keyOk T ips k st" by (simp add: mapsOk_def)
  then obtain ist where ist: "mget ips (ipFromKey k) = Some ist" and *:
    "0 \<le> failures st" "0 \<le> inFlight st" "0 < failures st + inFlight st"
    "seen st \<le> seen ist" "until st \<le> until ist"
    "failures st < freeAttempts \<longrightarrow> until st = zero_time"
    by (auto simp: keyOk_def)
  from assms ist have "ipOk T keys (ipFromKey k) ist" by (simp add: mapsOk_def)
  with keySum_facts [OF assms] show thesis
    using that [OF ist *(1-3)] * by (simp add: ipOk_def)
qed

text \<open>Two identities of one address fit together into its totals.\<close>

lemma mapsOk_two:
  assumes inv: "mapsOk T ips keys" and k: "mget keys k = Some st" and j: "mget keys j = Some sj"
    and ne: "j \<noteq> k" and ip: "ipFromKey j = ipFromKey k"
  shows "failures st + failures sj \<le> failSum (ipFromKey k) keys"
    "inFlight st + inFlight sj \<le> flightSum (ipFromKey k) keys"
proof -
  have d: "distinct (mkeys keys)" using inv by (simp add: mapsOk_def)
  let ?m = "mdel k keys"
  have pos: "0 \<le> failures (snd p) \<and> 0 \<le> inFlight (snd p)" if "p \<in> set ?m" for p
  proof -
    from that have "p \<in> set keys" by (simp add: set_mdel)
    then have "mget keys (fst p) = Some (snd p)" using d by (rule in_set_mgetD [rotated])
    with inv show ?thesis by (auto simp: mapsOk_def keyOk_def)
  qed
  have mem: "(j, sj) \<in> set ?m" using j ne by (auto simp: set_mdel dest: map_of_SomeD)
  have "failures sj \<le> failSum (ipFromKey k) ?m" "inFlight sj \<le> flightSum (ipFromKey k) ?m"
    unfolding failSum_def flightSum_def
    using msum_member_le [OF _ mem, of "\<lambda>p. if ipFromKey (fst p) = ipFromKey k then failures (snd p) else 0"]
      msum_member_le [OF _ mem, of "\<lambda>p. if ipFromKey (fst p) = ipFromKey k then inFlight (snd p) else 0"]
      pos ip by auto
  then show "failures st + failures sj \<le> failSum (ipFromKey k) keys"
    "inFlight st + inFlight sj \<le> flightSum (ipFromKey k) keys"
    using d k by (simp_all add: sum_upd)
qed

text \<open>Replacing or removing one identity and its address: the three ways the terminal
  operations change the maps come down to these conditions.\<close>

lemma mapsOk_update:
  assumes inv: "mapsOk T ips keys" and T: "T \<le> T'"
    and d: "distinct (mkeys ips')" "distinct (mkeys keys')"
    and keys': "\<And>j. j \<noteq> k \<Longrightarrow> mget keys' j = mget keys j"
    and ips': "\<And>a. a \<noteq> ipFromKey k \<Longrightarrow> mget ips' a = mget ips a"
    and sums: "\<And>a. a \<noteq> ipFromKey k \<Longrightarrow> failSum a keys' = failSum a keys \<and> flightSum a keys' = flightSum a keys"
    and key: "\<And>st. mget keys' k = Some st \<Longrightarrow> keyOk T' ips' k st"
    and ip: "\<And>ist. mget ips' (ipFromKey k) = Some ist \<Longrightarrow> ipOk T' keys' (ipFromKey k) ist"
    and other: "\<And>j st ist. j \<noteq> k \<Longrightarrow> mget keys j = Some st \<Longrightarrow> ipFromKey j = ipFromKey k \<Longrightarrow>
        mget ips (ipFromKey k) = Some ist \<Longrightarrow>
        \<exists>ist'. mget ips' (ipFromKey k) = Some ist' \<and> seen st \<le> seen ist' \<and> until st \<le> until ist'"
  shows "mapsOk T' ips' keys'"
  unfolding mapsOk_def
proof (intro conjI allI impI)
  show "zero_time \<le> T'" using inv T by (auto simp: mapsOk_def)
  show "distinct (mkeys ips')" "distinct (mkeys keys')" by fact+
  fix j st assume j: "mget keys' j = Some st"
  show "keyOk T' ips' j st"
  proof (cases "j = k")
    case True with j key show ?thesis by simp
  next
    case False
    with j keys' have old: "mget keys j = Some st" by simp
    with inv have ok: "keyOk T ips j st" by (simp add: mapsOk_def)
    then obtain ist where ist: "mget ips (ipFromKey j) = Some ist" "seen st \<le> seen ist" "until st \<le> until ist"
      by (auto simp: keyOk_def)
    have "\<exists>ist'. mget ips' (ipFromKey j) = Some ist' \<and> seen st \<le> seen ist' \<and> until st \<le> until ist'"
      using other [OF False old] ist ips' by (cases "ipFromKey j = ipFromKey k") auto
    with ok T show ?thesis by (auto simp: keyOk_def)
  qed
next
  fix a ist assume a: "mget ips' a = Some ist"
  show "ipOk T' keys' a ist"
  proof (cases "a = ipFromKey k")
    case True with a ip show ?thesis by simp
  next
    case False
    with a ips' have "mget ips a = Some ist" by simp
    with inv have "ipOk T keys a ist" by (simp add: mapsOk_def)
    with False sums [of a] T show ?thesis by (auto simp: ipOk_def)
  qed
qed

subsection \<open>Terminal operations\<close>

lemma failState_simps [simp]:
  "failures (failState now st) = failures st + 1"
  "inFlight (failState now st) = (if inFlight st > 0 then inFlight st - 1 else inFlight st)"
  "seen (failState now st) = now"
  "until (failState now st) =
     (if failures st + 1 < freeAttempts then until st else now + lockout (failures st + 1))"
  by (simp_all add: failState_def Let_def)

lemma releaseState_simps [simp]:
  "failures (releaseState now st) = failures st"
  "inFlight (releaseState now st) = (if inFlight st > 0 then inFlight st - 1 else inFlight st)"
  "seen (releaseState now st) = now"
  "until (releaseState now st) = until st"
  by (simp_all add: releaseState_def)

lemma clearState_simps [simp]:
  "failures (clearState now st) = 0"
  "inFlight (clearState now st) = (if inFlight st > 0 then inFlight st - 1 else inFlight st)"
  "seen (clearState now st) = now"
  "until (clearState now st) = zero_time"
  by (simp_all add: clearState_def)

lemma creditIP_simps:
  assumes "0 \<le> c" "c \<le> failures ist"
  shows "failures (creditIP c now ist) = failures ist - c"
    "inFlight (creditIP c now ist) = (if inFlight ist > 0 then inFlight ist - 1 else inFlight ist)"
    "seen (creditIP c now ist) = now"
    "until (creditIP c now ist) = (if failures ist - c < freeAttempts then zero_time else until ist)"
  using assms by (auto simp: creditIP_def Let_def)

lemma subtractIdentity_simps:
  assumes "0 \<le> failures st" "failures st \<le> failures ist" "0 \<le> inFlight st" "inFlight st \<le> inFlight ist"
  shows "failures (subtractIdentity st now ist) = failures ist - failures st"
    "inFlight (subtractIdentity st now ist) = inFlight ist - inFlight st"
    "seen (subtractIdentity st now ist) = now"
    "until (subtractIdentity st now ist) =
       (if failures ist - failures st < freeAttempts then zero_time else until ist)"
  using assms by (auto simp: subtractIdentity_def Let_def)

lemma usersOk_releaseUser:
  assumes ok: "usersOk (byUser l)"
  shows "usersOk (byUser (releaseUser u now l))"
proof (cases "mget (byUser l) u")
  case None
  with ok show ?thesis by (simp add: releaseUser_def)
next
  case (Some st)
  with ok have "0 < inFlight st" "inFlight st \<le> freeAttempts" "failures st = 0"
    by (auto simp: usersOk_def userOk_def)
  then have "inFlight st - 1 \<noteq> 0 \<Longrightarrow> userOk (releaseState now st)"
    by (simp add: userOk_def)
  with ok Some \<open>0 < inFlight st\<close> show ?thesis
    by (auto simp: releaseUser_def usersOk_def Let_def map_simps)
qed

lemma releaseUser_frame [simp]:
  "byIP (releaseUser u now l) = byIP l" "byKey (releaseUser u now l) = byKey l"
  "maxIP (releaseUser u now l) = maxIP l" "maxKey (releaseUser u now l) = maxKey l"
  "maxUser (releaseUser u now l) = maxUser l"
  by (simp_all add: releaseUser_def Let_def split: option.splits)

lemma byUser_releaseUser_cong:
  "byUser l = byUser l' \<Longrightarrow> byUser (releaseUser v now l) = byUser (releaseUser v now l')"
  by (simp add: releaseUser_def Let_def split: option.splits)

lemma length_releaseUser: "length (byUser (releaseUser u now l)) \<le> length (byUser l)"
  by (auto simp: releaseUser_def Let_def length_mdel_le split: option.splits)

lemma ipFromKey_canonical:
  "NUL \<notin> set ip \<Longrightarrow> canonicalLimiterKey ip u = (a, k, v) \<Longrightarrow> a = ip \<and> ipFromKey k = ip"
  by (auto simp: canonicalLimiterKey_def Let_def ipFromKey_def fst_cut_append)

text \<open>After a failure: the identity and its address carry one more failure, one reservation
  less.\<close>

lemma mapsOk_convertFail:
  assumes inv: "mapsOk T ips keys" and T: "T \<le> now"
    and k: "mget keys k = Some st" and fl: "inFlight st \<noteq> 0" and ip: "ip = ipFromKey k"
  shows "mapsOk now (convertFail ips ip now) (convertFail keys k now)"
proof -
  from inv k obtain ist where ist: "mget ips (ipFromKey k) = Some ist" and f:
    "0 \<le> failures st" "0 \<le> inFlight st" "failures st \<le> failures ist" "inFlight st \<le> inFlight ist"
    "seen ist \<le> T" "zero_time \<le> until ist"
    "failures ist = failSum (ipFromKey k) keys" "inFlight ist = flightSum (ipFromKey k) keys"
    by (rule mapsOk_keyE)
  from inv have d: "distinct (mkeys ips)" "distinct (mkeys keys)" and z: "zero_time \<le> T"
    by (simp_all add: mapsOk_def)
  from inv k have ok: "keyOk T ips k st" by (simp add: mapsOk_def)
  have eqs: "convertFail ips ip now = mput ip (failState now ist) ips"
    "convertFail keys k now = mput k (failState now st) keys"
    using ist k ip by (simp_all add: convertFail_def)
  have lock: "lockout (failures st + 1) \<le> lockout (failures ist + 1)"
    using f by (intro lockout_mono) simp
  show ?thesis
    unfolding eqs
  proof (rule mapsOk_update [OF inv T, where k = k])
    fix st' assume "mget (mput k (failState now st) keys) k = Some st'"
    then have st': "st' = failState now st" by (simp add: map_simps)
    show "keyOk now (mput ip (failState now ist) ips) k st'"
      using ok f lock z T lockout_bounds [of "failures ist + 1"]
      unfolding st' by (auto simp: keyOk_def map_simps ip freeAttempts_def)
  next
    fix ist' assume "mget (mput ip (failState now ist) ips) (ipFromKey k) = Some ist'"
    then have ist': "ist' = failState now ist" by (simp add: map_simps ip)
    show "ipOk now (mput k (failState now st) keys) (ipFromKey k) ist'"
      using f fl k d z T lockout_bounds [of "failures ist + 1"]
      unfolding ist' by (auto simp: ipOk_def sum_upd)
  next
    fix j stj istj
    assume j: "j \<noteq> k" "mget keys j = Some stj" "ipFromKey j = ipFromKey k"
    from inv j(2) obtain i where i: "mget ips (ipFromKey j) = Some i" "seen stj \<le> seen i"
      "until stj \<le> until i" "failures stj \<le> failures i"
      by (rule mapsOk_keyE)
    from inv j(2) have okj: "keyOk T ips j stj" by (simp add: mapsOk_def)
    have "lockout (failures stj) \<le> lockout (failures ist + 1)"
      using i j ist by (intro lockout_mono) simp
    then show "\<exists>ist'. mget (mput ip (failState now ist) ips) (ipFromKey k) = Some ist' \<and>
        seen stj \<le> seen ist' \<and> until stj \<le> until ist'"
      using i j ist f T okj z lockout_bounds [of "failures ist + 1"]
      by (auto simp: map_simps ip keyOk_def freeAttempts_def)
  qed (use d ip in \<open>auto simp: map_simps sum_upd\<close>)
qed

text \<open>A released reservation, and a success: the identity keeps \<open>st'\<close> unless that is empty,
  the address loses \<open>failures st - failures st'\<close> failures and one reservation.\<close>

lemma mapsOk_replace:
  assumes inv: "mapsOk T ips keys" and T: "T \<le> now"
    and k: "mget keys k = Some st" and fl: "inFlight st \<noteq> 0" and ip: "ip = ipFromKey k"
    and ist: "mget ips ip = Some ist"
    and st': "0 \<le> failures st'" "failures st' \<le> failures st" "inFlight st' = inFlight st - 1"
      "seen st' = now" "until st' = (if failures st' = failures st then until st else zero_time)"
      "failures st' = failures st \<or> failures st' = 0"
    and ist': "failures ist' = failures ist - (failures st - failures st')"
      "inFlight ist' = inFlight ist - 1" "seen ist' = now"
      "until ist' = until ist \<or> (until ist' = zero_time \<and> failures ist' < freeAttempts)"
  shows "mapsOk now (dropIfEmpty ip now (mput ip ist' ips)) (dropIfEmpty k now (mput k st' keys))"
proof -
  let ?ips = "dropIfEmpty ip now (mput ip ist' ips)" and ?keys = "dropIfEmpty k now (mput k st' keys)"
  from inv k obtain i where i: "mget ips (ipFromKey k) = Some i" and f:
    "0 \<le> failures st" "0 \<le> inFlight st" "failures st \<le> failures i" "inFlight st \<le> inFlight i"
    "seen i \<le> T" "zero_time \<le> until i" "until st \<le> until i"
    "failures i = failSum (ipFromKey k) keys" "inFlight i = flightSum (ipFromKey k) keys"
    by (rule mapsOk_keyE)
  from i ist ip have [simp]: "i = ist" by simp
  from inv have d: "distinct (mkeys ips)" "distinct (mkeys keys)" and z: "zero_time \<le> T"
    by (simp_all add: mapsOk_def)
  from inv k have ok: "keyOk T ips k st" by (simp add: mapsOk_def)
  have sums: "failSum (ipFromKey k) ?keys = failures ist'" "flightSum (ipFromKey k) ?keys = inFlight ist'"
    using k d f st' ist' by (auto simp: dropIfEmpty_def map_simps sum_upd emptyState_def)
  have ips_eq: "mget ?ips ip = (if emptyState ist' now then None else Some ist')"
    by (simp add: dropIfEmpty_def map_simps)
  have keys_eq: "mget ?keys k = (if emptyState st' now then None else Some st')"
    by (simp add: dropIfEmpty_def map_simps)
  have cover: "mget ?ips ip = Some ist'" if "0 < failures ist' \<or> 0 < inFlight ist'"
    using that ips_eq by (auto simp: emptyState_def)
  show ?thesis
  proof (rule mapsOk_update [OF inv T, where k = k])
    fix s assume "mget ?keys k = Some s"
    then have s: "s = st'" and ne: "\<not> emptyState st' now" using keys_eq by (auto split: if_splits)
    have lt: "until st' \<le> now" if "failures st' = 0" "inFlight st' = 0"
      using that ok st' z T f by (auto simp: keyOk_def freeAttempts_def split: if_splits)
    have "0 \<le> inFlight st'" using f fl st' by simp
    moreover have "\<not> (failures st' = 0 \<and> inFlight st' = 0)"
      using ne lt by (auto simp: emptyState_def)
    ultimately have pos: "0 < failures st' + inFlight st'" using st'(1) by linarith
    then have "0 < failures ist' \<or> 0 < inFlight ist'" using f st' ist' fl by auto
    then have "mget ?ips (ipFromKey k) = Some ist'" using cover ip by simp
    moreover have "until st' \<le> until ist'"
      using ok st' ist' f by (auto simp: keyOk_def freeAttempts_def split: if_splits)
    ultimately show "keyOk now ?ips k s"
      using ok st' ist' f fl pos T unfolding s by (auto simp: keyOk_def freeAttempts_def split: if_splits)
  next
    fix s assume "mget ?ips (ipFromKey k) = Some s"
    then have "s = ist'" using ips_eq ip by (auto split: if_splits)
    then show "ipOk now ?keys (ipFromKey k) s"
      using sums ist' f z T by (auto simp: ipOk_def)
  next
    fix j stj istj
    assume j: "j \<noteq> k" "mget keys j = Some stj" "ipFromKey j = ipFromKey k"
    from inv j(2) obtain i where ij: "mget ips (ipFromKey j) = Some i" "seen stj \<le> seen i"
      "until stj \<le> until i" "0 < failures stj + inFlight stj" "0 \<le> failures stj" "0 \<le> inFlight stj"
      by (rule mapsOk_keyE)
    from inv j(2) have okj: "keyOk T ips j stj" by (simp add: mapsOk_def)
    have split: "failures stj \<le> failures ist'" "inFlight stj \<le> inFlight ist'"
      using mapsOk_two [OF inv k j(2) j(1) j(3)] f st' ist' fl by auto
    then have "0 < failures ist' \<or> 0 < inFlight ist'" using ij by linarith
    then have "mget ?ips (ipFromKey k) = Some ist'" using cover ip by simp
    with ij j split f ist i okj ist' T show "\<exists>i'. mget ?ips (ipFromKey k) = Some i' \<and>
        seen stj \<le> seen i' \<and> until stj \<le> until i'"
      by (auto simp: keyOk_def)
  qed (use d ip in \<open>auto simp: dropIfEmpty_def map_simps sum_upd split: option.splits\<close>)
qed

lemma auth_invI:
  assumes "auth_inv T l" "mapsOk T' (byIP l') (byKey l')" "usersOk (byUser l')"
    "length (byIP l') \<le> length (byIP l)" "length (byKey l') \<le> length (byKey l)"
    "length (byUser l') \<le> length (byUser l)"
    "maxIP l' = maxIP l" "maxKey l' = maxKey l" "maxUser l' = maxUser l"
  shows "auth_inv T' l'"
  using assms by (auto simp: auth_inv_def)

lemma mapsOk_mono: "mapsOk T ips keys \<Longrightarrow> T \<le> T' \<Longrightarrow> mapsOk T' ips keys"
  by (fastforce simp: mapsOk_def keyOk_def ipOk_def)

lemma auth_inv_mono: "auth_inv T l \<Longrightarrow> T \<le> T' \<Longrightarrow> auth_inv T' l"
  by (auto simp: auth_inv_def intro: mapsOk_mono)

lemma length_convertFail [simp]: "length (convertFail m k now) = length m"
  by (simp add: convertFail_def split: option.splits)

lemma length_dropIfEmpty: "length (dropIfEmpty k now m) \<le> length m"
  by (simp add: dropIfEmpty_def length_mdel_le split: option.splits)

lemma auth_inv_failed:
  assumes inv: "auth_inv T l" and T: "T \<le> now" and ip: "NUL \<notin> set ip"
  shows "auth_inv now (failed ip u now l)"
proof -
  obtain a k v where c: "canonicalLimiterKey ip u = (a, k, v)" by (cases "canonicalLimiterKey ip u")
  with ip have a: "a = ip" "ip = ipFromKey k" by (auto dest: ipFromKey_canonical)
  show ?thesis
  proof (cases "hasReservation k l")
    case True
    then obtain st where st: "mget (byKey l) k = Some st" "inFlight st \<noteq> 0"
      by (auto simp: hasReservation_def split: option.splits)
    from inv have m: "mapsOk T (byIP l) (byKey l)" by (simp add: auth_inv_def)
    have "mapsOk now (convertFail (byIP l) ip now) (convertFail (byKey l) k now)"
      by (rule mapsOk_convertFail [OF m T st a(2)])
    moreover have "failed ip u now l = releaseUser v now
        (l\<lparr>byKey := convertFail (byKey l) k now, byIP := convertFail (byIP l) ip now\<rparr>)"
      using True c a by (simp add: failed_def)
    ultimately show ?thesis
      using inv length_releaseUser [of v now "l\<lparr>byKey := convertFail (byKey l) k now, byIP := convertFail (byIP l) ip now\<rparr>"]
      by (intro auth_invI [OF inv]) (simp_all add: auth_inv_def usersOk_releaseUser)
  next
    case False
    with c inv T show ?thesis by (simp add: failed_def auth_inv_mono)
  qed
qed

lemma succeeded_eq:
  assumes "canonicalLimiterKey ip u = (a, k, v)" "mget (byKey l) k = Some st" "inFlight st \<noteq> 0"
    "mget (byIP l) a = Some ist"
  shows "succeeded ip u now l = releaseUser v now
     (l\<lparr>byKey := dropIfEmpty k now (mput k (clearState now st) (byKey l)),
        byIP := dropIfEmpty a now (mput a (creditIP (failures st) now ist) (byIP l))\<rparr>)"
  using assms by (simp add: succeeded_def Let_def)

lemma canceled_eq:
  assumes "canonicalLimiterKey ip u = (a, k, v)" "mget (byKey l) k = Some st" "inFlight st \<noteq> 0"
    "mget (byIP l) a = Some ist"
  shows "\<exists>l1. canceled ip u now l =
     l1\<lparr>byKey := dropIfEmpty k now (mput k (releaseState now st) (byKey l)),
        byIP := dropIfEmpty a now (mput a (releaseState now ist) (byIP l))\<rparr> \<and>
     l1 = releaseUser v now
       (l\<lparr>byKey := releaseInFlight (byKey l) k now, byIP := releaseInFlight (byIP l) a now\<rparr>)"
  using assms by (simp add: canceled_def dropEmpty_def releaseInFlight_def hasReservation_def)

lemma auth_inv_terminal:
  assumes inv: "auth_inv T l" and T: "T \<le> now"
    and st: "mget (byKey l) k = Some st" "inFlight st \<noteq> 0" and ip: "ip = ipFromKey k"
    and ist: "mget (byIP l) ip = Some ist"
    and new: "mapsOk now (dropIfEmpty ip now (mput ip ist' (byIP l))) (dropIfEmpty k now (mput k st' (byKey l)))"
    and l': "byIP l' = dropIfEmpty ip now (mput ip ist' (byIP l))"
      "byKey l' = dropIfEmpty k now (mput k st' (byKey l))"
      "byUser l' = byUser (releaseUser v now l)"
      "maxIP l' = maxIP l" "maxKey l' = maxKey l" "maxUser l' = maxUser l"
  shows "auth_inv now l'"
proof (rule auth_invI [OF inv])
  show "mapsOk now (byIP l') (byKey l')" using new l' by simp
  show "usersOk (byUser l')" using inv l' by (simp add: auth_inv_def usersOk_releaseUser)
  show "length (byIP l') \<le> length (byIP l)" "length (byKey l') \<le> length (byKey l)"
    using l' ist st length_dropIfEmpty by (metis length_mput_old option.distinct(1))+
  show "length (byUser l') \<le> length (byUser l)" using l' length_releaseUser by metis
qed (use l' in auto)

lemma auth_inv_succeeded:
  assumes inv: "auth_inv T l" and T: "T \<le> now" and ip: "NUL \<notin> set ip"
  shows "auth_inv now (succeeded ip u now l)"
proof -
  obtain a k v where c: "canonicalLimiterKey ip u = (a, k, v)" by (cases "canonicalLimiterKey ip u")
  with ip have a: "a = ip" "ip = ipFromKey k" by (auto dest: ipFromKey_canonical)
  show ?thesis
  proof (cases "hasReservation k l")
    case True
    then obtain st where st: "mget (byKey l) k = Some st" "inFlight st \<noteq> 0"
      by (auto simp: hasReservation_def split: option.splits)
    from inv have m: "mapsOk T (byIP l) (byKey l)" by (simp add: auth_inv_def)
    from m st(1) obtain ist where ist: "mget (byIP l) (ipFromKey k) = Some ist"
      and f: "0 \<le> failures st" "0 \<le> inFlight st" "failures st \<le> failures ist" "inFlight st \<le> inFlight ist"
        "failures st < freeAttempts \<longrightarrow> until st = zero_time"
      by (rule mapsOk_keyE)
    have ist': "mget (byIP l) ip = Some ist" using ist a by simp
    show ?thesis
      unfolding succeeded_eq [OF c st, unfolded a(1), OF ist']
      by (rule auth_inv_terminal [OF inv T st a(2) ist', OF mapsOk_replace [OF m T st a(2) ist'],
            where v = v])
        (use f st in \<open>auto simp: creditIP_simps freeAttempts_def intro: byUser_releaseUser_cong\<close>)
  next
    case False
    then have "succeeded ip u now l = l" using c
      by (auto simp: succeeded_def hasReservation_def split: option.splits)
    with inv T show ?thesis by (simp add: auth_inv_mono)
  qed
qed

lemma auth_inv_canceled:
  assumes inv: "auth_inv T l" and T: "T \<le> now" and ip: "NUL \<notin> set ip"
  shows "auth_inv now (canceled ip u now l)"
proof -
  obtain a k v where c: "canonicalLimiterKey ip u = (a, k, v)" by (cases "canonicalLimiterKey ip u")
  with ip have a: "a = ip" "ip = ipFromKey k" by (auto dest: ipFromKey_canonical)
  show ?thesis
  proof (cases "hasReservation k l")
    case True
    then obtain st where st: "mget (byKey l) k = Some st" "inFlight st \<noteq> 0"
      by (auto simp: hasReservation_def split: option.splits)
    from inv have m: "mapsOk T (byIP l) (byKey l)" by (simp add: auth_inv_def)
    from m st(1) obtain ist where ist: "mget (byIP l) (ipFromKey k) = Some ist"
      and f: "0 \<le> failures st" "0 \<le> inFlight st" "failures st \<le> failures ist" "inFlight st \<le> inFlight ist"
        "failures st < freeAttempts \<longrightarrow> until st = zero_time"
      by (rule mapsOk_keyE)
    have ist': "mget (byIP l) ip = Some ist" using ist a by simp
    from canceled_eq [OF c st, unfolded a(1), OF ist', of now]
    obtain l1 where l1: "canceled ip u now l =
       l1\<lparr>byKey := dropIfEmpty k now (mput k (releaseState now st) (byKey l)),
          byIP := dropIfEmpty ip now (mput ip (releaseState now ist) (byIP l))\<rparr>"
      "l1 = releaseUser v now
       (l\<lparr>byKey := releaseInFlight (byKey l) k now, byIP := releaseInFlight (byIP l) ip now\<rparr>)"
      by blast
    show ?thesis
      unfolding l1(1)
      by (rule auth_inv_terminal [OF inv T st a(2) ist', OF mapsOk_replace [OF m T st a(2) ist'],
            where v = v])
        (use f st l1 in \<open>auto intro: byUser_releaseUser_cong\<close>)
  next
    case False
    with c inv T show ?thesis by (simp add: canceled_def auth_inv_mono)
  qed
qed

subsection \<open>Removal and sweeps\<close>

lemma dropIdentityLocked_eq:
  assumes "mget (byIP l) (ipFromKey k) = Some ist"
  shows "byKey (dropIdentityLocked k st now l) = mdel k (byKey l)"
    "byIP (dropIdentityLocked k st now l) =
       (if emptyState (subtractIdentity st now ist) now then mdel (ipFromKey k) (byIP l)
        else mput (ipFromKey k) (subtractIdentity st now ist) (byIP l))"
  using assms by (simp_all add: dropIdentityLocked_def Let_def)

lemma dropIdentityLocked_frame [simp]:
  "byKey (dropIdentityLocked k st now l) = mdel k (byKey l)"
  "byUser (dropIdentityLocked k st now l) = byUser l"
  "maxIP (dropIdentityLocked k st now l) = maxIP l" "maxKey (dropIdentityLocked k st now l) = maxKey l"
  "maxUser (dropIdentityLocked k st now l) = maxUser l" "expiry (dropIdentityLocked k st now l) = expiry l"
  by (simp_all add: dropIdentityLocked_def Let_def split: option.splits)

lemma auth_inv_dropIdentity:
  assumes inv: "auth_inv T l" and T: "T \<le> now" and k: "mget (byKey l) k = Some st"
  shows "auth_inv now (dropIdentityLocked k st now l)"
proof -
  let ?l = "dropIdentityLocked k st now l"
  from inv have m: "mapsOk T (byIP l) (byKey l)" by (simp add: auth_inv_def)
  from m k obtain ist where ist: "mget (byIP l) (ipFromKey k) = Some ist" and f:
    "0 \<le> failures st" "0 \<le> inFlight st" "failures st \<le> failures ist" "inFlight st \<le> inFlight ist"
    "seen ist \<le> T" "zero_time \<le> until ist"
    "failures ist = failSum (ipFromKey k) (byKey l)" "inFlight ist = flightSum (ipFromKey k) (byKey l)"
    by (rule mapsOk_keyE)
  define ist' where "ist' = subtractIdentity st now ist"
  note ist'_simps = subtractIdentity_simps [OF f(1,3,2,4), of now, folded ist'_def]
  from m have d: "distinct (mkeys (byIP l))" "distinct (mkeys (byKey l))" and z: "zero_time \<le> T"
    by (simp_all add: mapsOk_def)
  have ips: "byIP ?l = (if emptyState ist' now then mdel (ipFromKey k) (byIP l)
      else mput (ipFromKey k) ist' (byIP l))"
    using dropIdentityLocked_eq(2) [OF ist] by (simp add: ist'_def)
  have "mapsOk now (byIP ?l) (byKey ?l)"
  proof (rule mapsOk_update [OF m T, where k = k])
    fix i assume "mget (byIP ?l) (ipFromKey k) = Some i"
    then have "i = ist'" using ips by (auto simp: map_simps split: if_splits)
    then show "ipOk now (byKey ?l) (ipFromKey k) i"
      using f d k z T by (auto simp: ipOk_def ist'_simps sum_upd)
  next
    fix j sj istj
    assume j: "j \<noteq> k" "mget (byKey l) j = Some sj" "ipFromKey j = ipFromKey k"
    from m j(2) obtain i where ij: "mget (byIP l) (ipFromKey j) = Some i" "seen sj \<le> seen i"
      "until sj \<le> until i" "0 < failures sj + inFlight sj" "0 \<le> failures sj" "0 \<le> inFlight sj"
      "failures sj < freeAttempts \<longrightarrow> until sj = zero_time"
      by (rule mapsOk_keyE)
    have "failures sj \<le> failures ist'" "inFlight sj \<le> inFlight ist'"
      using mapsOk_two [OF m k j(2) j(1) j(3)] f by (auto simp: ist'_simps)
    moreover from this have "\<not> emptyState ist' now"
      using ij unfolding emptyState_def by linarith
    ultimately show "\<exists>i'. mget (byIP ?l) (ipFromKey k) = Some i' \<and> seen sj \<le> seen i' \<and> until sj \<le> until i'"
      using ij j ist f T by (auto simp: ips map_simps ist'_simps)
  qed (use d in \<open>auto simp: ips map_simps sum_upd\<close>)
  moreover have "length (byIP ?l) \<le> length (byIP l)"
    using ips ist by (simp add: length_mdel_le)
  ultimately show ?thesis
    using inv by (intro auth_invI [OF inv]) (simp_all add: auth_inv_def length_mdel_le)
qed

lemma pruneKeys_frame [simp]:
  "byUser (pruneKeys now l ks) = byUser l" "expiry (pruneKeys now l ks) = expiry l"
  "maxIP (pruneKeys now l ks) = maxIP l" "maxKey (pruneKeys now l ks) = maxKey l"
  "maxUser (pruneKeys now l ks) = maxUser l"
  unfolding pruneKeys_def by (induction ks arbitrary: l) simp_all

lemma pruneKeys_spec:
  assumes "auth_inv now l" "distinct (map fst ks)"
    "\<And>p. p \<in> set ks \<Longrightarrow> mget (byKey l) (fst p) = Some (snd p)"
  shows "auth_inv now (pruneKeys now l ks) \<and>
    (\<forall>j. mget (byKey (pruneKeys now l ks)) j =
       (if \<exists>p \<in> set ks. fst p = j \<and> safeToPrune (expiry l) (snd p) now then None
        else mget (byKey l) j))"
  using assms
proof (induction ks arbitrary: l)
  case Nil
  then show ?case by (simp add: pruneKeys_def)
next
  case (Cons p ks)
  define l1 where "l1 = (if safeToPrune (expiry l) (snd p) now
     then dropIdentityLocked (fst p) (snd p) now l else l)"
  have step: "pruneKeys now l (p # ks) = pruneKeys now l1 ks"
    by (simp add: pruneKeys_def l1_def)
  have inv1: "auth_inv now l1"
    using Cons.prems auth_inv_dropIdentity [OF Cons.prems(1), of now "fst p" "snd p"]
    by (simp add: l1_def)
  have get1: "mget (byKey l1) j = (if j = fst p \<and> safeToPrune (expiry l) (snd p) now then None
      else mget (byKey l) j)" for j
    by (simp add: l1_def map_simps)
  have "auth_inv now (pruneKeys now l1 ks) \<and>
    (\<forall>j. mget (byKey (pruneKeys now l1 ks)) j =
       (if \<exists>p \<in> set ks. fst p = j \<and> safeToPrune (expiry l1) (snd p) now then None
        else mget (byKey l1) j))"
  proof (rule Cons.IH [OF inv1])
    show "distinct (map fst ks)" using Cons.prems by simp
    fix q assume q: "q \<in> set ks"
    then have "fst q \<noteq> fst p"
      using Cons.prems(2) by (metis distinct.simps(2) image_eqI list.simps(9) set_map)
    with q Cons.prems(3) [of q] show "mget (byKey l1) (fst q) = Some (snd q)" by (simp add: get1)
  qed
  moreover have "expiry l1 = expiry l" by (simp add: l1_def)
  ultimately show ?case
    by (auto simp: step get1)
qed

lemma forcePrune_frame [simp]:
  "maxIP (forcePrune now l) = maxIP l" "maxKey (forcePrune now l) = maxKey l"
  "maxUser (forcePrune now l) = maxUser l" "expiry (forcePrune now l) = expiry l"
  by (simp_all add: forcePrune_def Let_def)

lemma mget_filter:
  "distinct (mkeys m) \<Longrightarrow> mget (filter P m) k =
     (case mget m k of None \<Rightarrow> None | Some v \<Rightarrow> if P (k, v) then Some v else None)"
proof (induction m)
  case (Cons p m)
  have "mget (filter P m) (fst p) = None"
    using Cons.prems by (auto simp: map_of_eq_None_iff)
  with Cons show ?case by (cases p) auto
qed simp

lemma auth_inv_fields:
  "auth_inv T (l\<lparr>pruned := a, fullSweeps := b\<rparr>) = auth_inv T l"
  "auth_inv T (l\<lparr>lastCapSweep := a\<rparr>) = auth_inv T l"
  by (simp_all add: auth_inv_def)

text \<open>An address the sweep removes has no identity left: an identity that stays keeps its
  address busy, locked out or recently seen.\<close>

lemma mapsOk_no_prunable_ip:
  assumes m: "mapsOk T ips keys" and i: "mget ips a = Some ist" and safe: "safeToPrune ex ist now"
    and keep: "\<And>k st. mget keys k = Some st \<Longrightarrow> \<not> safeToPrune ex st now"
    and k: "mget keys k = Some st"
  shows "ipFromKey k \<noteq> a"
proof
  assume a: "ipFromKey k = a"
  from m k obtain i' where f: "mget ips (ipFromKey k) = Some i'"
    "0 \<le> failures st" "0 \<le> inFlight st" "0 < failures st + inFlight st"
    "failures st \<le> failures i'" "inFlight st \<le> inFlight i'" "seen st \<le> seen i'" "until st \<le> until i'"
    by (rule mapsOk_keyE)
  with a i have [simp]: "i' = ist" by simp
  have "time_sub now (seen ist) \<le> time_sub now (seen st)"
    using f by (intro time_sub_mono) simp
  with keep [OF k] safe f show False
    by (auto simp: safeToPrune_def emptyState_def split: if_splits)
qed

lemma mapsOk_filter_ips:
  assumes m: "mapsOk T ips keys"
    and gone: "\<And>k st ist. mget keys k = Some st \<Longrightarrow> mget ips (ipFromKey k) = Some ist \<Longrightarrow> P (ipFromKey k, ist)"
  shows "mapsOk T (filter P ips) keys"
proof -
  from m have d: "distinct (mkeys ips)" by (simp add: mapsOk_def)
  have "keyOk T (filter P ips) k st" if k: "mget keys k = Some st" for k st
  proof -
    from m k have "keyOk T ips k st" by (simp add: mapsOk_def)
    with gone [OF k] d show ?thesis by (auto simp: keyOk_def mget_filter)
  qed
  moreover have "ipOk T keys a ist" if "mget (filter P ips) a = Some ist" for a ist
    using that m d by (auto simp: mget_filter mapsOk_def split: option.splits if_splits)
  moreover have "distinct (mkeys (filter P ips))"
    using d by (simp add: distinct_map_filter)
  ultimately show ?thesis using m by (simp add: mapsOk_def)
qed

lemma usersOk_filter: "usersOk m \<Longrightarrow> usersOk (filter P m)"
  by (auto simp: usersOk_def mget_filter distinct_map_filter split: option.splits if_splits)

lemma auth_inv_forcePrune:
  assumes inv: "auth_inv T l" and T: "T \<le> now"
  shows "auth_inv now (forcePrune now l)"
proof -
  define l1 where "l1 = l\<lparr>pruned := now, fullSweeps := fullSweeps l + 1\<rparr>"
  define l2 where "l2 = pruneKeys now l1 (byKey l1)"
  have inv1: "auth_inv now l1" using auth_inv_mono [OF inv T] by (simp add: l1_def auth_inv_fields)
  then have d1: "distinct (mkeys (byKey l1))" by (simp add: auth_inv_def mapsOk_def)
  have spec: "auth_inv now l2 \<and>
    (\<forall>j. mget (byKey l2) j =
       (if \<exists>p \<in> set (byKey l1). fst p = j \<and> safeToPrune (expiry l1) (snd p) now then None
        else mget (byKey l1) j))"
    unfolding l2_def using inv1 d1 by (intro pruneKeys_spec) (simp_all add: in_set_mgetD)
  have keep: "\<not> safeToPrune (expiry l2) st now" if "mget (byKey l2) j = Some st" for j st
  proof -
    from that spec have "mget (byKey l1) j = Some st"
      "\<not> (\<exists>p \<in> set (byKey l1). fst p = j \<and> safeToPrune (expiry l1) (snd p) now)"
      by (auto split: if_splits)
    moreover from this have "(j, st) \<in> set (byKey l1)" by (auto dest: map_of_SomeD)
    ultimately show ?thesis by (auto simp: l2_def)
  qed
  from spec have m: "mapsOk now (byIP l2) (byKey l2)" and inv2: "auth_inv now l2"
    by (simp_all add: auth_inv_def)
  let ?P = "\<lambda>p. \<not> safeToPrune (expiry l2) (snd p) now"
  have "mapsOk now (filter ?P (byIP l2)) (byKey l2)"
  proof (rule mapsOk_filter_ips [OF m])
    fix k st ist assume "mget (byKey l2) k = Some st" "mget (byIP l2) (ipFromKey k) = Some ist"
    with mapsOk_no_prunable_ip [OF m, of "ipFromKey k" ist "expiry l2" now k st] keep
    show "?P (ipFromKey k, ist)" by auto
  qed
  with inv2 have "auth_inv now (l2\<lparr>byIP := filter ?P (byIP l2),
      byUser := filter (\<lambda>p. inFlight (snd p) \<noteq> 0) (byUser l2)\<rparr>)"
    by (intro auth_invI [OF inv2]) (simp_all add: auth_inv_def usersOk_filter)
  then show ?thesis by (simp add: forcePrune_def Let_def l1_def l2_def)
qed

lemma auth_inv_maybePeriodicPrune:
  "auth_inv T l \<Longrightarrow> T \<le> now \<Longrightarrow> auth_inv now (maybePeriodicPrune now l)"
  by (simp add: maybePeriodicPrune_def auth_inv_mono auth_inv_forcePrune)

lemma pickOldest_cases:
  "fst (pickOldest skip m (k, t)) = k \<or>
   (\<exists>p \<in> set m. \<not> skip p \<and> fst (pickOldest skip m (k, t)) = fst p)"
proof (induction m arbitrary: k t)
  case (Cons p m)
  show ?case
    using Cons.IH [of k t] Cons.IH [of "fst p" "seen (snd p)"] by auto
qed simp

lemma oldestKey_spec:
  assumes "oldestKey now l \<noteq> ''''" "distinct (mkeys (byKey l))"
  shows "\<exists>st. mget (byKey l) (oldestKey now l) = Some st \<and> \<not> busyState now st"
proof -
  from assms(1) obtain p where "p \<in> set (byKey l)" "\<not> busyState now (snd p)" "oldestKey now l = fst p"
    using pickOldest_cases [of "\<lambda>p. busyState now (snd p)" "byKey l" "''''" zero_time]
    unfolding oldestKey_def by auto
  with assms(2) show ?thesis by (auto dest: in_set_mgetD)
qed

lemma auth_inv_evictOldestKey:
  assumes inv: "auth_inv T l" and T: "T \<le> now"
  shows "auth_inv now (snd (evictOldestKey now l))"
proof -
  from inv have "distinct (mkeys (byKey l))" by (simp add: auth_inv_def mapsOk_def)
  with oldestKey_spec [of now l] show ?thesis
    using auth_inv_mono [OF inv T] auth_inv_dropIdentity [OF inv T]
    by (auto simp: evictOldestKey_def Let_def split: option.splits)
qed

lemma mapsOk_evict_ip:
  assumes m: "mapsOk T ips keys"
  shows "mapsOk T (mdel a ips) (filter (\<lambda>p. ipFromKey (fst p) \<noteq> a) keys)"
proof -
  let ?keys = "filter (\<lambda>p. ipFromKey (fst p) \<noteq> a) keys"
  from m have d: "distinct (mkeys ips)" "distinct (mkeys keys)" by (simp_all add: mapsOk_def)
  have sums: "failSum b ?keys = failSum b keys" "flightSum b ?keys = flightSum b keys" if "b \<noteq> a" for b
    unfolding failSum_def flightSum_def msum_filter using that by (auto intro: msum_cong)
  have "keyOk T (mdel a ips) k st" if "mget ?keys k = Some st" for k st
    using that m d by (auto simp: mget_filter mapsOk_def keyOk_def map_simps split: option.splits if_splits)
  moreover have "ipOk T ?keys b ist" if "mget (mdel a ips) b = Some ist" for b ist
    using that m by (auto simp: map_simps mapsOk_def ipOk_def sums split: if_splits)
  ultimately show ?thesis using m d by (simp add: mapsOk_def distinct_map_filter)
qed

lemma auth_inv_evictOldestIP:
  assumes inv: "auth_inv T l"
  shows "auth_inv T (snd (evictOldestIP now l))"
proof (cases "oldestIP now l = ''''")
  case True
  with inv show ?thesis by (simp add: evictOldestIP_def)
next
  case False
  with inv mapsOk_evict_ip show ?thesis
    by (intro auth_invI [OF inv])
      (simp_all add: evictOldestIP_def Let_def length_mdel_le auth_inv_def)
qed

subsection \<open>Reserving\<close>

lemma bump_simps [simp]:
  "failures (bump now st) = failures st" "inFlight (bump now st) = inFlight st + 1"
  "until (bump now st) = until st" "seen (bump now st) = now"
  by (simp_all add: bump_def)

lemma newAttemptState_simps [simp]:
  "failures newAttemptState = 0" "inFlight newAttemptState = 0"
  "until newAttemptState = zero_time" "seen newAttemptState = zero_time"
  by (simp_all add: newAttemptState_def)

lemma publish_current:
  "publish k (mget m k) now m =
     mput k (bump now (case mget m k of None \<Rightarrow> newAttemptState | Some s \<Rightarrow> s)) m"
  by (simp add: publish_def mput_if_def split: option.splits)

text \<open>Publishing the reservation through pointers that are the current entries.\<close>

lemma mapsOk_publish:
  assumes inv: "mapsOk T ips keys" and T: "T \<le> now" and ip: "ip = ipFromKey k"
  shows "mapsOk now (publish ip (mget ips ip) now ips) (publish k (mget keys k) now keys)"
proof -
  define ist where "ist = (case mget ips ip of None \<Rightarrow> newAttemptState | Some s \<Rightarrow> s)"
  define st where "st = (case mget keys k of None \<Rightarrow> newAttemptState | Some s \<Rightarrow> s)"
  from inv have d: "distinct (mkeys ips)" "distinct (mkeys keys)" and z: "zero_time \<le> T"
    by (simp_all add: mapsOk_def)
  have ip_none: "failSum ip keys = 0 \<and> flightSum ip keys = 0" if "mget ips ip = None"
  proof -
    have "ipFromKey j \<noteq> ip" if "mget keys j = Some s" for j s
      using mapsOk_keyE [OF inv that] \<open>mget ips ip = None\<close> by (metis option.distinct(1))
    then show ?thesis using sums_absent d by blast
  qed
  have i: "failures ist = failSum ip keys" "inFlight ist = flightSum ip keys" "seen ist \<le> T"
    "zero_time \<le> until ist"
    using inv z ip_none by (cases "mget ips ip"; simp add: ist_def mapsOk_def ipOk_def)+
  have s: "0 \<le> failures st" "0 \<le> inFlight st" "until st \<le> until ist"
    "failures st < freeAttempts \<longrightarrow> until st = zero_time"
    "freeAttempts \<le> failures st \<longrightarrow> until st \<le> T + lockout (failures st)"
  proof -
    have "0 \<le> failures st \<and> 0 \<le> inFlight st \<and> until st \<le> until ist \<and>
      (failures st < freeAttempts \<longrightarrow> until st = zero_time) \<and>
      (freeAttempts \<le> failures st \<longrightarrow> until st \<le> T + lockout (failures st))"
    proof (cases "mget keys k")
      case None
      with i show ?thesis by (simp add: st_def freeAttempts_def)
    next
      case (Some s)
      with inv have "keyOk T ips k s" by (simp add: mapsOk_def)
      with Some ip show ?thesis by (auto simp: st_def ist_def keyOk_def)
    qed
    then show "0 \<le> failures st" "0 \<le> inFlight st" "until st \<le> until ist"
      "failures st < freeAttempts \<longrightarrow> until st = zero_time"
      "freeAttempts \<le> failures st \<longrightarrow> until st \<le> T + lockout (failures st)"
      by blast+
  qed
  have old: "(case mget keys k of None \<Rightarrow> 0 | Some s \<Rightarrow> failures s) = failures st"
    "(case mget keys k of None \<Rightarrow> 0 | Some s \<Rightarrow> inFlight s) = inFlight st"
    by (simp_all add: st_def split: option.splits)
  show ?thesis
    unfolding publish_current ist_def [symmetric] st_def [symmetric]
  proof (rule mapsOk_update [OF inv T, where k = k])
    fix s' assume "mget (mput k (bump now st) keys) k = Some s'"
    then have "s' = bump now st" by (simp add: map_simps)
    then show "keyOk now (mput ip (bump now ist) ips) k s'"
      using s T ip by (auto simp: keyOk_def map_simps)
  next
    fix i' assume "mget (mput ip (bump now ist) ips) (ipFromKey k) = Some i'"
    then have "i' = bump now ist" by (simp add: map_simps ip)
    then show "ipOk now (mput k (bump now st) keys) (ipFromKey k) i'"
      using i d ip old by (auto simp: ipOk_def sum_upd)
  next
    fix j sj istj
    assume j: "j \<noteq> k" "mget keys j = Some sj" "ipFromKey j = ipFromKey k"
    from inv j(2) obtain x where "mget ips (ipFromKey j) = Some x" "seen sj \<le> seen x"
      "until sj \<le> until x" "seen x \<le> T"
      by (rule mapsOk_keyE)
    then show "\<exists>i'. mget (mput ip (bump now ist) ips) (ipFromKey k) = Some i' \<and>
        seen sj \<le> seen i' \<and> until sj \<le> until i'"
      using j ip T by (auto simp: map_simps ist_def)
  qed (use d ip in \<open>auto simp: map_simps sum_upd\<close>)
qed

lemma usersOk_publish:
  assumes "usersOk m" "case mget m u of None \<Rightarrow> True | Some s \<Rightarrow> inFlight s < freeAttempts"
  shows "usersOk (publish u (mget m u) now m)"
proof -
  have "userOk (bump now (case mget m u of None \<Rightarrow> newAttemptState | Some s \<Rightarrow> s))"
    using assms by (cases "mget m u") (fastforce simp: usersOk_def userOk_def freeAttempts_def)+
  with assms show ?thesis
    unfolding publish_current by (auto simp: usersOk_def map_simps split: if_splits)
qed

lemma length_publish_current:
  "length (publish k (mget m k) now m) = (if mget m k = None then Suc (length m) else length m)"
  by (simp add: publish_current length_mput_new)

text \<open>The last part of \<open>reserve\<close>, when its pointers are the current entries of the maps
  (\<open>userSt\<close> too) and there is room for what is new.\<close>

lemma auth_inv_reserveAdmit:
  assumes inv: "auth_inv T l" and T: "T \<le> now" and ip: "ip = ipFromKey k"
    and room: "mget (byIP l) ip = None \<longrightarrow> int (length (byIP l)) < maxIP l"
      "mget (byKey l) k = None \<longrightarrow> int (length (byKey l)) < maxKey l"
  shows "auth_inv now (snd (reserveAdmit ip k u (mget (byIP l) ip) (mget (byKey l) k)
    (mget (byUser l) u) now l))"
proof -
  from inv have m: "mapsOk T (byIP l) (byKey l)" and us: "usersOk (byUser l)"
    by (simp_all add: auth_inv_def)
  have u: "usersOk (publish u (mget (byUser l) u) now (byUser l))"
    if "\<not> (case mget (byUser l) u of None \<Rightarrow> False | Some u \<Rightarrow> inFlight u \<ge> freeAttempts)"
    using us that by (intro usersOk_publish) (auto split: option.splits)
  show ?thesis
    using auth_inv_mono [OF inv T] inv mapsOk_publish [OF m T ip] u room
    by (auto simp: reserveAdmit_def auth_inv_def length_publish_current)
qed

text \<open>The user entry is never swept: it has a reservation.\<close>

lemma usersOk_filter_id: "usersOk m \<Longrightarrow> filter (\<lambda>p. inFlight (snd p) \<noteq> 0) m = m"
  by (rule filter_True) (fastforce simp: usersOk_def userOk_def dest: in_set_mgetD)

lemma byUser_forcePrune: "auth_inv T l \<Longrightarrow> byUser (forcePrune now l) = byUser l"
  by (simp add: forcePrune_def Let_def auth_inv_def usersOk_filter_id)

lemma evictOldestIP_frame:
  "byUser (snd (evictOldestIP now l)) = byUser l" "maxIP (snd (evictOldestIP now l)) = maxIP l"
  "maxKey (snd (evictOldestIP now l)) = maxKey l"
  by (simp_all add: evictOldestIP_def Let_def)

lemma evictOldestKey_frame:
  "byUser (snd (evictOldestKey now l)) = byUser l" "maxIP (snd (evictOldestKey now l)) = maxIP l"
  "maxKey (snd (evictOldestKey now l)) = maxKey l"
  by (simp_all add: evictOldestKey_def Let_def split: option.splits)

lemma oldestIP_spec:
  assumes "oldestIP now l \<noteq> ''''" "distinct (mkeys (byIP l))"
  shows "mget (byIP l) (oldestIP now l) \<noteq> None"
proof -
  from assms(1) obtain p where "p \<in> set (byIP l)" "oldestIP now l = fst p"
    using pickOldest_cases [of _ "byIP l" "''''" zero_time]
    unfolding oldestIP_def Let_def by blast
  with assms(2) show ?thesis by (auto dest: in_set_mgetD)
qed

text \<open>The eviction of an address: it makes room, and it is another address than the one that
  reserves, whose identity entry stays what it was.\<close>

lemma evictOldestIP_room:
  assumes inv: "auth_inv T l" and ok: "evictOldestIP now l = (True, l')" and ip: "ip = ipFromKey k"
    and new: "mget (byIP l) ip = None"
  shows "int (length (byIP l')) < maxIP l'" "mget (byIP l') ip = None" "mget (byKey l') k = mget (byKey l) k"
proof -
  from ok have o: "oldestIP now l \<noteq> ''''" by (auto simp: evictOldestIP_def Let_def)
  from inv have d: "distinct (mkeys (byIP l))" "distinct (mkeys (byKey l))" and m: "mapsOk T (byIP l) (byKey l)"
    by (simp_all add: auth_inv_def mapsOk_def)
  from o d(1) have old: "mget (byIP l) (oldestIP now l) \<noteq> None" by (rule oldestIP_spec)
  have l': "l' = l\<lparr>byKey := filter (\<lambda>p. ipFromKey (fst p) \<noteq> oldestIP now l) (byKey l),
      byIP := mdel (oldestIP now l) (byIP l)\<rparr>"
    using ok o by (auto simp: evictOldestIP_def Let_def)
  show "int (length (byIP l')) < maxIP l'"
    using length_mdel_less [OF old] inv by (simp add: l' auth_inv_def)
  show "mget (byIP l') ip = None" using new by (simp add: l' map_simps)
  have "ip \<noteq> oldestIP now l" using old new by auto
  then show "mget (byKey l') k = mget (byKey l) k"
    using d ip by (auto simp: l' mget_filter split: option.splits)
qed

lemma evictOldestKey_room:
  assumes inv: "auth_inv T l" and ok: "evictOldestKey now l = (True, l')" and new: "mget (byKey l) k = None"
  shows "int (length (byKey l')) < maxKey l'" "mget (byKey l') k = None"
    "ipFromKey (oldestKey now l) \<noteq> ip \<Longrightarrow> mget (byIP l') ip = mget (byIP l) ip"
    "length (byIP l') \<le> length (byIP l)"
proof -
  from ok obtain st where st: "mget (byKey l) (oldestKey now l) = Some st"
    and l': "l' = dropIdentityLocked (oldestKey now l) st now l"
    by (auto simp: evictOldestKey_def Let_def split: if_splits option.splits)
  have "int (length (byKey l)) \<le> maxKey l" using inv by (simp add: auth_inv_def)
  with length_mdel_less [of "byKey l" "oldestKey now l"] st
  show "int (length (byKey l')) < maxKey l'" by (simp add: l')
  show "mget (byKey l') k = None" using new by (simp add: l' map_simps)
  show "ipFromKey (oldestKey now l) \<noteq> ip \<Longrightarrow> mget (byIP l') ip = mget (byIP l) ip"
    by (auto simp: l' dropIdentityLocked_def Let_def map_simps split: option.splits)
  show "length (byIP l') \<le> length (byIP l)"
    by (auto simp: l' dropIdentityLocked_def Let_def length_mdel_le split: option.splits)
qed

lemma length_pruneKeys: "length (byKey (pruneKeys now l ks)) \<le> length (byKey l)"
  unfolding pruneKeys_def
proof (induction ks arbitrary: l)
  case (Cons p ks)
  let ?l = "if safeToPrune (expiry l) (snd p) now then dropIdentityLocked (fst p) (snd p) now l else l"
  have "length (byKey ?l) \<le> length (byKey l)" by (simp add: length_mdel_le)
  with Cons.IH [of ?l] show ?case by simp
qed simp

lemma length_forcePrune: "length (byKey (forcePrune now l)) \<le> length (byKey l)"
  using length_pruneKeys [of now "l\<lparr>pruned := now, fullSweeps := fullSweeps l + 1\<rparr>"
      "byKey (l\<lparr>pruned := now, fullSweeps := fullSweeps l + 1\<rparr>)"]
  by (simp add: forcePrune_def Let_def)

lemma forcePrune_keys:
  assumes inv: "auth_inv T l" and T: "T \<le> now" and j: "mget (byKey (forcePrune now l)) j = Some st"
  shows "mget (byKey l) j = Some st"
proof -
  define l1 where "l1 = l\<lparr>pruned := now, fullSweeps := fullSweeps l + 1\<rparr>"
  have inv1: "auth_inv now l1" using auth_inv_mono [OF inv T] by (simp add: l1_def auth_inv_fields)
  then have d1: "distinct (mkeys (byKey l1))" by (simp add: auth_inv_def mapsOk_def)
  have "byKey (forcePrune now l) = byKey (pruneKeys now l1 (byKey l1))"
    by (simp add: forcePrune_def Let_def l1_def)
  moreover have "\<forall>j. mget (byKey (pruneKeys now l1 (byKey l1))) j =
       (if \<exists>p \<in> set (byKey l1). fst p = j \<and> safeToPrune (expiry l1) (snd p) now then None
        else mget (byKey l1) j)"
    using pruneKeys_spec [OF inv1 d1] d1 by (simp add: in_set_mgetD)
  ultimately show ?thesis using j by (auto simp: l1_def split: if_splits)
qed

text \<open>The reservations the accounts do not survive: room for the identity is made by an eviction that takes the
  address entry of the reserving address itself out of its map, while \<open>reserve\<close> goes on with
  the pointer to it.\<close>

definition losesAddress :: "string \<Rightarrow> gtime \<Rightarrow> authLimiter \<Rightarrow> bool" where
  "losesAddress ip now l \<longleftrightarrow> mget (byIP l) ip \<noteq> None \<and> fst (evictOldestKey now l) \<and> mget (byIP (snd (evictOldestKey now l))) ip = None"

definition evictsOwnAddress :: "string \<Rightarrow> string \<Rightarrow> gtime \<Rightarrow> authLimiter \<Rightarrow> bool" where
  "evictsOwnAddress ip username now l0 =
     (let l1 = maybePeriodicPrune now l0;
          (ipKey, key, userKey) = canonicalLimiterKey ip username
      in if \<not> atCapacity ipKey key l1 \<or> time_sub now (lastCapSweep l1) < capSweepInterval then False
         else
           (let l2 = forcePrune now (l1\<lparr>lastCapSweep := now\<rparr>);
                (ok, l3) = roomForIP (mget (byIP l2) ipKey) now l2
            in ok \<and> mget (byKey l3) key = None \<and> int (length (byKey l3)) \<ge> maxKey l3 \<and> losesAddress ipKey now l3))"

text \<open>Otherwise the pointer still is the entry of the map after the eviction.\<close>

lemma evictOldestKey_pointer:
  assumes "evictOldestKey now l = (True, l')" "\<not> losesAddress ip now l"
  shows "(if ipFromKey (oldestKey now l) = ip
      then map_option (subtractIdentity (the (mget (byKey l) (oldestKey now l))) now) (mget (byIP l) ip)
      else mget (byIP l) ip) = mget (byIP l') ip"
  using assms
  by (auto simp: losesAddress_def evictOldestKey_def dropIdentityLocked_def Let_def map_simps split: if_splits option.splits)

lemma auth_inv_roomForIP:
  assumes inv: "auth_inv T l" and ip: "ip = ipFromKey k" and e: "roomForIP (mget (byIP l) ip) now l = (ok, l')"
  shows "auth_inv T l'" "byUser l' = byUser l"
    "ok \<Longrightarrow> mget (byIP l') ip = mget (byIP l) ip" "ok \<Longrightarrow> mget (byKey l') k = mget (byKey l) k"
    "ok \<Longrightarrow> mget (byIP l') ip = None \<longrightarrow> int (length (byIP l')) < maxIP l'"
proof -
  have "auth_inv T l' \<and> byUser l' = byUser l \<and>
    (ok \<longrightarrow> mget (byIP l') ip = mget (byIP l) ip \<and> mget (byKey l') k = mget (byKey l) k \<and>
    (mget (byIP l') ip = None \<longrightarrow> int (length (byIP l')) < maxIP l'))"
  proof (cases "mget (byIP l) ip = None \<and> int (length (byIP l)) \<ge> maxIP l")
    case True
    with e have ev: "evictOldestIP now l = (ok, l')" by (simp add: roomForIP_def)
    then have l': "l' = snd (evictOldestIP now l)" by simp
    have "ok \<longrightarrow> mget (byIP l') ip = mget (byIP l) ip \<and> mget (byKey l') k = mget (byKey l) k \<and>
      (mget (byIP l') ip = None \<longrightarrow> int (length (byIP l')) < maxIP l')"
      using evictOldestIP_room [OF inv _ ip] ev True by (cases ok) simp_all
    then show ?thesis using auth_inv_evictOldestIP [OF inv] by (simp add: l' evictOldestIP_frame)
  next
    case False
    with e have "l' = l" by (simp add: roomForIP_def split: if_splits)
    with False inv show ?thesis by auto
  qed
  then show "auth_inv T l'" "byUser l' = byUser l"
    "ok \<Longrightarrow> mget (byIP l') ip = mget (byIP l) ip" "ok \<Longrightarrow> mget (byKey l') k = mget (byKey l) k"
    "ok \<Longrightarrow> mget (byIP l') ip = None \<longrightarrow> int (length (byIP l')) < maxIP l'"
    by simp_all
qed

lemma auth_inv_reserveEvicting:
  assumes inv: "auth_inv T l" and T: "T \<le> now" and ip: "ip = ipFromKey k"
    and keeps: "mget (byKey l) k = None \<Longrightarrow> int (length (byKey l)) \<ge> maxKey l \<Longrightarrow> \<not> losesAddress ip now l"
    and room: "mget (byIP l) ip = None \<longrightarrow> int (length (byIP l)) < maxIP l"
  shows "auth_inv now (snd (reserveEvicting ip k u (mget (byIP l) ip) (mget (byKey l) k)
    (mget (byUser l) u) now l))"
proof (cases "mget (byKey l) k = None \<and> int (length (byKey l)) \<ge> maxKey l")
  case False
  then show ?thesis
    using auth_inv_reserveAdmit [OF inv T ip room] by (auto simp: reserveEvicting_def)
next
  case True
  obtain ok l' where ev: "evictOldestKey now l = (ok, l')" by (cases "evictOldestKey now l")
  then have l': "l' = snd (evictOldestKey now l)" by simp
  have inv': "auth_inv now l'" using auth_inv_evictOldestKey [OF inv T] l' by simp
  show ?thesis
  proof (cases ok)
    case False
    with True ev inv' show ?thesis by (simp add: reserveEvicting_def)
  next
    case ok: True
    then have ev': "evictOldestKey now l = (True, l')" using ev by simp
    have no: "\<not> losesAddress ip now l" using keeps True by simp
    have fr: "byUser l' = byUser l" "maxIP l' = maxIP l"
      unfolding l' by (simp_all add: evictOldestKey_frame)
    note rm = evictOldestKey_room [OF inv ev' conjunct1 [OF True]] and ptr = evictOldestKey_pointer [OF ev' no]
    have "mget (byIP l') ip = None \<Longrightarrow> mget (byIP l) ip = None" using no ev' by (simp add: losesAddress_def)
    then have "auth_inv now (snd (reserveAdmit ip k u (mget (byIP l') ip) (mget (byKey l') k)
        (mget (byUser l') u) now l'))"
      using rm(1,2,4) room ip
      by (intro auth_inv_reserveAdmit [OF inv' order_refl]) (auto simp: fr)
    then show ?thesis
      using True ok ev' rm(2) ptr by (simp add: reserveEvicting_def fr)
  qed
qed

lemma auth_inv_reserveFull:
  assumes inv: "auth_inv now l" and ip: "ip = ipFromKey k"
    and keeps: "\<And>l3. roomForIP (mget (byIP (forcePrune now (l\<lparr>lastCapSweep := now\<rparr>))) ip) now
          (forcePrune now (l\<lparr>lastCapSweep := now\<rparr>)) = (True, l3) \<Longrightarrow> \<not> time_sub now (lastCapSweep l) < capSweepInterval \<Longrightarrow>
        mget (byKey l3) k = None \<Longrightarrow> int (length (byKey l3)) \<ge> maxKey l3 \<Longrightarrow> \<not> losesAddress ip now l3"
  shows "auth_inv now (snd (reserveFull ip k u (mget (byUser l) u) now l))"
proof (cases "time_sub now (lastCapSweep l) < capSweepInterval")
  case True
  with inv show ?thesis by (simp add: reserveFull_def)
next
  case False
  define l2 where "l2 = forcePrune now (l\<lparr>lastCapSweep := now\<rparr>)"
  have inv1: "auth_inv now (l\<lparr>lastCapSweep := now\<rparr>)" using inv by (simp add: auth_inv_fields)
  have inv2: "auth_inv now l2" unfolding l2_def by (rule auth_inv_forcePrune [OF inv1 order_refl])
  have u2: "byUser l2 = byUser l" unfolding l2_def using byUser_forcePrune [OF inv1] by simp
  obtain ok l3 where e: "roomForIP (mget (byIP l2) ip) now l2 = (ok, l3)"
    by (cases "roomForIP (mget (byIP l2) ip) now l2")
  note r = auth_inv_roomForIP [OF inv2 ip e]
  have "auth_inv now (snd (reserveEvicting ip k u (mget (byIP l3) ip) (mget (byKey l3) k)
      (mget (byUser l3) u) now l3))" if ok
    using r(5) that keeps e False unfolding l2_def [symmetric] by (intro auth_inv_reserveEvicting [OF r(1) order_refl ip]) simp_all
  with r False u2 show ?thesis
    by (cases ok) (simp_all add: reserveFull_def Let_def l2_def [symmetric] e)
qed

lemma auth_inv_reserve:
  assumes inv: "auth_inv T l" and T: "T \<le> now" and nul: "NUL \<notin> set ip" and keeps: "\<not> evictsOwnAddress ip u now l"
  shows "auth_inv now (snd (reserve ip u now l))"
proof -
  obtain a k v where c: "canonicalLimiterKey ip u = (a, k, v)" by (cases "canonicalLimiterKey ip u")
  with nul have a: "a = ip" "ip = ipFromKey k" by (auto dest: ipFromKey_canonical)
  define l1 where "l1 = maybePeriodicPrune now l"
  have inv1: "auth_inv now l1" unfolding l1_def by (rule auth_inv_maybePeriodicPrune [OF inv T])
  show ?thesis
  proof (cases "atCapacity ip k l1")
    case True
    then have "auth_inv now (snd (reserveFull ip k v (mget (byUser l1) v) now l1))"
      using keeps c a by (intro auth_inv_reserveFull [OF inv1 a(2)]) (auto simp: evictsOwnAddress_def Let_def l1_def [symmetric])
    with True c a show ?thesis by (simp add: reserve_def Let_def l1_def [symmetric])
  next
    case False
    then have "auth_inv now (snd (reserveAdmit ip k v (mget (byIP l1) ip)
        (mget (byKey l1) k) (mget (byUser l1) v) now l1))"
      by (intro auth_inv_reserveAdmit [OF inv1 order_refl a(2)]) (auto simp: atCapacity_def)
    with False c a show ?thesis
      by (simp add: reserve_def Let_def l1_def [symmetric])
  qed
qed

subsection \<open>Reachable states\<close>

text \<open>What the SMTP server does with a limiter: create it, then interleave the four
  operations in any order, under a clock that does not run backwards. The addresses are
  printed network addresses and hold no NUL byte. \<open>auth_reach\<close> leaves out exactly the reservations
  whose eviction takes away the entry of their own address.\<close>

inductive auth_reach :: "gtime \<Rightarrow> authLimiter \<Rightarrow> bool" where
  new: "zero_time \<le> now \<Longrightarrow> auth_reach now (newAuthLimiterSized mi mk ex pr now)"
| reserve: "auth_reach T l \<Longrightarrow> T \<le> now \<Longrightarrow> NUL \<notin> set ip \<Longrightarrow> \<not> evictsOwnAddress ip u now l \<Longrightarrow>
    auth_reach now (snd (reserve ip u now l))"
| failed: "auth_reach T l \<Longrightarrow> T \<le> now \<Longrightarrow> NUL \<notin> set ip \<Longrightarrow> auth_reach now (failed ip u now l)"
| canceled: "auth_reach T l \<Longrightarrow> T \<le> now \<Longrightarrow> NUL \<notin> set ip \<Longrightarrow> auth_reach now (canceled ip u now l)"
| succeeded: "auth_reach T l \<Longrightarrow> T \<le> now \<Longrightarrow> NUL \<notin> set ip \<Longrightarrow> auth_reach now (succeeded ip u now l)"

lemma auth_inv_new: "zero_time \<le> now \<Longrightarrow> auth_inv now (newAuthLimiterSized mi mk ex pr now)"
  by (simp add: newAuthLimiterSized_def auth_inv_def mapsOk_def usersOk_def maxAuthIPEntries_def
      maxAuthKeyEntries_def maxAuthUserEntries_def)

lemma auth_reach_inv: "auth_reach T l \<Longrightarrow> auth_inv T l"
  by (induction rule: auth_reach.induct)
    (auto intro: auth_inv_new auth_inv_reserve auth_inv_failed auth_inv_canceled auth_inv_succeeded)

lemma auth_inv_assert:
  assumes inv: "auth_inv T l"
  shows "assertAggregatesLocked l"
proof -
  from inv have m: "mapsOk T (byIP l) (byKey l)" and us: "usersOk (byUser l)"
    by (simp_all add: auth_inv_def)
  from m have d: "distinct (mkeys (byIP l))" "distinct (mkeys (byKey l))" by (simp_all add: mapsOk_def)
  have key: "keyOk T (byIP l) (fst p) (snd p)" if "p \<in> set (byKey l)" for p
    using m d that by (simp add: mapsOk_def in_set_mgetD)
  have sums: "0 \<le> failSum a (byKey l)" "0 \<le> flightSum a (byKey l)" for a
    unfolding failSum_def flightSum_def using key by (auto intro!: msum_nonneg simp: keyOk_def)
  have ipk: "ipOk T (byKey l) (fst p) (snd p)" if "p \<in> set (byIP l)" for p
    using m d that by (simp add: mapsOk_def in_set_mgetD)
  have u: "userOk (snd p)" if "p \<in> set (byUser l)" for p
    using us that unfolding usersOk_def by (blast dest: in_set_mgetD)
  have cover: "ipFromKey k \<in> set (mkeys (byIP l))" if "k \<in> set (mkeys (byKey l))" for k
  proof -
    from that obtain st where "(k, st) \<in> set (byKey l)" by auto
    with key [of "(k, st)"] obtain ist where "mget (byIP l) (ipFromKey k) = Some ist"
      by (auto simp: keyOk_def)
    then show ?thesis by (metis map_of_eq_None_iff option.distinct(1) set_map)
  qed
  have "\<forall>p \<in> set (byKey l). \<not> (failures (snd p) < 0 \<or> inFlight (snd p) < 0)"
    using key by (force simp: keyOk_def not_less)
  moreover have "\<forall>p \<in> set (byIP l). \<not> (failures (snd p) < 0 \<or> inFlight (snd p) < 0) \<and>
        failures (snd p) = failSum (fst p) (byKey l) \<and> inFlight (snd p) = flightSum (fst p) (byKey l)"
    using ipk sums by (auto simp: ipOk_def not_less)
  moreover have "\<forall>p \<in> set (byUser l). failures (snd p) = 0 \<and> 0 < inFlight (snd p) \<and>
        inFlight (snd p) \<le> freeAttempts"
    using u by (auto simp: userOk_def)
  ultimately show ?thesis
    using cover inv unfolding assertAggregatesLocked_def auth_inv_def by blast
qed

subsection \<open>Lockouts are kept\<close>

lemma forcePrune_keeps_locked:
  assumes inv: "auth_inv T l" and T: "T \<le> now" and k: "mget (byKey l) k = Some st" and lock: "now < until st"
  shows "mget (byKey (forcePrune now l)) k = Some st"
proof -
  define l1 where "l1 = l\<lparr>pruned := now, fullSweeps := fullSweeps l + 1\<rparr>"
  have inv1: "auth_inv now l1" using auth_inv_mono [OF inv T] by (simp add: l1_def auth_inv_fields)
  then have d1: "distinct (mkeys (byKey l1))" by (simp add: auth_inv_def mapsOk_def)
  have "safeToPrune (expiry l1) (snd p) now \<Longrightarrow> p \<in> set (byKey l1) \<Longrightarrow> fst p \<noteq> k" for p
    using in_set_mgetD [OF d1, of p] k lock by (auto simp: l1_def safeToPrune_def split: if_splits)
  moreover have "byKey (forcePrune now l) = byKey (pruneKeys now l1 (byKey l1))"
    by (simp add: forcePrune_def Let_def l1_def)
  moreover have "\<forall>j. mget (byKey (pruneKeys now l1 (byKey l1))) j =
       (if \<exists>p \<in> set (byKey l1). fst p = j \<and> safeToPrune (expiry l1) (snd p) now then None
        else mget (byKey l1) j)"
    using pruneKeys_spec [OF inv1 d1] d1 by (simp add: in_set_mgetD)
  ultimately show ?thesis using k by (auto simp: l1_def)
qed

lemma reserveAdmit_locked:
  "now < until st \<Longrightarrow> reserveAdmit ip k u i (Some st) us now l = (False, l)"
  by (simp add: reserveAdmit_def)

lemma reserveFull_locked:
  assumes inv: "auth_inv now l" and k: "mget (byKey l) k = Some st" and lock: "now < until st"
    and ip: "ip = ipFromKey k"
  shows "\<not> fst (reserveFull ip k u us now l)"
proof (cases "time_sub now (lastCapSweep l) < capSweepInterval")
  case True
  then show ?thesis by (simp add: reserveFull_def)
next
  case False
  define l2 where "l2 = forcePrune now (l\<lparr>lastCapSweep := now\<rparr>)"
  have inv1: "auth_inv now (l\<lparr>lastCapSweep := now\<rparr>)" using inv by (simp add: auth_inv_fields)
  have k2: "mget (byKey l2) k = Some st"
    unfolding l2_def using forcePrune_keeps_locked [OF inv1 order_refl _ lock] k by simp
  have "auth_inv now l2" unfolding l2_def by (rule auth_inv_forcePrune [OF inv1 order_refl])
  then have "keyOk now (byIP l2) k st" using k2 by (simp add: auth_inv_def mapsOk_def)
  then obtain ist where "mget (byIP l2) ip = Some ist" using ip by (auto simp: keyOk_def)
  with k2 False lock show ?thesis
    by (simp add: reserveFull_def Let_def l2_def [symmetric] roomForIP_def reserveEvicting_def
        reserveAdmit_locked)
qed



text \<open>C23: The exception is real. A reservation that needs room among the identities and
  evicts the only identity of the reserving address is granted, but its address entry has
  left the map: the reservation is not counted for the address and the limiter's own
  consistency check fails.\<close>

theorem auth_self_eviction_breaks_aggregates:
  "\<exists>l. auth_reach 2 l \<and> NUL \<notin> set ''1'' \<and> fst (reserve ''1'' ''b'' 3 l) \<and>
     mget (byIP (snd (reserve ''1'' ''b'' 3 l))) ''1'' = None \<and>
     \<not> assertAggregatesLocked (snd (reserve ''1'' ''b'' 3 l))"
proof -
  define l0 where "l0 = newAuthLimiterSized 2 1 0 0 0"
  define l1 where "l1 = failed ''1'' ''a'' 2 (snd (reserve ''1'' ''a'' 1 l0))"
  have "auth_reach 0 l0" unfolding l0_def by (rule auth_reach.new) (simp add: zero_time_def)
  then have "auth_reach 1 (snd (reserve ''1'' ''a'' 1 l0))"
    by (rule auth_reach.reserve) (simp_all add: NUL_def l0_def, code_simp)
  then have "auth_reach 2 l1" unfolding l1_def by (rule auth_reach.failed) (simp_all add: NUL_def)
  moreover have "fst (reserve ''1'' ''b'' 3 l1) \<and>
     mget (byIP (snd (reserve ''1'' ''b'' 3 l1))) ''1'' = None \<and>
     \<not> assertAggregatesLocked (snd (reserve ''1'' ''b'' 3 l1))"
    unfolding l1_def l0_def by code_simp
  ultimately show ?thesis by (auto simp: NUL_def)
qed

text \<open>A run for the witness: \<open>n\<close> wrong passwords for \<open>a\<close> from address \<open>1\<close>, one at each tick.\<close>

primrec wrongPasswords :: "nat \<Rightarrow> authLimiter" where
  "wrongPasswords 0 = newAuthLimiterSized 2 2 0 0 0"
| "wrongPasswords (Suc n) =
     failed ''1'' ''a'' (int (Suc n)) (snd (reserve ''1'' ''a'' (int (Suc n)) (wrongPasswords n)))"

lemma wrongPasswords_step:
  assumes "auth_reach (int n) (wrongPasswords n)" "\<not> evictsOwnAddress ''1'' ''a'' (int (Suc n)) (wrongPasswords n)"
  shows "auth_reach (int (Suc n)) (wrongPasswords (Suc n))"
proof -
  have "auth_reach (int (Suc n)) (snd (reserve ''1'' ''a'' (int (Suc n)) (wrongPasswords n)))"
    by (rule auth_reach.reserve [OF assms(1) _ _ assms(2)]) (simp_all add: NUL_def)
  then show ?thesis unfolding wrongPasswords.simps by (rule auth_reach.failed) (simp_all add: NUL_def)
qed

lemma wrongPasswords_reach: "auth_reach 5 (wrongPasswords 5)"
proof -
  have 0: "auth_reach (int 0) (wrongPasswords 0)"
    using auth_reach.new [of 0] by (simp add: zero_time_def)
  have ne: "list_all (\<lambda>n. \<not> evictsOwnAddress ''1'' ''a'' (int (Suc n)) (wrongPasswords n)) [0, 1, 2, 3, 4]" by code_simp
  have "auth_reach (int n) (wrongPasswords n)" if "n \<le> 5" for n
    using that
  proof (induction n)
    case 0
    then show ?case using \<open>auth_reach (int 0) (wrongPasswords 0)\<close> by simp
  next
    case (Suc n)
    then have "n = 0 \<or> n = 1 \<or> n = 2 \<or> n = 3 \<or> n = 4" by presburger
    with ne have "\<not> evictsOwnAddress ''1'' ''a'' (int (Suc n)) (wrongPasswords n)" by auto
    with Suc show ?case by (intro wrongPasswords_step) simp_all
  qed
  from this [of 5] show ?thesis by simp
qed

text \<open>C18: An identity under a lockout cannot reserve: until its lockout ends every
  reservation for it is refused, whatever sweeps and evictions the attempt triggers.\<close>

theorem auth_lockout_enforced:
  assumes "auth_reach T l" "T \<le> now" "NUL \<notin> set ip"
    "canonicalLimiterKey ip u = (a, k, v)" "mget (byKey l) k = Some st" "now < until st"
  shows "\<not> fst (reserve ip u now l)"
proof -
  have inv: "auth_inv T l" using assms(1) by (rule auth_reach_inv)
  have a: "a = ip" "ip = ipFromKey k" using assms(3,4) by (auto dest: ipFromKey_canonical)
  define l1 where "l1 = maybePeriodicPrune now l"
  have inv1: "auth_inv now l1" unfolding l1_def by (rule auth_inv_maybePeriodicPrune [OF inv assms(2)])
  have k1: "mget (byKey l1) k = Some st"
    using forcePrune_keeps_locked [OF inv assms(2,5,6)] assms(5) by (simp add: l1_def maybePeriodicPrune_def)
  show ?thesis
    using reserveFull_locked [OF inv1 k1 assms(6) a(2)] assms(4,6) a k1
    by (simp add: reserve_def Let_def l1_def [symmetric] reserveAdmit_locked)
qed

theorem auth_lockout_enforced_witness:
  "\<not> fst (reserve ''1'' ''A '' 6 (wrongPasswords 5))"
proof -
  have c: "canonicalLimiterKey ''1'' ''A '' = (''1'', ''1'' @ NUL # ''a'', ''a'')" by code_simp
  have k: "mget (byKey (wrongPasswords 5)) (''1'' @ NUL # ''a'') =
      Some \<lparr>failures = 5, until = 5 + 2 * second, seen = 5, inFlight = 0\<rparr>" by code_simp
  show ?thesis
    by (rule auth_lockout_enforced [OF wrongPasswords_reach _ _ c k])
      (simp_all add: NUL_def second_def)
qed

text \<open>C19: A lockout is at most five minutes: a failure that starts one sets its end to at
  most \<open>lockoutMax\<close> after the failure, strictly in the future, and a further failure never
  shortens the lockout the next one gets.\<close>

theorem auth_lockout_bounds:
  "freeAttempts \<le> failures st + 1 \<Longrightarrow>
     now < until (failState now st) \<and> until (failState now st) \<le> now + lockoutMax \<and>
     until (failState now st) - now \<le> until (failState now (failState now st)) - now"
  using lockout_bounds [of "failures st + 1"] lockout_mono [of "failures st + 1" "failures st + 1 + 1"]
  by simp

theorem auth_lockout_bounds_witness:
  "10 < until (failState 10 (newAttemptState\<lparr>failures := 4, inFlight := 1\<rparr>)) \<and>
   until (failState 10 (newAttemptState\<lparr>failures := 4, inFlight := 1\<rparr>)) \<le> 10 + lockoutMax"
  using auth_lockout_bounds [of "newAttemptState\<lparr>failures := 4, inFlight := 1\<rparr>" 10]
  by (simp add: freeAttempts_def)

end
