(* ===== verification/Errors.thy ===== *)
theory Errors
  imports Prelude
begin

text \<open>
  Error values, \<open>src/internal/queue/errors.go\<close>. A Go error is a tree: a sentinel, a
  message, an operating system error number, or a value that wraps further errors
  (\<open>fmt.Errorf\<close> with \<open>%w\<close>, \<open>errors.Join\<close>, \<open>acceptanceUnknownError\<close>). \<open>errors.Is\<close> and
  \<open>errors.AsType\<close> search the tree in pre-order. A result of type \<open>error\<close> is an
  \<open>gerror option\<close>, \<open>None\<close> for nil; texts of messages are kept only where one names the case.
\<close>

datatype sentinel =
    ErrQueueFull | ErrInsufficientDisk | ErrSpoolFull | ErrInvalidID | ErrReadOnly
  | ErrQueueBusy | ErrQueueClosed | ErrIDConflict | ErrCleanup | ErrCorrupt
  | ErrAcceptanceUnknown | ErrNilEnvelope
  | OsErrNotExist | OsErrExist | CtxErr

datatype gerror =
    Sentinel sentinel
  | Msg string
  | Errno int
  | Wrap string "gerror list"
  | AcceptanceUnknownError gerror

text \<open>\<open>syscall.Errno.Is\<close> on the two portable sentinels (ENOENT; EEXIST and ENOTEMPTY).\<close>

definition errnoIs :: "int \<Rightarrow> sentinel \<Rightarrow> bool" where
  "errnoIs n s \<longleftrightarrow> (s = OsErrNotExist \<and> n = 2) \<or> (s = OsErrExist \<and> (n = 17 \<or> n = 39))"

fun errors_Is :: "gerror \<Rightarrow> sentinel \<Rightarrow> bool" where
  "errors_Is (Sentinel t) s \<longleftrightarrow> t = s"
| "errors_Is (Msg m) s \<longleftrightarrow> False"
| "errors_Is (Errno n) s \<longleftrightarrow> errnoIs n s"
| "errors_Is (Wrap m es) s \<longleftrightarrow> list_ex (\<lambda>e. errors_Is e s) es"
| "errors_Is (AcceptanceUnknownError c) s \<longleftrightarrow> s = ErrAcceptanceUnknown \<or> errors_Is c s"

text \<open>\<open>errors.AsType[syscall.Errno]\<close>: the first error number of the tree.\<close>

fun errors_AsErrno :: "gerror \<Rightarrow> int option" and errors_AsErrnos :: "gerror list \<Rightarrow> int option" where
  "errors_AsErrno (Sentinel t) = None"
| "errors_AsErrno (Msg m) = None"
| "errors_AsErrno (Errno n) = Some n"
| "errors_AsErrno (Wrap m es) = errors_AsErrnos es"
| "errors_AsErrno (AcceptanceUnknownError c) = errors_AsErrno c"
| "errors_AsErrnos [] = None"
| "errors_AsErrnos (e # es) =
     (case errors_AsErrno e of Some n \<Rightarrow> Some n | None \<Rightarrow> errors_AsErrnos es)"

text \<open>\<open>errors.AsType[*acceptanceUnknownError]\<close>: the cause of the first one of the tree.\<close>

fun errors_AsUnknown :: "gerror \<Rightarrow> gerror option" and errors_AsUnknowns :: "gerror list \<Rightarrow> gerror option" where
  "errors_AsUnknown (Sentinel t) = None"
| "errors_AsUnknown (Msg m) = None"
| "errors_AsUnknown (Errno n) = None"
| "errors_AsUnknown (Wrap m es) = errors_AsUnknowns es"
| "errors_AsUnknown (AcceptanceUnknownError c) = Some c"
| "errors_AsUnknowns [] = None"
| "errors_AsUnknowns (e # es) =
     (case errors_AsUnknown e of Some n \<Rightarrow> Some n | None \<Rightarrow> errors_AsUnknowns es)"

definition IsCorruption :: "gerror option \<Rightarrow> bool" where
  "IsCorruption err = (case err of None \<Rightarrow> False | Some e \<Rightarrow> errors_Is e ErrCorrupt)"

definition IsAcceptanceUnknown :: "gerror option \<Rightarrow> bool" where
  "IsAcceptanceUnknown err = (case err of None \<Rightarrow> False | Some e \<Rightarrow> errors_Is e ErrAcceptanceUnknown)"

definition IsStoragePressure :: "gerror \<Rightarrow> bool" where
  "IsStoragePressure e =
     (if errors_Is e ErrSpoolFull \<or> errors_Is e ErrInsufficientDisk then True
      else (case errors_AsErrno e of Some n \<Rightarrow> n = 28 \<or> n = 122 \<or> n = 112 | None \<Rightarrow> False))"

definition acceptanceUnknown :: "gerror \<Rightarrow> gerror" where
  "acceptanceUnknown cause = AcceptanceUnknownError cause"

definition definiteAcceptanceCause :: "gerror \<Rightarrow> gerror" where
  "definiteAcceptanceCause e = (case errors_AsUnknown e of Some c \<Rightarrow> c | None \<Rightarrow> e)"

definition corruptionf :: "string \<Rightarrow> gerror" where
  "corruptionf m = Wrap m [Sentinel ErrCorrupt]"

lemma IsAcceptanceUnknown_unknown [simp]: "IsAcceptanceUnknown (Some (acceptanceUnknown c))"
  by (simp add: IsAcceptanceUnknown_def acceptanceUnknown_def)

lemma definite_acceptanceUnknown [simp]: "definiteAcceptanceCause (acceptanceUnknown c) = c"
  by (simp add: definiteAcceptanceCause_def acceptanceUnknown_def)

lemma IsCorruption_corruptionf [simp]: "IsCorruption (Some (corruptionf m))"
  by (simp add: IsCorruption_def corruptionf_def)

end
