(* ===== verification/Envelope.thy ===== *)
theory Envelope
  imports Errors GoStrings "HOL-Library.Word"
begin

text \<open>
  The queued metadata of a message, \<open>src/internal/queue/envelope.go\<close>, and the identifiers of
  queue entries, \<open>src/internal/queue/identity.go\<close>. The transient fields \<open>EnqueuedAt\<close> (never
  read) is left out; \<open>index\<close> is the envelope's position in its owner's heap.
\<close>

type_synonym uint64 = "64 word"

definition StatusPending :: string where
  "StatusPending = ''pending''"

definition StatusSent :: string where
  "StatusSent = ''sent''"

definition StatusFailed :: string where
  "StatusFailed = ''failed''"

definition maxEnvelopeMetadata :: int where
  "maxEnvelopeMetadata = 4194304"

definition maxEnvelopeRecipients :: int where
  "maxEnvelopeRecipients = 1000"

definition maxEnvelopeStringBytes :: int where
  "maxEnvelopeStringBytes = 4096"

definition maxEnvelopeDetailBytes :: int where
  "maxEnvelopeDetailBytes = 65536"

definition maxEnvelopeAttempts :: int where
  "maxEnvelopeAttempts = 1048576"

definition maxEnvelopeRevision :: uint64 where
  "maxEnvelopeRevision = 18446744073709551614"

definition bodyDigestPrefix :: string where
  "bodyDigestPrefix = ''sha256:''"

record Body =
  Offset :: int
  BodySize :: int
  Digest :: string
  BodyEightBit :: bool

record Recipient =
  Address :: string
  Domain :: string
  BodyIndex :: int
  RStatus :: string
  Detail :: string
  Code :: int
  EnhancedCode :: string

record Envelope =
  ID :: string
  Incarnation :: string
  Revision :: uint64
  Username :: string
  Sender :: string
  Recipients :: "Recipient list"
  Bodies :: "Body list"
  Size :: int
  Created :: gtime
  Attempts :: int
  NextAttempt :: gtime
  LastError :: string
  SMTPUTF8 :: bool
  EightBit :: bool
  BodyDigest :: string
  DSNIDLink :: string
  DSNSourceID :: string
  DSNSourceIncarnation :: string
  DSNSourceRevision :: uint64
  DSNGeneration :: uint64
  PreferredDomain :: string
  index :: int

subsection \<open>Envelopes\<close>

definition Pending :: "Envelope \<Rightarrow> int" where
  "Pending e = int (length (filter (\<lambda>r. RStatus r = StatusPending) (Recipients e)))"

definition Failed :: "Envelope \<Rightarrow> int" where
  "Failed e = int (length (filter (\<lambda>r. RStatus r = StatusFailed) (Recipients e)))"

text \<open>The selected body; \<open>None\<close> where the source would panic with an index out of range.\<close>

definition bodyOf :: "Envelope \<Rightarrow> nat \<Rightarrow> Body option" where
  "bodyOf e r =
     (if r < length (Recipients e)
      then (let b = BodyIndex (Recipients e ! r)
            in if 0 \<le> b \<and> b < int (length (Bodies e)) then Some (Bodies e ! nat b) else None)
      else None)"

definition MessageSize :: "Envelope \<Rightarrow> nat \<Rightarrow> int option" where
  "MessageSize e r = (if Bodies e = [] then Some (Size e) else map_option BodySize (bodyOf e r))"

definition MessageEightBit :: "Envelope \<Rightarrow> nat \<Rightarrow> bool option" where
  "MessageEightBit e r = (if Bodies e = [] then Some (EightBit e) else map_option BodyEightBit (bodyOf e r))"

definition NewBody :: "(string \<Rightarrow> string) \<Rightarrow> int \<Rightarrow> string \<Rightarrow> bool \<Rightarrow> Body" where
  "NewBody bodyDigest offset dat eightBit =
     \<lparr>Offset = offset, BodySize = int (length dat), Digest = bodyDigest dat, BodyEightBit = eightBit\<rparr>"

text \<open>The clone has its own copies of the two slices, which values of HOL always have.\<close>

definition cloneEnvelope :: "Envelope \<Rightarrow> Envelope" where
  "cloneEnvelope e = e\<lparr>index := -1\<rparr>"

definition quotaOwner :: "Envelope \<Rightarrow> string" where
  "quotaOwner e = (if DSNSourceID e \<noteq> '''' then '''' else Username e)"

subsection \<open>Identifiers\<close>

definition is_alnum :: "char \<Rightarrow> bool" where
  "is_alnum c \<longleftrightarrow> is_upper c \<or> is_lower c \<or> is_digit c"

text \<open>The regular expression \<open>^[A-Za-z0-9][A-Za-z0-9._-]{0,190}$\<close>.\<close>

definition idPattern :: "string \<Rightarrow> bool" where
  "idPattern s = (case s of [] \<Rightarrow> False
     | c # cs \<Rightarrow> is_alnum c \<and> length cs \<le> 190 \<and>
         list_all (\<lambda>d. is_alnum d \<or> d = CHR ''.'' \<or> d = CHR ''_'' \<or> d = CHR ''-'') cs)"

text \<open>\<open>filepath.Base\<close>, \<open>filepath.IsAbs\<close> and \<open>filepath.Clean\<close> with the separator \<open>/\<close>.\<close>

definition stripSlashes :: "string \<Rightarrow> string" where
  "stripSlashes s = rev (dropWhile (\<lambda>c. c = CHR ''/'') (rev s))"

definition filepath_Base :: "string \<Rightarrow> string" where
  "filepath_Base s =
     (if s = [] then ''.''
      else if stripSlashes s = [] then ''/''
      else last (splitOn (CHR ''/'') (stripSlashes s)))"

definition filepath_IsAbs :: "string \<Rightarrow> bool" where
  "filepath_IsAbs s \<longleftrightarrow> (case s of [] \<Rightarrow> False | c # _ \<Rightarrow> c = CHR ''/'')"

fun cleanStep :: "bool \<Rightarrow> string \<Rightarrow> string list \<Rightarrow> string list" where
  "cleanStep rooted c stack =
     (if c = [] \<or> c = ''.'' then stack
      else if c = ''..''
      then (if stack \<noteq> [] \<and> hd stack \<noteq> ''..'' then tl stack
            else if rooted then stack else c # stack)
      else c # stack)"

fun joinOn :: "char \<Rightarrow> string list \<Rightarrow> string" where
  "joinOn c [] = []"
| "joinOn c [w] = w"
| "joinOn c (w # ws) = w @ c # joinOn c ws"

definition filepath_Clean :: "string \<Rightarrow> string" where
  "filepath_Clean s =
     (let rooted = filepath_IsAbs s;
          out = joinOn (CHR ''/'') (rev (fold (cleanStep rooted) (splitOn (CHR ''/'') s) []))
      in if rooted then CHR ''/'' # out else if out = [] then ''.'' else out)"

definition ValidateID :: "string \<Rightarrow> gerror option" where
  "ValidateID s =
     (if s = [] \<or> \<not> idPattern s then Some (Sentinel ErrInvalidID)
      else if s = ''.'' \<or> s = ''..'' \<or> CHR ''/'' \<in> set s \<or> CHR 0x5C \<in> set s
      then Some (Sentinel ErrInvalidID)
      else if filepath_Base s \<noteq> s \<or> filepath_IsAbs s then Some (Sentinel ErrInvalidID)
      else if filepath_Clean s \<noteq> s then Some (Sentinel ErrInvalidID)
      else None)"

text \<open>Decimal digits of an unsigned number (\<open>%d\<close>).\<close>

fun decimal :: "nat \<Rightarrow> string" where
  "decimal n = (if n < 10 then [char_of (48 + n)] else decimal (n div 10) @ [char_of (48 + n mod 10)])"

declare decimal.simps [simp del]

text \<open>\<open>hexdigest\<close> stands for the lower-case hexadecimal SHA-256 of a byte string.\<close>

definition DSNID :: "(string \<Rightarrow> string) \<Rightarrow> string \<Rightarrow> string \<Rightarrow> uint64 \<Rightarrow> string" where
  "DSNID hexdigest sourceID incarnation generation =
     ''dsn.'' @ hexdigest (''outboxd-dsn-v1'' @ NUL # sourceID @ NUL # incarnation @ NUL #
        decimal (unat generation))"

subsection \<open>Accepted identifiers are single path elements\<close>

lemma splitOn_none: "c \<notin> set s \<Longrightarrow> splitOn c s = [s]"
  by (induction s) auto

lemma idPattern_chars:
  assumes "idPattern s" "c \<in> set s"
  shows "is_alnum c \<or> c = CHR ''.'' \<or> c = CHR ''_'' \<or> c = CHR ''-''"
  using assms by (auto simp: idPattern_def list_all_iff split: list.splits)

lemma idPattern_no_separator:
  assumes "idPattern s"
  shows "CHR ''/'' \<notin> set s" "CHR 0x5C \<notin> set s" "NUL \<notin> set s"
  using idPattern_chars [OF assms, of "CHR ''/''"] idPattern_chars [OF assms, of "CHR 0x5C"]
    idPattern_chars [OF assms, of NUL]
  by (auto simp: is_alnum_def is_upper_def is_lower_def is_digit_def code_def NUL_def)

lemma idPattern_not_dots: "idPattern s \<Longrightarrow> s \<noteq> '''' \<and> s \<noteq> ''.'' \<and> s \<noteq> ''..''"
  by (auto simp: idPattern_def is_alnum_def is_upper_def is_lower_def is_digit_def code_def)

lemma no_slash_path:
  assumes "CHR ''/'' \<notin> set s" "s \<noteq> []" "s \<noteq> ''.''"
  shows "filepath_Base s = s" "\<not> filepath_IsAbs s" "filepath_Clean s = s"
proof -
  have strip: "stripSlashes s = s"
    using assms(1,2) by (cases s rule: rev_cases) (auto simp: stripSlashes_def)
  show "filepath_Base s = s"
    using assms strip by (simp add: filepath_Base_def splitOn_none)
  show abs: "\<not> filepath_IsAbs s"
    using assms(1) by (auto simp: filepath_IsAbs_def split: list.splits)
  show "filepath_Clean s = s"
    using assms abs by (auto simp: filepath_Clean_def splitOn_none)
qed

text \<open>C22: The identifier check accepts exactly the identifiers of the pattern: the checks for
  path traversal that follow the pattern in the code never decide, and an accepted
  identifier is one relative path element, at most 191 bytes, that cleaning leaves alone.\<close>

theorem ValidateID_exact:
  "ValidateID s = (if idPattern s then None else Some (Sentinel ErrInvalidID)) \<and>
   (idPattern s \<longrightarrow> s \<notin> {'''', ''.'', ''..''} \<and> CHR ''/'' \<notin> set s \<and> CHR 0x5C \<notin> set s \<and>
      length s \<le> 191 \<and> filepath_Clean s = s \<and> filepath_Clean (''q/'' @ s) = ''q/'' @ s)"
proof (cases "idPattern s")
  case True
  note sep = idPattern_no_separator [OF True] and nd = idPattern_not_dots [OF True]
  have "length s \<le> 191" using True by (auto simp: idPattern_def split: list.splits)
  moreover have "filepath_Clean (''q/'' @ s) = ''q/'' @ s"
    using sep(1) nd by (simp add: filepath_Clean_def filepath_IsAbs_def splitOn_none)
  ultimately show ?thesis
    using True sep nd no_slash_path [OF sep(1)] by (simp add: ValidateID_def)
next
  case False
  then show ?thesis by (simp add: ValidateID_def)
qed

theorem ValidateID_exact_witness:
  "ValidateID ''1a2b.9-x'' = None \<and> filepath_Clean ''q/1a2b.9-x'' = ''q/1a2b.9-x''"
proof -
  have "idPattern ''1a2b.9-x''" by code_simp
  with ValidateID_exact [of "''1a2b.9-x''"] show ?thesis by simp
qed

end
