(* ===== verification/GoHeap.thy ===== *)
theory GoHeap
  imports Prelude "HOL-Library.Multiset"
begin

text \<open>
  Go's \<open>container/heap\<close>, the binary heap under the delivery schedule. \<open>heapInterface\<close> is the
  interface \<open>heap.Interface\<close> a client implements over a state of its own; the algorithms call
  it and nothing else. The locale \<open>go_heap\<close> states what a client has to promise of its
  implementation (a list it stands for, an order, what a swap does) and proves once that
  every operation keeps the elements and the heap order.
\<close>

subsection \<open>The interface and the algorithms\<close>

record ('s, 'x) heapInterface =
  Len :: "'s \<Rightarrow> nat"
  Less :: "'s \<Rightarrow> nat \<Rightarrow> nat \<Rightarrow> bool"
  Swap :: "nat \<Rightarrow> nat \<Rightarrow> 's \<Rightarrow> 's"
  PushOp :: "'x \<Rightarrow> 's \<Rightarrow> 's"
  PopOp :: "'s \<Rightarrow> 'x \<times> 's"

text \<open>For \<open>j = 0\<close> Go computes the parent as \<open>(-1)/2 = 0\<close>, as the truncated subtraction does.\<close>

definition par :: "nat \<Rightarrow> nat" where
  "par j = (j - 1) div 2"

lemma par_less: "par j \<noteq> j \<Longrightarrow> par j < j"
  unfolding par_def by linarith

lemma par_iff: "0 < k \<Longrightarrow> par k = i \<longleftrightarrow> k = 2 * i + 1 \<or> k = 2 * i + 2"
  unfolding par_def by linarith

function heap_up :: "('s, 'x, 'z) heapInterface_scheme \<Rightarrow> 's \<Rightarrow> nat \<Rightarrow> 's" where
  "heap_up I s j =
     (if par j = j \<or> \<not> Less I s j (par j) then s else heap_up I (Swap I (par j) j s) (par j))"
  by pat_completeness auto

termination
  by (relation "measure (\<lambda>(I, s, j). j)") (auto intro: par_less)

declare heap_up.simps [simp del]

text \<open>\<open>down\<close>: the new state and the position where the element came to rest.\<close>

function heap_down :: "('s, 'x, 'z) heapInterface_scheme \<Rightarrow> 's \<Rightarrow> nat \<Rightarrow> nat \<Rightarrow> 's \<times> nat" where
  "heap_down I s i n =
     (let j1 = 2 * i + 1
      in if j1 \<ge> n then (s, i)
         else
           (let j = (if j1 + 1 < n \<and> Less I s (j1 + 1) j1 then j1 + 1 else j1)
            in if \<not> Less I s j i then (s, i) else heap_down I (Swap I i j s) j n))"
  by pat_completeness auto

termination
  by (relation "measure (\<lambda>(I, s, i, n). n - i)") (auto split: if_splits)

declare heap_down.simps [simp del]

definition heap_Push :: "('s, 'x, 'z) heapInterface_scheme \<Rightarrow> 'x \<Rightarrow> 's \<Rightarrow> 's" where
  "heap_Push I x s = (let s1 = PushOp I x s in heap_up I s1 (Len I s1 - 1))"

definition heap_Pop :: "('s, 'x, 'z) heapInterface_scheme \<Rightarrow> 's \<Rightarrow> 'x \<times> 's" where
  "heap_Pop I s =
     (let n = Len I s - 1; (s2, _) = heap_down I (Swap I 0 n s) 0 n in PopOp I s2)"

text \<open>\<open>down\<close> and, where it did not move the element, \<open>up\<close>.\<close>

definition heap_settle :: "('s, 'x, 'z) heapInterface_scheme \<Rightarrow> nat \<Rightarrow> nat \<Rightarrow> 's \<Rightarrow> 's" where
  "heap_settle I i n s = (let (s1, i1) = heap_down I s i n in if i1 > i then s1 else heap_up I s1 i)"

definition heap_Remove :: "('s, 'x, 'z) heapInterface_scheme \<Rightarrow> nat \<Rightarrow> 's \<Rightarrow> 'x \<times> 's" where
  "heap_Remove I i s =
     (let n = Len I s - 1
      in PopOp I (if n \<noteq> i then heap_settle I i n (Swap I i n s) else s))"

definition heap_Fix :: "('s, 'x, 'z) heapInterface_scheme \<Rightarrow> nat \<Rightarrow> 's \<Rightarrow> 's" where
  "heap_Fix I i s = heap_settle I i (Len I s) s"

subsection \<open>Heap order on lists of keys\<close>

definition hp :: "nat \<Rightarrow> 'k::linorder list \<Rightarrow> bool" where
  "hp n ks \<longleftrightarrow> (\<forall>k. 0 < k \<and> k < n \<longrightarrow> ks ! par k \<le> ks ! k)"

text \<open>The order holds but for the edges at position \<open>i\<close>, over which it still holds.\<close>

definition hpx :: "nat \<Rightarrow> nat \<Rightarrow> 'k::linorder list \<Rightarrow> bool" where
  "hpx i n ks \<longleftrightarrow>
     (\<forall>k. 0 < k \<and> k < n \<and> k \<noteq> i \<and> par k \<noteq> i \<longrightarrow> ks ! par k \<le> ks ! k) \<and>
     (\<forall>k. 0 < k \<and> k < n \<and> par k = i \<and> 0 < i \<longrightarrow> ks ! par i \<le> ks ! k)"

definition kidsOK :: "nat \<Rightarrow> nat \<Rightarrow> 'k::linorder list \<Rightarrow> bool" where
  "kidsOK i n ks \<longleftrightarrow> (\<forall>k. 0 < k \<and> k < n \<and> par k = i \<longrightarrow> ks ! i \<le> ks ! k)"

definition parOK :: "nat \<Rightarrow> 'k::linorder list \<Rightarrow> bool" where
  "parOK i ks \<longleftrightarrow> i = 0 \<or> ks ! par i \<le> ks ! i"

definition lswap :: "nat \<Rightarrow> nat \<Rightarrow> 'a list \<Rightarrow> 'a list" where
  "lswap i j xs = xs[i := xs ! j, j := xs ! i]"

lemma length_lswap [simp]: "length (lswap i j xs) = length xs"
  by (simp add: lswap_def)

lemma mset_lswap [simp]: "i < length xs \<Longrightarrow> j < length xs \<Longrightarrow> mset (lswap i j xs) = mset xs"
  by (simp add: lswap_def mset_swap)

lemma map_lswap: "i < length xs \<Longrightarrow> j < length xs \<Longrightarrow> map f (lswap i j xs) = lswap i j (map f xs)"
  by (simp add: lswap_def map_update)

lemma nth_lswap:
  "i < length xs \<Longrightarrow> j < length xs \<Longrightarrow>
     lswap i j xs ! k = (if k = j then xs ! i else if k = i then xs ! j else xs ! k)"
  by (auto simp: lswap_def nth_list_update)

lemma hpI: "hpx i n ks \<Longrightarrow> kidsOK i n ks \<Longrightarrow> parOK i ks \<Longrightarrow> hp n ks"
  unfolding hp_def hpx_def kidsOK_def parOK_def by (metis not_gr_zero)

lemma up_step:
  assumes x: "hpx j n ks" and c: "kidsOK j n ks" and j: "j < n" "n \<le> length ks" "0 < j"
    and lt: "ks ! j < ks ! par j"
  shows "hpx (par j) n (lswap (par j) j ks)" "kidsOK (par j) n (lswap (par j) j ks)"
proof -
  define i where "i = par j"
  have ij: "i < j" unfolding i_def par_def using j by linarith
  have sw: "lswap i j ks ! k = (if k = j then ks ! i else if k = i then ks ! j else ks ! k)" for k
    using ij j by (intro nth_lswap) simp_all
  have e: "ks ! par k \<le> ks ! k" if "0 < k" "k < n" "k \<noteq> j" "par k \<noteq> j" for k
    using x that by (simp add: hpx_def)
  have g: "ks ! i \<le> ks ! k" if "0 < k" "k < n" "par k = j" for k
    using x that j by (simp add: hpx_def i_def)
  have lt': "ks ! j < ks ! i" using lt by (simp add: i_def)
  have pk: "par k < k" if "0 < k" for k using that unfolding par_def by linarith
  have kids: "lswap i j ks ! i \<le> lswap i j ks ! k" if k: "0 < k" "k < n" "par k = i" for k
  proof (cases "k = j")
    case True
    then show ?thesis using lt' ij by (simp add: sw)
  next
    case False
    with e [of k] k ij have "ks ! i \<le> ks ! k" by simp
    moreover have "k \<noteq> i" using pk [of k] k by simp
    ultimately show ?thesis using lt' ij False by (simp add: sw)
  qed
  have gp: "lswap i j ks ! par i \<le> lswap i j ks ! k" if k: "0 < k" "k < n" "par k = i" "0 < i" for k
  proof -
    have p: "par i < i" using pk k by simp
    have ei: "ks ! par i \<le> ks ! i" using e [of i] ij j k p by simp
    show ?thesis
    proof (cases "k = j")
      case True
      then show ?thesis using ei p ij by (simp add: sw)
    next
      case False
      with e [of k] k ij have "ks ! i \<le> ks ! k" by simp
      moreover have "k \<noteq> i" using pk [of k] k by simp
      ultimately show ?thesis using ei p ij False by (simp add: sw)
    qed
  qed
  have rest: "lswap i j ks ! par k \<le> lswap i j ks ! k" if k: "0 < k" "k < n" "k \<noteq> i" "par k \<noteq> i" for k
  proof -
    have "k \<noteq> j" using k by (auto simp: i_def)
    with e [of k] g [of k] k show ?thesis by (auto simp: sw)
  qed
  show "hpx (par j) n (lswap (par j) j ks)"
    unfolding hpx_def i_def [symmetric] using rest gp by blast
  show "kidsOK (par j) n (lswap (par j) j ks)"
    unfolding kidsOK_def i_def [symmetric] using kids by blast
qed

lemma down_step:
  assumes x: "hpx i n ks" and n: "j < n" "n \<le> length ks" and pj: "par j = i" "0 < j"
    and least: "\<And>k. 0 < k \<Longrightarrow> k < n \<Longrightarrow> par k = i \<Longrightarrow> ks ! j \<le> ks ! k"
    and lt: "ks ! j < ks ! i"
  shows "hpx j n (lswap i j ks)" "parOK j (lswap i j ks)"
proof -
  have pk: "par k < k" if "0 < k" for k using that unfolding par_def by linarith
  have ij: "i < j" using pk [of j] pj by simp
  have sw: "lswap i j ks ! k = (if k = j then ks ! i else if k = i then ks ! j else ks ! k)" for k
    using ij n by (intro nth_lswap) simp_all
  have e: "ks ! par k \<le> ks ! k" if "0 < k" "k < n" "k \<noteq> i" "par k \<noteq> i" for k
    using x that by (simp add: hpx_def)
  have g: "0 < i \<Longrightarrow> ks ! par i \<le> ks ! j" using x n pj by (simp add: hpx_def)
  have rest: "lswap i j ks ! par k \<le> lswap i j ks ! k" if k: "0 < k" "k < n" "k \<noteq> j" "par k \<noteq> j" for k
  proof (cases "k = i")
    case True
    with pk [of i] g k ij show ?thesis by (simp add: sw)
  next
    case False
    then show ?thesis using e [of k] least [of k] k ij by (auto simp: sw)
  qed
  have gp: "lswap i j ks ! par j \<le> lswap i j ks ! k" if k: "0 < k" "k < n" "par k = j" for k
  proof -
    have "k \<noteq> i" "k \<noteq> j" using pk [of k] k ij by simp_all
    with e [of k] k ij pj show ?thesis by (simp add: sw)
  qed
  show "hpx j n (lswap i j ks)" unfolding hpx_def using rest gp by blast
  show "parOK j (lswap i j ks)" unfolding parOK_def using lt pj ij by (simp add: sw)
qed

lemma hp_least:
  assumes "hp n ks" "k < n"
  shows "ks ! 0 \<le> ks ! k"
  using assms(2)
proof (induction k rule: less_induct)
  case (less k)
  show ?case
  proof (cases "k = 0")
    case False
    then have p: "par k < k" unfolding par_def by linarith
    with less have "ks ! 0 \<le> ks ! par k" by simp
    also have "\<dots> \<le> ks ! k" using assms(1) less False by (simp add: hp_def)
    finally show ?thesis .
  qed simp
qed

lemma hp_hpx: "hp n ks \<Longrightarrow> i < n \<Longrightarrow> hpx i n ks"
proof -
  assume h: "hp n ks" and i: "i < n"
  have "ks ! par i \<le> ks ! k" if "0 < k" "k < n" "par k = i" "0 < i" for k
  proof -
    have "ks ! par i \<le> ks ! i" using h i that by (simp add: hp_def)
    also have "\<dots> \<le> ks ! k" using h that by (auto simp: hp_def)
    finally show ?thesis .
  qed
  then show "hpx i n ks" using h by (auto simp: hp_def hpx_def)
qed

text \<open>An assignment at position \<open>i\<close> breaks the order at that position only.\<close>

lemma hpx_update:
  assumes "hpx i n ks" "\<And>k. k < n \<Longrightarrow> k \<noteq> i \<Longrightarrow> ks' ! k = ks ! k"
  shows "hpx i n ks'"
proof -
  have p: "0 < k \<Longrightarrow> par k < k" for k unfolding par_def by linarith
  show ?thesis
    using assms p unfolding hpx_def by (metis (no_types, lifting) less_trans less_irrefl)
qed

subsection \<open>What a client promises\<close>

text \<open>\<open>view\<close> is the list of elements a state stands for, \<open>ok\<close> the client's invariant, \<open>fr\<close> the
  part of the state no heap operation may touch, \<open>elem\<close> what a pushed or popped value
  contributes to the list, \<open>can\<close> the condition for pushing a value.\<close>

locale go_heap =
  fixes I :: "('s, 'x, 'z) heapInterface_scheme"
    and view :: "'s \<Rightarrow> 'a list"
    and key :: "'a \<Rightarrow> 'k::linorder"
    and ok :: "'s \<Rightarrow> bool"
    and fr :: "'s \<Rightarrow> 'f"
    and elem :: "'x \<Rightarrow> 'f \<Rightarrow> 'a"
    and can :: "'x \<Rightarrow> 's \<Rightarrow> bool"
  assumes len: "ok s \<Longrightarrow> Len I s = length (view s)"
    and less: "ok s \<Longrightarrow> i < length (view s) \<Longrightarrow> j < length (view s) \<Longrightarrow>
      Less I s i j \<longleftrightarrow> key (view s ! i) < key (view s ! j)"
    and swap: "ok s \<Longrightarrow> i < length (view s) \<Longrightarrow> j < length (view s) \<Longrightarrow>
      ok (Swap I i j s) \<and> view (Swap I i j s) = lswap i j (view s) \<and> fr (Swap I i j s) = fr s"
    and push: "ok s \<Longrightarrow> can x s \<Longrightarrow>
      ok (PushOp I x s) \<and> view (PushOp I x s) = view s @ [elem x (fr s)] \<and> fr (PushOp I x s) = fr s"
    and pop: "ok s \<Longrightarrow> view s \<noteq> [] \<Longrightarrow> PopOp I s = (x, s') \<Longrightarrow>
      ok s' \<and> view s' = butlast (view s) \<and> elem x (fr s) = last (view s) \<and> fr s' = fr s \<and> can x s'"
begin

definition keys :: "'s \<Rightarrow> 'k list" where
  "keys s = map key (view s)"

definition heaped :: "'s \<Rightarrow> bool" where
  "heaped s \<longleftrightarrow> ok s \<and> hp (length (view s)) (keys s)"

text \<open>Two states that differ by a rearrangement of the first \<open>n\<close> elements.\<close>

definition sim :: "nat \<Rightarrow> 's \<Rightarrow> 's \<Rightarrow> bool" where
  "sim n s s' \<longleftrightarrow> ok s' \<and> mset (view s') = mset (view s) \<and> fr s' = fr s \<and>
     (\<forall>k. n \<le> k \<longrightarrow> view s' ! k = view s ! k)"

lemma sim_length: "sim n s s' \<Longrightarrow> length (view s') = length (view s)"
  unfolding sim_def by (metis size_mset)

lemma sim_refl: "ok s \<Longrightarrow> sim n s s"
  by (simp add: sim_def)

lemma sim_trans: "sim n s s' \<Longrightarrow> sim n s' s'' \<Longrightarrow> sim n s s''"
  by (simp add: sim_def)

lemma keys_swap:
  "ok s \<Longrightarrow> i < length (view s) \<Longrightarrow> j < length (view s) \<Longrightarrow> keys (Swap I i j s) = lswap i j (keys s)"
  by (simp add: keys_def swap map_lswap)

lemma sim_swap:
  "ok s \<Longrightarrow> i < n \<Longrightarrow> j < n \<Longrightarrow> n \<le> length (view s) \<Longrightarrow> sim n s (Swap I i j s)"
  using swap [of s i j] by (auto simp: sim_def nth_lswap)

lemma less_keys:
  "ok s \<Longrightarrow> i < length (view s) \<Longrightarrow> j < length (view s) \<Longrightarrow> Less I s i j \<longleftrightarrow> keys s ! i < keys s ! j"
  by (simp add: less keys_def)

lemma up_spec:
  assumes "ok s" "hpx j n (keys s)" "kidsOK j n (keys s)" "j < n" "n \<le> length (view s)"
  shows "sim n s (heap_up I s j) \<and> hp n (keys (heap_up I s j))"
  using assms
proof (induction j arbitrary: s rule: less_induct)
  case (less j)
  have len: "length (keys s) = length (view s)" by (simp add: keys_def)
  show ?case
  proof (cases "par j = j \<or> \<not> Less I s j (par j)")
    case True
    have "par j < length (view s)" using less.prems unfolding par_def by linarith
    with True less.prems have "parOK j (keys s)"
      using par_less [of j] by (auto simp: parOK_def less_keys par_def)
    with True less.prems show ?thesis
      by (subst (1 2) heap_up.simps) (simp add: sim_refl hpI)
  next
    case False
    then have j: "0 < j" "par j < j" using par_less [of j] by (auto simp: par_def)
    define s' where "s' = Swap I (par j) j s"
    have lt: "keys s ! j < keys s ! par j" using False less.prems j by (simp add: less_keys)
    have sm: "sim n s s'" unfolding s'_def using less.prems j by (intro sim_swap) simp_all
    have ks: "keys s' = lswap (par j) j (keys s)"
      unfolding s'_def using less.prems j by (intro keys_swap) simp_all
    have "sim n s' (heap_up I s' (par j)) \<and> hp n (keys (heap_up I s' (par j)))"
    proof (rule less.IH)
      show "par j < j" by (rule j(2))
      show "ok s'" using sm by (simp add: sim_def)
      show "hpx (par j) n (keys s')" "kidsOK (par j) n (keys s')"
        unfolding ks using up_step [OF less.prems(2,3,4) _ j(1) lt] less.prems(5) len by simp_all
      show "par j < n" using j less.prems by simp
      show "n \<le> length (view s')" using sim_length [OF sm] less.prems by simp
    qed
    with False sm show ?thesis
      by (subst (1 2) heap_up.simps) (auto simp: s'_def [symmetric] intro: sim_trans)
  qed
qed

lemma down_spec:
  assumes "ok s" "hpx i n (keys s)" "i < n" "n \<le> length (view s)" "heap_down I s i n = (s', i')"
  shows "sim n s s' \<and> i \<le> i' \<and> (if i' = i then s' = s \<and> kidsOK i n (keys s) else hp n (keys s')) \<and>
    (parOK i (keys s) \<longrightarrow> hp n (keys s'))"
  using assms
proof (induction "n - i" arbitrary: s i rule: less_induct)
  case less
  note ok = less.prems(1) and x = less.prems(2) and i = less.prems(3) and n = less.prems(4)
  have len: "length (keys s) = length (view s)" by (simp add: keys_def)
  define j1 where "j1 = 2 * i + 1"
  define j where "j = (if j1 + 1 < n \<and> Less I s (j1 + 1) j1 then j1 + 1 else j1)"
  have unf: "heap_down I s i n = (if j1 \<ge> n \<or> \<not> Less I s j i then (s, i)
      else heap_down I (Swap I i j s) j n)"
    unfolding j_def j1_def by (subst heap_down.simps) (simp add: Let_def)
  have stop: "sim n s s' \<and> i \<le> i' \<and> (if i' = i then s' = s \<and> kidsOK i n (keys s) else hp n (keys s')) \<and>
    (parOK i (keys s) \<longrightarrow> hp n (keys s'))" if "s' = s" "i' = i" "kidsOK i n (keys s)"
    using that ok x hpI [OF x] by (simp add: sim_refl)
  show ?case
  proof (cases "j1 \<ge> n")
    case True
    with less.prems have "s' = s" "i' = i" by (simp_all add: unf)
    moreover have "n \<le> k" if "0 < k" "par k = i" for k
      using that True by (auto simp: par_iff j1_def)
    then have "kidsOK i n (keys s)" unfolding kidsOK_def using not_le by blast
    ultimately show ?thesis by (rule stop)
  next
    case False
    have jn: "j < n" "0 < j" "par j = i" using False by (auto simp: j_def j1_def par_iff)
    have least: "keys s ! j \<le> keys s ! k" if "0 < k" "k < n" "par k = i" for k
    proof -
      have "k = j1 \<or> k = j1 + 1" using that by (auto simp: par_iff j1_def)
      then show ?thesis using that n False ok by (auto simp: j_def less_keys)
    qed
    show ?thesis
    proof (cases "Less I s j i")
      case nl: False
      with False less.prems have "s' = s" "i' = i"
        by (simp_all add: unf)
      moreover have "keys s ! i \<le> keys s ! j" using nl jn i n ok by (simp add: less_keys)
      then have "kidsOK i n (keys s)" using least unfolding kidsOK_def by (blast intro: order_trans)
      ultimately show ?thesis by (rule stop)
    next
      case True
      define t where "t = Swap I i j s"
      have lt: "keys s ! j < keys s ! i" using True jn i n ok by (simp add: less_keys)
      have ij: "i < j" using jn by (auto simp: par_iff)
      have sm: "sim n s t" unfolding t_def using ok i jn n by (intro sim_swap) simp_all
      have ks: "keys t = lswap i j (keys s)" unfolding t_def using ok i jn n by (intro keys_swap) simp_all
      have len': "n \<le> length (keys s)" using n len by simp
      have ds: "hpx j n (keys t)" "parOK j (keys t)"
        unfolding ks by (rule down_step [OF x jn(1) len' jn(3,2) _ lt]; rule least; assumption)+
      have "heap_down I t j n = (s', i')"
        using less.prems False True
        by (simp add: unf t_def)
      then have "sim n t s' \<and> j \<le> i' \<and> (if i' = j then s' = t \<and> kidsOK j n (keys t) else hp n (keys s')) \<and>
          (parOK j (keys t) \<longrightarrow> hp n (keys s'))"
      proof (rule less.hyps [rotated -1])
        show "n - j < n - i" using ij jn by linarith
        show "ok t" using sm by (simp add: sim_def)
        show "hpx j n (keys t)" by (rule ds(1))
        show "n \<le> length (view t)" using sim_length [OF sm] n by simp
        show "j < n" by (rule jn(1))
      qed
      with ds(2) show ?thesis using sm ij by (auto intro: sim_trans)
    qed
  qed
qed

lemma settle_spec:
  assumes "ok s" "hpx i n (keys s)" "i < n" "n \<le> length (view s)"
  shows "sim n s (heap_settle I i n s) \<and> hp n (keys (heap_settle I i n s))"
proof -
  obtain s1 i1 where d: "heap_down I s i n = (s1, i1)" by fastforce
  note down = down_spec [OF assms d]
  show ?thesis
  proof (cases "i1 > i")
    case True
    with d down show ?thesis by (simp add: heap_settle_def)
  next
    case False
    with down have "s1 = s" "kidsOK i n (keys s)" by (auto split: if_splits)
    with d False up_spec [OF assms(1,2) _ assms(3,4)] show ?thesis by (simp add: heap_settle_def)
  qed
qed

lemma heap_Push_spec:
  assumes "heaped s" "can x s"
  shows "heaped (heap_Push I x s)"
    "mset (view (heap_Push I x s)) = add_mset (elem x (fr s)) (mset (view s))"
    "fr (heap_Push I x s) = fr s"
proof -
  define s1 where "s1 = PushOp I x s"
  define n where "n = length (view s)"
  have h: "ok s" "hp n (keys s)" using assms(1) by (simp_all add: heaped_def n_def)
  have v1: "ok s1" "view s1 = view s @ [elem x (fr s)]" "fr s1 = fr s"
    unfolding s1_def using push [OF h(1) assms(2)] by simp_all
  have k1: "keys s1 ! k = keys s ! k" if "k < n" for k
    using that by (simp add: keys_def v1 n_def nth_append)
  have pk: "par k < k" if "0 < k" for k using that unfolding par_def by linarith
  have "par k \<noteq> n" if "k < Suc n" "0 < k" for k using that pk [of k] by linarith
  then have x: "hpx n (Suc n) (keys s1)" and c: "kidsOK n (Suc n) (keys s1)"
    using h(2) k1 pk unfolding hpx_def kidsOK_def hp_def
    by (metis less_antisym less_trans)+
  have "Len I s1 - 1 = n" using len [OF v1(1)] v1(2) by (simp add: n_def)
  then have e: "heap_Push I x s = heap_up I s1 n" by (simp add: heap_Push_def s1_def Let_def)
  have "sim (Suc n) s1 (heap_Push I x s) \<and> hp (Suc n) (keys (heap_Push I x s))"
    unfolding e using up_spec [OF v1(1) x c] v1(2) by (simp add: n_def)
  then show "heaped (heap_Push I x s)"
    "mset (view (heap_Push I x s)) = add_mset (elem x (fr s)) (mset (view s))"
    "fr (heap_Push I x s) = fr s"
    using v1 sim_length [of "Suc n" s1 "heap_Push I x s"] by (auto simp: heaped_def sim_def n_def)
qed

text \<open>Taking out the last element of a state whose first elements are in order.\<close>

lemma pop_last:
  assumes "sim n s s'" "hp n (keys s')" "length (view s) = Suc n" "PopOp I s' = (x, t)"
  shows "heaped t" "mset (view s) = add_mset (elem x (fr s)) (mset (view t))"
    "fr t = fr s" "elem x (fr s) = view s ! n" "can x t"
proof -
  have l: "length (view s') = Suc n" using sim_length [OF assms(1)] assms(3) by simp
  then have ne: "view s' \<noteq> []" by auto
  have s': "ok s'" "mset (view s') = mset (view s)" "fr s' = fr s" "view s' ! n = view s ! n"
    using assms(1) by (simp_all add: sim_def)
  note p = pop [OF s'(1) ne assms(4)]
  have last: "last (view s') = view s ! n" using l ne s'(4) by (simp add: last_conv_nth)
  with p s' show "elem x (fr s) = view s ! n" "fr t = fr s" "can x t" by simp_all
  have "mset (view s') = add_mset (last (view s')) (mset (butlast (view s')))"
    using ne by (metis append_butlast_last_id mset.simps(2) mset_append union_mset_add_mset_right mset.simps(1) add.right_neutral)
  with p s' last show "mset (view s) = add_mset (elem x (fr s)) (mset (view t))" by simp
  have "keys t ! k = keys s' ! k" if "k < n" for k
    using that p l by (simp add: keys_def nth_butlast)
  then have "hp n (keys t)"
    using assms(2) unfolding hp_def par_def
    by (metis (no_types, lifting) div_le_dividend le_less_trans diff_le_self)
  then show "heaped t" using p l by (simp add: heaped_def)
qed

lemma heap_Pop_spec:
  assumes "heaped s" "view s \<noteq> []" "heap_Pop I s = (x, t)"
  shows "heaped t" "mset (view s) = add_mset (elem x (fr s)) (mset (view t))" "fr t = fr s"
    "elem x (fr s) = view s ! 0" "can x t"
    "\<forall>y \<in> set (view s). key (elem x (fr s)) \<le> key y"
proof -
  define n where "n = length (view s) - 1"
  have n: "length (view s) = Suc n" using assms(2) by (simp add: n_def)
  have h: "ok s" "hp (Suc n) (keys s)" using assms(1) n by (simp_all add: heaped_def)
  define s1 where "s1 = Swap I 0 n s"
  obtain s2 i2 where d: "heap_down I s1 0 n = (s2, i2)" by fastforce
  have Ln: "Len I s - 1 = n" using len [OF h(1)] n by simp
  have e: "PopOp I s2 = (x, t)" using assms(3) d Ln by (simp add: heap_Pop_def s1_def)
  have v1: "ok s1" "view s1 = lswap 0 n (view s)" "fr s1 = fr s"
    unfolding s1_def using swap [OF h(1), of 0 n] n by simp_all
  have l1: "length (view s1) = Suc n" using v1 n by simp
  have "sim n s1 s2 \<and> hp n (keys s2)"
  proof (cases "n = 0")
    case True
    then have "s2 = s1" using d by (simp add: heap_down.simps)
    then show ?thesis using v1 True by (simp add: sim_refl hp_def)
  next
    case False
    have ks: "keys s1 = lswap 0 n (keys s)" unfolding s1_def using h n by (simp add: keys_swap)
    have "hpx 0 n (keys s)" using h(2) unfolding hp_def hpx_def by simp
    then have "hpx 0 n (keys s1)"
    proof (rule hpx_update)
      show "keys s1 ! k = keys s ! k" if "k < n" "k \<noteq> 0" for k
        unfolding ks using that n by (subst nth_lswap) (simp_all add: keys_def)
    qed
    with down_spec [OF v1(1) _ _ _ d] False l1 show ?thesis by (simp add: parOK_def)
  qed
  note p = pop_last [OF conjunct1 [OF this] conjunct2 [OF this] l1 e]
  have m1: "mset (view s1) = mset (view s)" using v1 n by simp
  show "heaped t" "fr t = fr s" "can x t" using p v1 by simp_all
  show "mset (view s) = add_mset (elem x (fr s)) (mset (view t))" using p m1 v1 by simp
  have "view s1 ! n = view s ! 0" using v1 n by (simp add: nth_lswap)
  with p v1 show e0: "elem x (fr s) = view s ! 0" by simp
  show "\<forall>y \<in> set (view s). key (elem x (fr s)) \<le> key y"
    unfolding e0 using hp_least [OF h(2)] n by (auto simp: in_set_conv_nth keys_def)
qed

lemma heap_Remove_spec:
  assumes "ok s" "hpx i (length (view s)) (keys s)" "i < length (view s)" "heap_Remove I i s = (x, t)"
  shows "heaped t" "mset (view s) = add_mset (elem x (fr s)) (mset (view t))" "fr t = fr s"
    "elem x (fr s) = view s ! i" "can x t"
proof -
  define n where "n = length (view s) - 1"
  have n: "length (view s) = Suc n" using assms(3) by (simp add: n_def)
  have x: "hpx i (Suc n) (keys s)" using assms(2) n by simp
  have Ln: "Len I s - 1 = n" using len [OF assms(1)] n by simp
  have "heaped t \<and> mset (view s) = add_mset (elem x (fr s)) (mset (view t)) \<and> fr t = fr s \<and>
    elem x (fr s) = view s ! i \<and> can x t"
  proof (cases "n = i")
    case True
    with assms(4) Ln have e: "PopOp I s = (x, t)" by (simp add: heap_Remove_def)
    have "par k \<noteq> n" if "0 < k" "k < n" for k using that unfolding par_def by linarith
    then have "hp n (keys s)" using x True by (simp add: hp_def hpx_def)
    from pop_last [OF sim_refl [OF assms(1)] this n e] True show ?thesis by simp
  next
    case False
    then have i: "i < n" using assms(3) n by simp
    define s1 where "s1 = Swap I i n s"
    have e: "PopOp I (heap_settle I i n s1) = (x, t)"
      using assms(4) Ln False by (simp add: heap_Remove_def s1_def)
    have v1: "ok s1" "view s1 = lswap i n (view s)" "fr s1 = fr s"
      unfolding s1_def using swap [OF assms(1), of i n] n i by simp_all
    have ks: "keys s1 = lswap i n (keys s)"
      unfolding s1_def using assms(1) n i by (simp add: keys_swap)
    have l1: "length (view s1) = Suc n" using v1 n by simp
    have "hpx i n (keys s)" using x by (simp add: hpx_def)
    then have "hpx i n (keys s1)"
    proof (rule hpx_update)
      show "keys s1 ! k = keys s ! k" if "k < n" "k \<noteq> i" for k
        unfolding ks using that n i by (subst nth_lswap) (simp_all add: keys_def)
    qed
    from settle_spec [OF v1(1) this i] l1
    have "sim n s1 (heap_settle I i n s1)" "hp n (keys (heap_settle I i n s1))" by simp_all
    note p = pop_last [OF this l1 e]
    have "view s1 ! n = view s ! i" "mset (view s1) = mset (view s)"
      using v1 n i by (simp_all add: nth_lswap)
    with p v1 show ?thesis by simp
  qed
  then show "heaped t" "mset (view s) = add_mset (elem x (fr s)) (mset (view t))" "fr t = fr s"
    "elem x (fr s) = view s ! i" "can x t" by simp_all
qed

text \<open>\<open>Fix\<close> restores the order after the key at one position changed.\<close>

lemma heap_Fix_spec:
  assumes "ok s" "hpx i (length (view s)) (keys s)" "i < length (view s)"
  shows "heaped (heap_Fix I i s)" "mset (view (heap_Fix I i s)) = mset (view s)"
    "fr (heap_Fix I i s) = fr s"
proof -
  have "sim (length (view s)) s (heap_Fix I i s) \<and> hp (length (view s)) (keys (heap_Fix I i s))"
    using settle_spec [OF assms order_refl] by (simp add: heap_Fix_def len [OF assms(1)])
  then show "heaped (heap_Fix I i s)" "mset (view (heap_Fix I i s)) = mset (view s)"
    "fr (heap_Fix I i s) = fr s"
    using sim_length [of _ s "heap_Fix I i s"] by (auto simp: heaped_def sim_def)
qed

end

end
