(* ===== verification/Schedule.thy ===== *)
theory Schedule
  imports Envelope GoHeap "HOL-Library.Char_ord" "HOL-Library.List_Lexorder" "HOL-Library.Product_Lexorder"
begin

text \<open>
  The delivery schedule, \<open>src/internal/queue/schedule.go\<close>: one heap of messages per owner,
  ordered by next attempt, a heap of the owners with nothing due yet and a rotating list of
  the owners with something due.

  Pointers. A scheduled envelope is a pair of a number (the pointer the queue keeps in
  \<open>scheduled\<close>) and its contents; the number is never reused. A \<open>userQueue\<close> lives in the map
  \<open>users\<close> under its name for as long as it is reachable, so \<open>future\<close> and \<open>due\<close> hold names.
  The two \<open>index\<close> fields are kept as the code keeps them, by \<open>Swap\<close>, \<open>Push\<close> and \<open>Pop\<close>.
\<close>

type_synonym eptr = "nat \<times> Envelope"

type_synonym envelopeHeap = "eptr list"

record userQueue =
  uname :: string
  messages :: envelopeHeap
  uindex :: int
  udue :: bool

record schedule =
  users :: "(string, userQueue) gmap"
  future :: "string list"
  due :: "string list"
  scount :: int

subsection \<open>The heap of one owner's messages\<close>

definition setIndex :: "eptr \<Rightarrow> int \<Rightarrow> eptr" where
  "setIndex p i = (fst p, (snd p)\<lparr>index := i\<rparr>)"

definition envLess :: "envelopeHeap \<Rightarrow> nat \<Rightarrow> nat \<Rightarrow> bool" where
  "envLess h i j =
     (if NextAttempt (snd (h ! i)) = NextAttempt (snd (h ! j))
      then ID (snd (h ! i)) < ID (snd (h ! j))
      else NextAttempt (snd (h ! i)) < NextAttempt (snd (h ! j)))"

definition envSwap :: "nat \<Rightarrow> nat \<Rightarrow> envelopeHeap \<Rightarrow> envelopeHeap" where
  "envSwap i j h = h[i := setIndex (h ! j) (int i), j := setIndex (h ! i) (int j)]"

definition envPush :: "eptr \<Rightarrow> envelopeHeap \<Rightarrow> envelopeHeap" where
  "envPush p h = h @ [setIndex p (int (length h))]"

definition envPop :: "envelopeHeap \<Rightarrow> eptr \<times> envelopeHeap" where
  "envPop h = (setIndex (last h) (-1), butlast h)"

definition envI :: "(envelopeHeap, eptr) heapInterface" where
  "envI = \<lparr>Len = length, Less = envLess, Swap = envSwap, PushOp = envPush, PopOp = envPop\<rparr>"

subsection \<open>The heap of owners\<close>

definition userOf :: "schedule \<Rightarrow> string \<Rightarrow> userQueue" where
  "userOf s n = the (mget (users s) n)"

definition headTime :: "schedule \<Rightarrow> string \<Rightarrow> gtime" where
  "headTime s n = NextAttempt (snd (messages (userOf s n) ! 0))"

definition userLess :: "schedule \<Rightarrow> nat \<Rightarrow> nat \<Rightarrow> bool" where
  "userLess s i j =
     (if headTime s (future s ! i) = headTime s (future s ! j) then future s ! i < future s ! j
      else headTime s (future s ! i) < headTime s (future s ! j))"

definition setUIndex :: "string \<Rightarrow> int \<Rightarrow> schedule \<Rightarrow> schedule" where
  "setUIndex n i s =
     (case mget (users s) n of None \<Rightarrow> s | Some u \<Rightarrow> s\<lparr>users := mput n (u\<lparr>uindex := i\<rparr>) (users s)\<rparr>)"

definition userSwap :: "nat \<Rightarrow> nat \<Rightarrow> schedule \<Rightarrow> schedule" where
  "userSwap i j s =
     (let a = future s ! i; b = future s ! j
      in setUIndex a (int j) (setUIndex b (int i) (s\<lparr>future := (future s)[i := b, j := a]\<rparr>)))"

definition userPush :: "string \<Rightarrow> schedule \<Rightarrow> schedule" where
  "userPush n s = (setUIndex n (int (length (future s))) s)\<lparr>future := future s @ [n]\<rparr>"

definition userPop :: "schedule \<Rightarrow> string \<times> schedule" where
  "userPop s =
     (let n = last (future s) in (n, (setUIndex n (-1) s)\<lparr>future := butlast (future s)\<rparr>))"

definition userI :: "(schedule, string) heapInterface" where
  "userI = \<lparr>Len = \<lambda>s. length (future s), Less = userLess, Swap = userSwap, PushOp = userPush,
            PopOp = userPop\<rparr>"

subsection \<open>Operations of the schedule\<close>

definition emptySchedule :: schedule where
  "emptySchedule = \<lparr>users = [], future = [], due = [], scount = 0\<rparr>"

definition setUser :: "string \<Rightarrow> userQueue \<Rightarrow> schedule \<Rightarrow> schedule" where
  "setUser n u s = s\<lparr>users := mput n u (users s)\<rparr>"

text \<open>The field \<open>index\<close> of the envelope behind a pointer; -1 once it has left its heap.\<close>

definition envIndex :: "nat \<Rightarrow> envelopeHeap \<Rightarrow> int" where
  "envIndex r h = (case find (\<lambda>p. fst p = r) h of None \<Rightarrow> -1 | Some p \<Rightarrow> index (snd p))"

definition schedPush :: "eptr \<Rightarrow> schedule \<Rightarrow> schedule" where
  "schedPush p s =
     (let n = Username (snd p);
          user = (case mget (users s) n of
                    None \<Rightarrow> \<lparr>uname = n, messages = [], uindex = -1, udue = False\<rparr>
                  | Some u \<Rightarrow> u);
          oldFirst = (messages user = []);
          user' = user\<lparr>messages := heap_Push envI p (messages user)\<rparr>;
          s1 = (setUser n user' s)\<lparr>scount := scount s + 1\<rparr>
      in if udue user' then s1
         else if oldFirst then heap_Push userI n s1
         else if envIndex (fst p) (messages user') = 0 then heap_Fix userI (nat (uindex user')) s1
         else s1)"

definition schedNextAttempt :: "schedule \<Rightarrow> gtime option" where
  "schedNextAttempt s =
     (if due s \<noteq> [] then Some (headTime s (due s ! 0))
      else if future s = [] then None
      else Some (headTime s (future s ! 0)))"

lemma length_setUIndex [simp]: "future (setUIndex n i s) = future s"
  by (simp add: setUIndex_def split: option.split)

lemma userI_simps [simp]:
  "Len userI s = length (future s)" "Less userI = userLess" "Swap userI = userSwap"
  "PushOp userI = userPush" "PopOp userI = userPop"
  by (simp_all add: userI_def)

lemma length_heap_down: "length (future (fst (heap_down userI s i n))) = length (future s)"
proof (induction userI s i n rule: heap_down.induct)
  case (1 s i n)
  then show ?case
    by (subst heap_down.simps) (simp add: Let_def userSwap_def)
qed

lemma length_heap_Pop: "future s \<noteq> [] \<Longrightarrow> length (future (snd (heap_Pop userI s))) < length (future s)"
  using length_heap_down [of "userSwap 0 (length (future s) - 1) s" 0 "length (future s) - 1"]
  by (auto simp: heap_Pop_def userPop_def Let_def userSwap_def split: prod.splits)

text \<open>The loop of \<open>PopDue\<close> that moves the owners whose first message is due.\<close>

function promoteDue :: "gtime \<Rightarrow> schedule \<Rightarrow> schedule" where
  "promoteDue now s =
     (if future s \<noteq> [] \<and> \<not> headTime s (future s ! 0) > now
      then (let (n, s1) = heap_Pop userI s;
                s2 = setUser n ((userOf s1 n)\<lparr>udue := True\<rparr>) s1
            in promoteDue now (s2\<lparr>due := due s2 @ [n]\<rparr>))
      else s)"
  by pat_completeness auto

termination
  by (relation "measure (\<lambda>(now, s). length (future s))")
    (auto simp: setUser_def, metis length_heap_Pop snd_conv)

declare promoteDue.simps [simp del]

definition PopDue :: "gtime \<Rightarrow> schedule \<Rightarrow> eptr option \<times> schedule" where
  "PopDue now s0 =
     (let s = promoteDue now s0
      in case due s of
           [] \<Rightarrow> (None, s)
         | n # rest \<Rightarrow>
             (let user = userOf s n;
                  (p, msgs) = heap_Pop envI (messages user);
                  s1 = s\<lparr>due := rest, scount := scount s - 1\<rparr>
              in if msgs = [] then (Some p, s1\<lparr>users := mdel n (users s1)\<rparr>)
                 else if \<not> NextAttempt (snd (msgs ! 0)) > now
                 then (Some p, (setUser n (user\<lparr>messages := msgs\<rparr>) s1)\<lparr>due := rest @ [n]\<rparr>)
                 else (Some p, heap_Push userI n
                                 (setUser n (user\<lparr>messages := msgs, udue := False\<rparr>) s1))))"

text \<open>\<open>Remove\<close> of the envelope behind pointer \<open>r\<close>, which belongs to owner \<open>n\<close>; \<open>now\<close> is the
  clock reading of the call.\<close>

definition schedRemove :: "nat \<Rightarrow> string \<Rightarrow> gtime \<Rightarrow> schedule \<Rightarrow> bool \<times> schedule" where
  "schedRemove r n now s =
     (case mget (users s) n of
        None \<Rightarrow> (False, s)
      | Some user \<Rightarrow>
          (let i = envIndex r (messages user)
           in if i < 0 \<or> i \<ge> int (length (messages user)) \<or> fst (messages user ! nat i) \<noteq> r
              then (False, s)
              else
                (let wasFirst = (i = 0);
                     (_, msgs) = heap_Remove envI (nat i) (messages user);
                     s1 = (setUser n (user\<lparr>messages := msgs\<rparr>) s)\<lparr>scount := scount s - 1\<rparr>
                 in if msgs = []
                    then
                      (let s2 = s1\<lparr>users := mdel n (users s1)\<rparr>
                       in if udue user then (True, s2\<lparr>due := remove1 n (due s2)\<rparr>)
                          else if uindex user \<ge> 0
                          then (True, snd (heap_Remove userI (nat (uindex user)) s2))
                          else (True, s2))
                    else if wasFirst \<and> udue user \<and> NextAttempt (snd (msgs ! 0)) > now
                    then (True, heap_Push userI n
                                  (setUser n (user\<lparr>messages := msgs, udue := False\<rparr>)
                                     (s1\<lparr>due := remove1 n (due s1)\<rparr>)))
                    else if wasFirst \<and> \<not> udue user
                    then (True, heap_Fix userI (nat (uindex user)) s1)
                    else (True, s1))))"

end
