(* ===== verification/Schedule_Inv.thy ===== *)
theory Schedule_Inv
  imports Schedule
begin

text \<open>
  Correctness of the delivery schedule. Both heaps of \<open>schedule.go\<close> satisfy the contract
  \<open>go_heap\<close>, their \<open>index\<close> fields included; with it every operation keeps \<open>sched_ok\<close> and
  changes the contents of the schedule by exactly the message it is about.
\<close>

declare map_of_eq_Some_iff [simp del]

subsection \<open>The two heaps satisfy the heap contract\<close>

definition erase :: "eptr \<Rightarrow> eptr" where
  "erase p = setIndex p (-1)"

definition envKey :: "eptr \<Rightarrow> gtime \<times> string" where
  "envKey p = (NextAttempt (snd p), ID (snd p))"

definition idxOK :: "envelopeHeap \<Rightarrow> bool" where
  "idxOK h \<longleftrightarrow> (\<forall>i < length h. index (snd (h ! i)) = int i)"

lemma erase_simps [simp]:
  "fst (erase p) = fst p" "envKey (erase p) = envKey p" "erase (setIndex p i) = erase p"
  "Username (snd (erase p)) = Username (snd p)" "NextAttempt (snd (erase p)) = NextAttempt (snd p)"
  "ID (snd (erase p)) = ID (snd p)" "erase (erase p) = erase p"
  by (simp_all add: erase_def setIndex_def envKey_def)

lemma setIndex_simps [simp]:
  "fst (setIndex p i) = fst p" "index (snd (setIndex p i)) = i"
  by (simp_all add: setIndex_def)

lemma envI_simps [simp]:
  "Len envI = length" "Less envI = envLess" "Swap envI = envSwap"
  "PushOp envI = envPush" "PopOp envI = envPop"
  by (simp_all add: envI_def)

lemma envLess_key:
  "i < length h \<Longrightarrow> j < length h \<Longrightarrow> envLess h i j \<longleftrightarrow> envKey (map erase h ! i) < envKey (map erase h ! j)"
  by (auto simp: envLess_def envKey_def less_prod_def)

interpretation eh: go_heap envI "map erase" envKey idxOK "\<lambda>_. ()" "\<lambda>p _. erase p" "\<lambda>_ _. True"
proof (unfold_locales, goal_cases)
  case (1 s)
  then show ?case by simp
next
  case (2 s i j)
  then show ?case using envLess_key [of i s j] by simp
next
  case (3 s i j)
  then show ?case
    by (auto simp: envSwap_def lswap_def map_update idxOK_def nth_list_update)
next
  case (4 s x)
  then show ?case by (auto simp: envPush_def idxOK_def nth_append)
next
  case (5 s x s')
  then show ?case
    by (auto simp: envPop_def idxOK_def nth_butlast map_butlast last_map)
qed

definition eraseU :: "userQueue \<Rightarrow> userQueue" where
  "eraseU u = u\<lparr>uindex := 0\<rparr>"

definition eraseUsers :: "(string, userQueue) gmap \<Rightarrow> (string, userQueue) gmap" where
  "eraseUsers m = map (\<lambda>p. (fst p, eraseU (snd p))) m"

type_synonym userFrame = "(string, userQueue) gmap \<times> string list \<times> int"

definition userFr :: "schedule \<Rightarrow> userFrame" where
  "userFr s = (eraseUsers (users s), due s, scount s)"

definition userElem :: "string \<Rightarrow> userFrame \<Rightarrow> gtime \<times> string" where
  "userElem n f = (NextAttempt (snd (messages (the (mget (fst f) n)) ! 0)), n)"

definition userView :: "schedule \<Rightarrow> (gtime \<times> string) list" where
  "userView s = map (\<lambda>n. (headTime s n, n)) (future s)"

text \<open>Distinct owners, each with its position in its \<open>index\<close> field.\<close>

definition uidxOK :: "schedule \<Rightarrow> bool" where
  "uidxOK s \<longleftrightarrow> distinct (future s) \<and>
     (\<forall>i < length (future s). \<forall>u. mget (users s) (future s ! i) = Some u \<longrightarrow> uindex u = int i)"

lemma mget_eraseUsers [simp]: "mget (eraseUsers m) n = map_option eraseU (mget m n)"
  by (induction m) (auto simp: eraseUsers_def)

lemma eraseUsers_put:
  "mget m n = Some u \<Longrightarrow> eraseU u' = eraseU u \<Longrightarrow> eraseUsers (mput n u' m) = eraseUsers m"
  by (induction m) (auto simp: eraseUsers_def split: if_splits)

lemma messages_eraseU [simp]: "messages (eraseU u) = messages u"
  by (simp add: eraseU_def)

lemma setUIndex_simps [simp]:
  "due (setUIndex n i s) = due s" "scount (setUIndex n i s) = scount s"
  "mget (users (setUIndex n i s)) m =
     (if m = n then map_option (uindex_update (\<lambda>_. i)) (mget (users s) n) else mget (users s) m)"
  by (auto simp: setUIndex_def map_simps split: option.split)

lemma userFr_setUIndex [simp]: "userFr (setUIndex n i s) = userFr s"
  by (auto simp: userFr_def setUIndex_def eraseUsers_put eraseU_def split: option.split)

lemma userFr_future [simp]: "userFr (s\<lparr>future := xs\<rparr>) = userFr s"
  by (simp add: userFr_def)

lemma headTime_setUIndex [simp]: "headTime (setUIndex n i s) m = headTime s m"
  by (cases "mget (users s) n") (auto simp: headTime_def userOf_def)

lemma headTime_future [simp]: "headTime (s\<lparr>future := xs\<rparr>) m = headTime s m"
  by (simp add: headTime_def userOf_def)

lemma userElem_userFr [simp]: "userElem n (userFr s) = (headTime s n, n)"
  by (cases "mget (users s) n") (auto simp: userElem_def userFr_def headTime_def userOf_def)

lemma userLess_key:
  "i < length (future s) \<Longrightarrow> j < length (future s) \<Longrightarrow>
     userLess s i j \<longleftrightarrow> userView s ! i < userView s ! j"
  by (auto simp: userLess_def userView_def less_prod_def)

lemma length_userView [simp]: "length (userView s) = length (future s)"
  by (simp add: userView_def)

lemma userFr_userSwap: "userFr (userSwap i j s) = userFr s"
  by (simp add: userSwap_def Let_def)

lemma userView_userSwap:
  "i < length (future s) \<Longrightarrow> j < length (future s) \<Longrightarrow> userView (userSwap i j s) = lswap i j (userView s)"
  by (simp add: userView_def userSwap_def Let_def lswap_def map_update)

lemma uidxOK_userSwap:
  assumes "uidxOK s" "i < length (future s)" "j < length (future s)"
  shows "uidxOK (userSwap i j s)"
proof -
  have d: "distinct (future s)" and
    ix: "\<And>k u. k < length (future s) \<Longrightarrow> mget (users s) (future s ! k) = Some u \<Longrightarrow> uindex u = int k"
    using assms(1) by (simp_all add: uidxOK_def)
  have ne: "future s ! k = future s ! l \<longleftrightarrow> k = l" if "k < length (future s)" "l < length (future s)" for k l
    using d that by (simp add: nth_eq_iff_index_eq)
  have f: "future (userSwap i j s) = lswap i j (future s)"
    by (simp add: userSwap_def Let_def lswap_def)
  have "distinct (lswap i j (future s))"
    using d assms(2,3) unfolding lswap_def by (rule distinct_swap [THEN iffD2, rotated -1])
  moreover have "uindex u = int k"
    if k: "k < length (future s)" and u: "mget (users (userSwap i j s)) (lswap i j (future s) ! k) = Some u" for k u
    using k u assms(2,3) ix ne
    by (auto simp: userSwap_def Let_def nth_lswap split: if_splits)
  ultimately show ?thesis by (simp add: uidxOK_def f)
qed

interpretation uh: go_heap userI userView "\<lambda>k. k" uidxOK userFr userElem "\<lambda>n s. n \<notin> set (future s)"
proof (unfold_locales, goal_cases)
  case (1 s)
  then show ?case by simp
next
  case (2 s i j)
  then show ?case using userLess_key [of i s j] by simp
next
  case (3 s i j)
  then show ?case by (simp add: userFr_userSwap userView_userSwap uidxOK_userSwap)
next
  case (4 s x)
  then show ?case
    by (auto simp: userPush_def uidxOK_def userView_def nth_append in_set_conv_nth)
next
  case (5 s x s')
  then have ne: "future s \<noteq> []" by (auto simp: userView_def)
  from 5 have x: "x = last (future s)" and s': "s' = (setUIndex x (-1) s)\<lparr>future := butlast (future s)\<rparr>"
    by (auto simp: userPop_def Let_def)
  have d: "distinct (future s)" using 5(1) by (simp add: uidxOK_def)
  obtain ys where ys: "future s = ys @ [x]" using ne x by (metis append_butlast_last_id)
  then have nx: "x \<notin> set ys" using d by simp
  have "uindex u = int k" if "k < length ys" "mget (users s') (ys ! k) = Some u" for k u
  proof -
    have "ys ! k \<noteq> x" using nx that(1) nth_mem by blast
    with that have "mget (users s) (future s ! k) = Some u" by (simp add: s' ys nth_append split: if_splits)
    with 5(1) that(1) show ?thesis by (simp add: uidxOK_def ys)
  qed
  moreover have "userFr s' = userFr s" "userView s' = butlast (userView s)" "userElem x (userFr s) = last (userView s)"
    by (simp_all add: s' userView_def ys)
  ultimately show ?case using d nx by (simp add: uidxOK_def s' ys)
qed

subsection \<open>The invariant\<close>

definition envHeaped :: "envelopeHeap \<Rightarrow> bool" where
  "envHeaped h \<longleftrightarrow> idxOK h \<and> hp (length h) (map envKey h)"

definition userHeaped :: "schedule \<Rightarrow> bool" where
  "userHeaped s \<longleftrightarrow> uidxOK s \<and> hp (length (future s)) (userView s)"

lemma envHeaped_iff: "eh.heaped h \<longleftrightarrow> envHeaped h"
  by (simp add: eh.heaped_def eh.keys_def envHeaped_def comp_def)

lemma userHeaped_iff: "uh.heaped s \<longleftrightarrow> userHeaped s"
  by (simp add: uh.heaped_def uh.keys_def userHeaped_def)

text \<open>A non-empty heap of messages of the owner, no pointer twice.\<close>

definition queueOK :: "string \<Rightarrow> userQueue \<Rightarrow> bool" where
  "queueOK n u \<longleftrightarrow> uname u = n \<and> messages u \<noteq> [] \<and> envHeaped (messages u) \<and>
     (\<forall>p \<in> set (messages u). Username (snd p) = n) \<and> distinct (map fst (messages u))"

definition contents :: "schedule \<Rightarrow> eptr multiset" where
  "contents s = gsum (\<lambda>p. mset (map erase (messages (snd p)))) (users s)"

definition namesWith :: "bool \<Rightarrow> schedule \<Rightarrow> string set" where
  "namesWith b s = {n. \<exists>u. mget (users s) n = Some u \<and> udue u = b}"

definition schedBase :: "schedule \<Rightarrow> bool" where
  "schedBase s \<longleftrightarrow> distinct (mkeys (users s)) \<and>
     (\<forall>n u. mget (users s) n = Some u \<longrightarrow> queueOK n u) \<and> scount s = int (size (contents s))"

text \<open>Every owner is in exactly one of the two structures, by its flag.\<close>

definition sched_ok :: "schedule \<Rightarrow> bool" where
  "sched_ok s \<longleftrightarrow> schedBase s \<and> distinct (due s) \<and> set (due s) = namesWith True s \<and>
     set (future s) = namesWith False s \<and> userHeaped s"

lemma queueOK_eraseU [simp]: "queueOK n (eraseU u) = queueOK n u"
  by (simp add: queueOK_def eraseU_def)

lemma userFr_eqD:
  assumes "userFr s = userFr s'"
  shows "mkeys (users s) = mkeys (users s')"
    "map_option eraseU (mget (users s) n) = map_option eraseU (mget (users s') n)"
    "due s = due s'" "scount s = scount s'"
proof -
  have e: "eraseUsers (users s) = eraseUsers (users s')" using assms by (simp add: userFr_def)
  have "mkeys (eraseUsers m) = mkeys m" for m by (simp add: eraseUsers_def comp_def)
  then show "mkeys (users s) = mkeys (users s')" using e by metis
  show "map_option eraseU (mget (users s) n) = map_option eraseU (mget (users s') n)"
    using e mget_eraseUsers by metis
  show "due s = due s'" "scount s = scount s'" using assms by (simp_all add: userFr_def)
qed

lemma contents_fr: "userFr s = userFr s' \<Longrightarrow> contents s = contents s'"
proof -
  have "gsum (\<lambda>p. mset (map erase (messages (snd p)))) (eraseUsers m) =
      gsum (\<lambda>p. mset (map erase (messages (snd p)))) m" for m
    by (induction m) (simp_all add: eraseUsers_def)
  then show "userFr s = userFr s' \<Longrightarrow> contents s = contents s'"
    by (metis contents_def fst_conv userFr_def)
qed

lemma eraseU_eqD: "eraseU u = eraseU v \<Longrightarrow> messages u = messages v \<and> udue u = udue v \<and> uname u = uname v"
  by (cases u; cases v) (simp add: eraseU_def)

lemma mget_fr:
  assumes "userFr s = userFr s'" "mget (users s) n = Some u"
  obtains v where "mget (users s') n = Some v" "messages v = messages u" "udue v = udue u" "uname v = uname u"
proof -
  have "map_option eraseU (mget (users s') n) = Some (eraseU u)"
    using userFr_eqD(2) [OF assms(1), of n] assms(2) by simp
  then show ?thesis using that by (auto dest: eraseU_eqD)
qed

lemma namesWith_fr: "userFr s = userFr s' \<Longrightarrow> namesWith b s = namesWith b s'"
  unfolding namesWith_def by (metis mget_fr)

lemma schedBase_fr:
  assumes f: "userFr s = userFr s'" and b: "schedBase s"
  shows "schedBase s'"
proof -
  have "queueOK n u" if u: "mget (users s') n = Some u" for n u
  proof -
    obtain v where "mget (users s) n = Some v" "messages v = messages u" "uname v = uname u"
      using mget_fr [OF f [symmetric] u] by metis
    moreover from this b have "queueOK n v" by (simp add: schedBase_def)
    ultimately show ?thesis by (simp add: queueOK_def)
  qed
  then show ?thesis
    using b userFr_eqD [OF f] contents_fr [OF f] by (simp add: schedBase_def)
qed

lemma headTime_fr: "userFr s = userFr s' \<Longrightarrow> headTime s n = headTime s' n"
  by (metis prod.inject userElem_userFr)

lemma sched_okI:
  "schedBase s \<Longrightarrow> distinct (due s) \<Longrightarrow> set (due s) = namesWith True s \<Longrightarrow>
   set (future s) = namesWith False s \<Longrightarrow> userHeaped s \<Longrightarrow> sched_ok s"
  by (simp add: sched_ok_def)

lemma future_of_view: "set (future s) = snd ` set (userView s)"
  by (force simp: userView_def)

subsection \<open>Changing the record of one owner\<close>

lemma setUser_simps [simp]:
  "future (setUser n u s) = future s" "due (setUser n u s) = due s" "scount (setUser n u s) = scount s"
  "mget (users (setUser n u s)) m = (if m = n then Some u else mget (users s) m)"
  by (simp_all add: setUser_def map_simps)

lemma headTime_setUser: "headTime (setUser n u s) m =
    (if m = n then NextAttempt (snd (messages u ! 0)) else headTime s m)"
  by (simp add: headTime_def userOf_def)

lemma namesWith_setUser: "namesWith b (setUser n u s) =
    (if udue u = b then insert n (namesWith b s) else namesWith b s - {n})"
  by (auto simp: namesWith_def)

lemma contents_setUser:
  "distinct (mkeys (users s)) \<Longrightarrow> contents (setUser n u s) =
     mset (map erase (messages u)) + gsum (\<lambda>p. mset (map erase (messages (snd p)))) (mdel n (users s))"
  by (simp add: contents_def setUser_def gsum_mput)

lemma contents_split:
  "distinct (mkeys (users s)) \<Longrightarrow> mget (users s) n = Some u \<Longrightarrow> contents s =
     mset (map erase (messages u)) + gsum (\<lambda>p. mset (map erase (messages (snd p)))) (mdel n (users s))"
  by (simp add: contents_def gsum_split)

lemma contents_absent:
  "mget (users s) n = None \<Longrightarrow>
     contents s = gsum (\<lambda>p. mset (map erase (messages (snd p)))) (mdel n (users s))"
  by (simp add: contents_def mdel_absent)

lemma schedBase_setUser:
  "schedBase s \<Longrightarrow> queueOK n u \<Longrightarrow> c = int (size (contents (setUser n u s))) \<Longrightarrow>
     schedBase ((setUser n u s)\<lparr>scount := c\<rparr>)"
  by (auto simp: schedBase_def setUser_def contents_def map_simps)

lemma userView_setUser_out: "n \<notin> set (future s) \<Longrightarrow> userView (setUser n u s) = userView s"
  by (auto simp: userView_def headTime_setUser)

lemma uidxOK_setUser_out: "n \<notin> set (future s) \<Longrightarrow> uidxOK (setUser n u s) = uidxOK s"
  by (auto simp: uidxOK_def)

lemma userHeaped_setUser_out: "n \<notin> set (future s) \<Longrightarrow> userHeaped (setUser n u s) = userHeaped s"
  by (simp add: userHeaped_def userView_setUser_out uidxOK_setUser_out)

lemma userHeaped_fields [simp]:
  "userHeaped (s\<lparr>due := d\<rparr>) = userHeaped s" "userHeaped (s\<lparr>scount := c\<rparr>) = userHeaped s"
  by (simp_all add: userHeaped_def uidxOK_def userView_def headTime_def userOf_def)

lemma fields_simps [simp]:
  "contents (s\<lparr>due := d\<rparr>) = contents s" "contents (s\<lparr>scount := c\<rparr>) = contents s"
  "namesWith b (s\<lparr>due := d\<rparr>) = namesWith b s" "namesWith b (s\<lparr>scount := c\<rparr>) = namesWith b s"
  "headTime (s\<lparr>due := d\<rparr>) n = headTime s n" "headTime (s\<lparr>scount := c\<rparr>) n = headTime s n"
  "schedBase (s\<lparr>due := d\<rparr>) = schedBase s"
  by (simp_all add: contents_def namesWith_def headTime_def userOf_def schedBase_def)

subsection \<open>One owner's heap\<close>

lemma mset_fst_erase: "mset (map fst h) = image_mset fst (mset (map erase h))"
  by (simp flip: mset_map add: comp_def)

lemma owners_erase: "(\<forall>p \<in> set h. Username (snd p) = n) \<longleftrightarrow> (\<forall>p \<in># mset (map erase h). Username (snd p) = n)"
  by simp

lemma envPush_heap:
  assumes "envHeaped h"
  shows "envHeaped (heap_Push envI p h)"
    "mset (map erase (heap_Push envI p h)) = add_mset (erase p) (mset (map erase h))"
  using eh.heap_Push_spec(1,2) [where s = h and x = p] assms by (simp_all add: envHeaped_iff)

lemma envPop_heap:
  assumes "envHeaped h" "h \<noteq> []" "heap_Pop envI h = (p, t)"
  shows "envHeaped t" "mset (map erase h) = add_mset (erase p) (mset (map erase t))"
    "erase p = erase (h ! 0)" "\<forall>q \<in> set h. envKey p \<le> envKey q"
proof -
  have h: "eh.heaped h" "map erase h \<noteq> []" using assms by (simp_all add: envHeaped_iff)
  note p = eh.heap_Pop_spec [OF h assms(3)]
  show "envHeaped t" "mset (map erase h) = add_mset (erase p) (mset (map erase t))"
    "erase p = erase (h ! 0)" using p assms(2) by (simp_all add: envHeaped_iff)
  show "\<forall>q \<in> set h. envKey p \<le> envKey q" using p(6) by simp
qed

lemma envRemove_heap:
  assumes "envHeaped h" "i < length h" "heap_Remove envI i h = (p, t)"
  shows "envHeaped t" "mset (map erase h) = add_mset (erase p) (mset (map erase t))" "erase p = erase (h ! i)"
proof -
  have "hpx i (length (map erase h)) (eh.keys h)"
    using assms(1,2) by (auto simp: envHeaped_def eh.keys_def comp_def intro: hp_hpx)
  then show "envHeaped t" "mset (map erase h) = add_mset (erase p) (mset (map erase t))" "erase p = erase (h ! i)"
    using eh.heap_Remove_spec [of h i p t] assms by (auto simp: envHeaped_iff envHeaped_def)
qed

lemma envHeaped_least: "envHeaped h \<Longrightarrow> q \<in> set h \<Longrightarrow> envKey (h ! 0) \<le> envKey q"
proof -
  assume h: "envHeaped h" and q: "q \<in> set h"
  then obtain k where k: "k < length h" "h ! k = q" by (auto simp: in_set_conv_nth)
  have "hp (length h) (map envKey h)" using h by (simp add: envHeaped_def)
  from hp_least [OF this k(1)] have "map envKey h ! 0 \<le> map envKey h ! k" .
  moreover have "0 < length h" using k(1) by linarith
  ultimately show ?thesis using k by (simp only: nth_map)
qed

lemma distinct_submset:
  assumes "mset xs \<subseteq># mset ys" "distinct ys"
  shows "distinct xs"
proof -
  have "count (mset xs) x = 1" if "x \<in> set xs" for x
  proof -
    have "x \<in> set ys" using that assms(1) by (metis mset_subset_eqD set_mset_mset)
    then have "count (mset xs) x \<le> 1"
      using mset_subset_eq_count [OF assms(1), of x] assms(2) by (simp add: distinct_count_atmost_1)
    moreover have "0 < count (mset xs) x" using that by simp
    ultimately show ?thesis by linarith
  qed
  then show ?thesis by (simp add: distinct_count_atmost_1 count_eq_zero_iff)
qed

lemma queueOK_transfer:
  assumes "queueOK n u" "messages u' \<noteq> []" "envHeaped (messages u')" "uname u' = uname u"
    "mset (map erase (messages u')) \<subseteq># mset (map erase (messages u))"
  shows "queueOK n u'"
proof -
  let ?m = "mset (map erase (messages u))" and ?m' = "mset (map erase (messages u'))"
  have "\<forall>p \<in># ?m. Username (snd p) = n" using assms(1) by (simp add: queueOK_def flip: owners_erase)
  then have "\<forall>p \<in># ?m'. Username (snd p) = n" by (metis assms(5) mset_subset_eqD)
  then have "\<forall>p \<in> set (messages u'). Username (snd p) = n" by (simp only: owners_erase)
  moreover have "mset (map fst (messages u')) \<subseteq># mset (map fst (messages u))"
    unfolding mset_fst_erase by (rule image_mset_subseteq_mono [OF assms(5)])
  then have "distinct (map fst (messages u'))"
    by (rule distinct_submset) (use assms(1) in \<open>simp add: queueOK_def\<close>)
  ultimately show ?thesis using assms(1-4) by (simp add: queueOK_def)
qed

lemma queueOK_push:
  assumes "uname u = n" "envHeaped (messages u)" "\<forall>q \<in> set (messages u). Username (snd q) = n"
    "distinct (map fst (messages u))" "Username (snd p) = n" "fst p \<notin> fst ` set (messages u)"
  shows "queueOK n (u\<lparr>messages := heap_Push envI p (messages u)\<rparr>)"
proof -
  let ?h = "heap_Push envI p (messages u)"
  note m = envPush_heap [OF assms(2), of p]
  have "?h \<noteq> []" using m(2) by auto
  moreover have "\<forall>q \<in> set ?h. Username (snd q) = n"
    unfolding owners_erase m(2) using assms(3,5) by auto
  moreover have "mset (map fst ?h) = mset (fst p # map fst (messages u))"
    unfolding mset_fst_erase m(2) by (simp add: mset_fst_erase [symmetric, simplified])
  then have "distinct (map fst ?h)"
    using assms(4,6) mset_eq_imp_distinct_iff [of "map fst ?h" "fst p # map fst (messages u)"] by simp
  ultimately show ?thesis using assms(1) m(1) by (simp add: queueOK_def)
qed

text \<open>The position an owner's record names, and the heap of owners when that record changes.\<close>

lemma uindex_pos:
  assumes "uidxOK s" "n \<in> set (future s)" "mget (users s) n = Some u"
  shows "nat (uindex u) < length (future s)" "future s ! nat (uindex u) = n" "0 \<le> uindex u"
proof -
  obtain i where "i < length (future s)" "future s ! i = n" using assms(2) by (auto simp: in_set_conv_nth)
  moreover from this assms have "uindex u = int i" by (auto simp: uidxOK_def)
  ultimately show "nat (uindex u) < length (future s)" "future s ! nat (uindex u) = n" "0 \<le> uindex u"
    by simp_all
qed

lemma userHeaped_change:
  assumes h: "userHeaped s" and n: "n \<in> set (future s)" and u: "mget (users s) n = Some u"
    and u': "\<And>m. m \<noteq> n \<Longrightarrow> mget (users s') m = mget (users s) m" "future s' = future s"
      "\<And>v. mget (users s') n = Some v \<Longrightarrow> uindex v = uindex u"
  shows "uidxOK s'" "hpx (nat (uindex u)) (length (future s)) (userView s')"
proof -
  have ix: "uidxOK s" and o: "hp (length (future s)) (userView s)" using h by (simp_all add: userHeaped_def)
  note pos = uindex_pos [OF ix n u]
  have d: "distinct (future s)" using ix by (simp add: uidxOK_def)
  have "uindex v = int i" if "i < length (future s)" "mget (users s') (future s ! i) = Some v" for i v
  proof (cases "future s ! i = n")
    case True
    with that u' have "uindex v = uindex u" by simp
    moreover have "uindex u = int i" using True that u ix by (auto simp: uidxOK_def)
    ultimately show ?thesis by simp
  next
    case False
    with that u' ix show ?thesis by (auto simp: uidxOK_def)
  qed
  with d show "uidxOK s'" by (simp add: uidxOK_def u'(2))
  show "hpx (nat (uindex u)) (length (future s)) (userView s')"
  proof (rule hpx_update [OF hp_hpx [OF o pos(1)]])
    fix k assume k: "k < length (future s)" "k \<noteq> nat (uindex u)"
    then have "future s ! k \<noteq> n" using d pos nth_eq_iff_index_eq by metis
    with k u' show "userView s' ! k = userView s ! k"
      by (simp add: userView_def headTime_def userOf_def)
  qed
qed

lemma userHeaped_sameHead:
  assumes h: "userHeaped s" and n: "n \<in> set (future s)" and u: "mget (users s) n = Some u"
    and u': "uindex u' = uindex u" "NextAttempt (snd (messages u' ! 0)) = NextAttempt (snd (messages u ! 0))"
  shows "userHeaped (setUser n u' s)"
proof -
  have "uidxOK (setUser n u' s)" using userHeaped_change(1) [OF h n u, of "setUser n u' s"] u' by simp
  moreover have "userView (setUser n u' s) = userView s"
    using u u'(2) by (auto simp: userView_def headTime_setUser) (simp add: headTime_def userOf_def)
  ultimately show ?thesis using h by (simp add: userHeaped_def)
qed

text \<open>What the heap operations on owners leave of the rest of the schedule.\<close>

lemma userPush_heap:
  assumes "userHeaped s" "n \<notin> set (future s)"
  shows "userHeaped (heap_Push userI n s)" "userFr (heap_Push userI n s) = userFr s"
    "set (future (heap_Push userI n s)) = insert n (set (future s))"
proof -
  note p = uh.heap_Push_spec [of s n]
  show "userHeaped (heap_Push userI n s)" "userFr (heap_Push userI n s) = userFr s"
    using p(1,3) assms by (simp_all add: userHeaped_iff)
  have "set_mset (mset (userView (heap_Push userI n s))) = insert (headTime s n, n) (set (userView s))"
    using p(2) assms by (simp add: userHeaped_iff)
  then show "set (future (heap_Push userI n s)) = insert n (set (future s))"
    unfolding future_of_view by simp
qed

lemma userFix_heap:
  assumes "uidxOK s" "hpx i (length (future s)) (userView s)" "i < length (future s)"
  shows "userHeaped (heap_Fix userI i s)" "userFr (heap_Fix userI i s) = userFr s"
    "set (future (heap_Fix userI i s)) = set (future s)"
proof -
  note p = uh.heap_Fix_spec [of s i]
  show "userHeaped (heap_Fix userI i s)" "userFr (heap_Fix userI i s) = userFr s"
    using p(1,3) assms by (simp_all add: userHeaped_iff uh.keys_def)
  have "mset (userView (heap_Fix userI i s)) = mset (userView s)"
    using p(2) assms by (simp add: uh.keys_def)
  then show "set (future (heap_Fix userI i s)) = set (future s)"
    unfolding future_of_view by (metis set_mset_mset)
qed

lemma userPop_heap:
  assumes "userHeaped s" "future s \<noteq> []" "heap_Pop userI s = (n, t)"
  shows "userHeaped t" "userFr t = userFr s" "n \<notin> set (future t)" "n = future s ! 0"
    "set (future s) = insert n (set (future t))" "length (future s) = Suc (length (future t))"
    "\<forall>m \<in> set (future s). headTime s n \<le> headTime s m"
proof -
  have h: "uh.heaped s" "userView s \<noteq> []" using assms by (auto simp: userHeaped_iff userView_def)
  note p = uh.heap_Pop_spec [OF h assms(3)]
  show "userHeaped t" "userFr t = userFr s" "n \<notin> set (future t)"
    using p by (simp_all add: userHeaped_iff)
  show "n = future s ! 0" using p(4) assms(2) by (simp add: userView_def)
  have v: "set_mset (mset (userView s)) = insert (headTime s n, n) (set (userView t))" using p(2) by simp
  then show "set (future s) = insert n (set (future t))" unfolding future_of_view by simp
  have "size (mset (userView s)) = Suc (size (mset (userView t)))" using p(2) by simp
  then show "length (future s) = Suc (length (future t))" by simp
  show "\<forall>m \<in> set (future s). headTime s n \<le> headTime s m"
    using p(6) by (auto simp: userView_def less_eq_prod_def)
qed

lemma sched_ok_via:
  assumes "schedBase s" "distinct (due s)" "set (due s) = namesWith True s"
    "userHeaped t" "userFr t = userFr s" "set (future t) = namesWith False s"
  shows "sched_ok t" "contents t = contents s"
  using assms schedBase_fr [of s t] namesWith_fr [of t s] userFr_eqD(3) [of t s] contents_fr [of t s]
  by (simp_all add: sched_ok_def)

subsection \<open>Scheduling a message\<close>

lemma find_ref:
  assumes "distinct (map fst h)" "i < length h" "fst (h ! i) = r"
  shows "find (\<lambda>p. fst p = r) h = Some (h ! i)"
  using assms
proof (induction h arbitrary: i)
  case (Cons p h)
  then show ?case
    by (cases i) (auto dest: nth_mem)
qed simp

lemma envIndex_pos:
  assumes "distinct (map fst h)" "idxOK h" "i < length h" "fst (h ! i) = r"
  shows "envIndex r h = int i"
  using assms find_ref [OF assms(1,3,4)] by (simp add: envIndex_def idxOK_def)

lemma push_sameHead:
  assumes "envHeaped h" "h \<noteq> []" "distinct (map fst (heap_Push envI p h))"
    "envIndex (fst p) (heap_Push envI p h) \<noteq> 0"
  shows "NextAttempt (snd (heap_Push envI p h ! 0)) = NextAttempt (snd (h ! 0))"
proof -
  define h' where "h' = heap_Push envI p h"
  have h': "envHeaped h'" "mset (map erase h') = add_mset (erase p) (mset (map erase h))"
    unfolding h'_def using envPush_heap [OF assms(1)] by simp_all
  have ne: "0 < length h'" using h'(2) by auto
  have set': "erase ` set h' = insert (erase p) (erase ` set h)"
    using arg_cong [OF h'(2), of set_mset] by simp
  have "fst (h' ! 0) \<noteq> fst p"
    using assms(3,4) envIndex_pos [of h' 0 "fst p"] h'(1) ne by (auto simp: h'_def envHeaped_def)
  moreover have "erase (h' ! 0) \<in> insert (erase p) (erase ` set h)" using ne set' nth_mem by blast
  ultimately obtain q where q: "q \<in> set h" "erase (h' ! 0) = erase q"
    by (metis erase_simps(1) image_iff insert_iff)
  have "envKey (h ! 0) \<le> envKey (h' ! 0)" using envHeaped_least [OF assms(1) q(1)] q(2) erase_simps(2) by metis
  moreover have "erase (h ! 0) \<in> erase ` set h'" using set' assms(2) by auto
  then obtain q' where "q' \<in> set h'" "erase (h ! 0) = erase q'" by auto
  with envHeaped_least [OF h'(1)] have "envKey (h' ! 0) \<le> envKey (h ! 0)" using erase_simps(2) by metis
  ultimately have "envKey (h' ! 0) = envKey (h ! 0)" by simp
  then show ?thesis by (simp add: envKey_def h'_def)
qed

definition fresh :: "nat \<Rightarrow> schedule \<Rightarrow> bool" where
  "fresh r s \<longleftrightarrow> (\<forall>q \<in># contents s. fst q \<noteq> r)"

lemma contents_member:
  assumes "schedBase s" "mget (users s) n = Some u" "q \<in> set (messages u)"
  shows "erase q \<in># contents s"
  using assms contents_split [of s n u] by (auto simp: schedBase_def)

lemma push_head_le:
  assumes "envHeaped h" "h \<noteq> []"
  shows "NextAttempt (snd (heap_Push envI p h ! 0)) \<le> NextAttempt (snd (h ! 0))"
proof -
  define h' where "h' = heap_Push envI p h"
  have h': "envHeaped h'" "mset (map erase h') = add_mset (erase p) (mset (map erase h))"
    unfolding h'_def using envPush_heap [OF assms(1)] by simp_all
  have "erase ` set h' = insert (erase p) (erase ` set h)"
    using arg_cong [OF h'(2), of set_mset] by simp
  then have "erase (h ! 0) \<in> erase ` set h'" using assms(2) by auto
  then obtain q where "q \<in> set h'" "erase (h ! 0) = erase q" by auto
  with envHeaped_least [OF h'(1)] have "envKey (h' ! 0) \<le> envKey (h ! 0)" using erase_simps(2) by metis
  then show ?thesis by (auto simp: envKey_def h'_def less_eq_prod_def)
qed

lemma schedPush_ok:
  assumes ok: "sched_ok s" and fr: "fresh (fst p) s"
  shows "sched_ok (schedPush p s) \<and> contents (schedPush p s) = add_mset (erase p) (contents s) \<and>
    due (schedPush p s) = due s \<and> (\<forall>m \<in> set (due s). headTime (schedPush p s) m \<le> headTime s m)"
proof -
  define n where "n = Username (snd p)"
  define user where "user = (case mget (users s) n of
      None \<Rightarrow> \<lparr>uname = n, messages = [], uindex = -1, udue = False\<rparr> | Some u \<Rightarrow> u)"
  define user' where "user' = user\<lparr>messages := heap_Push envI p (messages user)\<rparr>"
  define s1 where "s1 = (setUser n user' s)\<lparr>scount := scount s + 1\<rparr>"
  have b: "schedBase s" "distinct (mkeys (users s))" and h: "userHeaped s"
    and pl: "distinct (due s)" "set (due s) = namesWith True s" "set (future s) = namesWith False s"
    using ok by (simp_all add: sched_ok_def schedBase_def)
  have q: "mget (users s) n = Some u \<Longrightarrow> queueOK n u" for u using b(1) by (simp add: schedBase_def)
  have core: "uname user = n" "envHeaped (messages user)" "\<forall>q \<in> set (messages user). Username (snd q) = n"
    "distinct (map fst (messages user))"
    using q by (auto simp: user_def queueOK_def envHeaped_def idxOK_def hp_def split: option.splits)
  have "erase q \<in># contents s" if "q \<in> set (messages user)" for q
    using that contents_member [OF b(1), of n] by (simp add: user_def split: option.splits)
  then have "fst q \<noteq> fst p" if "q \<in> set (messages user)" for q
    using that fr erase_simps(1) unfolding fresh_def by metis
  then have "fst p \<notin> fst ` set (messages user)" by fastforce
  then have q': "queueOK n user'"
    unfolding user'_def using core by (intro queueOK_push) (simp_all add: n_def)
  have c1: "contents s1 = add_mset (erase p) (contents s)"
    using contents_setUser [OF b(2), of n user'] contents_split [OF b(2), of n] contents_absent [of s n]
      envPush_heap(2) [OF core(2), of p]
    by (auto simp: s1_def user'_def user_def split: option.splits)
  have b1: "schedBase s1"
    unfolding s1_def using b c1 q' by (intro schedBase_setUser) (auto simp: s1_def schedBase_def)
  have HT: "\<forall>m \<in> set (due s). headTime s1 m \<le> headTime s m"
  proof
    fix m assume m: "m \<in> set (due s)"
    show "headTime s1 m \<le> headTime s m"
    proof (cases "m = n")
      case True
      with m pl obtain u where u: "mget (users s) n = Some u" by (auto simp: namesWith_def)
      then have "messages user \<noteq> []" using q [OF u] by (simp add: user_def queueOK_def)
      from push_head_le [OF core(2) this, of p] u True show ?thesis
        by (simp add: s1_def headTime_setUser user'_def) (simp add: headTime_def userOf_def user_def)
    qed (simp add: s1_def headTime_setUser)
  qed
  have via: "due t = due s \<and> (\<forall>m \<in> set (due s). headTime t m \<le> headTime s m)" if "userFr t = userFr s1" for t
    using HT userFr_eqD(3) [OF that] headTime_fr [OF that] by (simp add: s1_def)
  have e: "schedPush p s = (if udue user then s1 else if messages user = [] then heap_Push userI n s1
      else if envIndex (fst p) (messages user') = 0 then heap_Fix userI (nat (uindex user)) s1 else s1)"
    unfolding schedPush_def Let_def n_def [symmetric] user_def [symmetric] user'_def [symmetric] s1_def [symmetric]
    by (simp add: user'_def)
  show ?thesis
  proof (cases "mget (users s) n")
    case None
    then have u: "messages user = []" "udue user = False" by (simp_all add: user_def)
    have nf: "n \<notin> set (future s)" "n \<notin> namesWith True s" using None pl by (auto simp: namesWith_def)
    then have h1: "userHeaped s1" "n \<notin> set (future s1)" using h by (simp_all add: s1_def userHeaped_setUser_out)
    note P = userPush_heap [OF h1]
    have n1: "namesWith True s1 = namesWith True s" "namesWith False s1 = insert n (namesWith False s)"
      using nf u by (auto simp: s1_def namesWith_setUser user'_def)
    have "sched_ok (heap_Push userI n s1)" "contents (heap_Push userI n s1) = contents s1"
      by (rule sched_ok_via [OF b1 _ _ P(1,2)]; use pl P(3) n1 in \<open>simp add: s1_def\<close>)+
    then show ?thesis using c1 e u via [OF P(2)] by simp
  next
    case (Some u)
    then have u: "user = u" by (simp add: user_def)
    have ne: "messages u \<noteq> []" using q [OF Some] by (simp add: queueOK_def)
    have n1: "namesWith b s1 = namesWith b s" for b
      using Some u by (auto simp: s1_def namesWith_setUser user'_def) (auto simp: namesWith_def)
    show ?thesis
    proof (cases "udue u")
      case True
      then have "n \<notin> set (future s)" using Some pl by (simp add: namesWith_def)
      then have "userHeaped s1" using h by (simp add: s1_def userHeaped_setUser_out)
      then have "sched_ok s1" using b1 pl n1 by (intro sched_okI) (simp_all add: s1_def)
      then show ?thesis using c1 e u True via [OF refl] by simp
    next
      case False
      then have nf: "n \<in> set (future s)" using Some pl by (simp add: namesWith_def)
      show ?thesis
      proof (cases "envIndex (fst p) (messages user') = 0")
        case True
        have ch: "uidxOK s1" "hpx (nat (uindex u)) (length (future s)) (userView s1)"
          by (rule userHeaped_change [OF h nf Some]; simp add: s1_def user'_def u)+
        have "uidxOK s" using h by (simp add: userHeaped_def)
        note i = uindex_pos(1) [OF this nf Some]
        have "future s1 = future s" by (simp add: s1_def)
        note F = userFix_heap [OF ch(1), of "nat (uindex u)"]
        have "sched_ok (heap_Fix userI (nat (uindex u)) s1)" "contents (heap_Fix userI (nat (uindex u)) s1) = contents s1"
          by (rule sched_ok_via [OF b1]; use pl F ch i n1 in \<open>simp add: s1_def\<close>)+
        then show ?thesis using c1 e u False ne True via [OF F(2)] ch i by (simp add: s1_def)
      next
        case other: False
        have "distinct (map fst (messages user'))" using q' by (simp add: queueOK_def)
        then have "NextAttempt (snd (messages user' ! 0)) = NextAttempt (snd (messages u ! 0))"
          using push_sameHead [of "messages u" p] core(2) ne other u by (simp add: user'_def)
        then have "userHeaped s1"
          using userHeaped_sameHead [OF h nf Some, of user'] by (simp add: s1_def user'_def u)
        then have "sched_ok s1" using b1 pl n1 by (intro sched_okI) (simp_all add: s1_def)
        then show ?thesis using c1 e u False ne other via [OF refl] by simp
      qed
    qed
  qed
qed

subsection \<open>Taking the next due message\<close>

lemma userOf_eq: "mget (users s) n = Some u \<Longrightarrow> userOf s n = u"
  by (simp add: userOf_def)

lemma namesWithE:
  assumes "n \<in> namesWith b s"
  obtains u where "mget (users s) n = Some u" "udue u = b"
  using assms by (auto simp: namesWith_def)

lemma promote_step:
  assumes ok: "sched_ok s" and ne: "future s \<noteq> []" and p: "heap_Pop userI s = (n, s1)"
  defines "t \<equiv> (setUser n ((userOf s1 n)\<lparr>udue := True\<rparr>) s1)\<lparr>due := due s1 @ [n]\<rparr>"
  shows "sched_ok t" "contents t = contents s" "due t = due s @ [n]" "headTime t m = headTime s m"
    "n = future s ! 0"
proof -
  have b: "schedBase s" and h: "userHeaped s" and d: "distinct (due s)"
    and pl: "set (due s) = namesWith True s" "set (future s) = namesWith False s"
    using ok by (simp_all add: sched_ok_def)
  note P = userPop_heap [OF h ne p]
  have b1: "schedBase s1" "distinct (mkeys (users s1))"
    using schedBase_fr [OF P(2) [symmetric] b] by (simp_all add: schedBase_def)
  have nw: "namesWith c s1 = namesWith c s" for c by (rule namesWith_fr [OF P(2)])
  have "n \<in> namesWith False s1" using P(5) pl nw by blast
  then obtain u where u: "mget (users s1) n = Some u" "\<not> udue u" by (auto elim: namesWithE)
  define u' where "u' = u\<lparr>udue := True\<rparr>"
  have t: "t = (setUser n u' s1)\<lparr>due := due s1 @ [n]\<rparr>" by (simp add: t_def u'_def userOf_eq [OF u(1)])
  have "n \<notin> namesWith True s1" using u by (simp add: namesWith_def)
  then have nd: "n \<notin> set (due s)" using pl nw by simp
  have c: "contents (setUser n u' s1) = contents s1"
    by (simp add: contents_setUser [OF b1(2)] contents_split [OF b1(2) u(1)] u'_def)
  have qu: "queueOK n u'" using b1 u by (auto simp: schedBase_def queueOK_def u'_def)
  have "schedBase ((setUser n u' s1)\<lparr>scount := scount s1\<rparr>)"
    using b1 qu c by (intro schedBase_setUser) (auto simp: schedBase_def)
  moreover have "(setUser n u' s1)\<lparr>scount := scount s1\<rparr> = setUser n u' s1" by (simp add: setUser_def)
  ultimately have bt: "schedBase t" by (simp add: t)
  have due1: "due s1 = due s" by (rule userFr_eqD(3) [OF P(2)])
  show "sched_ok t"
  proof (rule sched_okI [OF bt])
    show "distinct (due t)" using d nd by (simp add: t due1)
    show "set (due t) = namesWith True t" using pl nw by (simp add: t due1 namesWith_setUser u'_def)
    show "set (future t) = namesWith False t"
      using P(3,5) pl nw by (auto simp: t namesWith_setUser u'_def)
    show "userHeaped t" using P(1,3) by (simp add: t userHeaped_setUser_out)
  qed
  show "contents t = contents s" by (simp add: t c contents_fr [OF P(2)])
  show "due t = due s @ [n]" by (simp add: t due1)
  have "headTime t m = headTime s1 m" using u by (simp add: t headTime_setUser u'_def) (simp add: headTime_def userOf_def)
  then show "headTime t m = headTime s m" using headTime_fr [OF P(2)] by simp
  show "n = future s ! 0" by (rule P(4))
qed

lemma promoteDue_spec:
  assumes "sched_ok s"
  shows "sched_ok (promoteDue now s) \<and> contents (promoteDue now s) = contents s \<and>
    (\<forall>m. headTime (promoteDue now s) m = headTime s m) \<and>
    (\<forall>m \<in> set (future (promoteDue now s)). now < headTime s m) \<and>
    (\<exists>ext. due (promoteDue now s) = due s @ ext \<and> (\<forall>m \<in> set ext. headTime s m \<le> now))"
  using assms
proof (induction now s rule: promoteDue.induct)
  case (1 now s)
  show ?case
  proof (cases "future s \<noteq> [] \<and> \<not> headTime s (future s ! 0) > now")
    case True
    obtain n s1 where p: "heap_Pop userI s = (n, s1)" by fastforce
    define t where "t = (setUser n ((userOf s1 n)\<lparr>udue := True\<rparr>) s1)\<lparr>due := due s1 @ [n]\<rparr>"
    have e: "promoteDue now s = promoteDue now t"
      using True p by (subst promoteDue.simps) (simp add: Let_def t_def)
    note S = promote_step [OF 1(2) conjunct1 [OF True] p, folded t_def]
    have IH: "sched_ok (promoteDue now t) \<and> contents (promoteDue now t) = contents t \<and>
      (\<forall>m. headTime (promoteDue now t) m = headTime t m) \<and>
      (\<forall>m \<in> set (future (promoteDue now t)). now < headTime t m) \<and>
      (\<exists>ext. due (promoteDue now t) = due t @ ext \<and> (\<forall>m \<in> set ext. headTime t m \<le> now))"
      using 1(1) [OF True p [symmetric] refl refl] S(1) by (simp add: t_def)
    then obtain ext where "due (promoteDue now t) = due s @ n # ext" "\<forall>m \<in> set ext. headTime s m \<le> now"
      using S(3,4) by auto
    moreover have "headTime s n \<le> now" using True S(5) by simp
    ultimately have "\<exists>ext. due (promoteDue now t) = due s @ ext \<and> (\<forall>m \<in> set ext. headTime s m \<le> now)"
      by (intro exI [of _ "n # ext"]) simp
    then show ?thesis using IH S(2,4) unfolding e by simp
  next
    case False
    then have e: "promoteDue now s = s" by (subst promoteDue.simps) (simp only: if_False)
    have h: "hp (length (future s)) (userView s)" using 1(2) by (simp add: sched_ok_def userHeaped_def)
    have "now < headTime s m" if m: "m \<in> set (future s)" for m
    proof -
      obtain k where k: "k < length (future s)" "future s ! k = m" using m by (auto simp: in_set_conv_nth)
      have "userView s ! 0 \<le> userView s ! k" by (rule hp_least [OF h k(1)])
      moreover have "0 < length (future s)" using k(1) by linarith
      ultimately have "headTime s (future s ! 0) \<le> headTime s m"
        using k by (auto simp: userView_def less_eq_prod_def)
      with False m show ?thesis by fastforce
    qed
    with 1(2) e show ?thesis by simp
  qed
qed

text \<open>The three ways an owner is left after one of its messages has been taken.\<close>

lemma delUser_ok:
  assumes ok: "sched_ok s" and u: "mget (users s) n = Some u" and t: "users t = mdel n (users s)"
    "scount t = scount s - int (length (messages u))"
    and pl: "due t = remove1 n (due s)" "set (future t) = set (future s) - {n}" "userHeaped t"
  shows "sched_ok t" "contents s = mset (map erase (messages u)) + contents t"
proof -
  have b: "schedBase s" "distinct (mkeys (users s))" and d: "distinct (due s)"
    and p: "set (due s) = namesWith True s" "set (future s) = namesWith False s"
    using ok by (simp_all add: sched_ok_def schedBase_def)
  show c: "contents s = mset (map erase (messages u)) + contents t"
    using contents_split [OF b(2) u] by (simp add: contents_def t(1))
  have n: "namesWith x t = namesWith x s - {n}" for x
    by (auto simp: namesWith_def t(1) map_simps)
  have "schedBase t"
    using b c t by (auto simp: schedBase_def map_simps)
  then show "sched_ok t"
    by (rule sched_okI) (use d p pl n in simp_all)
qed

lemma keepUser_base:
  assumes ok: "sched_ok s" and u: "mget (users s) n = Some u" and q: "queueOK n u'"
    and c: "mset (map erase (messages u)) = add_mset x (mset (map erase (messages u')))"
  shows "schedBase ((setUser n u' s)\<lparr>scount := scount s - 1\<rparr>)"
    "contents s = add_mset x (contents (setUser n u' s))"
proof -
  have b: "schedBase s" "distinct (mkeys (users s))" using ok by (simp_all add: sched_ok_def schedBase_def)
  show c': "contents s = add_mset x (contents (setUser n u' s))"
    by (simp add: contents_split [OF b(2) u] contents_setUser [OF b(2)] c [simplified])
  show "schedBase ((setUser n u' s)\<lparr>scount := scount s - 1\<rparr>)"
    using b(1) q by (rule schedBase_setUser) (use b(1) c' in \<open>simp add: schedBase_def\<close>)
qed

text \<open>The owner goes from the due list to the heap of owners.\<close>

lemma parkUser_ok:
  assumes ok: "sched_ok s" and u: "mget (users s) n = Some u" "udue u" and q: "queueOK n u'" "\<not> udue u'"
    and c: "mset (map erase (messages u)) = add_mset x (mset (map erase (messages u')))"
  defines "s1 \<equiv> (setUser n u' s)\<lparr>scount := scount s - 1, due := remove1 n (due s)\<rparr>"
  shows "sched_ok (heap_Push userI n s1)" "contents s = add_mset x (contents (heap_Push userI n s1))"
    "due (heap_Push userI n s1) = remove1 n (due s)" "headTime (heap_Push userI n s1) m = headTime s1 m"
proof -
  have p: "set (due s) = namesWith True s" "set (future s) = namesWith False s" "distinct (due s)" and h: "userHeaped s"
    using ok by (simp_all add: sched_ok_def)
  note K = keepUser_base [OF ok u(1) q(1) c]
  have b1: "schedBase s1" using K(1) by (simp add: s1_def)
  have nf: "n \<notin> set (future s)" using p(2) u by (simp add: namesWith_def)
  then have h1: "userHeaped s1" "n \<notin> set (future s1)" using h by (simp_all add: s1_def userHeaped_setUser_out)
  note P = userPush_heap [OF h1]
  have nw: "namesWith True s1 = namesWith True s - {n}" "namesWith False s1 = insert n (namesWith False s)"
    using q(2) by (simp_all add: s1_def namesWith_setUser)
  have "sched_ok (heap_Push userI n s1)" "contents (heap_Push userI n s1) = contents s1"
    by (rule sched_ok_via [OF b1 _ _ P(1,2)]; use p P(3) nw in \<open>simp add: s1_def\<close>)+
  then show "sched_ok (heap_Push userI n s1)" "contents s = add_mset x (contents (heap_Push userI n s1))"
    using K(2) by (simp_all add: s1_def)
  show "due (heap_Push userI n s1) = remove1 n (due s)" using userFr_eqD(3) [OF P(2)] by (simp add: s1_def)
  show "headTime (heap_Push userI n s1) m = headTime s1 m" by (rule headTime_fr [OF P(2)])
qed

definition dueBy :: "gtime \<Rightarrow> schedule \<Rightarrow> bool" where
  "dueBy T s \<longleftrightarrow> (\<forall>n \<in> set (due s). headTime s n \<le> T)"

lemma queueOK_after:
  assumes "queueOK n u" "mset (map erase (messages u)) = add_mset x (mset (map erase h))" "envHeaped h" "h \<noteq> []"
    "uname u' = uname u" "messages u' = h"
  shows "queueOK n u'"
  by (rule queueOK_transfer [OF assms(1)]) (use assms in simp_all)

lemma owner_contents:
  assumes "schedBase s" "mget (users s) n = Some u" "q \<in># contents s" "Username (snd q) = n"
  shows "q \<in># mset (map erase (messages u))"
proof -
  have "\<exists>m v. mget (users s) m = Some v \<and> q \<in># mset (map erase (messages v))"
    if "distinct (mkeys us)" "us = users s" "q \<in># gsum (\<lambda>p. mset (map erase (messages (snd p)))) vs" "set vs \<subseteq> set us" for us vs
    using that(3,4)
  proof (induction vs)
    case (Cons p vs)
    then show ?case using in_set_mgetD [OF that(1), of p] that(2) by auto
  qed simp
  then obtain m v where v: "mget (users s) m = Some v" "q \<in># mset (map erase (messages v))"
    using assms(1,3) unfolding contents_def schedBase_def by blast
  then have "queueOK m v" using assms(1) by (simp add: schedBase_def)
  then have "Username (snd q) = m" using v(2) by (auto simp: queueOK_def)
  with v assms show ?thesis by simp
qed

definition popped :: "gtime \<Rightarrow> schedule \<Rightarrow> string \<Rightarrow> string list \<Rightarrow> eptr \<Rightarrow> schedule \<Rightarrow> bool" where
  "popped now s n rest p t \<longleftrightarrow> sched_ok t \<and> contents s = add_mset (erase p) (contents t) \<and>
     (due t = rest \<or> due t = rest @ [n]) \<and> (\<forall>m. m \<noteq> n \<longrightarrow> headTime t m = headTime s m) \<and>
     (n \<in> set (due t) \<longrightarrow> headTime t n \<le> now)"

lemma PopDue_pop:
  assumes ok: "sched_ok s" and s: "s = promoteDue now s0" and d: "due s = n # rest"
    and e: "PopDue now s0 = (res, t)" and u: "mget (users s) n = Some u" "udue u"
    and hp: "heap_Pop envI (messages u) = (p, msgs)"
  shows "res = Some p \<and> popped now s n rest p t"
proof -
  have b: "schedBase s" and pl: "set (due s) = namesWith True s" "set (future s) = namesWith False s"
    and h: "userHeaped s" and dd: "distinct (due s)" using ok by (simp_all add: sched_ok_def)
  have q: "queueOK n u" using b u by (simp add: schedBase_def)
  then have eh: "envHeaped (messages u)" "messages u \<noteq> []" by (simp_all add: queueOK_def)
  note P = envPop_heap [OF eh hp]
  have nf: "n \<notin> set (future s)" and nr: "n \<notin> set rest" using pl u dd d by (auto simp: namesWith_def)
  define s1 where "s1 = s\<lparr>due := rest, scount := scount s - 1\<rparr>"
  have E: "(res, t) = (if msgs = [] then (Some p, s1\<lparr>users := mdel n (users s1)\<rparr>)
     else if \<not> NextAttempt (snd (msgs ! 0)) > now
     then (Some p, (setUser n (u\<lparr>messages := msgs\<rparr>) s1)\<lparr>due := rest @ [n]\<rparr>)
     else (Some p, heap_Push userI n (setUser n (u\<lparr>messages := msgs, udue := False\<rparr>) s1)))"
    using e d by (auto simp: PopDue_def Let_def s [symmetric] userOf_eq [OF u(1)] hp s1_def split: if_splits)
  consider (gone) "msgs = []" | (due) "msgs \<noteq> []" "\<not> NextAttempt (snd (msgs ! 0)) > now"
    | (later) "msgs \<noteq> []" "NextAttempt (snd (msgs ! 0)) > now" by blast
  then show ?thesis
  proof cases
    case gone
    with E have t: "res = Some p" "t = s1\<lparr>users := mdel n (users s1)\<rparr>" by simp_all
    have "size (mset (map erase (messages u))) = 1" using P(2) gone by simp
    then have l: "length (messages u) = 1" by simp
    have ht: "headTime t m = headTime s m" if "m \<noteq> n" for m
      using that by (simp add: t s1_def headTime_def userOf_def map_simps)
    have "future t = future s" by (simp add: t s1_def)
    then have "userView t = userView s" using nf ht by (metis (no_types, lifting) map_cong userView_def)
    moreover have "uidxOK t" using h nf by (auto simp: t s1_def userHeaped_def uidxOK_def map_simps split: if_splits)
    ultimately have ht': "userHeaped t" using h by (simp add: userHeaped_def) (simp add: t s1_def)
    have "sched_ok t" "contents s = mset (map erase (messages u)) + contents t"
      by (rule delUser_ok [OF ok u(1)]; use l nf nr d ht' in \<open>simp add: t s1_def\<close>)+
    then show ?thesis using P(2) gone t ht nr by (simp add: popped_def s1_def)
  next
    case due
    define u' where "u' = u\<lparr>messages := msgs\<rparr>"
    from E due have t: "res = Some p" "t = (setUser n u' s1)\<lparr>due := rest @ [n]\<rparr>" by (simp_all add: u'_def)
    have q': "queueOK n u'" by (rule queueOK_after [OF q P(2,1) due(1)]) (simp_all add: u'_def)
    have t': "t = (setUser n u' s)\<lparr>scount := scount s - 1, due := rest @ [n]\<rparr>" by (simp add: t s1_def setUser_def)
    have K: "schedBase ((setUser n u' s)\<lparr>scount := scount s - 1\<rparr>)"
      "contents s = add_mset (erase p) (contents (setUser n u' s))"
      by (rule keepUser_base [OF ok u(1) q']; use P(2) in \<open>simp add: u'_def\<close>)+
    have "sched_ok t"
    proof (rule sched_okI)
      show "schedBase t" using K(1) by (simp add: t')
      show "distinct (Schedule.due t)" using dd d by (simp add: t')
      show "set (Schedule.due t) = namesWith True t" using pl d u by (auto simp: t' namesWith_setUser u'_def)
      show "set (future t) = namesWith False t" using pl d u nf by (auto simp: t' namesWith_setUser u'_def)
      show "userHeaped t" using h nf by (simp add: t' userHeaped_setUser_out)
    qed
    then show ?thesis using K(2) due t(1) by (auto simp: popped_def t' headTime_setUser u'_def)
  next
    case later
    define u' where "u' = u\<lparr>messages := msgs, udue := False\<rparr>"
    from E later have t: "res = Some p" "t = heap_Push userI n (setUser n u' s1)" by (simp_all add: u'_def)
    have q': "queueOK n u'" by (rule queueOK_after [OF q P(2,1) later(1)]) (simp_all add: u'_def)
    have r: "remove1 n (Schedule.due s) = rest" using d by simp
    have "setUser n u' s1 = (setUser n u' s)\<lparr>scount := scount s - 1, due := remove1 n (Schedule.due s)\<rparr>"
      by (simp add: s1_def setUser_def r)
    with t(2) have t': "t = heap_Push userI n ((setUser n u' s)\<lparr>scount := scount s - 1, due := remove1 n (Schedule.due s)\<rparr>)"
      by simp
    have c: "mset (map erase (messages u)) = add_mset (erase p) (mset (map erase (messages u')))" "\<not> udue u'"
      using P(2) by (simp_all add: u'_def)
    note K = parkUser_ok [OF ok u q' c(2,1), folded t']
    show ?thesis using K t(1) r nr by (simp add: popped_def headTime_setUser)
  qed
qed

lemma PopDue_none: "due (promoteDue now s) = [] \<Longrightarrow> PopDue now s = (None, promoteDue now s)"
  by (simp add: PopDue_def Let_def)

lemma PopDue_some:
  assumes ok: "sched_ok s" and d: "due (promoteDue now s) = n # rest"
  obtains p t where "PopDue now s = (Some p, t)" "popped now (promoteDue now s) n rest p t"
    "Username (snd p) = n" "NextAttempt (snd p) = headTime s n"
    "\<forall>q \<in># contents s. Username (snd q) = n \<longrightarrow> envKey p \<le> envKey q"
proof -
  define s1 where "s1 = promoteDue now s"
  note pr = promoteDue_spec [OF ok, of now, folded s1_def]
  have ok1: "sched_ok s1" using pr by blast
  then have b: "schedBase s1" and pl: "set (due s1) = namesWith True s1" by (simp_all add: sched_ok_def)
  then have "n \<in> namesWith True s1" using d by (metis list.set_intros(1) s1_def)
  then obtain u where u: "mget (users s1) n = Some u" "udue u" by (auto elim: namesWithE)
  obtain p msgs where hp: "heap_Pop envI (messages u) = (p, msgs)" by fastforce
  obtain res t where e: "PopDue now s = (res, t)" by fastforce
  have q: "queueOK n u" using b u by (simp add: schedBase_def)
  then have eh: "envHeaped (messages u)" "messages u \<noteq> []" by (simp_all add: queueOK_def)
  note P = envPop_heap [OF eh hp]
  have in_u: "messages u ! 0 \<in> set (messages u)" using eh(2) by simp
  have "Username (snd (erase p)) = n" unfolding P(3) using q in_u by (simp add: queueOK_def)
  moreover have "NextAttempt (snd (erase p)) = headTime s1 n"
    unfolding P(3) by (simp add: headTime_def userOf_eq [OF u(1)])
  moreover have "envKey p \<le> envKey q" if q: "q \<in># contents s" "Username (snd q) = n" for q
  proof -
    have "q \<in># contents s1" using q(1) pr by simp
    from owner_contents [OF b u(1) this q(2)] obtain q' where "q' \<in> set (messages u)" "q = erase q'" by auto
    with P(4) show ?thesis by simp
  qed
  moreover have "PopDue now s = (Some p, t)" "popped now s1 n rest p t"
    using PopDue_pop [OF ok1 s1_def _ e u hp] d e by (simp_all add: s1_def)
  ultimately show ?thesis using that pr by (simp add: s1_def)
qed

lemma PopDue_ok:
  assumes "sched_ok s" "PopDue now s = (res, t)"
  shows "sched_ok t" "contents s = (case res of None \<Rightarrow> {#} | Some p \<Rightarrow> {#erase p#}) + contents t"
    "dueBy now s \<Longrightarrow> dueBy now t"
proof -
  note pr = promoteDue_spec [OF assms(1), of now]
  have "sched_ok t \<and> contents s = (case res of None \<Rightarrow> {#} | Some p \<Rightarrow> {#erase p#}) + contents t \<and>
    (dueBy now s \<longrightarrow> dueBy now t)"
  proof (cases "due (promoteDue now s)")
    case Nil
    with PopDue_none [OF Nil] assms(2) pr show ?thesis by (auto simp: dueBy_def)
  next
    case (Cons n rest)
    then obtain p t' where p: "PopDue now s = (Some p, t')" "popped now (promoteDue now s) n rest p t'"
      using PopDue_some [OF assms(1) Cons] by metis
    have all: "dueBy now s \<Longrightarrow> \<forall>m \<in> set rest. headTime s m \<le> now"
      using pr Cons by (auto simp: dueBy_def) (metis Un_iff list.set_intros(2) set_append)
    have "dueBy now t'" if "dueBy now s"
    proof -
      have "headTime t' m \<le> now" if "m \<in> set (due t')" for m
        using p(2) that all [OF \<open>dueBy now s\<close>] pr by (cases "m = n") (auto simp: popped_def)
      then show ?thesis by (simp add: dueBy_def)
    qed
    then show ?thesis using p assms(2) pr by (auto simp: popped_def)
  qed
  then show "sched_ok t" "contents s = (case res of None \<Rightarrow> {#} | Some p \<Rightarrow> {#erase p#}) + contents t"
    "dueBy now s \<Longrightarrow> dueBy now t" by simp_all
qed

subsection \<open>Removing a message\<close>

lemma remove_sameHead:
  assumes h: "envHeaped h" "distinct (map fst h)" and i: "i < length h" "i \<noteq> 0"
    and r: "heap_Remove envI i h = (p, t)"
  shows "t \<noteq> []" "NextAttempt (snd (t ! 0)) = NextAttempt (snd (h ! 0))"
proof -
  note R = envRemove_heap [OF h(1) i(1) r]
  have set': "erase ` set h = insert (erase p) (erase ` set t)"
    using arg_cong [OF R(2), of set_mset] by simp
  have hne: "h \<noteq> []" using i by auto
  then have "fst (h ! 0) \<noteq> fst (h ! i)" using h(2) i nth_eq_iff_index_eq [of "map fst h" 0 i] by simp
  then have "erase (h ! 0) \<noteq> erase p" using R(3) erase_simps(1) by metis
  moreover have "erase (h ! 0) \<in> erase ` set h" using hne by simp
  ultimately have "erase (h ! 0) \<in> erase ` set t" using set' by blast
  then obtain q where q: "q \<in> set t" "erase (h ! 0) = erase q" by auto
  then show ne: "t \<noteq> []" by auto
  have 1: "envKey (t ! 0) \<le> envKey (h ! 0)" using envHeaped_least [OF R(1) q(1)] q(2) erase_simps(2) by metis
  have "erase (t ! 0) \<in> erase ` set h" using set' ne by simp
  then obtain q' where "q' \<in> set h" "erase (t ! 0) = erase q'" by auto
  with envHeaped_least [OF h(1)] have "envKey (h ! 0) \<le> envKey (t ! 0)" using erase_simps(2) by metis
  with 1 have "envKey (t ! 0) = envKey (h ! 0)" by simp
  then show "NextAttempt (snd (t ! 0)) = NextAttempt (snd (h ! 0))" by (simp add: envKey_def)
qed

definition removed :: "gtime \<Rightarrow> schedule \<Rightarrow> eptr \<Rightarrow> schedule \<Rightarrow> bool" where
  "removed now s p t \<longleftrightarrow> sched_ok t \<and> contents s = add_mset (erase p) (contents t) \<and>
     (dueBy now s \<longrightarrow> dueBy now t)"

text \<open>The owner has no other message.\<close>

lemma remove_last:
  assumes ok: "sched_ok s" and u: "mget (users s) n = Some u"
    and c: "mset (map erase (messages u)) = {#erase p#}"
  defines "s2 \<equiv> s\<lparr>scount := scount s - 1, users := mdel n (users s)\<rparr>"
  shows "udue u \<Longrightarrow> removed now s p (s2\<lparr>due := remove1 n (due s2)\<rparr>)"
    "\<not> udue u \<Longrightarrow> 0 \<le> uindex u \<and> removed now s p (snd (heap_Remove userI (nat (uindex u)) s2))"
proof -
  have pl: "set (due s) = namesWith True s" "set (future s) = namesWith False s" "distinct (due s)"
    and h: "userHeaped s" using ok by (simp_all add: sched_ok_def)
  have "size (mset (map erase (messages u))) = 1" using c by simp
  then have l: "length (messages u) = 1" by simp
  have ht: "headTime s2 m = headTime s m" if "m \<noteq> n" for m
    using that by (simp add: s2_def headTime_def userOf_def map_simps)
  have f2: "future s2 = future s" by (simp add: s2_def)
  show "removed now s p (s2\<lparr>due := remove1 n (due s2)\<rparr>)" if "udue u"
  proof -
    have nf: "n \<notin> set (future s)" using that u pl by (simp add: namesWith_def)
    then have "userView s2 = userView s" using f2 ht by (metis (no_types, lifting) map_cong userView_def)
    moreover have "uidxOK s2" using h nf by (auto simp: s2_def userHeaped_def uidxOK_def map_simps split: if_splits)
    ultimately have h2: "userHeaped s2" using h f2 by (simp add: userHeaped_def)
    have "sched_ok (s2\<lparr>due := remove1 n (due s2)\<rparr>)"
      "contents s = mset (map erase (messages u)) + contents (s2\<lparr>due := remove1 n (due s2)\<rparr>)"
      by (rule delUser_ok [OF ok u]; use l nf h2 in \<open>simp add: s2_def\<close>)+
    moreover have "headTime s2 m \<le> now" if "dueBy now s" "m \<in> set (remove1 n (due s))" for m
      using that pl(3) ht [of m] by (simp add: dueBy_def)
    ultimately show ?thesis using c by (auto simp: removed_def dueBy_def s2_def)
  qed
  show "0 \<le> uindex u \<and> removed now s p (snd (heap_Remove userI (nat (uindex u)) s2))" if nd: "\<not> udue u"
  proof -
    have nf: "n \<in> set (future s)" and nnd: "n \<notin> set (due s)" using nd u pl by (simp_all add: namesWith_def)
    have "uidxOK s" using h by (simp add: userHeaped_def)
    note pos = uindex_pos [OF this nf u]
    have ch: "uidxOK s2" "hpx (nat (uindex u)) (length (future s)) (userView s2)"
      by (rule userHeaped_change [OF h nf u]; simp add: s2_def map_simps)+
    obtain x t where r: "heap_Remove userI (nat (uindex u)) s2 = (x, t)" by fastforce
    have R: "uh.heaped t" "mset (userView s2) = add_mset (userElem x (userFr s2)) (mset (userView t))"
      "userFr t = userFr s2" "userElem x (userFr s2) = userView s2 ! nat (uindex u)" "x \<notin> set (future t)"
      by (rule uh.heap_Remove_spec [OF ch(1) _ _ r]; use ch(2) pos f2 in \<open>simp add: uh.keys_def\<close>)+
    have xn: "x = n" using R(4) pos f2 by (simp add: userView_def)
    have "set_mset (mset (userView s2)) = insert (userElem x (userFr s2)) (set (userView t))" using R(2) by simp
    then have "set (future s2) = insert n (set (future t))" unfolding future_of_view using xn by simp
    then have ft: "set (future t) = set (future s) - {n}" using R(5) xn f2 by auto
    have u2: "userFr t = userFr s2" by (rule R(3))
    have t: "contents t = contents s2" "due t = due s" "scount t = scount s - 1"
      using contents_fr [OF u2] userFr_eqD(3,4) [OF u2] by (simp_all add: s2_def)
    have S2: "schedBase s2"
      using ok contents_split [of s n u] u l
      by (auto simp: s2_def schedBase_def sched_ok_def contents_def map_simps)
    have nw: "namesWith True s2 = namesWith True s" "namesWith False s2 = namesWith False s - {n}"
      using u nd by (auto simp: s2_def namesWith_def map_simps)
    have okt: "sched_ok t"
      by (rule sched_ok_via(1) [OF S2 _ _ _ u2]; use pl nw ft R(1) in \<open>simp add: s2_def userHeaped_iff\<close>)
    have "contents s = add_mset (erase p) (contents s2)"
      using ok contents_split [of s n u] u c by (auto simp: s2_def schedBase_def sched_ok_def contents_def)
    moreover have "headTime t m = headTime s m" if "m \<in> set (due s)" for m
      using headTime_fr [OF u2, of m] ht [of m] that nnd by metis
    ultimately show ?thesis using okt t r pos(3) by (simp add: removed_def dueBy_def)
  qed
qed

lemma remove_more:
  assumes ok: "sched_ok s" and u: "mget (users s) n = Some u" and i: "i < length (messages u)"
    and r: "heap_Remove envI i (messages u) = (p, msgs)" and ne: "msgs \<noteq> []"
  defines "s1 \<equiv> (setUser n (u\<lparr>messages := msgs\<rparr>) s)\<lparr>scount := scount s - 1\<rparr>"
  shows "i = 0 \<and> udue u \<and> NextAttempt (snd (msgs ! 0)) > now \<Longrightarrow>
      removed now s p (heap_Push userI n (setUser n (u\<lparr>messages := msgs, udue := False\<rparr>) (s1\<lparr>due := remove1 n (due s1)\<rparr>)))"
    "i = 0 \<and> \<not> udue u \<Longrightarrow> removed now s p (heap_Fix userI (nat (uindex u)) s1)"
    "\<not> (i = 0 \<and> udue u \<and> NextAttempt (snd (msgs ! 0)) > now) \<Longrightarrow> \<not> (i = 0 \<and> \<not> udue u) \<Longrightarrow> removed now s p s1"
proof -
  have b: "schedBase s" and pl: "set (due s) = namesWith True s" "set (future s) = namesWith False s" "distinct (due s)"
    and h: "userHeaped s" using ok by (simp_all add: sched_ok_def)
  have q: "queueOK n u" using b u by (simp add: schedBase_def)
  then have eh: "envHeaped (messages u)" "distinct (map fst (messages u))" by (simp_all add: queueOK_def)
  note R = envRemove_heap [OF eh(1) i r]
  define u' where "u' = u\<lparr>messages := msgs\<rparr>"
  have q': "queueOK n u'" by (rule queueOK_after [OF q R(2,1) ne]) (simp_all add: u'_def)
  have s1: "s1 = (setUser n u' s)\<lparr>scount := scount s - 1\<rparr>" by (simp add: s1_def u'_def)
  have K: "schedBase s1" "contents s = add_mset (erase p) (contents s1)"
    unfolding s1 using keepUser_base [OF ok u q'] R(2) by (simp_all add: u'_def)
  have nw: "namesWith x s1 = namesWith x s" for x
    using u by (auto simp: s1 namesWith_setUser u'_def) (auto simp: namesWith_def)
  have ht: "headTime s1 m = (if m = n then NextAttempt (snd (msgs ! 0)) else headTime s m)" for m
    by (simp add: s1 headTime_setUser u'_def)
  have hn: "headTime s n = NextAttempt (snd (messages u ! 0))" by (simp add: headTime_def userOf_eq [OF u])
  show "removed now s p (heap_Push userI n (setUser n (u\<lparr>messages := msgs, udue := False\<rparr>) (s1\<lparr>due := remove1 n (due s1)\<rparr>)))"
    if c: "i = 0 \<and> udue u \<and> NextAttempt (snd (msgs ! 0)) > now"
  proof -
    define v where "v = u\<lparr>messages := msgs, udue := False\<rparr>"
    have qv: "queueOK n v" by (rule queueOK_after [OF q R(2,1) ne]) (simp_all add: v_def)
    have cv: "\<not> udue v" "mset (map erase (messages u)) = add_mset (erase p) (mset (map erase (messages v)))"
      using R(2) by (simp_all add: v_def)
    have "users (setUser n v (s1\<lparr>due := remove1 n (due s1)\<rparr>)) = mput n v (users s)"
      by (simp add: s1 setUser_def)
    then have e: "setUser n v (s1\<lparr>due := remove1 n (due s1)\<rparr>) =
        (setUser n v s)\<lparr>scount := scount s - 1, due := remove1 n (due s)\<rparr>"
      by (simp add: s1 setUser_def)
    note P = parkUser_ok [OF ok u _ qv cv, folded e]
    have "dueBy now (heap_Push userI n (setUser n v (s1\<lparr>due := remove1 n (due s1)\<rparr>)))" if "dueBy now s"
      using that c pl(3) P(3,4) by (auto simp: dueBy_def headTime_setUser ht)
    then show ?thesis using P(1,2) c by (simp add: removed_def v_def)
  qed
  show "removed now s p (heap_Fix userI (nat (uindex u)) s1)" if c: "i = 0 \<and> \<not> udue u"
  proof -
    have nf: "n \<in> set (future s)" "n \<notin> set (due s)" using c u pl by (simp_all add: namesWith_def)
    have ix: "uidxOK s" using h by (simp add: userHeaped_def)
    have ch: "uidxOK s1" "hpx (nat (uindex u)) (length (future s)) (userView s1)"
      by (rule userHeaped_change [OF h nf(1) u]; simp add: s1 u'_def)+
    have f: "future s1 = future s" "due s1 = due s" by (simp_all add: s1)
    note F = userFix_heap [OF ch(1), of "nat (uindex u)"]
    have F': "userHeaped (heap_Fix userI (nat (uindex u)) s1)" "userFr (heap_Fix userI (nat (uindex u)) s1) = userFr s1"
      "set (future (heap_Fix userI (nat (uindex u)) s1)) = set (future s)"
      using F ch uindex_pos(1) [OF ix nf(1) u] f by simp_all
    have "sched_ok (heap_Fix userI (nat (uindex u)) s1)" "contents (heap_Fix userI (nat (uindex u)) s1) = contents s1"
      by (rule sched_ok_via [OF K(1) _ _ F'(1,2)]; use pl nw f F'(3) in simp)+
    moreover have "dueBy now (heap_Fix userI (nat (uindex u)) s1)" if "dueBy now s"
      using that nf(2) headTime_fr [OF F'(2)] userFr_eqD(3) [OF F'(2)] f ht by (auto simp: dueBy_def)
    ultimately show ?thesis using K(2) by (simp add: removed_def)
  qed
  show "removed now s p s1" if c: "\<not> (i = 0 \<and> udue u \<and> NextAttempt (snd (msgs ! 0)) > now)" "\<not> (i = 0 \<and> \<not> udue u)"
  proof -
    have same: "NextAttempt (snd (msgs ! 0)) = NextAttempt (snd (messages u ! 0))" if "i \<noteq> 0"
      by (rule remove_sameHead(2) [OF eh i that r])
    have "userHeaped s1"
    proof (cases "udue u")
      case True
      then have "n \<notin> set (future s)" using u pl by (simp add: namesWith_def)
      then show ?thesis using h by (simp add: s1 userHeaped_setUser_out)
    next
      case False
      then have "n \<in> set (future s)" using u pl by (simp add: namesWith_def)
      then show ?thesis using userHeaped_sameHead [OF h _ u, of u'] same c False by (simp add: s1 u'_def)
    qed
    then have "sched_ok s1" using K(1) pl nw by (intro sched_okI) (simp_all add: s1)
    moreover have "dueBy now s1" if d: "dueBy now s"
    proof -
      have "headTime s1 m \<le> now" if m: "m \<in> set (due s)" for m
      proof (cases "m = n")
        case True
        then have "udue u" using m u pl by (auto simp: namesWith_def)
        then show ?thesis using True c same hn d m by (cases "i = 0") (auto simp: ht dueBy_def)
      next
        case False
        then show ?thesis using d m by (simp add: ht dueBy_def)
      qed
      then show ?thesis by (simp add: dueBy_def s1)
    qed
    ultimately show ?thesis using K(2) by (simp add: removed_def)
  qed
qed

lemma contents_owner_member:
  assumes b: "schedBase s" and p: "p \<in># contents s" "Username (snd p) = n"
  obtains u q where "mget (users s) n = Some u" "q \<in> set (messages u)" "p = erase q"
proof -
  have "\<exists>u. mget (users s) n = Some u"
  proof (rule ccontr)
    assume "\<nexists>u. mget (users s) n = Some u"
    then have n: "mget (users s) n = None" by (cases "mget (users s) n") auto
    have "Username (snd q) \<noteq> n" if "q \<in># gsum (\<lambda>p. mset (map erase (messages (snd p)))) vs" "set vs \<subseteq> set (users s)" for q vs
      using that
    proof (induction vs)
      case (Cons x vs)
      have "mget (users s) (fst x) = Some (snd x)"
        using Cons.prems b by (intro in_set_mgetD) (auto simp: schedBase_def)
      then have "queueOK (fst x) (snd x)" "fst x \<noteq> n" using b n by (auto simp: schedBase_def)
      with Cons show ?case by (auto simp: queueOK_def)
    qed simp
    with p show False unfolding contents_def by blast
  qed
  then obtain u where u: "mget (users s) n = Some u" ..
  from owner_contents [OF b u p] u that show ?thesis by auto
qed

lemma schedRemove_ok:
  assumes ok: "sched_ok s" and e: "schedRemove r n now s = (b, t)"
  shows "if \<exists>p \<in># contents s. fst p = r \<and> Username (snd p) = n
    then b \<and> (\<exists>p. fst p = r \<and> Username (snd p) = n \<and> removed now s p t) else \<not> b \<and> t = s"
proof (cases "\<exists>p \<in># contents s. fst p = r \<and> Username (snd p) = n")
  case False
  have "envIndex r (messages u) = -1" if u: "mget (users s) n = Some u" for u
  proof -
    have "fst q \<noteq> r" if "q \<in> set (messages u)" for q
    proof -
      have "erase q \<in># contents s" using contents_member [OF _ u that] ok by (simp add: sched_ok_def)
      moreover have "Username (snd q) = n" using ok u that by (simp add: sched_ok_def schedBase_def queueOK_def)
      ultimately show ?thesis using False by (metis erase_simps(1,4))
    qed
    then have "find (\<lambda>p. fst p = r) (messages u) = None" unfolding find_None_iff by blast
    then show ?thesis by (simp add: envIndex_def)
  qed
  with e have "\<not> b \<and> t = s" by (auto simp: schedRemove_def Let_def split: option.splits if_splits)
  with False show ?thesis by simp
next
  case True
  have b: "schedBase s" using ok by (simp add: sched_ok_def)
  from True obtain u q where u: "mget (users s) n = Some u" and q: "q \<in> set (messages u)" "fst q = r"
    by (metis contents_owner_member [OF b] erase_simps(1))
  then obtain i where i: "i < length (messages u)" "fst (messages u ! i) = r" by (auto simp: in_set_conv_nth)
  have k: "queueOK n u" using b u by (simp add: schedBase_def)
  then have eh: "envHeaped (messages u)" "distinct (map fst (messages u))" by (simp_all add: queueOK_def)
  then have ix: "envIndex r (messages u) = int i" using envIndex_pos i by (simp add: envHeaped_def)
  obtain p msgs where r: "heap_Remove envI i (messages u) = (p, msgs)" by fastforce
  note R = envRemove_heap [OF eh(1) i(1) r]
  have pr: "fst p = r" "Username (snd p) = n"
    using R(3) i k erase_simps(1,4) nth_mem [OF i(1)] unfolding queueOK_def by metis+
  have "b \<and> removed now s p t"
  proof (cases "msgs = []")
    case gone: True
    have c: "mset (map erase (messages u)) = {#erase p#}" using R(2) gone by simp
    note L = remove_last [OF ok u c, of now]
    show ?thesis
      using e u ix i r gone L by (cases "udue u") (auto simp: schedRemove_def Let_def setUser_def)
  next
    case more: False
    note M = remove_more [OF ok u i(1) r more, of now]
    show ?thesis
      using e u ix i r more M by (auto simp: schedRemove_def Let_def split: if_splits)
  qed
  with pr True show ?thesis by auto
qed

subsection \<open>Reachable schedules\<close>

text \<open>Every schedule the queue can build: pushes of new pointers, removals and deliveries under a
  clock that does not run backwards.\<close>

inductive sched_reach :: "gtime \<Rightarrow> schedule \<Rightarrow> bool" where
  empty: "sched_reach now emptySchedule"
| push: "sched_reach T s \<Longrightarrow> fresh (fst p) s \<Longrightarrow> sched_reach T (schedPush p s)"
| pop: "sched_reach T s \<Longrightarrow> T \<le> now \<Longrightarrow> sched_reach now (snd (PopDue now s))"
| remove: "sched_reach T s \<Longrightarrow> T \<le> now \<Longrightarrow> sched_reach now (snd (schedRemove r n now s))"

lemma emptySchedule_ok: "sched_ok emptySchedule" "dueBy T emptySchedule" "contents emptySchedule = {#}"
  by (simp_all add: sched_ok_def schedBase_def emptySchedule_def namesWith_def contents_def userHeaped_def
      uidxOK_def hp_def dueBy_def)

lemma dueBy_mono: "dueBy T s \<Longrightarrow> T \<le> now \<Longrightarrow> dueBy now s"
  by (auto simp: dueBy_def)

lemma sched_reach_ok: "sched_reach T s \<Longrightarrow> sched_ok s \<and> dueBy T s"
proof (induction rule: sched_reach.induct)
  case (empty now)
  then show ?case by (simp add: emptySchedule_ok)
next
  case (push T s p)
  then show ?case using schedPush_ok [of s p] by (fastforce simp: dueBy_def)
next
  case (pop T s now)
  then show ?case using PopDue_ok [of s now "fst (PopDue now s)" "snd (PopDue now s)"] dueBy_mono [of T s now]
    by simp
next
  case (remove T s now r n)
  then show ?case
    using schedRemove_ok [of s r n now "fst (schedRemove r n now s)" "snd (schedRemove r n now s)"] dueBy_mono [of T s now]
    by (auto simp: removed_def split: if_splits)
qed

lemma future_empty_contents:
  assumes ok: "sched_ok s" and "due s = []" and q: "q \<in># contents s"
  shows "Username (snd q) \<in> set (future s)" "headTime s (Username (snd q)) \<le> NextAttempt (snd q)"
proof -
  have b: "schedBase s" and pl: "set (due s) = namesWith True s" "set (future s) = namesWith False s"
    using ok by (simp_all add: sched_ok_def)
  obtain u q' where u: "mget (users s) (Username (snd q)) = Some u" "q' \<in> set (messages u)" "q = erase q'"
    using contents_owner_member [OF b q refl] .
  then show "Username (snd q) \<in> set (future s)" using pl assms(2) by (auto simp: namesWith_def)
  have "queueOK (Username (snd q)) u" using b u by (simp add: schedBase_def)
  then have "envHeaped (messages u)" by (simp add: queueOK_def)
  from envHeaped_least [OF this u(2)] have "NextAttempt (snd (messages u ! 0)) \<le> NextAttempt (snd q')"
    by (auto simp: envKey_def less_eq_prod_def)
  then show "headTime s (Username (snd q)) \<le> NextAttempt (snd q)" using u by (simp add: headTime_def userOf_def)
qed

lemma PopDue_None_iff:
  assumes ok: "sched_ok s" and d: "dueBy now s"
  shows "fst (PopDue now s) = None \<longleftrightarrow> (\<forall>q \<in># contents s. now < NextAttempt (snd q))"
    "fst (PopDue now s) = Some p \<Longrightarrow> NextAttempt (snd p) \<le> now"
proof -
  note pr = promoteDue_spec [OF ok, of now]
  have "(fst (PopDue now s) = None \<longleftrightarrow> (\<forall>q \<in># contents s. now < NextAttempt (snd q))) \<and>
    (\<forall>p. fst (PopDue now s) = Some p \<longrightarrow> NextAttempt (snd p) \<le> now)"
  proof (cases "due (promoteDue now s)")
    case Nil
    have "now < NextAttempt (snd q)" if "q \<in># contents s" for q
    proof -
      have q: "q \<in># contents (promoteDue now s)" using that pr by simp
      have okp: "sched_ok (promoteDue now s)" using pr by simp
      note f = future_empty_contents [OF okp Nil q]
      have "now < headTime s (Username (snd q))" using f(1) pr by blast
      moreover have "headTime s (Username (snd q)) \<le> NextAttempt (snd q)" using f(2) pr by simp
      ultimately show ?thesis by linarith
    qed
    then show ?thesis by (simp add: PopDue_none [OF Nil])
  next
    case (Cons n rest)
    then obtain p t where p: "PopDue now s = (Some p, t)" "popped now (promoteDue now s) n rest p t"
      "NextAttempt (snd p) = headTime s n" using PopDue_some [OF ok Cons] by metis
    have "headTime s n \<le> now" using pr Cons d unfolding dueBy_def
      by (metis Un_iff list.set_intros(1) set_append)
    moreover have "erase p \<in># contents s" using p(2) pr by (auto simp: popped_def)
    ultimately show ?thesis using p by (metis erase_simps(5) fst_conv not_less option.distinct(1) option.inject)
  qed
  then show "fst (PopDue now s) = None \<longleftrightarrow> (\<forall>q \<in># contents s. now < NextAttempt (snd q))"
    "fst (PopDue now s) = Some p \<Longrightarrow> NextAttempt (snd p) \<le> now" by simp_all
qed

subsection \<open>Properties\<close>

text \<open>C10: Taking the next message is exact. In every reachable schedule, \<open>PopDue\<close> returns nothing
  exactly when no scheduled message is due, and then loses nothing; what it returns is due,
  leaves the schedule exactly once, and no message of the same owner comes before it in the
  order of next attempt and identifier.\<close>

theorem schedule_pop_exact:
  assumes "sched_reach T s" "T \<le> now" "PopDue now s = (res, t)"
  shows "(res = None \<longleftrightarrow> (\<forall>q \<in># contents s. now < NextAttempt (snd q))) \<and>
    (case res of None \<Rightarrow> contents t = contents s
     | Some p \<Rightarrow> NextAttempt (snd p) \<le> now \<and> contents s = add_mset (erase p) (contents t) \<and>
         (\<forall>q \<in># contents s. Username (snd q) = Username (snd p) \<longrightarrow> envKey p \<le> envKey q))"
proof -
  have ok: "sched_ok s" and d: "dueBy now s" using sched_reach_ok [OF assms(1)] assms(2) dueBy_mono by blast+
  note P = PopDue_None_iff [OF ok d] PopDue_ok(2) [OF ok assms(3)]
  have "\<forall>q \<in># contents s. Username (snd q) = Username (snd p) \<longrightarrow> envKey p \<le> envKey q" if "res = Some p" for p
  proof (cases "due (promoteDue now s)")
    case Nil
    then show ?thesis using PopDue_none [OF Nil] assms(3) that by simp
  next
    case (Cons n rest)
    from PopDue_some [OF ok Cons] obtain p' t' where "PopDue now s = (Some p', t')" "Username (snd p') = n"
      "\<forall>q \<in># contents s. Username (snd q) = n \<longrightarrow> envKey p' \<le> envKey q" by metis
    then show ?thesis using assms(3) that by simp
  qed
  then show ?thesis using P assms(3) by (cases res) auto
qed

text \<open>Repeated delivery: the messages returned by successive calls.\<close>

fun popAll :: "gtime list \<Rightarrow> schedule \<Rightarrow> eptr option list" where
  "popAll [] s = []"
| "popAll (now # ts) s = (let (r, t) = PopDue now s in r # popAll ts t)"

lemma popAll_fair:
  assumes "sched_ok s" "i < length (due s)" "due s ! i = n" "length ts = Suc i"
  shows "\<exists>p. last (popAll ts s) = Some p \<and> Username (snd p) = n"
  using assms
proof (induction i arbitrary: s ts)
  case 0
  then obtain now where ts: "ts = [now]" by (cases ts) auto
  obtain ds where "due s = n # ds" using 0 by (cases "due s") auto
  moreover obtain ext where "due (promoteDue now s) = due s @ ext" using promoteDue_spec [OF 0(1), of now] by blast
  ultimately have "due (promoteDue now s) = n # (ds @ ext)" by simp
  from PopDue_some [OF 0(1) this] obtain p t where "PopDue now s = (Some p, t)" "Username (snd p) = n" by metis
  then show ?case by (simp add: ts)
next
  case (Suc i)
  then obtain now ts' where ts: "ts = now # ts'" "length ts' = Suc i" by (cases ts) auto
  then have ne: "popAll ts' t \<noteq> []" for t by (cases ts') (simp_all split: prod.split)
  obtain m ds where ds: "due s = m # ds" using Suc.prems by (cases "due s") auto
  obtain ext where "due (promoteDue now s) = due s @ ext" using promoteDue_spec [OF Suc.prems(1), of now] by blast
  then have "due (promoteDue now s) = m # (ds @ ext)" using ds by simp
  from PopDue_some [OF Suc.prems(1) this] obtain p t where
    p: "PopDue now s = (Some p, t)" "popped now (promoteDue now s) m (ds @ ext) p t" by metis
  have i: "i < length ds" "ds ! i = n" using Suc.prems ds by simp_all
  then have "i < length (due t)" "due t ! i = n" using p(2) by (auto simp: popped_def nth_append)
  with Suc.IH [of t ts'] p ts ne show ?case by (auto simp: popped_def)
qed

text \<open>C15: Delivery rotates over the owners. An owner at position \<open>i\<close> of the due list is served by
  the \<open>i+1\<close>-st of any sequence of calls, however many messages the owners before it have.\<close>

theorem schedule_fair:
  assumes "sched_reach T s" "i < length (due s)" "length ts = Suc i"
  shows "\<exists>p. last (popAll ts s) = Some p \<and> Username (snd p) = due s ! i"
  using popAll_fair sched_reach_ok [OF assms(1)] assms(2,3) by blast

lemma schedNextAttempt_spec:
  assumes ok: "sched_ok s"
  shows "schedNextAttempt s = None \<longleftrightarrow> contents s = {#}"
    "schedNextAttempt s = Some w \<Longrightarrow> \<exists>q \<in># contents s. NextAttempt (snd q) = w"
    "schedNextAttempt s = Some w \<Longrightarrow> due s = [] \<Longrightarrow> q \<in># contents s \<Longrightarrow> w \<le> NextAttempt (snd q)"
proof -
  have b: "schedBase s" and pl: "set (due s) = namesWith True s" "set (future s) = namesWith False s" and h: "userHeaped s"
    using ok by (simp_all add: sched_ok_def)
  have hd: "\<exists>q \<in># contents s. NextAttempt (snd q) = headTime s n" if m: "n \<in> namesWith x s" for n x
  proof -
    obtain u where u: "mget (users s) n = Some u" using m by (auto simp: namesWith_def)
    then have "messages u ! 0 \<in> set (messages u)" using b by (auto simp: schedBase_def queueOK_def)
    from contents_member [OF b u this] show ?thesis
      by (rule bexI [rotated]) (simp add: headTime_def userOf_def u)
  qed
  have in_due: "due s \<noteq> [] \<Longrightarrow> due s ! 0 \<in> namesWith True s" and in_future: "future s \<noteq> [] \<Longrightarrow> future s ! 0 \<in> namesWith False s"
    using pl nth_mem by blast+
  show some: "schedNextAttempt s = Some w \<Longrightarrow> \<exists>q \<in># contents s. NextAttempt (snd q) = w" for w
    using hd in_due in_future by (auto simp: schedNextAttempt_def split: if_splits)
  have "\<exists>n x. n \<in> namesWith x s" if q: "q \<in># contents s" for q
  proof -
    obtain u where "mget (users s) (Username (snd q)) = Some u" using contents_owner_member [OF b q refl] by metis
    then show ?thesis by (auto simp: namesWith_def)
  qed
  then have "contents s = {#}" if "due s = []" "future s = []"
    using pl that by (metis (full_types) empty_iff list.set(1) multiset_nonemptyE)
  with some show "schedNextAttempt s = None \<longleftrightarrow> contents s = {#}"
    by (cases "schedNextAttempt s") (auto simp: schedNextAttempt_def split: if_splits)
  show "w \<le> NextAttempt (snd q)" if w: "schedNextAttempt s = Some w" "due s = []" and q: "q \<in># contents s"
  proof -
    note f = future_empty_contents [OF ok w(2) q]
    then obtain k where k: "k < length (future s)" "future s ! k = Username (snd q)" by (auto simp: in_set_conv_nth)
    have "userView s ! 0 \<le> userView s ! k" by (rule hp_least [OF _ k(1)]) (use h in \<open>simp add: userHeaped_def\<close>)
    moreover have "0 < length (future s)" using k(1) by linarith
    ultimately have "headTime s (future s ! 0) \<le> headTime s (Username (snd q))"
      using k by (auto simp: userView_def less_eq_prod_def)
    then show ?thesis using w f(2) by (auto simp: schedNextAttempt_def split: if_splits)
  qed
qed

text \<open>C16: The delivery loop can sleep until the time \<open>NextAttempt\<close> reports: it reports none exactly
  for the empty schedule, and from that time on, and not before, a message can be taken.\<close>

theorem schedule_wakeup_exact:
  assumes "sched_reach T s"
  shows "(schedNextAttempt s = None \<longleftrightarrow> contents s = {#}) \<and>
    (\<forall>w now. schedNextAttempt s = Some w \<and> T \<le> now \<longrightarrow> (fst (PopDue now s) \<noteq> None \<longleftrightarrow> w \<le> now))"
proof -
  have ok: "sched_ok s" and d: "dueBy T s" using sched_reach_ok [OF assms] by simp_all
  note N = schedNextAttempt_spec [OF ok]
  have "fst (PopDue now s) \<noteq> None \<longleftrightarrow> w \<le> now" if w: "schedNextAttempt s = Some w" and T: "T \<le> now" for w now
  proof -
    have P: "fst (PopDue now s) \<noteq> None \<longleftrightarrow> (\<exists>q \<in># contents s. NextAttempt (snd q) \<le> now)"
      using PopDue_None_iff(1) [OF ok dueBy_mono [OF d T]] by (auto simp: not_less)
    show ?thesis
    proof (cases "due s = []")
      case True
      then show ?thesis unfolding P using N(2) [OF w] N(3) [OF w True] by force
    next
      case False
      then have "w \<le> T" using w d by (auto simp: schedNextAttempt_def dueBy_def)
      then show ?thesis unfolding P using N(2) [OF w] T by force
    qed
  qed
  with N(1) show ?thesis by blast
qed

text \<open>C17: Scheduling and removing refine adding to and taking out of a bag of messages, and the
  length the schedule reports is the size of the bag. \<open>Remove\<close> reports true exactly when the
  message is still scheduled, takes out that message and otherwise changes nothing.\<close>

theorem schedule_refines_bag:
  assumes "sched_reach T s" "T \<le> now" "fresh (fst p) s"
  shows "contents (schedPush p s) = add_mset (erase p) (contents s) \<and>
    scount (schedPush p s) = int (size (contents s)) + 1 \<and>
    (case schedRemove r n now s of (b, t) \<Rightarrow>
       (b \<longleftrightarrow> (\<exists>q \<in># contents s. fst q = r \<and> Username (snd q) = n)) \<and>
       (if b then \<exists>q. fst q = r \<and> Username (snd q) = n \<and> contents s = add_mset q (contents t) \<and>
                      scount t = int (size (contents s)) - 1
        else t = s))"
proof -
  have ok: "sched_ok s" using sched_reach_ok [OF assms(1)] by simp
  have len: "sched_ok t \<Longrightarrow> scount t = int (size (contents t))" for t by (simp add: sched_ok_def schedBase_def)
  obtain b t where r: "schedRemove r n now s = (b, t)" by fastforce
  note R = schedRemove_ok [OF ok r]
  have P: "contents (schedPush p s) = add_mset (erase p) (contents s)"
    "scount (schedPush p s) = int (size (contents s)) + 1"
    using schedPush_ok [OF ok assms(3)] len [of "schedPush p s"] by simp_all
  have "\<exists>q. fst q = r \<and> Username (snd q) = n \<and> contents s = add_mset q (contents t) \<and>
      scount t = int (size (contents s)) - 1" if b: b
  proof -
    obtain q where "fst q = r" "Username (snd q) = n" "removed now s q t" using R b by (auto split: if_splits)
    then show ?thesis using len [of t] by (intro exI [of _ "erase q"]) (auto simp: removed_def)
  qed
  then show ?thesis using P R r by (auto split: if_splits)
qed

subsection \<open>Witnesses\<close>

text \<open>A schedule of two owners: \<open>a\<close> has two messages, \<open>b\<close> one.\<close>

definition sampleEnvelope :: "string \<Rightarrow> string \<Rightarrow> gtime \<Rightarrow> Envelope" where
  "sampleEnvelope i u w = \<lparr>ID = i, Incarnation = '''', Revision = 1, Username = u, Sender = '''',
     Recipients = [], Bodies = [], Size = 0, Created = 0, Attempts = 0, NextAttempt = w,
     LastError = '''', SMTPUTF8 = False, EightBit = False, BodyDigest = '''', DSNIDLink = '''',
     DSNSourceID = '''', DSNSourceIncarnation = '''', DSNSourceRevision = 0, DSNGeneration = 0,
     PreferredDomain = '''', index = -1\<rparr>"

definition sampleSchedule :: schedule where
  "sampleSchedule = schedPush (13, sampleEnvelope ''m3'' ''b'' 5) (schedPush (12, sampleEnvelope ''m2'' ''a'' 2)
     (schedPush (11, sampleEnvelope ''m1'' ''a'' 1) emptySchedule))"

lemma sampleSchedule_reach:
  "sched_reach 0 sampleSchedule"
  "contents sampleSchedule = {#erase (13, sampleEnvelope ''m3'' ''b'' 5), erase (12, sampleEnvelope ''m2'' ''a'' 2),
      erase (11, sampleEnvelope ''m1'' ''a'' 1)#}"
proof -
  let ?p1 = "(11, sampleEnvelope ''m1'' ''a'' 1)" and ?p2 = "(12, sampleEnvelope ''m2'' ''a'' 2)"
    and ?p3 = "(13, sampleEnvelope ''m3'' ''b'' 5)"
  have r0: "sched_reach 0 emptySchedule" by (rule sched_reach.empty)
  have f1: "fresh (fst ?p1) emptySchedule" by (simp add: fresh_def emptySchedule_ok)
  note r1 = sched_reach.push [OF r0 f1]
  have c1: "contents (schedPush ?p1 emptySchedule) = {#erase ?p1#}"
    using schedPush_ok [OF _ f1] sched_reach_ok [OF r0] by (simp add: emptySchedule_ok)
  have f2: "fresh (fst ?p2) (schedPush ?p1 emptySchedule)" by (simp add: fresh_def c1)
  note r2 = sched_reach.push [OF r1 f2]
  have c2: "contents (schedPush ?p2 (schedPush ?p1 emptySchedule)) = {#erase ?p2, erase ?p1#}"
    using schedPush_ok [OF _ f2] sched_reach_ok [OF r1] by (simp add: c1)
  have f3: "fresh (fst ?p3) (schedPush ?p2 (schedPush ?p1 emptySchedule))" by (simp add: fresh_def c2)
  show "sched_reach 0 sampleSchedule" using sched_reach.push [OF r2 f3] by (simp add: sampleSchedule_def)
  show "contents sampleSchedule = {#erase ?p3, erase ?p2, erase ?p1#}"
    using schedPush_ok [OF _ f3] sched_reach_ok [OF r2] by (simp add: c2 sampleSchedule_def)
qed

theorem schedule_pop_exact_witness:
  "\<exists>p t. PopDue 3 sampleSchedule = (Some p, t) \<and> NextAttempt (snd p) \<le> 3 \<and>
     contents sampleSchedule = add_mset (erase p) (contents t)"
proof -
  obtain res t where e: "PopDue 3 sampleSchedule = (res, t)" by fastforce
  note P = schedule_pop_exact [OF sampleSchedule_reach(1) _ e]
  have "\<not> (\<forall>q \<in># contents sampleSchedule. 3 < NextAttempt (snd q))"
    by (simp add: sampleSchedule_reach(2) sampleEnvelope_def)
  with P e show ?thesis by (cases res) auto
qed

theorem schedule_fair_witness:
  "\<exists>p. last (popAll [9, 9] (snd (PopDue 9 sampleSchedule))) = Some p \<and> Username (snd p) = ''a''"
proof -
  have r: "sched_reach 9 (snd (PopDue 9 sampleSchedule))"
    by (rule sched_reach.pop [OF sampleSchedule_reach(1)]) simp
  have "due (snd (PopDue 9 sampleSchedule)) = [''b'', ''a'']" by code_simp
  with schedule_fair [OF r, of 1 "[9, 9]"] show ?thesis by simp
qed

theorem schedule_wakeup_exact_witness:
  "fst (PopDue 0 sampleSchedule) = None \<and> fst (PopDue 1 sampleSchedule) \<noteq> None"
proof -
  have "schedNextAttempt sampleSchedule = Some 1" by code_simp
  then show ?thesis
    using schedule_wakeup_exact [OF sampleSchedule_reach(1)] by (metis order_refl zero_le_one not_one_le_zero)
qed

theorem schedule_refines_bag_witness:
  "scount (schedPush (14, sampleEnvelope ''m4'' ''c'' 7) sampleSchedule) = 4 \<and>
   fst (schedRemove 12 ''a'' 0 sampleSchedule)"
proof -
  have "fresh (fst (14 :: nat, sampleEnvelope ''m4'' ''c'' 7)) sampleSchedule"
    by (simp add: fresh_def sampleSchedule_reach(2))
  note B = schedule_refines_bag [OF sampleSchedule_reach(1) order_refl this, of 12 "''a''"]
  have "\<exists>q \<in># contents sampleSchedule. fst q = 12 \<and> Username (snd q) = ''a''"
    by (simp add: sampleSchedule_reach(2) sampleEnvelope_def)
  then show ?thesis using B by (auto simp: sampleSchedule_reach(2) split: prod.splits)
qed

end
