(* ===== verification/FileSystem.thy ===== *)
theory FileSystem
  imports Errors GoStrings
begin

text \<open>
  The file system below the spool root, with what a crash may leave of it. The spool has two
  levels: a spool directory (\<open>ready\<close>, \<open>dead\<close>, ...) holds entries, an entry is a directory of
  files. A directory or file is seen in its current state (suffix \<open>V\<close>); the list with suffix
  \<open>D\<close> holds the states a crash may leave it in: every state since its last successful sync,
  independently of all other objects, and for a write also every prefix of it.

  A system call takes its outcome from \<open>outcomes\<close>: it may pass, fail without effect, fail after
  its effect, or (a write) stop after some bytes. The hooks of \<open>disk.SetHooks\<close>, which tests use to
  inject errors before or after a call, are such outcomes too. A call on a missing object
  reports \<open>ErrNotExist\<close>; no other failure does. A successful sync persists the object.
\<close>

datatype spoolDir = dirReady | dirDead | dirTmp | dirDSN | dirCorrupt | dirTrash

datatype ioerr = EIO | EACCES | ENOSPC | EMFILE | EDQUOT

fun ioErrno :: "ioerr \<Rightarrow> int" where
  "ioErrno EIO = 5"
| "ioErrno EACCES = 13"
| "ioErrno ENOSPC = 28"
| "ioErrno EMFILE = 24"
| "ioErrno EDQUOT = 122"

datatype outcome = Pass | FailBefore ioerr | FailAfter ioerr | Short nat ioerr

record fsys =
  nsV :: "spoolDir \<Rightarrow> (string, nat) gmap"
  nsD :: "spoolDir \<Rightarrow> (string, nat) gmap list"
  dirV :: "nat \<Rightarrow> (string, nat) gmap"
  dirD :: "nat \<Rightarrow> (string, nat) gmap list"
  fileV :: "nat \<Rightarrow> string"
  fileD :: "nat \<Rightarrow> string list"
  rootV :: "spoolDir \<Rightarrow> bool"
  freshNode :: nat
  dirSize :: int
  outcomes :: "outcome list"

type_synonym entry = "spoolDir \<times> string"

text \<open>A freshly opened spool without entries.\<close>

definition emptyFS :: "outcome list \<Rightarrow> fsys" where
  "emptyFS ocs =
     \<lparr>nsV = (\<lambda>_. []), nsD = (\<lambda>_. [[]]), dirV = (\<lambda>_. []), dirD = (\<lambda>_. [[]]), fileV = (\<lambda>_. []),
     fileD = (\<lambda>_. [[]]), rootV = (\<lambda>_. True), freshNode = 0, dirSize = 4096, outcomes = ocs\<rparr>"

subsection \<open>Sequencing\<close>

text \<open>\<open>if err != nil { return err }\<close>, for calls with a value and for calls with an error only.\<close>

definition bindE :: "(gerror + 'a) \<times> 's \<Rightarrow> ('a \<Rightarrow> 's \<Rightarrow> (gerror + 'b) \<times> 's) \<Rightarrow> (gerror + 'b) \<times> 's" where
  "bindE r f = (case r of (Inl e, s) \<Rightarrow> (Inl e, s) | (Inr a, s) \<Rightarrow> f a s)"

definition thenE :: "gerror option \<times> 's \<Rightarrow> ('s \<Rightarrow> gerror option \<times> 's) \<Rightarrow> gerror option \<times> 's" where
  "thenE r f = (case r of (Some e, s) \<Rightarrow> (Some e, s) | (None, s) \<Rightarrow> f s)"

definition errOf :: "(gerror + 'a) \<times> 's \<Rightarrow> gerror option \<times> 's" where
  "errOf r = (case r of (Inl e, s) \<Rightarrow> (Some e, s) | (Inr _, s) \<Rightarrow> (None, s))"

definition withValue :: "(gerror + 'a) \<times> 's \<Rightarrow> ('a \<Rightarrow> 's \<Rightarrow> gerror option \<times> 's) \<Rightarrow> gerror option \<times> 's" where
  "withValue r f = (case r of (Inl e, s) \<Rightarrow> (Some e, s) | (Inr a, s) \<Rightarrow> f a s)"

definition bindN :: "gerror option \<times> 's \<Rightarrow> ('s \<Rightarrow> (gerror + 'b) \<times> 's) \<Rightarrow> (gerror + 'b) \<times> 's" where
  "bindN r f = (case r of (Some e, s) \<Rightarrow> (Inl e, s) | (None, s) \<Rightarrow> f s)"

text \<open>\<open>errors.Join\<close>: nil errors are dropped, and nothing joined is nil.\<close>

fun somes :: "'a option list \<Rightarrow> 'a list" where
  "somes [] = []"
| "somes (None # xs) = somes xs"
| "somes (Some x # xs) = x # somes xs"

definition errors_Join :: "gerror option list \<Rightarrow> gerror option" where
  "errors_Join es = (case somes es of [] \<Rightarrow> None | xs \<Rightarrow> Some (Wrap [] xs))"

subsection \<open>Outcomes\<close>

definition takeOutcome :: "fsys \<Rightarrow> outcome \<times> fsys" where
  "takeOutcome s = (case outcomes s of [] \<Rightarrow> (Pass, s) | f # fs \<Rightarrow> (f, s\<lparr>outcomes := fs\<rparr>))"

text \<open>A call whose effect is all or nothing.\<close>

definition syscall :: "(fsys \<Rightarrow> (gerror + 'a) \<times> fsys) \<Rightarrow> fsys \<Rightarrow> (gerror + 'a) \<times> fsys" where
  "syscall eff s =
     (case takeOutcome s of
        (Pass, s1) \<Rightarrow> eff s1
      | (FailBefore e, s1) \<Rightarrow> (Inl (Errno (ioErrno e)), s1)
      | (FailAfter e, s1) \<Rightarrow> (Inl (Errno (ioErrno e)), snd (eff s1))
      | (Short _ e, s1) \<Rightarrow> (Inl (Errno (ioErrno e)), s1))"

text \<open>A poll of the caller's context: any outcome but \<open>Pass\<close> is a cancellation.\<close>

definition ctxErr :: "fsys \<Rightarrow> gerror option \<times> fsys" where
  "ctxErr s = (case takeOutcome s of (Pass, s1) \<Rightarrow> (None, s1) | (_, s1) \<Rightarrow> (Some (Sentinel CtxErr), s1))"

subsection \<open>Updates\<close>

definition setNs :: "spoolDir \<Rightarrow> (string, nat) gmap \<Rightarrow> fsys \<Rightarrow> fsys" where
  "setNs d m s = s\<lparr>nsV := (nsV s)(d := m), nsD := (nsD s)(d := m # nsD s d)\<rparr>"

definition setDir :: "nat \<Rightarrow> (string, nat) gmap \<Rightarrow> fsys \<Rightarrow> fsys" where
  "setDir i m s = s\<lparr>dirV := (dirV s)(i := m), dirD := (dirD s)(i := m # dirD s i)\<rparr>"

text \<open>Overwriting the first bytes of a file; a crash may leave any prefix of the change, over any
  earlier content.\<close>

definition overwrite :: "string \<Rightarrow> string \<Rightarrow> string" where
  "overwrite dat old = dat @ drop (length dat) old"

definition setFile :: "nat \<Rightarrow> string \<Rightarrow> fsys \<Rightarrow> fsys" where
  "setFile f dat s =
     s\<lparr>fileV := (fileV s)(f := overwrite dat (fileV s f)),
       fileD := (fileD s)(f := concat (map (\<lambda>k. map (overwrite (take k dat)) (fileV s f # fileD s f)) [0..<Suc (length dat)]))\<rparr>"

subsection \<open>System calls\<close>

definition lookupEntry :: "entry \<Rightarrow> fsys \<Rightarrow> nat option" where
  "lookupEntry p s = mget (nsV s (fst p)) (snd p)"

definition lookupFile :: "entry \<Rightarrow> string \<Rightarrow> fsys \<Rightarrow> nat option" where
  "lookupFile p n s = (case lookupEntry p s of None \<Rightarrow> None | Some i \<Rightarrow> mget (dirV s i) n)"

definition notExist :: gerror where
  "notExist = Sentinel OsErrNotExist"

definition sysStat :: "entry \<Rightarrow> fsys \<Rightarrow> (gerror + nat) \<times> fsys" where
  "sysStat p = syscall (\<lambda>s. case lookupEntry p s of None \<Rightarrow> (Inl notExist, s) | Some i \<Rightarrow> (Inr i, s))"

definition sysStatFile :: "entry \<Rightarrow> string \<Rightarrow> fsys \<Rightarrow> (gerror + nat) \<times> fsys" where
  "sysStatFile p n = syscall (\<lambda>s. case lookupFile p n s of None \<Rightarrow> (Inl notExist, s) | Some f \<Rightarrow> (Inr f, s))"

text \<open>\<open>os.MkdirAll\<close> of an entry: nothing to do when it exists.\<close>

definition sysMkdir :: "entry \<Rightarrow> fsys \<Rightarrow> (gerror + unit) \<times> fsys" where
  "sysMkdir p = syscall (\<lambda>s. case lookupEntry p s of
       Some _ \<Rightarrow> (Inr (), s)
     | None \<Rightarrow>
         (let i = freshNode s
          in (Inr (), setNs (fst p) (mput (snd p) i (nsV s (fst p)))
                (s\<lparr>freshNode := i + 1, dirV := (dirV s)(i := []), dirD := (dirD s)(i := [[]])\<rparr>))))"

definition sysRmdir :: "entry \<Rightarrow> fsys \<Rightarrow> (gerror + unit) \<times> fsys" where
  "sysRmdir p = syscall (\<lambda>s. case lookupEntry p s of
       None \<Rightarrow> (Inl notExist, s)
     | Some i \<Rightarrow> if dirV s i \<noteq> [] then (Inl (Errno 39), s) else (Inr (), setNs (fst p) (mdel (snd p) (nsV s (fst p))) s))"

text \<open>\<open>rename(2)\<close> of a directory: an existing empty target is replaced.\<close>

definition sysRename :: "entry \<Rightarrow> entry \<Rightarrow> fsys \<Rightarrow> (gerror + unit) \<times> fsys" where
  "sysRename p q = syscall (\<lambda>s. case lookupEntry p s of
       None \<Rightarrow> (Inl notExist, s)
     | Some i \<Rightarrow>
         if \<not> rootV s (fst q) then (Inl notExist, s)
         else if (case lookupEntry q s of None \<Rightarrow> False | Some j \<Rightarrow> dirV s j \<noteq> []) then (Inl (Errno 39), s)
         else
           (let s1 = setNs (fst p) (mdel (snd p) (nsV s (fst p))) s
            in (Inr (), setNs (fst q) (mput (snd q) i (nsV s1 (fst q))) s1)))"

definition sysSyncNs :: "spoolDir \<Rightarrow> fsys \<Rightarrow> (gerror + unit) \<times> fsys" where
  "sysSyncNs d = syscall (\<lambda>s. (Inr (), s\<lparr>nsD := (nsD s)(d := [nsV s d])\<rparr>))"

definition sysSyncEntry :: "entry \<Rightarrow> fsys \<Rightarrow> (gerror + unit) \<times> fsys" where
  "sysSyncEntry p = syscall (\<lambda>s. case lookupEntry p s of
       None \<Rightarrow> (Inl notExist, s)
     | Some i \<Rightarrow> (Inr (), s\<lparr>dirD := (dirD s)(i := [dirV s i])\<rparr>))"

definition sysCreate :: "entry \<Rightarrow> string \<Rightarrow> fsys \<Rightarrow> (gerror + nat) \<times> fsys" where
  "sysCreate p n = syscall (\<lambda>s. case lookupEntry p s of
       None \<Rightarrow> (Inl notExist, s)
     | Some i \<Rightarrow>
         if mget (dirV s i) n \<noteq> None then (Inl (Sentinel OsErrExist), s)
         else
           (let f = freshNode s
            in (Inr f, setDir i (mput n f (dirV s i))
                  (s\<lparr>freshNode := f + 1, fileV := (fileV s)(f := []), fileD := (fileD s)(f := [[]])\<rparr>))))"

definition sysOpen :: "entry \<Rightarrow> string \<Rightarrow> fsys \<Rightarrow> (gerror + nat) \<times> fsys" where
  "sysOpen p n = syscall (\<lambda>s. case lookupFile p n s of None \<Rightarrow> (Inl notExist, s) | Some f \<Rightarrow> (Inr f, s))"

text \<open>\<open>WriteAt\<close> at offset 0, which is also \<open>Write\<close> on a new file: the number of bytes and the error.\<close>

definition sysWriteAt :: "nat \<Rightarrow> string \<Rightarrow> fsys \<Rightarrow> (nat \<times> gerror option) \<times> fsys" where
  "sysWriteAt f dat s =
     (case takeOutcome s of
        (Pass, s1) \<Rightarrow> ((length dat, None), setFile f dat s1)
      | (FailBefore e, s1) \<Rightarrow> ((0, Some (Errno (ioErrno e))), s1)
      | (FailAfter e, s1) \<Rightarrow> ((length dat, Some (Errno (ioErrno e))), setFile f dat s1)
      | (Short k e, s1) \<Rightarrow> ((min k (length dat), Some (Errno (ioErrno e))), setFile f (take k dat) s1))"

definition sysSyncFile :: "nat \<Rightarrow> fsys \<Rightarrow> (gerror + unit) \<times> fsys" where
  "sysSyncFile f = syscall (\<lambda>s. (Inr (), s\<lparr>fileD := (fileD s)(f := [fileV s f])\<rparr>))"

text \<open>\<open>chmod\<close> and \<open>close\<close>, which change nothing that is modelled.\<close>

definition sysTouch :: "fsys \<Rightarrow> (gerror + unit) \<times> fsys" where
  "sysTouch = syscall (\<lambda>s. (Inr (), s))"

text \<open>Renaming a file within its entry, over an existing one.\<close>

definition sysRenameFile :: "entry \<Rightarrow> string \<Rightarrow> string \<Rightarrow> fsys \<Rightarrow> (gerror + unit) \<times> fsys" where
  "sysRenameFile p a b = syscall (\<lambda>s. case lookupEntry p s of
       None \<Rightarrow> (Inl notExist, s)
     | Some i \<Rightarrow>
         (case mget (dirV s i) a of
            None \<Rightarrow> (Inl notExist, s)
          | Some f \<Rightarrow> (Inr (), setDir i (mput b f (mdel a (dirV s i))) s)))"

definition sysUnlink :: "entry \<Rightarrow> string \<Rightarrow> fsys \<Rightarrow> (gerror + unit) \<times> fsys" where
  "sysUnlink p n = syscall (\<lambda>s. case lookupEntry p s of
       None \<Rightarrow> (Inl notExist, s)
     | Some i \<Rightarrow>
         if mget (dirV s i) n = None then (Inl notExist, s)
         else (Inr (), setDir i (mdel n (dirV s i)) s))"

definition sysRead :: "nat \<Rightarrow> fsys \<Rightarrow> (gerror + string) \<times> fsys" where
  "sysRead f = syscall (\<lambda>s. (Inr (fileV s f), s))"

definition sysReadDir :: "entry \<Rightarrow> fsys \<Rightarrow> (gerror + string list) \<times> fsys" where
  "sysReadDir p = syscall (\<lambda>s. case lookupEntry p s of
       None \<Rightarrow> (Inl notExist, s) | Some i \<Rightarrow> (Inr (mkeys (dirV s i)), s))"

subsection \<open>Crashes\<close>

text \<open>What a crash leaves: one of the possible states of every object.\<close>

definition crash :: "fsys \<Rightarrow> fsys \<Rightarrow> bool" where
  "crash s s' \<longleftrightarrow>
     (\<forall>d. nsV s' d \<in> set (nsD s d)) \<and> (\<forall>i. dirV s' i \<in> set (dirD s i)) \<and> (\<forall>f. fileV s' f \<in> set (fileD s f))"

definition fileAfter :: "fsys \<Rightarrow> entry \<Rightarrow> string \<Rightarrow> string option" where
  "fileAfter s p n = map_option (fileV s) (lookupFile p n s)"

text \<open>The current state is among those a crash may leave.\<close>

definition fs_ok :: "fsys \<Rightarrow> bool" where
  "fs_ok s \<longleftrightarrow> (\<forall>d. nsV s d \<in> set (nsD s d)) \<and> (\<forall>i. dirV s i \<in> set (dirD s i)) \<and> (\<forall>f. fileV s f \<in> set (fileD s f))"

end
