(* ===== verification/Disk.thy ===== *)
theory Disk
  imports FileSystem Envelope
begin

text \<open>
  Durable file operations, \<open>src/internal/disk/disk.go\<close> with its Unix parts \<open>sync_unix.go\<close>,
  \<open>rename_unix.go\<close>, \<open>mkdir_unix.go\<close>, \<open>private_unix.go\<close> and \<open>secure_unix.go\<close>, over the spool of
  \<open>FileSystem\<close>. Errors of \<open>Close\<close> and \<open>Remove\<close> that the code drops are dropped here too, after
  their effect. The random part of a temporary name is the number of the next node.
\<close>

text \<open>\<open>disk.AllocationSize\<close>: one object rounded up to allocation units of 64 KiB.\<close>

definition allocationUnit :: int where
  "allocationUnit = 65536"

definition AllocationSize :: "int \<Rightarrow> int" where
  "AllocationSize n =
     (if n \<le> 0 then allocationUnit
      else if n > max_int64 - (allocationUnit - 1) then max_int64
      else wrap64 ((n + allocationUnit - 1) div allocationUnit * allocationUnit))"

definition SyncFile :: "nat \<Rightarrow> fsys \<Rightarrow> gerror option \<times> fsys" where
  "SyncFile f s = errOf (sysSyncFile f s)"

definition diskSyncNs :: "spoolDir \<Rightarrow> fsys \<Rightarrow> gerror option \<times> fsys" where
  "diskSyncNs d s = errOf (sysSyncNs d s)"

definition diskSyncEntry :: "entry \<Rightarrow> fsys \<Rightarrow> gerror option \<times> fsys" where
  "diskSyncEntry p s = errOf (sysSyncEntry p s)"

definition diskMkdir :: "entry \<Rightarrow> fsys \<Rightarrow> gerror option \<times> fsys" where
  "diskMkdir p s = errOf (sysMkdir p s)"

text \<open>\<open>removeAllSecure\<close> and \<open>removeDirectoryContents\<close> on an entry: the files one by one, then the
  directory.\<close>

fun removeDirectoryContents :: "entry \<Rightarrow> string list \<Rightarrow> fsys \<Rightarrow> gerror option \<times> fsys" where
  "removeDirectoryContents p [] s = (None, s)"
| "removeDirectoryContents p (n # ns) s =
     (case errOf (sysUnlink p n s) of
        (Some e, s1) \<Rightarrow> if errors_Is e OsErrNotExist then removeDirectoryContents p ns s1 else (Some e, s1)
      | (None, s1) \<Rightarrow> removeDirectoryContents p ns s1)"

definition RemoveAll :: "entry \<Rightarrow> fsys \<Rightarrow> gerror option \<times> fsys" where
  "RemoveAll p s =
     (case sysStat p s of
        (Inl e, s1) \<Rightarrow> if errors_Is e OsErrNotExist then (None, s1) else (Some e, s1)
      | (Inr _, s1) \<Rightarrow>
          withValue (sysReadDir p s1) (\<lambda>ns s2.
          thenE (removeDirectoryContents p ns s2) (\<lambda>s3.
          errOf (sysRmdir p s3))))"

definition tempName :: "string \<Rightarrow> fsys \<Rightarrow> string" where
  "tempName n s = ''.'' @ n @ ''.tmp-'' @ decimal (freshNode s)"

definition diskTemp :: "entry \<Rightarrow> string \<Rightarrow> fsys \<Rightarrow> (gerror + nat \<times> string) \<times> fsys" where
  "diskTemp p n s =
     bindN (diskMkdir p s) (\<lambda>s1.
     let temp = tempName n s1
     in bindE (sysCreate p temp s1) (\<lambda>f s2. (Inr (f, temp), s2)))"

definition commitFile :: "nat \<Rightarrow> entry \<Rightarrow> string \<Rightarrow> string \<Rightarrow> fsys \<Rightarrow> gerror option \<times> fsys" where
  "commitFile f p temp n s =
     thenE (errOf (sysTouch s)) (\<lambda>s.
     thenE (errOf (sysSyncFile f s)) (\<lambda>s.
     thenE (errOf (sysTouch s)) (\<lambda>s.
     thenE (errOf (sysRenameFile p temp n s)) (\<lambda>s.
     diskSyncEntry p s))))"

text \<open>\<open>os.Remove\<close> whose error is dropped.\<close>

definition tryUnlink :: "entry \<Rightarrow> string \<Rightarrow> fsys \<Rightarrow> fsys" where
  "tryUnlink p n s = snd (sysUnlink p n s)"

definition Commit :: "nat \<Rightarrow> entry \<Rightarrow> string \<Rightarrow> string \<Rightarrow> fsys \<Rightarrow> gerror option \<times> fsys" where
  "Commit f p temp n s =
     (case commitFile f p temp n s of
        (Some e, s1) \<Rightarrow> (Some e, tryUnlink p temp (snd (sysTouch s1)))
      | (None, s1) \<Rightarrow> (None, s1))"

definition pathMayExist :: "entry \<Rightarrow> string \<Rightarrow> fsys \<Rightarrow> bool \<times> fsys" where
  "pathMayExist p n s =
     (case sysStatFile p n s of
        (Inr _, s1) \<Rightarrow> (True, s1)
      | (Inl e, s1) \<Rightarrow> (\<not> errors_Is e OsErrNotExist, s1))"

definition WriteWithTempState :: "entry \<Rightarrow> string \<Rightarrow> string \<Rightarrow> fsys \<Rightarrow> (bool \<times> gerror option) \<times> fsys" where
  "WriteWithTempState p n body s =
     (case diskTemp p n s of
        (Inl e, s1) \<Rightarrow> ((False, Some e), s1)
      | (Inr (f, temp), s1) \<Rightarrow>
          (case sysWriteAt f body s1 of
             ((_, Some e), s2) \<Rightarrow>
               (let (left, s3) = pathMayExist p temp (tryUnlink p temp (snd (sysTouch s2)))
                in ((left, Some e), s3))
           | ((_, None), s2) \<Rightarrow>
               (case Commit f p temp n s2 of
                  (Some e, s3) \<Rightarrow> (let (left, s4) = pathMayExist p temp s3 in ((left, Some e), s4))
                | (None, s3) \<Rightarrow> ((False, None), s3))))"

definition diskWrite :: "entry \<Rightarrow> string \<Rightarrow> string \<Rightarrow> fsys \<Rightarrow> gerror option \<times> fsys" where
  "diskWrite p n body s = (let ((_, err), s1) = WriteWithTempState p n body s in (err, s1))"

definition diskRename :: "entry \<Rightarrow> entry \<Rightarrow> fsys \<Rightarrow> gerror option \<times> fsys" where
  "diskRename p q s =
     thenE (errOf (sysRename p q s)) (\<lambda>s1.
     thenE (diskSyncNs (fst q) s1) (\<lambda>s2.
     if fst p \<noteq> fst q then diskSyncNs (fst p) s2 else (None, s2)))"

text \<open>\<open>AllocatedBytes\<close> of an entry: the directory and its files.\<close>

fun sumAllocated :: "int \<Rightarrow> int list \<Rightarrow> gerror + int" where
  "sumAllocated tot [] = Inr tot"
| "sumAllocated tot (z # zs) =
     (let charge = AllocationSize z
      in if tot > max_int64 - charge then Inl (Msg ''filesystem usage overflow'')
         else sumAllocated (tot + charge) zs)"

definition AllocatedBytes :: "entry \<Rightarrow> fsys \<Rightarrow> (gerror + int) \<times> fsys" where
  "AllocatedBytes p s =
     (case sysStat p s of
        (Inl e, s1) \<Rightarrow> (Inl e, s1)
      | (Inr i, s1) \<Rightarrow> (sumAllocated 0 (dirSize s1 # map (\<lambda>(_, f). int (length (fileV s1 f))) (dirV s1 i)), s1))"

end
