(* ===== verification/QueueState.thy ===== *)
theory QueueState
  imports Schedule_Inv Disk
begin

text \<open>
  The in-memory state of the spool, \<open>src/internal/queue/queue.go\<close>, and the operations on it
  that hold \<open>mu\<close>: quota and spool admission (\<open>capacity.go\<close>, \<open>spool.go\<close>), ownership of entries
  (\<open>transitions.go\<close>) and scheduling (\<open>schedule.go\<close>, \<open>delivery.go\<close>).

  Each definition is one critical section. \<open>int\<close> is 64 bits wide. \<open>notify\<close>, a channel with
  room for one value, is the flag \<open>notified\<close>; pointers to scheduled envelopes are numbers from
  \<open>nextRef\<close>, the supply of fresh objects.
\<close>


record Limits =
  MaxMessages :: int
  MaxBytes :: int
  MaxMessagesPerUser :: int
  MaxBytesPerUser :: int
  MaxSpoolBytes :: int
  SpoolEmergencyBytes :: int
  MinFreeDisk :: int
  DeadRetention :: duration
  CorruptRetention :: duration

record accountedEntry =
  asize :: int
  aowner :: string
  aincarnation :: string
  arevision :: uint64

record userUsage =
  umessages :: int
  ubytes :: int
  ureserved :: int
  uresBytes :: int

definition noUsage :: userUsage where
  "noUsage = \<lparr>umessages = 0, ubytes = 0, ureserved = 0, uresBytes = 0\<rparr>"

record Queue =
  limits :: Limits
  pending :: schedule
  nextRef :: nat
  notified :: bool
  qcount :: int
  qbytes :: int
  accounted :: "(string, accountedEntry) gmap"
  scheduled :: "(string, eptr) gmap"
  transitioning :: "string list"
  requeues :: "(string, Envelope list) gmap"
  reserved :: int
  resBytes :: int
  quotaUsers :: "(string, userUsage) gmap"
  spoolBytes :: int
  spoolReserved :: int
  lastSpoolScan :: gtime
  active :: int
  closing :: bool
  readOnly :: bool
  blocked :: "string list"
  Corrupt :: "gerror list"
  Warnings :: "gerror list"

subsection \<open>Admission\<close>

definition checkedAddInt64 :: "int \<Rightarrow> int \<Rightarrow> int option" where
  "checkedAddInt64 a b =
     (if b > 0 \<and> a > max_int64 - b then None
      else if b < 0 \<and> a < min_int64 - b then None
      else Some (wrap64 (a + b)))"

definition checkedAddInt :: "int \<Rightarrow> int \<Rightarrow> int option" where
  "checkedAddInt a b =
     (if b > 0 \<and> a > max_int64 - b then None
      else if b < 0 \<and> a < min_int64 - b then None
      else Some (wrap64 (a + b)))"

definition terminalSpoolReserve :: int where
  "terminalSpoolReserve =
     wrap64 (AllocationSize (maxEnvelopeMetadata + AllocationSize 0) + AllocationSize 0)"

text \<open>\<open>FreeDisk\<close> is a callback of the caller (\<open>None\<close> when it is not set); its result for this
  call is the argument \<open>fd\<close>.\<close>

type_synonym freeDisk = "(gerror + int) option"

definition physicalLimit :: "Limits \<Rightarrow> bool \<Rightarrow> bool \<Rightarrow> int" where
  "physicalLimit lim emergency terminal =
     (if \<not> emergency then wrap64 (MaxSpoolBytes lim - SpoolEmergencyBytes lim)
      else if \<not> terminal then wrap64 (MaxSpoolBytes lim - terminalSpoolReserve)
      else MaxSpoolBytes lim)"

definition freeFloor :: "Limits \<Rightarrow> bool \<Rightarrow> bool \<Rightarrow> int option" where
  "freeFloor lim emergency terminal =
     (if \<not> emergency then checkedAddInt64 (MinFreeDisk lim) (SpoolEmergencyBytes lim)
      else if \<not> terminal then checkedAddInt64 (MinFreeDisk lim) terminalSpoolReserve
      else Some (MinFreeDisk lim))"

definition checkFree :: "freeDisk \<Rightarrow> Limits \<Rightarrow> bool \<Rightarrow> bool \<Rightarrow> int \<Rightarrow> gerror option" where
  "checkFree fd lim emergency terminal physicalReserved =
     (if \<not> MinFreeDisk lim > 0 then None
      else (case fd of
              None \<Rightarrow> None
            | Some (Inl err) \<Rightarrow> Some err
            | Some (Inr free) \<Rightarrow>
                (case freeFloor lim emergency terminal of
                   None \<Rightarrow> Some (Sentinel ErrInsufficientDisk)
                 | Some floor \<Rightarrow>
                     if free < floor \<or> physicalReserved > wrap64 (free - floor)
                     then Some (Sentinel ErrInsufficientDisk) else None)))"

definition reservePhysicalLocked :: "freeDisk \<Rightarrow> int \<Rightarrow> bool \<Rightarrow> bool \<Rightarrow> Queue \<Rightarrow> gerror option \<times> Queue" where
  "reservePhysicalLocked fd physical emergency terminal q =
     (if physical < 0 then (Some (Msg ''negative physical reservation size''), q)
      else
        (case checkedAddInt64 (spoolReserved q) physical of
           None \<Rightarrow> (Some (Sentinel ErrSpoolFull), q)
         | Some physicalReserved \<Rightarrow>
             (case checkedAddInt64 (spoolBytes q) physicalReserved of
                None \<Rightarrow> (Some (Sentinel ErrSpoolFull), q)
              | Some physicalTotal \<Rightarrow>
                  (let limit = physicalLimit (limits q) emergency terminal
                   in if MaxSpoolBytes (limits q) > 0 \<and> (limit < 0 \<or> physicalTotal > limit)
                      then (Some (Sentinel ErrSpoolFull), q)
                      else
                        (case checkFree fd (limits q) emergency terminal physicalReserved of
                           Some err \<Rightarrow> (Some err, q)
                         | None \<Rightarrow> (None, q\<lparr>spoolReserved := physicalReserved\<rparr>))))))"

definition usageOf :: "Queue \<Rightarrow> string \<Rightarrow> userUsage" where
  "usageOf q owner = (case mget (quotaUsers q) owner of None \<Rightarrow> noUsage | Some u \<Rightarrow> u)"

definition setUsage :: "string \<Rightarrow> userUsage \<Rightarrow> Queue \<Rightarrow> Queue" where
  "setUsage owner u q = q\<lparr>quotaUsers := mput owner u (quotaUsers q)\<rparr>"

text \<open>The quota checks of a reservation that is not exempt.\<close>

definition quotaExceeded :: "Queue \<Rightarrow> int \<Rightarrow> int \<Rightarrow> int \<Rightarrow> string \<Rightarrow> bool" where
  "quotaExceeded q used totalBytes sz owner =
     (let lim = limits q; usage = usageOf q owner
      in if MaxMessages lim > 0 \<and> used \<ge> MaxMessages lim then True
         else if MaxBytes lim > 0 \<and> totalBytes > MaxBytes lim then True
         else
           (case checkedAddInt (umessages usage) (ureserved usage) of
              None \<Rightarrow> True
            | Some userMessages \<Rightarrow>
                if MaxMessagesPerUser lim > 0 \<and> userMessages \<ge> MaxMessagesPerUser lim then True
                else
                  (case checkedAddInt64 (ubytes usage) (uresBytes usage) of
                     None \<Rightarrow> True
                   | Some b \<Rightarrow>
                       (case checkedAddInt64 b sz of
                          None \<Rightarrow> True
                        | Some userBytes \<Rightarrow> MaxBytesPerUser lim > 0 \<and> userBytes > MaxBytesPerUser lim))))"

definition chargeReservation :: "int \<Rightarrow> bool \<Rightarrow> string \<Rightarrow> Queue \<Rightarrow> Queue" where
  "chargeReservation sz exempt owner q =
     (let q1 = q\<lparr>reserved := wrap64 (reserved q + 1), resBytes := wrap64 (resBytes q + sz)\<rparr>
      in if exempt then q1
         else (let u = usageOf q1 owner
               in setUsage owner (u\<lparr>ureserved := wrap64 (ureserved u + 1),
                                     uresBytes := wrap64 (uresBytes u + sz)\<rparr>) q1))"

definition reserveLocked :: "freeDisk \<Rightarrow> int \<Rightarrow> int \<Rightarrow> bool \<Rightarrow> bool \<Rightarrow> string \<Rightarrow> Queue \<Rightarrow> gerror option \<times> Queue" where
  "reserveLocked fd sz physical exempt emergency owner q =
     (if sz < 0 then (Some (Msg ''negative reservation size''), q)
      else if physical < 0 then (Some (Msg ''negative physical reservation size''), q)
      else
        (case checkedAddInt (qcount q) (reserved q) of
           None \<Rightarrow> (Some (Sentinel ErrQueueFull), q)
         | Some used \<Rightarrow>
             if used = max_int64 then (Some (Sentinel ErrQueueFull), q)
             else
               (case checkedAddInt64 (qbytes q) (resBytes q) of
                  None \<Rightarrow> (Some (Sentinel ErrQueueFull), q)
                | Some usedBytes \<Rightarrow>
                    (case checkedAddInt64 usedBytes sz of
                       None \<Rightarrow> (Some (Sentinel ErrQueueFull), q)
                     | Some totalBytes \<Rightarrow>
                         (case checkedAddInt64 (resBytes q) sz of
                            None \<Rightarrow> (Some (Sentinel ErrQueueFull), q)
                          | Some reservedBytes \<Rightarrow>
                              if \<not> exempt \<and> quotaExceeded q used totalBytes sz owner
                              then (Some (Sentinel ErrQueueFull), q)
                              else
                                (case reservePhysicalLocked fd physical emergency False q of
                                   (Some err, q1) \<Rightarrow> (Some err, q1)
                                 | (None, q1) \<Rightarrow> (None, chargeReservation sz exempt owner q1)))))))"

definition lowerSpoolReserved :: "int \<Rightarrow> Queue \<Rightarrow> Queue" where
  "lowerSpoolReserved n q =
     q\<lparr>spoolReserved := (if n > spoolReserved q then 0 else wrap64 (spoolReserved q - n))\<rparr>"

definition releaseReserveLocked :: "int \<Rightarrow> int \<Rightarrow> string \<Rightarrow> Queue \<Rightarrow> Queue" where
  "releaseReserveLocked sz physical owner q =
     (if sz < 0 then q
      else
        (let q1 = q\<lparr>reserved := (if reserved q > 0 then reserved q - 1 else reserved q),
                    resBytes := (if sz > resBytes q then 0 else wrap64 (resBytes q - sz))\<rparr>;
             q2 = lowerSpoolReserved physical q1
         in if owner = '''' then q2
            else
              (let u = usageOf q2 owner
               in setUsage owner
                    (u\<lparr>ureserved := (if ureserved u > 0 then ureserved u - 1 else ureserved u),
                       uresBytes := (if sz \<ge> uresBytes u then 0 else wrap64 (uresBytes u - sz))\<rparr>) q2)))"

subsection \<open>Spool usage\<close>

definition addPhysicalLocked :: "int \<Rightarrow> Queue \<Rightarrow> Queue" where
  "addPhysicalLocked n q =
     (if n \<le> 0 then q
      else q\<lparr>spoolBytes := (case checkedAddInt64 (spoolBytes q) n of None \<Rightarrow> max_int64 | Some t \<Rightarrow> t)\<rparr>)"

definition commitPhysicalLocked :: "int \<Rightarrow> Queue \<Rightarrow> Queue" where
  "commitPhysicalLocked n q = addPhysicalLocked n (lowerSpoolReserved n q)"

definition lowerSpoolBytes :: "int \<Rightarrow> Queue \<Rightarrow> Queue" where
  "lowerSpoolBytes n q = q\<lparr>spoolBytes := (if n \<ge> spoolBytes q then 0 else wrap64 (spoolBytes q - n))\<rparr>"

definition removePhysical :: "int \<Rightarrow> Queue \<Rightarrow> Queue" where
  "removePhysical n q = (if n \<le> 0 then q else lowerSpoolBytes n q)"

definition adjustPhysicalDelta :: "int \<Rightarrow> int \<Rightarrow> Queue \<Rightarrow> Queue" where
  "adjustPhysicalDelta before after q =
     (if after \<ge> before then addPhysicalLocked (wrap64 (after - before)) q
      else lowerSpoolBytes (wrap64 (before - after)) q)"

text \<open>\<open>holdPhysical\<close> and the release function it returns.\<close>

definition holdPhysical :: "freeDisk \<Rightarrow> int \<Rightarrow> bool \<Rightarrow> Queue \<Rightarrow> gerror option \<times> Queue" where
  "holdPhysical fd n terminal q = reservePhysicalLocked fd n True terminal q"

definition releaseHold :: "int \<Rightarrow> bool \<Rightarrow> Queue \<Rightarrow> Queue" where
  "releaseHold n commit q = (if commit then commitPhysicalLocked n q else lowerSpoolReserved n q)"

fun saturatingSum :: "int \<Rightarrow> int list \<Rightarrow> int" where
  "saturatingSum tot [] = tot"
| "saturatingSum tot (p # ps) =
     (case checkedAddInt64 tot p of None \<Rightarrow> max_int64 | Some t \<Rightarrow> saturatingSum t ps)"

definition addPending :: string where
  "addPending = ''outboxd-add-v1:pending '' @ [CHR 0x0A]"

definition addAccepted :: string where
  "addAccepted = ''outboxd-add-v1:accepted'' @ [CHR 0x0A]"

definition estimatePersistentEntryAllocation :: "int \<Rightarrow> int \<Rightarrow> int" where
  "estimatePersistentEntryAllocation bodySize metadataSize =
     saturatingSum 0 [AllocationSize 0, AllocationSize bodySize, AllocationSize metadataSize,
                      AllocationSize (int (length addAccepted))]"

definition estimateEntryAllocation :: "int \<Rightarrow> int \<Rightarrow> int" where
  "estimateEntryAllocation bodySize metadataSize =
     saturatingSum 0 [estimatePersistentEntryAllocation bodySize metadataSize, AllocationSize 0]"

record PhysicalStats =
  Used :: int
  Reserved :: int
  Limit :: int
  Emergency :: int
  HighWater :: bool

definition SpoolStats :: "Queue \<Rightarrow> PhysicalStats" where
  "SpoolStats q =
     (if closing q then \<lparr>Used = 0, Reserved = 0, Limit = 0, Emergency = 0, HighWater = False\<rparr>
      else
        (let tot = (case checkedAddInt64 (spoolBytes q) (spoolReserved q) of
                        None \<Rightarrow> max_int64 | Some t \<Rightarrow> t);
             lim = MaxSpoolBytes (limits q);
             ordinary = wrap64 (lim - SpoolEmergencyBytes (limits q))
         in \<lparr>Used = spoolBytes q, Reserved = spoolReserved q, Limit = lim,
             Emergency = SpoolEmergencyBytes (limits q),
             HighWater = (lim > 0 \<and> (tot \<ge> ordinary \<or> tot \<ge> lim - lim div 10))\<rparr>))"

definition Stats :: "Queue \<Rightarrow> int \<times> int" where
  "Stats q =
     (if closing q then (0, 0)
      else ((case checkedAddInt (qcount q) (reserved q) of None \<Rightarrow> max_int64 | Some n \<Rightarrow> n),
            (case checkedAddInt64 (qbytes q) (resBytes q) of None \<Rightarrow> max_int64 | Some n \<Rightarrow> n)))"

text \<open>\<open>startMutation\<close>: near the limit the usage is measured again, at most once a minute.
  \<open>measured\<close> is the result of walking the spool directory.\<close>

definition refreshSpoolUsage :: "gtime \<Rightarrow> (gerror + int) \<Rightarrow> Queue \<Rightarrow> gerror option \<times> Queue" where
  "refreshSpoolUsage now measured q =
     (case measured of Inl err \<Rightarrow> (Some err, q)
      | Inr tot \<Rightarrow> (None, q\<lparr>spoolBytes := tot, lastSpoolScan := now\<rparr>))"

definition nearSpoolLimit :: "Queue \<Rightarrow> bool" where
  "nearSpoolLimit q =
     (let limit = wrap64 (MaxSpoolBytes (limits q) - SpoolEmergencyBytes (limits q))
      in MaxSpoolBytes (limits q) > 0 \<and>
         (case checkedAddInt64 (spoolBytes q) (spoolReserved q) of
            None \<Rightarrow> True | Some used \<Rightarrow> limit < 0 \<or> used \<ge> limit))"

definition startMutation :: "gtime \<Rightarrow> (gerror + int) \<Rightarrow> Queue \<Rightarrow> gerror option \<times> Queue" where
  "startMutation now measured q =
     (if nearSpoolLimit q \<and> time_sub now (lastSpoolScan q) \<ge> minute
      then (case refreshSpoolUsage now measured q of
              (Some err, q') \<Rightarrow> (Some (Wrap ''measure spool usage'' [err]), q')
            | (None, q') \<Rightarrow> (None, q'))
      else (None, q))"

subsection \<open>Accounting\<close>

definition accountEntry :: "Envelope \<Rightarrow> accountedEntry" where
  "accountEntry e = \<lparr>asize = Size e, aowner = quotaOwner e, aincarnation = Incarnation e, arevision = Revision e\<rparr>"

definition noteAddedLocked :: "Envelope \<Rightarrow> Queue \<Rightarrow> bool \<times> Queue" where
  "noteAddedLocked e q =
     (if mget (accounted q) (ID e) \<noteq> None then (True, q)
      else
        (case checkedAddInt64 (qbytes q) (Size e) of
           None \<Rightarrow> (False, q)
         | Some b \<Rightarrow>
             if qcount q = max_int64 then (False, q)
             else
               (let q1 = q\<lparr>accounted := mput (ID e) (accountEntry e) (accounted q),
                           qcount := qcount q + 1, qbytes := b\<rparr>;
                    owner = quotaOwner e
                in if owner = '''' then (True, q1)
                   else (let u = usageOf q1 owner
                         in (True, setUsage owner (u\<lparr>umessages := wrap64 (umessages u + 1),
                                                     ubytes := wrap64 (ubytes u + Size e)\<rparr>) q1)))))"

definition noteRemoved :: "string \<Rightarrow> Queue \<Rightarrow> Queue" where
  "noteRemoved i q =
     (case mget (accounted q) i of
        None \<Rightarrow> q
      | Some entry \<Rightarrow>
          (let q1 = q\<lparr>accounted := mdel i (accounted q), scheduled := mdel i (scheduled q),
                      requeues := mdel i (requeues q), qcount := wrap64 (qcount q - 1),
                      qbytes := wrap64 (qbytes q - asize entry)\<rparr>
           in if aowner entry = '''' then q1
              else
                (let u0 = usageOf q1 (aowner entry);
                     u = u0\<lparr>umessages := wrap64 (umessages u0 - 1), ubytes := wrap64 (ubytes u0 - asize entry)\<rparr>
                 in if umessages u = 0 \<and> ureserved u = 0
                    then q1\<lparr>quotaUsers := mdel (aowner entry) (quotaUsers q1)\<rparr>
                    else setUsage (aowner entry) u q1)))"

subsection \<open>Opening and closing\<close>

definition MinimumSpoolEmergencyBytes :: int where
  "MinimumSpoolEmergencyBytes = 16777216"

definition validLimits :: "Limits \<Rightarrow> gerror option" where
  "validLimits lim =
     (if MaxMessages lim < 0 \<or> MaxBytes lim < 0 \<or> MaxMessagesPerUser lim < 0 \<or> MaxBytesPerUser lim < 0 \<or>
         MaxSpoolBytes lim < 0 \<or> SpoolEmergencyBytes lim < 0 \<or> MinFreeDisk lim < 0 \<or>
         DeadRetention lim < 0 \<or> CorruptRetention lim < 0
      then Some (Msg ''queue limits must not be negative'')
      else if MaxSpoolBytes lim > 0 \<and>
              (SpoolEmergencyBytes lim < MinimumSpoolEmergencyBytes \<or> SpoolEmergencyBytes lim \<ge> MaxSpoolBytes lim)
      then Some (Msg ''spool emergency reserve too small'')
      else None)"

definition newQueue :: "Limits \<Rightarrow> Queue" where
  "newQueue lim =
     \<lparr>limits = lim, pending = emptySchedule, nextRef = 0, notified = False, qcount = 0, qbytes = 0,
      accounted = [], scheduled = [], transitioning = [], requeues = [], reserved = 0, resBytes = 0,
      quotaUsers = [], spoolBytes = 0, spoolReserved = 0, lastSpoolScan = zero_time, active = 0,
      closing = False, readOnly = False, blocked = [], Corrupt = [], Warnings = []\<rparr>"

definition beginOperation :: "Queue \<Rightarrow> gerror option \<times> Queue" where
  "beginOperation q =
     (if closing q then (Some (Sentinel ErrQueueClosed), q) else (None, q\<lparr>active := active q + 1\<rparr>))"

text \<open>The broadcast of \<open>endOperation\<close> wakes \<open>finishClose\<close>, which rechecks \<open>closeReady\<close>.\<close>

definition endOperation :: "Queue \<Rightarrow> Queue" where
  "endOperation q = q\<lparr>active := active q - 1\<rparr>"

definition rejectReadOnly :: "Queue \<Rightarrow> gerror option" where
  "rejectReadOnly q = (if readOnly q then Some (Sentinel ErrReadOnly) else None)"

definition CloseContext :: "Queue \<Rightarrow> Queue" where
  "CloseContext q = q\<lparr>closing := True\<rparr>"

definition closeReady :: "Queue \<Rightarrow> bool" where
  "closeReady q \<longleftrightarrow> closing q \<and> \<not> active q > 0"

subsection \<open>Scheduling\<close>

definition signal :: "Queue \<Rightarrow> Queue" where
  "signal q = q\<lparr>notified := True\<rparr>"

definition schedulable :: "Queue \<Rightarrow> Envelope \<Rightarrow> bool" where
  "schedulable q e \<longleftrightarrow> ID e \<notin> set (blocked q) \<and>
     (case mget (accounted q) (ID e) of
        None \<Rightarrow> False
      | Some a \<Rightarrow> aincarnation a = Incarnation e \<and> arevision a = Revision e) \<and>
     mget (scheduled q) (ID e) = None"

definition scheduleLocked :: "Envelope \<Rightarrow> Queue \<Rightarrow> bool \<times> Queue" where
  "scheduleLocked e q =
     (if \<not> schedulable q e then (False, q)
      else
        (let queued = (nextRef q, cloneEnvelope e)
         in (True, q\<lparr>nextRef := nextRef q + 1, pending := schedPush queued (pending q),
                     scheduled := mput (ID e) queued (scheduled q)\<rparr>)))"

definition signalIf :: "bool \<Rightarrow> Queue \<Rightarrow> Queue" where
  "signalIf added q = (if added then signal q else q)"

definition beginTransitions :: "string list \<Rightarrow> Queue \<Rightarrow> gerror option \<times> Queue" where
  "beginTransitions is q =
     (if list_ex (\<lambda>i. i \<in> set (transitioning q)) is then (Some (Sentinel ErrQueueBusy), q)
      else (None, q\<lparr>transitioning := fold List.insert is (transitioning q)\<rparr>))"

text \<open>\<open>slices.ContainsFunc\<close> stops at the first envelope that is scheduled.\<close>

fun scheduleFirst :: "Envelope list \<Rightarrow> Queue \<Rightarrow> bool \<times> Queue" where
  "scheduleFirst [] q = (False, q)"
| "scheduleFirst (e # es) q =
     (case scheduleLocked e q of (True, q') \<Rightarrow> (True, q') | (False, q') \<Rightarrow> scheduleFirst es q')"

definition requeuesOf :: "Queue \<Rightarrow> string \<Rightarrow> Envelope list" where
  "requeuesOf q i = (case mget (requeues q) i of None \<Rightarrow> [] | Some es \<Rightarrow> es)"

fun endTransitionsLoop :: "string list \<Rightarrow> bool \<Rightarrow> Queue \<Rightarrow> bool \<times> Queue" where
  "endTransitionsLoop [] added q = (added, q)"
| "endTransitionsLoop (i # is) added q =
     (let q1 = q\<lparr>transitioning := removeAll i (transitioning q)\<rparr>;
          (hit, q2) = scheduleFirst (requeuesOf q1 i) q1
      in endTransitionsLoop is (added \<or> hit) (q2\<lparr>requeues := mdel i (requeues q2)\<rparr>))"

definition endTransitions :: "string list \<Rightarrow> Queue \<Rightarrow> Queue" where
  "endTransitions is q = (let (added, q1) = endTransitionsLoop is False q in signalIf added q1)"

text \<open>The release of ownership with publication that \<open>retry\<close>, \<open>Bury\<close>, \<open>AddContext\<close>,
  \<open>AddDSN\<close> and \<open>ReviveDead\<close> share: requests to reschedule that came in meanwhile are dropped.\<close>

definition releaseTransition :: "string \<Rightarrow> Queue \<Rightarrow> Queue" where
  "releaseTransition i q =
     q\<lparr>transitioning := removeAll i (transitioning q), requeues := mdel i (requeues q)\<rparr>"

definition Requeue :: "Envelope \<Rightarrow> Queue \<Rightarrow> Queue" where
  "Requeue e q =
     (if closing q then q
      else if ID e \<in> set (transitioning q)
      then (if list_ex (\<lambda>o'. Incarnation o' = Incarnation e \<and> Revision o' = Revision e) (requeuesOf q (ID e))
            then q
            else q\<lparr>requeues := mput (ID e) (requeuesOf q (ID e) @ [cloneEnvelope e]) (requeues q)\<rparr>)
      else (let (added, q1) = scheduleLocked e q in signalIf added q1))"

definition RequeueAfter :: "Envelope \<Rightarrow> duration \<Rightarrow> gtime \<Rightarrow> Queue \<Rightarrow> Queue" where
  "RequeueAfter e delay now q =
     (if closing q then q
      else
        (let deferred = (cloneEnvelope e)\<lparr>NextAttempt := now + delay\<rparr>;
             q1 = (case mget (scheduled q) (ID e) of
                     None \<Rightarrow> q
                   | Some p \<Rightarrow>
                       q\<lparr>pending := snd (schedRemove (fst p) (Username (snd p)) now (pending q)),
                         scheduled := mdel (ID e) (scheduled q)\<rparr>);
             (added, q2) = scheduleLocked deferred q1
         in signalIf added q2))"

text \<open>One round of the loop of \<open>Next\<close> under the lock: closed, a message, or how long to wait
  for the timer (the select then waits for it, a signal, a cancellation or the close).\<close>

datatype nextResult = NextClosed | NextMessage Envelope | NextWait duration

definition nextRound :: "gtime \<Rightarrow> Queue \<Rightarrow> nextResult \<times> Queue" where
  "nextRound now q =
     (if closing q then (NextClosed, q)
      else
        (case schedNextAttempt (pending q) of
           None \<Rightarrow> (NextWait (3600 * second), q)
         | Some w \<Rightarrow>
             (case PopDue now (pending q) of
                (Some p, s) \<Rightarrow>
                  (NextMessage (snd p),
                   q\<lparr>pending := s, scheduled := mdel (ID (snd p)) (scheduled q)\<rparr>)
              | (None, s) \<Rightarrow> (NextWait (time_sub w now), q\<lparr>pending := s\<rparr>))))"

end
