(* ===== verification/Capacity_Inv.thy ===== *)
theory Capacity_Inv
  imports QueueState
begin

text \<open>
  Correctness of quota and spool admission (\<open>capacity.go\<close>, \<open>spool.go\<close>). Concurrent operations
  hold reservations while they write; the lists \<open>R\<close> (reservations for new entries) and \<open>H\<close>
  (spool space held for updates) are what is outstanding. Every interleaving of the critical
  sections keeps the counters equal to what they count, within their width, and every owner
  within its quota.
\<close>

subsection \<open>Checked addition\<close>

lemma checkedAddInt64_eq:
  "in64 a \<Longrightarrow> in64 b \<Longrightarrow> checkedAddInt64 a b = (if in64 (a + b) then Some (a + b) else None)"
  unfolding checkedAddInt64_def in64_def by (auto simp: in64_def max_int64_def min_int64_def)

lemma checkedAddInt_eq:
  "in64 a \<Longrightarrow> in64 b \<Longrightarrow> checkedAddInt a b = (if in64 (a + b) then Some (a + b) else None)"
  unfolding checkedAddInt_def in64_def by (auto simp: in64_def max_int64_def min_int64_def)

subsection \<open>The invariant\<close>

record reservation =
  rsize :: int
  rphys :: int
  rowner :: string

definition rsum :: "(reservation \<Rightarrow> int) \<Rightarrow> reservation list \<Rightarrow> int" where
  "rsum f R = sum_list (map f R)"

lemma rsum_Nil [simp]: "rsum f [] = 0"
  by (simp add: rsum_def)

lemma rsum_Cons [simp]: "rsum f (r # R) = f r + rsum f R"
  by (simp add: rsum_def)

lemma rsum_remove1: "r \<in> set R \<Longrightarrow> rsum f (remove1 r R) = rsum f R - f r"
  by (induction R) auto

lemma length_rsum_remove1: "r \<in> set R \<Longrightarrow> int (length (remove1 r R)) = int (length R) - 1"
  by (induction R) auto

lemma rsum_nonneg: "(\<And>r. r \<in> set R \<Longrightarrow> 0 \<le> f r) \<Longrightarrow> 0 \<le> rsum f R"
  by (induction R) auto

lemma rsum_member: "(\<And>r. r \<in> set R \<Longrightarrow> 0 \<le> f r) \<Longrightarrow> r \<in> set R \<Longrightarrow> f r \<le> rsum f R"
proof (induction R)
  case (Cons a R)
  then have "0 \<le> f a" "0 \<le> rsum f R" by (simp_all add: rsum_nonneg)
  with Cons show ?case by (cases "r = a") (simp, fastforce)
qed simp

lemma rsum_zero: "(\<And>r. r \<in> set R \<Longrightarrow> f r = 0) \<Longrightarrow> rsum f R = 0"
  by (induction R) auto

lemma rsum_le: "(\<And>r. r \<in> set R \<Longrightarrow> f r \<le> g r) \<Longrightarrow> rsum f R \<le> rsum g R"
  by (induction R) (auto intro: add_mono)

lemma msum_le: "(\<And>p. p \<in> set m \<Longrightarrow> f p \<le> g p) \<Longrightarrow> msum f m \<le> msum g m"
  by (induction m) (auto intro: add_mono)

definition ownedBy :: "string \<Rightarrow> ('a \<Rightarrow> string) \<Rightarrow> ('a \<Rightarrow> int) \<Rightarrow> 'a \<Rightarrow> int" where
  "ownedBy ow own f x = (if own x = ow then f x else 0)"

abbreviation entryOwner :: "string \<times> accountedEntry \<Rightarrow> string" where
  "entryOwner p \<equiv> aowner (snd p)"

abbreviation entrySize :: "string \<times> accountedEntry \<Rightarrow> int" where
  "entrySize p \<equiv> asize (snd p)"

text \<open>What an owner has in the spool and in flight.\<close>

definition expectedUsage :: "reservation list \<Rightarrow> (string, accountedEntry) gmap \<Rightarrow> string \<Rightarrow> userUsage" where
  "expectedUsage R acc ow =
     \<lparr>umessages = msum (ownedBy ow entryOwner (\<lambda>_. 1)) acc, ubytes = msum (ownedBy ow entryOwner entrySize) acc,
      ureserved = rsum (ownedBy ow rowner (\<lambda>_. 1)) R, uresBytes = rsum (ownedBy ow rowner rsize) R\<rparr>"

definition cap_inv :: "reservation list \<Rightarrow> int list \<Rightarrow> Queue \<Rightarrow> bool" where
  "cap_inv R H q \<longleftrightarrow>
     distinct (mkeys (accounted q)) \<and> distinct (mkeys (quotaUsers q)) \<and>
     (\<forall>p \<in> set (accounted q). 0 \<le> asize (snd p)) \<and>
     (\<forall>r \<in> set R. 0 \<le> rsize r \<and> 0 \<le> rphys r) \<and> (\<forall>h \<in> set H. 0 \<le> h) \<and>
     qcount q = int (length (accounted q)) \<and> qbytes q = msum entrySize (accounted q) \<and>
     reserved q = int (length R) \<and> resBytes q = rsum rsize R \<and>
     spoolReserved q = rsum rphys R + sum_list H \<and>
     qcount q + reserved q \<le> max_int64 \<and> qbytes q + resBytes q \<le> max_int64 \<and>
     spoolReserved q \<le> max_int64 \<and> 0 \<le> spoolBytes q \<and> spoolBytes q \<le> max_int64 \<and>
     (\<forall>ow. ow \<noteq> '''' \<longrightarrow> usageOf q ow = expectedUsage R (accounted q) ow)"

lemma cap_invD:
  assumes "cap_inv R H q"
  shows "0 \<le> qcount q" "0 \<le> qbytes q" "0 \<le> reserved q" "0 \<le> resBytes q" "0 \<le> spoolReserved q"
    "in64 (qcount q)" "in64 (qbytes q)" "in64 (reserved q)" "in64 (resBytes q)" "in64 (spoolReserved q)" "in64 (spoolBytes q)"
proof -
  have n: "0 \<le> qcount q" "0 \<le> reserved q" using assms by (simp_all add: cap_inv_def)
  have b: "0 \<le> qbytes q" using assms by (auto simp: cap_inv_def intro!: msum_nonneg)
  have r: "0 \<le> resBytes q" using assms by (auto simp: cap_inv_def intro!: rsum_nonneg)
  have "0 \<le> rsum rphys R" "0 \<le> sum_list H" using assms by (auto simp: cap_inv_def intro!: rsum_nonneg sum_list_nonneg)
  then have p: "0 \<le> spoolReserved q" using assms by (simp add: cap_inv_def)
  show "0 \<le> qcount q" "0 \<le> qbytes q" "0 \<le> reserved q" "0 \<le> resBytes q" "0 \<le> spoolReserved q"
    by (fact n b r p)+
  have "qcount q + reserved q \<le> max_int64" "qbytes q + resBytes q \<le> max_int64" "spoolReserved q \<le> max_int64"
    "0 \<le> spoolBytes q" "spoolBytes q \<le> max_int64" using assms by (simp_all add: cap_inv_def)
  then show "in64 (qcount q)" "in64 (qbytes q)" "in64 (reserved q)" "in64 (resBytes q)" "in64 (spoolReserved q)"
    "in64 (spoolBytes q)" using n b r p by (simp_all add: in64_def min_int64_def)
qed

lemma length_as_msum: "int (length m) = msum (\<lambda>_. 1) m"
  by (induction m) simp_all

lemma length_as_rsum: "int (length R) = rsum (\<lambda>_. 1) R"
  by (induction R) simp_all

text \<open>An owner's usage is part of the whole.\<close>

lemma usage_bounds:
  assumes inv: "cap_inv R H q" and ow: "ow \<noteq> ''''"
  defines "u \<equiv> usageOf q ow"
  shows "0 \<le> umessages u" "0 \<le> ubytes u" "0 \<le> ureserved u" "0 \<le> uresBytes u"
    "umessages u \<le> qcount q" "ubytes u \<le> qbytes q" "ureserved u \<le> reserved q" "uresBytes u \<le> resBytes q"
proof -
  have u: "u = expectedUsage R (accounted q) ow" using inv ow by (simp add: cap_inv_def u_def)
  have s: "\<forall>p \<in> set (accounted q). 0 \<le> asize (snd p)" "\<forall>r \<in> set R. 0 \<le> rsize r" using inv by (simp_all add: cap_inv_def)
  have q: "qcount q = msum (\<lambda>_. 1) (accounted q)" "qbytes q = msum entrySize (accounted q)"
    "reserved q = rsum (\<lambda>_. 1) R" "resBytes q = rsum rsize R"
    using inv by (simp_all add: cap_inv_def length_as_msum length_as_rsum)
  show "0 \<le> umessages u" "0 \<le> ubytes u" "0 \<le> ureserved u" "0 \<le> uresBytes u"
    using s by (auto simp: u expectedUsage_def ownedBy_def intro!: msum_nonneg rsum_nonneg)
  show "umessages u \<le> qcount q" "ubytes u \<le> qbytes q"
    using s unfolding q u expectedUsage_def by (auto simp: ownedBy_def intro!: msum_le)
  show "ureserved u \<le> reserved q" "uresBytes u \<le> resBytes q"
    using s unfolding q u expectedUsage_def by (auto simp: ownedBy_def intro!: rsum_le)
qed

lemma usageOf_setUsage [simp]: "usageOf (setUsage w u q) ow = (if ow = w then u else usageOf q ow)"
  by (simp add: usageOf_def setUsage_def map_simps)

lemma setUsage_fields [simp]:
  "accounted (setUsage w u q) = accounted q" "qcount (setUsage w u q) = qcount q"
  "qbytes (setUsage w u q) = qbytes q" "reserved (setUsage w u q) = reserved q"
  "resBytes (setUsage w u q) = resBytes q" "spoolReserved (setUsage w u q) = spoolReserved q"
  "spoolBytes (setUsage w u q) = spoolBytes q" "limits (setUsage w u q) = limits q"
  "distinct (mkeys (quotaUsers q)) \<Longrightarrow> distinct (mkeys (quotaUsers (setUsage w u q)))"
  by (simp_all add: setUsage_def)

lemma usageOf_cong: "quotaUsers q = quotaUsers q' \<Longrightarrow> usageOf q ow = usageOf q' ow"
  by (simp add: usageOf_def)

subsection \<open>Admission\<close>

lemma reservePhysicalLocked_ok:
  assumes inv: "cap_inv R H q" and p: "in64 physical" and e: "reservePhysicalLocked fd physical em te q = (None, q')"
  shows "0 \<le> physical" "q' = q\<lparr>spoolReserved := spoolReserved q + physical\<rparr>"
    "spoolReserved q + physical \<le> max_int64"
    "MaxSpoolBytes (limits q) > 0 \<Longrightarrow> spoolBytes q + spoolReserved q' \<le> physicalLimit (limits q) em te"
    "checkFree fd (limits q) em te (spoolReserved q') = None"
proof -
  note D = cap_invD [OF inv]
  have p0: "0 \<le> physical" using e by (auto simp: reservePhysicalLocked_def split: if_splits)
  have c1: "checkedAddInt64 (spoolReserved q) physical =
      (if in64 (spoolReserved q + physical) then Some (spoolReserved q + physical) else None)"
    by (rule checkedAddInt64_eq [OF D(10) p])
  have i: "in64 (spoolReserved q + physical)" using e c1 p0 by (auto simp: reservePhysicalLocked_def split: if_splits)
  have c2: "checkedAddInt64 (spoolBytes q) (spoolReserved q + physical) =
      (if in64 (spoolBytes q + (spoolReserved q + physical)) then Some (spoolBytes q + (spoolReserved q + physical)) else None)"
    by (rule checkedAddInt64_eq [OF D(11) i])
  show "0 \<le> physical" by (fact p0)
  show "spoolReserved q + physical \<le> max_int64" using i by (simp add: in64_def)
  have q': "q' = q\<lparr>spoolReserved := spoolReserved q + physical\<rparr> \<and>
      (MaxSpoolBytes (limits q) > 0 \<longrightarrow> spoolBytes q + (spoolReserved q + physical) \<le> physicalLimit (limits q) em te) \<and>
      checkFree fd (limits q) em te (spoolReserved q + physical) = None"
    using e p0 i by (auto simp: reservePhysicalLocked_def c1 c2 Let_def split: if_splits option.splits)
  then show "q' = q\<lparr>spoolReserved := spoolReserved q + physical\<rparr>" by blast
  show "MaxSpoolBytes (limits q) > 0 \<Longrightarrow> spoolBytes q + spoolReserved q' \<le> physicalLimit (limits q) em te"
    "checkFree fd (limits q) em te (spoolReserved q') = None" using q' by auto
qed

lemma quotaExceeded_iff:
  assumes inv: "cap_inv R H q" and ow: "ow \<noteq> ''''" and sz: "in64 sz" "0 \<le> sz" and tot: "qbytes q + resBytes q + sz \<le> max_int64"
  shows "\<not> quotaExceeded q (qcount q + reserved q) (qbytes q + resBytes q + sz) sz ow \<longleftrightarrow>
    (MaxMessages (limits q) > 0 \<longrightarrow> qcount q + reserved q < MaxMessages (limits q)) \<and>
    (MaxBytes (limits q) > 0 \<longrightarrow> qbytes q + resBytes q + sz \<le> MaxBytes (limits q)) \<and>
    (MaxMessagesPerUser (limits q) > 0 \<longrightarrow> umessages (usageOf q ow) + ureserved (usageOf q ow) < MaxMessagesPerUser (limits q)) \<and>
    (MaxBytesPerUser (limits q) > 0 \<longrightarrow> ubytes (usageOf q ow) + uresBytes (usageOf q ow) + sz \<le> MaxBytesPerUser (limits q))"
proof -
  note D = cap_invD [OF inv] and U = usage_bounds [OF inv ow]
  define u where "u = usageOf q ow"
  have le: "qcount q + reserved q \<le> max_int64" using inv by (simp add: cap_inv_def)
  have i: "in64 (umessages u)" "in64 (ureserved u)" "in64 (ubytes u)" "in64 (uresBytes u)"
    "in64 (umessages u + ureserved u)" "in64 (ubytes u + uresBytes u)" "in64 (ubytes u + uresBytes u + sz)"
    using U D le tot sz unfolding in64_def min_int64_def u_def by linarith+
  have c: "checkedAddInt (umessages u) (ureserved u) = Some (umessages u + ureserved u)"
    "checkedAddInt64 (ubytes u) (uresBytes u) = Some (ubytes u + uresBytes u)"
    "checkedAddInt64 (ubytes u + uresBytes u) sz = Some (ubytes u + uresBytes u + sz)"
    using i sz by (simp_all add: checkedAddInt64_eq checkedAddInt_eq)
  show ?thesis unfolding quotaExceeded_def Let_def u_def [symmetric] by (auto simp: c)
qed

lemma reserveLocked_ok:
  assumes inv: "cap_inv R H q" and i: "in64 sz" "in64 physical" and ow: "ex \<or> ow \<noteq> ''''"
    and e: "reserveLocked fd sz physical ex em ow q = (None, q')"
  shows "0 \<le> sz" "0 \<le> physical" "qcount q + reserved q < max_int64" "qbytes q + resBytes q + sz \<le> max_int64"
    "\<not> ex \<Longrightarrow> \<not> quotaExceeded q (qcount q + reserved q) (qbytes q + resBytes q + sz) sz ow"
    "reservePhysicalLocked fd physical em False q = (None, q\<lparr>spoolReserved := spoolReserved q + physical\<rparr>)"
    "q' = chargeReservation sz ex ow (q\<lparr>spoolReserved := spoolReserved q + physical\<rparr>)"
proof -
  note D = cap_invD [OF inv]
  have bnd: "qcount q + reserved q \<le> max_int64" "qbytes q + resBytes q \<le> max_int64" using inv by (simp_all add: cap_inv_def)
  have s: "0 \<le> sz" "0 \<le> physical" using e by (auto simp: reserveLocked_def split: if_splits)
  have i2: "in64 (qcount q + reserved q)" "in64 (qbytes q + resBytes q)" using bnd D by (simp_all add: in64_def min_int64_def)
  have i3: "in64 (qbytes q + resBytes q + sz) \<longleftrightarrow> qbytes q + resBytes q + sz \<le> max_int64"
    "in64 (resBytes q + sz) \<longleftrightarrow> resBytes q + sz \<le> max_int64"
    using D s by (simp_all add: in64_def min_int64_def)
  have c: "checkedAddInt (qcount q) (reserved q) = Some (qcount q + reserved q)"
    "checkedAddInt64 (qbytes q) (resBytes q) = Some (qbytes q + resBytes q)"
    "checkedAddInt64 (qbytes q + resBytes q) sz =
       (if qbytes q + resBytes q + sz \<le> max_int64 then Some (qbytes q + resBytes q + sz) else None)"
    "checkedAddInt64 (resBytes q) sz = (if resBytes q + sz \<le> max_int64 then Some (resBytes q + sz) else None)"
    using D i i2 i3 by (simp_all add: checkedAddInt64_eq checkedAddInt_eq)
  obtain r q1 where rp: "reservePhysicalLocked fd physical em False q = (r, q1)" by fastforce
  have E: "qcount q + reserved q \<noteq> max_int64 \<and> qbytes q + resBytes q + sz \<le> max_int64 \<and> r = None \<and>
     (\<not> ex \<longrightarrow> \<not> quotaExceeded q (qcount q + reserved q) (qbytes q + resBytes q + sz) sz ow) \<and>
     q' = chargeReservation sz ex ow q1"
    using e s by (auto simp: reserveLocked_def c rp split: if_splits option.splits)
  have "q1 = q\<lparr>spoolReserved := spoolReserved q + physical\<rparr>"
    using reservePhysicalLocked_ok(2) [OF inv i(2)] rp E by metis
  with E s bnd rp show "0 \<le> sz" "0 \<le> physical" "qcount q + reserved q < max_int64" "qbytes q + resBytes q + sz \<le> max_int64"
    "\<not> ex \<Longrightarrow> \<not> quotaExceeded q (qcount q + reserved q) (qbytes q + resBytes q + sz) sz ow"
    "reservePhysicalLocked fd physical em False q = (None, q\<lparr>spoolReserved := spoolReserved q + physical\<rparr>)"
    "q' = chargeReservation sz ex ow (q\<lparr>spoolReserved := spoolReserved q + physical\<rparr>)" by auto
qed

lemma expectedUsage_Cons:
  "expectedUsage (r # R) acc ow = (if rowner r = ow
     then (expectedUsage R acc ow)\<lparr>ureserved := ureserved (expectedUsage R acc ow) + 1,
             uresBytes := uresBytes (expectedUsage R acc ow) + rsize r\<rparr>
     else expectedUsage R acc ow)"
  by (simp add: expectedUsage_def ownedBy_def add.commute)

lemma in64I: "0 \<le> x \<Longrightarrow> x \<le> max_int64 \<Longrightarrow> in64 x"
  by (simp add: in64_def min_int64_def)

lemma cap_inv_reserve:
  assumes inv: "cap_inv R H q" and i: "in64 sz" "in64 physical" and ow: "ex \<or> ow \<noteq> ''''"
    and e: "reserveLocked fd sz physical ex em ow q = (None, q')"
  shows "cap_inv (\<lparr>rsize = sz, rphys = physical, rowner = (if ex then '''' else ow)\<rparr> # R) H q'" (is "cap_inv (?r # R) H q'")
    "limits q' = limits q" "spoolBytes q' = spoolBytes q" "spoolReserved q' = spoolReserved q + physical"
    "accounted q' = accounted q"
    "w \<noteq> '''' \<Longrightarrow> usageOf q' w = (if \<not> ex \<and> w = ow then (usageOf q w)\<lparr>ureserved := ureserved (usageOf q w) + 1,
        uresBytes := uresBytes (usageOf q w) + sz\<rparr> else usageOf q w)"
proof -
  note E = reserveLocked_ok [OF inv i ow e] and D = cap_invD [OF inv]
  note P = reservePhysicalLocked_ok(3) [OF inv i(2) E(6)]
  have w: "wrap64 (reserved q + 1) = reserved q + 1" "wrap64 (resBytes q + sz) = resBytes q + sz"
    using E(1,3,4) D by (auto intro!: wrap64_id in64I)
  have wu: "wrap64 (ureserved (usageOf q ow) + 1) = ureserved (usageOf q ow) + 1"
    "wrap64 (uresBytes (usageOf q ow) + sz) = uresBytes (usageOf q ow) + sz" if "\<not> ex"
    using E(1,3,4) D usage_bounds [OF inv, of ow] ow that by (auto intro!: wrap64_id in64I)
  have u1: "usageOf (q\<lparr>spoolReserved := c, reserved := a, resBytes := b\<rparr>) x = usageOf q x" for a b c x
    by (simp add: usageOf_def)
  have dq: "distinct (mkeys (quotaUsers q))" using inv by (simp add: cap_inv_def)
  have f: "accounted q' = accounted q" "qcount q' = qcount q" "qbytes q' = qbytes q" "reserved q' = reserved q + 1"
    "resBytes q' = resBytes q + sz" "spoolReserved q' = spoolReserved q + physical" "spoolBytes q' = spoolBytes q"
    "limits q' = limits q" "distinct (mkeys (quotaUsers q'))"
    using dq by (simp_all add: E(7) chargeReservation_def Let_def w)
  show us: "usageOf q' w = (if \<not> ex \<and> w = ow then (usageOf q w)\<lparr>ureserved := ureserved (usageOf q w) + 1,
        uresBytes := uresBytes (usageOf q w) + sz\<rparr> else usageOf q w)" for w
    using wu by (auto simp: E(7) chargeReservation_def Let_def u1)
  show "limits q' = limits q" "spoolBytes q' = spoolBytes q" "spoolReserved q' = spoolReserved q + physical"
    "accounted q' = accounted q" by (fact f)+
  have x: "usageOf q w = expectedUsage R (accounted q) w" if "w \<noteq> ''''" for w using inv that by (simp add: cap_inv_def)
  have "\<forall>w. w \<noteq> '''' \<longrightarrow> usageOf q' w = expectedUsage (?r # R) (accounted q') w"
    by (auto simp: us f expectedUsage_Cons x)
  then show "cap_inv (?r # R) H q'"
    using inv E(1-4) P unfolding cap_inv_def by (auto simp: f)
qed

lemma expectedUsage_remove1:
  assumes "r \<in> set R"
  shows "expectedUsage (remove1 r R) acc ow = (if rowner r = ow
     then (expectedUsage R acc ow)\<lparr>ureserved := ureserved (expectedUsage R acc ow) - 1,
             uresBytes := uresBytes (expectedUsage R acc ow) - rsize r\<rparr>
     else expectedUsage R acc ow)"
  using assms by (simp add: expectedUsage_def ownedBy_def rsum_remove1)

lemma cap_inv_release:
  assumes inv: "cap_inv R H q" and r: "r \<in> set R"
  defines "q' \<equiv> releaseReserveLocked (rsize r) (rphys r) (rowner r) q"
  shows "cap_inv (remove1 r R) H q'" "limits q' = limits q" "accounted q' = accounted q"
    "qcount q' = qcount q" "qbytes q' = qbytes q" "reserved q' = reserved q - 1" "resBytes q' = resBytes q - rsize r"
proof -
  note D = cap_invD [OF inv]
  have rr: "0 \<le> rsize r" "0 \<le> rphys r" using inv r by (simp_all add: cap_inv_def)
  have nn: "\<And>x. x \<in> set R \<Longrightarrow> 0 \<le> rsize x" "\<And>x. x \<in> set R \<Longrightarrow> 0 \<le> rphys x" "0 \<le> sum_list H"
    using inv by (auto simp: cap_inv_def intro: sum_list_nonneg)
  have le: "rsize r \<le> resBytes q" "rphys r \<le> spoolReserved q"
    using rsum_member [where f = rsize, OF nn(1) r] rsum_member [where f = rphys, OF nn(2) r] nn(3) inv
    by (simp_all add: cap_inv_def)
  have pos: "0 < reserved q" using inv r by (auto simp: cap_inv_def)
  define q2 where "q2 = lowerSpoolReserved (rphys r)
     (q\<lparr>reserved := (if reserved q > 0 then reserved q - 1 else reserved q),
        resBytes := (if rsize r > resBytes q then 0 else wrap64 (resBytes q - rsize r))\<rparr>)"
  have w: "wrap64 (resBytes q - rsize r) = resBytes q - rsize r" "wrap64 (spoolReserved q - rphys r) = spoolReserved q - rphys r"
    using le rr D by (auto simp: in64_def min_int64_def intro!: wrap64_id)
  have f2: "accounted q2 = accounted q" "qcount q2 = qcount q" "qbytes q2 = qbytes q" "reserved q2 = reserved q - 1"
    "resBytes q2 = resBytes q - rsize r" "spoolReserved q2 = spoolReserved q - rphys r" "spoolBytes q2 = spoolBytes q"
    "limits q2 = limits q" "quotaUsers q2 = quotaUsers q" "\<And>x. usageOf q2 x = usageOf q x"
    using le pos w by (auto simp: q2_def lowerSpoolReserved_def usageOf_def)
  have q': "q' = (if rowner r = '''' then q2 else (let u = usageOf q2 (rowner r) in setUsage (rowner r)
      (u\<lparr>ureserved := (if ureserved u > 0 then ureserved u - 1 else ureserved u),
         uresBytes := (if rsize r \<ge> uresBytes u then 0 else wrap64 (uresBytes u - rsize r))\<rparr>) q2))"
    using rr by (simp add: q'_def releaseReserveLocked_def Let_def q2_def)
  have f: "accounted q' = accounted q" "qcount q' = qcount q" "qbytes q' = qbytes q" "reserved q' = reserved q - 1"
    "resBytes q' = resBytes q - rsize r" "spoolReserved q' = spoolReserved q - rphys r" "spoolBytes q' = spoolBytes q"
    "limits q' = limits q" "distinct (mkeys (quotaUsers q'))"
    unfolding q' using f2 inv by (auto simp: Let_def cap_inv_def)
  show "limits q' = limits q" "accounted q' = accounted q" "qcount q' = qcount q" "qbytes q' = qbytes q"
    "reserved q' = reserved q - 1" "resBytes q' = resBytes q - rsize r" by (fact f)+
  have x: "usageOf q v = expectedUsage R (accounted q) v" if "v \<noteq> ''''" for v using inv that by (simp add: cap_inv_def)
  have us: "usageOf q' v = expectedUsage (remove1 r R) (accounted q) v" if v: "v \<noteq> ''''" for v
  proof (cases "v = rowner r")
    case True
    define u where "u = usageOf q v"
    have "rsum (ownedBy v rowner (\<lambda>_. 1)) R \<ge> 1" "rsum (ownedBy v rowner rsize) R \<ge> rsize r"
      using rsum_member [of R "ownedBy v rowner (\<lambda>_. 1)" r] rsum_member [of R "ownedBy v rowner rsize" r] nn(1) r True
      by (auto simp: ownedBy_def)
    then have b: "1 \<le> ureserved u" "rsize r \<le> uresBytes u" using x [OF v] by (simp_all add: u_def expectedUsage_def)
    have wr: "wrap64 (uresBytes u - rsize r) = uresBytes u - rsize r"
      using b rr D usage_bounds [OF inv v] unfolding u_def by (auto simp: in64_def min_int64_def intro!: wrap64_id)
    show ?thesis
      using True v b wr x [OF v] r by (simp add: q' f2 Let_def u_def expectedUsage_remove1)
  next
    case False
    then show ?thesis using x [OF v] r by (simp add: q' f2 Let_def expectedUsage_remove1)
  qed
  have sr: "set (remove1 r R) \<subseteq> set R" by (rule set_remove1_subset)
  show "cap_inv (remove1 r R) H q'"
    using inv us sr r pos rr f(9) unfolding cap_inv_def f(1-8)
    by (auto simp: rsum_remove1 length_rsum_remove1)
qed

subsection \<open>Accounting\<close>

lemma noteAddedLocked_new:
  assumes inv: "cap_inv R H q" and n: "mget (accounted q) (ID e) = None" and s: "0 \<le> Size e"
    and room: "qcount q + reserved q < max_int64" "qbytes q + resBytes q + Size e \<le> max_int64"
  defines "q' \<equiv> snd (noteAddedLocked e q)"
  shows "fst (noteAddedLocked e q)" "cap_inv R H q'" "limits q' = limits q"
    "accounted q' = mput (ID e) (accountEntry e) (accounted q)"
    "w \<noteq> '''' \<Longrightarrow> usageOf q' w = (if w = quotaOwner e then (usageOf q w)\<lparr>umessages := umessages (usageOf q w) + 1,
        ubytes := ubytes (usageOf q w) + Size e\<rparr> else usageOf q w)"
proof -
  note D = cap_invD [OF inv]
  have i: "in64 (Size e)" "in64 (qbytes q + Size e)" using room D s by (auto intro!: in64I)
  have c: "checkedAddInt64 (qbytes q) (Size e) = Some (qbytes q + Size e)" using i D by (simp add: checkedAddInt64_eq)
  define q1 where "q1 = q\<lparr>accounted := mput (ID e) (accountEntry e) (accounted q), qcount := qcount q + 1, qbytes := qbytes q + Size e\<rparr>"
  have u1: "usageOf q1 x = usageOf q x" for x by (simp add: usageOf_def q1_def)
  have e: "noteAddedLocked e q = (if quotaOwner e = '''' then (True, q1)
      else (True, setUsage (quotaOwner e) ((usageOf q (quotaOwner e))\<lparr>umessages := wrap64 (umessages (usageOf q (quotaOwner e)) + 1),
           ubytes := wrap64 (ubytes (usageOf q (quotaOwner e)) + Size e)\<rparr>) q1))"
    using n room D unfolding noteAddedLocked_def Let_def by (simp add: c q1_def [symmetric] u1)
  then show "fst (noteAddedLocked e q)" by simp
  have w: "wrap64 (umessages (usageOf q (quotaOwner e)) + 1) = umessages (usageOf q (quotaOwner e)) + 1"
    "wrap64 (ubytes (usageOf q (quotaOwner e)) + Size e) = ubytes (usageOf q (quotaOwner e)) + Size e" if "quotaOwner e \<noteq> ''''"
    using usage_bounds [OF inv that] D room s by (auto intro!: wrap64_id in64I)
  have dq: "distinct (mkeys (quotaUsers q))" "distinct (mkeys (accounted q))" using inv by (simp_all add: cap_inv_def)
  have f: "accounted q' = mput (ID e) (accountEntry e) (accounted q)" "qcount q' = qcount q + 1" "qbytes q' = qbytes q + Size e"
    "reserved q' = reserved q" "resBytes q' = resBytes q" "spoolReserved q' = spoolReserved q" "spoolBytes q' = spoolBytes q"
    "limits q' = limits q" "distinct (mkeys (quotaUsers q'))"
    using dq by (simp_all add: q'_def e q1_def)
  show us: "usageOf q' v = (if v = quotaOwner e then (usageOf q v)\<lparr>umessages := umessages (usageOf q v) + 1,
        ubytes := ubytes (usageOf q v) + Size e\<rparr> else usageOf q v)" if "v \<noteq> ''''" for v
    using that w by (auto simp: q'_def e u1)
  show "limits q' = limits q" "accounted q' = mput (ID e) (accountEntry e) (accounted q)" by (fact f)+
  have x: "usageOf q v = expectedUsage R (accounted q) v" if "v \<noteq> ''''" for v using inv that by (simp add: cap_inv_def)
  have m: "msum g (accounted q') = msum g (accounted q) + g (ID e, accountEntry e)" for g
    unfolding f(1) using msum_mput [OF dq(2)] n by simp
  have xu: "usageOf q' v = expectedUsage R (accounted q') v" if v: "v \<noteq> ''''" for v
    using us [OF v] x [OF v] by (auto simp: expectedUsage_def m ownedBy_def accountEntry_def)
  have l: "int (length (accounted q')) = int (length (accounted q)) + 1" using n by (simp add: f(1) length_mput_new)
  have sz: "\<forall>p \<in> set (accounted q'). 0 \<le> asize (snd p)"
    using inv s unfolding f(1) set_mput [OF dq(2)] by (auto simp: cap_inv_def accountEntry_def)
  show "cap_inv R H q'"
    using inv xu l sz room f(9) m [of entrySize] dq unfolding cap_inv_def f(2-8)
    by (auto simp: accountEntry_def f(1))
qed

lemma cap_inv_noteRemoved:
  fixes i :: string
  assumes inv: "cap_inv R H q"
  defines "q' \<equiv> noteRemoved i q"
  shows "cap_inv R H q'" "limits q' = limits q" "accounted q' = mdel i (accounted q)"
    "w \<noteq> '''' \<Longrightarrow> umessages (usageOf q' w) \<le> umessages (usageOf q w) \<and> ubytes (usageOf q' w) \<le> ubytes (usageOf q w) \<and>
       ureserved (usageOf q' w) = ureserved (usageOf q w) \<and> uresBytes (usageOf q' w) = uresBytes (usageOf q w)"
proof -
  have dq: "distinct (mkeys (quotaUsers q))" "distinct (mkeys (accounted q))" using inv by (simp_all add: cap_inv_def)
  note D = cap_invD [OF inv]
  have x: "usageOf q v = expectedUsage R (accounted q) v" if "v \<noteq> ''''" for v using inv that by (simp add: cap_inv_def)
  have "cap_inv R H q' \<and> limits q' = limits q \<and> accounted q' = mdel i (accounted q) \<and>
    (\<forall>v. v \<noteq> '''' \<longrightarrow> umessages (usageOf q' v) \<le> umessages (usageOf q v) \<and> ubytes (usageOf q' v) \<le> ubytes (usageOf q v) \<and>
       ureserved (usageOf q' v) = ureserved (usageOf q v) \<and> uresBytes (usageOf q' v) = uresBytes (usageOf q v))"
  proof (cases "mget (accounted q) i")
    case None
    then show ?thesis using inv by (simp add: q'_def noteRemoved_def mdel_absent)
  next
    case (Some a)
    have "(i, a) \<in> set (accounted q)" using Some by (rule map_of_SomeD)
    then have s: "0 \<le> asize a" using inv by (force simp: cap_inv_def)
    have m: "msum g (mdel i (accounted q)) = msum g (accounted q) - g (i, a)" for g
      using msum_mdel [OF dq(2)] Some by simp
    have sub: "set (mdel i (accounted q)) \<subseteq> set (accounted q)" by (auto simp: set_mdel)
    have sz: "\<forall>p \<in> set (mdel i (accounted q)). 0 \<le> asize (snd p)" using inv sub by (auto simp: cap_inv_def)
    have l: "int (length (mdel i (accounted q))) = int (length (accounted q)) - 1"
      using m [of "\<lambda>_. 1"] by (simp flip: length_as_msum)
    have b: "0 \<le> qcount q - 1" "0 \<le> qbytes q - asize a"
      using l m [of entrySize] msum_nonneg [of "mdel i (accounted q)" entrySize] sz inv by (auto simp: cap_inv_def)
    have w1: "wrap64 (qcount q - 1) = qcount q - 1" "wrap64 (qbytes q - asize a) = qbytes q - asize a"
      using b D s by (auto simp: in64_def min_int64_def intro!: wrap64_id)
    define q1 where "q1 = q\<lparr>accounted := mdel i (accounted q), scheduled := mdel i (scheduled q), requeues := mdel i (requeues q),
        qcount := qcount q - 1, qbytes := qbytes q - asize a\<rparr>"
    have u1: "usageOf q1 v = usageOf q v" for v by (simp add: usageOf_def q1_def)
    have q': "q' = (if aowner a = '''' then q1 else
        (let u = (usageOf q (aowner a))\<lparr>umessages := wrap64 (umessages (usageOf q (aowner a)) - 1), ubytes := wrap64 (ubytes (usageOf q (aowner a)) - asize a)\<rparr>
         in if umessages u = 0 \<and> ureserved u = 0 then q1\<lparr>quotaUsers := mdel (aowner a) (quotaUsers q1)\<rparr> else setUsage (aowner a) u q1))"
      unfolding q'_def noteRemoved_def Let_def by (simp add: Some w1 q1_def [symmetric] u1)
    have f: "accounted q' = mdel i (accounted q)" "qcount q' = qcount q - 1" "qbytes q' = qbytes q - asize a"
      "reserved q' = reserved q" "resBytes q' = resBytes q" "spoolReserved q' = spoolReserved q" "spoolBytes q' = spoolBytes q"
      "limits q' = limits q" "distinct (mkeys (quotaUsers q'))"
      unfolding q' using dq by (auto simp: q1_def Let_def)
    have xu: "usageOf q' v = expectedUsage R (mdel i (accounted q)) v" if v: "v \<noteq> ''''" for v
    proof (cases "v = aowner a")
      case False
      then have "usageOf q' v = usageOf q v" by (auto simp: q' Let_def u1) (auto simp: usageOf_def q1_def map_simps)
      then show ?thesis using False x [OF v] by (simp add: expectedUsage_def m ownedBy_def)
    next
      case True
      let ?x = "expectedUsage R (mdel i (accounted q)) v"
      have ex: "umessages ?x = umessages (usageOf q v) - 1" "ubytes ?x = ubytes (usageOf q v) - asize a"
        "ureserved ?x = ureserved (usageOf q v)" "uresBytes ?x = uresBytes (usageOf q v)"
        using True x [OF v] by (simp_all add: expectedUsage_def m ownedBy_def)
      have nn: "0 \<le> umessages ?x" "0 \<le> ubytes ?x" using sz by (auto simp: expectedUsage_def ownedBy_def intro!: msum_nonneg)
      have w2: "wrap64 (umessages (usageOf q v) - 1) = umessages (usageOf q v) - 1" "wrap64 (ubytes (usageOf q v) - asize a) = ubytes (usageOf q v) - asize a"
        using ex nn D usage_bounds [OF inv v] s by (auto simp: in64_def min_int64_def intro!: wrap64_id)
      have eq: "(usageOf q v)\<lparr>umessages := umessages (usageOf q v) - 1, ubytes := ubytes (usageOf q v) - asize a\<rparr> = ?x"
        using ex by (cases "usageOf q v"; cases ?x) simp
      have gone: "?x = noUsage" if "umessages ?x = 0" "ureserved ?x = 0"
      proof -
        have "\<forall>p \<in> set (mdel i (accounted q)). aowner (snd p) \<noteq> v"
          using msum_member_le [of "mdel i (accounted q)" "ownedBy v entryOwner (\<lambda>_. 1)"] that(1)
          by (force simp: expectedUsage_def ownedBy_def)
        moreover have "\<forall>r \<in> set R. rowner r \<noteq> v"
          using rsum_member [of R "ownedBy v rowner (\<lambda>_. 1)"] that(2) by (force simp: expectedUsage_def ownedBy_def)
        ultimately have "msum (ownedBy v entryOwner g) (mdel i (accounted q)) = 0" "rsum (ownedBy v rowner h) R = 0" for g h
          by (auto simp: ownedBy_def intro!: msum_zero rsum_zero)
        then show ?thesis by (simp add: expectedUsage_def noUsage_def)
      qed
      show ?thesis
        using True v gone eq w2 by (auto simp: q' Let_def u1) (auto simp: usageOf_def q1_def map_simps)
    qed
    have le: "umessages (usageOf q' v) \<le> umessages (usageOf q v) \<and> ubytes (usageOf q' v) \<le> ubytes (usageOf q v) \<and>
       ureserved (usageOf q' v) = ureserved (usageOf q v) \<and> uresBytes (usageOf q' v) = uresBytes (usageOf q v)" if v: "v \<noteq> ''''" for v
      using xu [OF v] x [OF v] s by (simp add: expectedUsage_def m ownedBy_def)
    have "cap_inv R H q'"
      using inv xu l sz f(9) m [of entrySize] dq s unfolding cap_inv_def f(1-8) by auto
    with le f show ?thesis by blast
  qed
  then show "cap_inv R H q'" "limits q' = limits q" "accounted q' = mdel i (accounted q)"
    "w \<noteq> '''' \<Longrightarrow> umessages (usageOf q' w) \<le> umessages (usageOf q w) \<and> ubytes (usageOf q' w) \<le> ubytes (usageOf q w) \<and>
       ureserved (usageOf q' w) = ureserved (usageOf q w) \<and> uresBytes (usageOf q' w) = uresBytes (usageOf q w)" by blast+
qed

subsection \<open>Spool usage\<close>

text \<open>The fields the invariant and the quotas read.\<close>

definition capPart :: "Queue \<Rightarrow> _" where
  "capPart q = (limits q, accounted q, quotaUsers q, qcount q, qbytes q, reserved q, resBytes q)"

lemma cap_inv_spool:
  assumes "cap_inv R H q" "capPart q' = capPart q"
    "\<forall>r \<in> set R'. 0 \<le> rphys r" "\<forall>h \<in> set H'. 0 \<le> h" "spoolReserved q' = rsum rphys R' + sum_list H'" "spoolReserved q' \<le> max_int64"
    "0 \<le> spoolBytes q'" "spoolBytes q' \<le> max_int64"
    "map rsize R' = map rsize R" "map rowner R' = map rowner R"
  shows "cap_inv R' H' q'"
proof -
  have c: "limits q' = limits q" "accounted q' = accounted q" "quotaUsers q' = quotaUsers q" "qcount q' = qcount q"
    "qbytes q' = qbytes q" "reserved q' = reserved q" "resBytes q' = resBytes q"
    using assms(2) by (simp_all add: capPart_def)
  have l: "length R' = length R" using assms(9) by (metis length_map)
  have s: "rsum rsize R' = rsum rsize R" using assms(9) by (simp add: rsum_def)
  have own: "rsum (ownedBy v rowner g) R' = rsum (ownedBy v rowner g') R"
    if "map g R' = map g' R" for v g g'
  proof -
    have "map (ownedBy v rowner g) R' = map (ownedBy v rowner g') R"
      using that assms(10) l by (auto simp: list_eq_iff_nth_eq ownedBy_def)
    then show ?thesis by (simp add: rsum_def)
  qed
  have "map (\<lambda>_. 1 :: int) R' = map (\<lambda>_. 1) R" using l by (simp add: list_eq_iff_nth_eq)
  then have x: "expectedUsage R' acc v = expectedUsage R acc v" for acc v
    using own assms(9) by (simp add: expectedUsage_def)
  have "\<forall>z \<in> set (map rsize R'). 0 \<le> z" unfolding assms(9) using assms(1) by (simp add: cap_inv_def)
  then have "\<forall>r \<in> set R'. 0 \<le> rsize r" by simp
  moreover have "usageOf q' v = usageOf q v" for v by (rule usageOf_cong [OF c(3)])
  ultimately show ?thesis using assms(1,3-8) c l s x unfolding cap_inv_def by simp
qed

lemma capPart_spool [simp]:
  "capPart (lowerSpoolReserved n q) = capPart q" "capPart (addPhysicalLocked n q) = capPart q"
  "capPart (commitPhysicalLocked n q) = capPart q" "capPart (lowerSpoolBytes n q) = capPart q"
  "capPart (removePhysical n q) = capPart q" "capPart (adjustPhysicalDelta b a q) = capPart q"
  "capPart (releaseHold n c q) = capPart q" "capPart (q\<lparr>spoolReserved := r\<rparr>) = capPart q"
  "capPart (q\<lparr>spoolBytes := r, lastSpoolScan := t\<rparr>) = capPart q"
  by (simp_all add: capPart_def lowerSpoolReserved_def addPhysicalLocked_def commitPhysicalLocked_def lowerSpoolBytes_def
      removePhysical_def adjustPhysicalDelta_def releaseHold_def)

lemma spoolBytes_ops:
  assumes "0 \<le> spoolBytes q" "spoolBytes q \<le> max_int64"
  shows "in64 n \<Longrightarrow> 0 \<le> spoolBytes (addPhysicalLocked n q) \<and> spoolBytes (addPhysicalLocked n q) \<le> max_int64"
    "in64 n \<Longrightarrow> 0 \<le> n \<Longrightarrow> 0 \<le> spoolBytes (lowerSpoolBytes n q) \<and> spoolBytes (lowerSpoolBytes n q) \<le> max_int64"
    "spoolReserved (addPhysicalLocked n q) = spoolReserved q" "spoolReserved (lowerSpoolBytes n q) = spoolReserved q"
    "spoolBytes (lowerSpoolReserved n q) = spoolBytes q"
proof -
  have q: "in64 (spoolBytes q)" by (rule in64I [OF assms])
  show "0 \<le> spoolBytes (addPhysicalLocked n q) \<and> spoolBytes (addPhysicalLocked n q) \<le> max_int64" if "in64 n"
    using assms checkedAddInt64_eq [OF q that] by (auto simp: addPhysicalLocked_def in64_def max_int64_def)
  show "0 \<le> spoolBytes (lowerSpoolBytes n q) \<and> spoolBytes (lowerSpoolBytes n q) \<le> max_int64" if "in64 n" "0 \<le> n"
  proof (cases "n \<ge> spoolBytes q")
    case True
    then show ?thesis by (simp add: lowerSpoolBytes_def max_int64_def)
  next
    case False
    then have "in64 (spoolBytes q - n)" using assms that by (intro in64I) simp_all
    then show ?thesis using False assms that by (simp add: lowerSpoolBytes_def)
  qed
  show "spoolReserved (addPhysicalLocked n q) = spoolReserved q" "spoolReserved (lowerSpoolBytes n q) = spoolReserved q"
    "spoolBytes (lowerSpoolReserved n q) = spoolBytes q"
    by (simp_all add: addPhysicalLocked_def lowerSpoolBytes_def lowerSpoolReserved_def)
qed

lemma lowerSpoolReserved_eq:
  assumes "0 \<le> n" "n \<le> spoolReserved q" "spoolReserved q \<le> max_int64"
  shows "spoolReserved (lowerSpoolReserved n q) = spoolReserved q - n"
  using assms wrap64_id [OF in64I, of "spoolReserved q - n"] by (simp add: lowerSpoolReserved_def)

subsection \<open>Interleavings\<close>

text \<open>What opening a queue leaves in the accounts: every entry found under \<open>ready/\<close> is accounted
  without a reservation and without a look at the limits (\<open>loadReady\<close> in \<open>recovery.go\<close>), so a
  queue that is opened again under lower limits may start above them.\<close>

inductive opened :: "Limits \<Rightarrow> Queue \<Rightarrow> bool" for lim where
  fresh: "limits q = lim \<Longrightarrow> accounted q = [] \<Longrightarrow> quotaUsers q = [] \<Longrightarrow> qcount q = 0 \<Longrightarrow> qbytes q = 0 \<Longrightarrow>
    reserved q = 0 \<Longrightarrow> resBytes q = 0 \<Longrightarrow> spoolReserved q = 0 \<Longrightarrow> 0 \<le> spoolBytes q \<Longrightarrow> spoolBytes q \<le> max_int64 \<Longrightarrow>
    opened lim q"
| load: "opened lim q \<Longrightarrow> 0 \<le> Size e \<Longrightarrow> Size e \<le> max_int64 \<Longrightarrow> opened lim (snd (noteAddedLocked e q))"
| rest: "opened lim q \<Longrightarrow> capPart q' = capPart q \<Longrightarrow> spoolReserved q' = spoolReserved q \<Longrightarrow>
    0 \<le> spoolBytes q' \<Longrightarrow> spoolBytes q' \<le> max_int64 \<Longrightarrow> opened lim q'"

text \<open>The critical sections after that, in any order: \<open>reserve\<close>, moving part of a reservation to the
  spool usage, giving a reservation up, completing it (\<open>AddContext\<close>, \<open>AddDSN\<close> and \<open>ReviveDead\<close> release and
  account in one critical section), publishing a notice that was staged before (\<open>dsn.go\<close>: accounted
  without a reservation, owned by nobody; the sums are assumed to stay within their width), removing an
  entry, holding spool space for an update and letting it go, corrections of the usage, and
  anything that leaves these fields alone.\<close>

inductive cap_run :: "Queue \<Rightarrow> reservation list \<Rightarrow> int list \<Rightarrow> Queue \<Rightarrow> bool" for q0 where
  start: "cap_run q0 [] [] q0"
| reserve: "cap_run q0 R H q \<Longrightarrow> in64 sz \<Longrightarrow> in64 physical \<Longrightarrow> ex \<or> ow \<noteq> '''' \<Longrightarrow>
    reserveLocked fd sz physical ex em ow q = (None, q') \<Longrightarrow>
    cap_run q0 (\<lparr>rsize = sz, rphys = physical, rowner = (if ex then '''' else ow)\<rparr> # R) H q'"
| commit: "cap_run q0 (R1 @ r # R2) H q \<Longrightarrow> 0 \<le> n \<Longrightarrow> n \<le> rphys r \<Longrightarrow>
    cap_run q0 (R1 @ r\<lparr>rphys := rphys r - n\<rparr> # R2) H (commitPhysicalLocked n q)"
| abort: "cap_run q0 R H q \<Longrightarrow> r \<in> set R \<Longrightarrow>
    cap_run q0 (remove1 r R) H (releaseReserveLocked (rsize r) (rphys r) (rowner r) q)"
| complete: "cap_run q0 R H q \<Longrightarrow> r \<in> set R \<Longrightarrow> Size e = rsize r \<Longrightarrow> quotaOwner e = rowner r \<Longrightarrow>
    mget (accounted q) (ID e) = None \<Longrightarrow>
    cap_run q0 (remove1 r R) H (snd (noteAddedLocked e (releaseReserveLocked (rsize r) (rphys r) (rowner r) q)))"
| staged: "cap_run q0 R H q \<Longrightarrow> quotaOwner e = '''' \<Longrightarrow> 0 \<le> Size e \<Longrightarrow> qcount q + reserved q < max_int64 \<Longrightarrow>
    qbytes q + resBytes q + Size e \<le> max_int64 \<Longrightarrow> cap_run q0 R H (snd (noteAddedLocked e q))"
| remove: "cap_run q0 R H q \<Longrightarrow> cap_run q0 R H (noteRemoved i q)"
| hold: "cap_run q0 R H q \<Longrightarrow> in64 n \<Longrightarrow> holdPhysical fd n te q = (None, q') \<Longrightarrow> cap_run q0 R (n # H) q'"
| unhold: "cap_run q0 R (H1 @ n # H2) q \<Longrightarrow> cap_run q0 R (H1 @ H2) (releaseHold n c q)"
| usage: "cap_run q0 R H q \<Longrightarrow> in64 n \<Longrightarrow> cap_run q0 R H (removePhysical n q)"
| adjust: "cap_run q0 R H q \<Longrightarrow> 0 \<le> b \<Longrightarrow> b \<le> max_int64 \<Longrightarrow> 0 \<le> a \<Longrightarrow> a \<le> max_int64 \<Longrightarrow>
    cap_run q0 R H (adjustPhysicalDelta b a q)"
| measure: "cap_run q0 R H q \<Longrightarrow> 0 \<le> n \<Longrightarrow> n \<le> max_int64 \<Longrightarrow>
    cap_run q0 R H (snd (refreshSpoolUsage now (Inr n) q))"
| other: "cap_run q0 R H q \<Longrightarrow> capPart q' = capPart q \<Longrightarrow> spoolReserved q' = spoolReserved q \<Longrightarrow>
    spoolBytes q' = spoolBytes q \<Longrightarrow> cap_run q0 R H q'"

definition cap_reach :: "Limits \<Rightarrow> reservation list \<Rightarrow> int list \<Rightarrow> Queue \<Rightarrow> bool" where
  "cap_reach lim R H q \<longleftrightarrow> (\<exists>q0. opened lim q0 \<and> cap_run q0 R H q)"

lemma cap_reach_start: "opened lim q \<Longrightarrow> cap_reach lim [] [] q"
  unfolding cap_reach_def using cap_run.start by blast

lemma cap_reach_step:
  assumes "cap_reach lim R H q" "\<And>q0. cap_run q0 R H q \<Longrightarrow> cap_run q0 R' H' q'"
  shows "cap_reach lim R' H' q'"
  using assms unfolding cap_reach_def by blast

lemma cap_reach_steps:
  assumes "cap_reach lim R H q"
  shows "in64 sz \<Longrightarrow> in64 physical \<Longrightarrow> ex \<or> ow \<noteq> '''' \<Longrightarrow> reserveLocked fd sz physical ex em ow q = (None, q') \<Longrightarrow>
      cap_reach lim (\<lparr>rsize = sz, rphys = physical, rowner = (if ex then '''' else ow)\<rparr> # R) H q'"
    and "R = R1 @ r # R2 \<Longrightarrow> 0 \<le> n \<Longrightarrow> n \<le> rphys r \<Longrightarrow> cap_reach lim (R1 @ r\<lparr>rphys := rphys r - n\<rparr> # R2) H (commitPhysicalLocked n q)"
    and "r \<in> set R \<Longrightarrow> cap_reach lim (remove1 r R) H (releaseReserveLocked (rsize r) (rphys r) (rowner r) q)"
    and "r \<in> set R \<Longrightarrow> Size e = rsize r \<Longrightarrow> quotaOwner e = rowner r \<Longrightarrow> mget (accounted q) (ID e) = None \<Longrightarrow>
      cap_reach lim (remove1 r R) H (snd (noteAddedLocked e (releaseReserveLocked (rsize r) (rphys r) (rowner r) q)))"
    and "0 \<le> n \<Longrightarrow> n \<le> max_int64 \<Longrightarrow> cap_reach lim R H (snd (refreshSpoolUsage now (Inr n) q))"
    and "capPart q' = capPart q \<Longrightarrow> spoolReserved q' = spoolReserved q \<Longrightarrow> spoolBytes q' = spoolBytes q \<Longrightarrow> cap_reach lim R H q'"
  using assms by (blast intro: cap_reach_step cap_run.intros)+

lemmas cap_reach_reserve = cap_reach_steps(1) and cap_reach_commit = cap_reach_steps(2) [OF _ refl]
  and cap_reach_abort = cap_reach_steps(3) and cap_reach_complete = cap_reach_steps(4)
  and cap_reach_measure = cap_reach_steps(5) and cap_reach_other = cap_reach_steps(6)

text \<open>An owner is within its quota, or not above what the opened queue held of it.\<close>

definition withinUserQuota :: "Queue \<Rightarrow> Queue \<Rightarrow> string \<Rightarrow> bool" where
  "withinUserQuota q0 q ow \<longleftrightarrow>
     (MaxMessagesPerUser (limits q) > 0 \<longrightarrow>
        umessages (usageOf q ow) + ureserved (usageOf q ow) \<le> max (MaxMessagesPerUser (limits q)) (umessages (usageOf q0 ow))) \<and>
     (MaxBytesPerUser (limits q) > 0 \<longrightarrow>
        ubytes (usageOf q ow) + uresBytes (usageOf q ow) \<le> max (MaxBytesPerUser (limits q)) (ubytes (usageOf q0 ow)))"

lemma withinUserQuota_capPart: "capPart q' = capPart q \<Longrightarrow> withinUserQuota q0 q' ow = withinUserQuota q0 q ow"
  by (simp add: withinUserQuota_def capPart_def usageOf_def)

lemma reserve_keeps_user_quota:
  assumes inv: "cap_inv R H q" and i: "in64 sz" "in64 physical" and ow: "ex \<or> ow \<noteq> ''''"
    and e: "reserveLocked fd sz physical ex em ow q = (None, q')" and w: "w \<noteq> ''''" "withinUserQuota q0 q w"
  shows "withinUserQuota q0 q' w"
proof -
  note C = cap_inv_reserve [OF inv i ow e] and L = reserveLocked_ok [OF inv i ow e]
  show ?thesis
  proof (cases "\<not> ex \<and> w = ow")
    case True
    then have "\<not> quotaExceeded q (qcount q + reserved q) (qbytes q + resBytes q + sz) sz ow" using L(5) by simp
    then have "(MaxMessagesPerUser (limits q) > 0 \<longrightarrow> umessages (usageOf q ow) + ureserved (usageOf q ow) < MaxMessagesPerUser (limits q)) \<and>
      (MaxBytesPerUser (limits q) > 0 \<longrightarrow> ubytes (usageOf q ow) + uresBytes (usageOf q ow) + sz \<le> MaxBytesPerUser (limits q))"
      using quotaExceeded_iff [OF inv _ i(1) L(1,4), of ow] w True by blast
    then show ?thesis using True w C(2) C(6) [OF w(1)] by (auto simp: withinUserQuota_def le_max_iff_disj)
  next
    case False
    then show ?thesis using w C(2) C(6) [OF w(1)] by (auto simp: withinUserQuota_def)
  qed
qed

lemma complete_room:
  assumes inv: "cap_inv R H q" and r: "r \<in> set R"
  defines "q' \<equiv> releaseReserveLocked (rsize r) (rphys r) (rowner r) q"
  shows "qcount q' + reserved q' < max_int64" "qbytes q' + resBytes q' + rsize r \<le> max_int64"
  using cap_inv_release [OF inv r] inv unfolding q'_def by (auto simp: cap_inv_def)

lemma cap_inv_commit:
  assumes inv: "cap_inv (R1 @ r # R2) H q" and n: "0 \<le> n" "n \<le> rphys r"
  shows "cap_inv (R1 @ r\<lparr>rphys := rphys r - n\<rparr> # R2) H (commitPhysicalLocked n q)"
proof -
  note D = cap_invD [OF inv]
  have rp: "\<forall>x \<in> set (R1 @ r # R2). 0 \<le> rphys x" and sp: "0 \<le> spoolBytes q" "spoolBytes q \<le> max_int64"
    and sr: "spoolReserved q = rsum rphys (R1 @ r # R2) + sum_list H" "spoolReserved q \<le> max_int64" and h: "\<forall>h \<in> set H. 0 \<le> h"
    using inv by (simp_all add: cap_inv_def)
  have "rphys r \<le> rsum rphys (R1 @ r # R2)" using rsum_member [of "R1 @ r # R2" rphys r] rp by simp
  moreover have "0 \<le> sum_list H" using h by (simp add: sum_list_nonneg)
  ultimately have le: "n \<le> spoolReserved q" using n sr by simp
  note l = lowerSpoolReserved_eq [OF n(1) le sr(2)]
  have n64: "in64 n" using n le sr by (intro in64I) simp_all
  note S = spoolBytes_ops [of "lowerSpoolReserved n q", unfolded spoolBytes_ops(5) [OF sp]]
  show ?thesis
  proof (rule cap_inv_spool [OF inv])
    show "spoolReserved (commitPhysicalLocked n q) = rsum rphys (R1 @ r\<lparr>rphys := rphys r - n\<rparr> # R2) + sum_list H"
      using sr l by (simp add: commitPhysicalLocked_def S(3) [OF sp] rsum_def)
    show "spoolReserved (commitPhysicalLocked n q) \<le> max_int64"
      using sr(2) l n by (simp add: commitPhysicalLocked_def S(3) [OF sp])
    show "0 \<le> spoolBytes (commitPhysicalLocked n q)" "spoolBytes (commitPhysicalLocked n q) \<le> max_int64"
      using S(1) [OF sp n64] by (simp_all add: commitPhysicalLocked_def)
  qed (use rp n h in auto)
qed

lemma cap_inv_hold:
  assumes inv: "cap_inv R H q" and e: "in64 n" "holdPhysical fd n te q = (None, q')"
  shows "cap_inv R (n # H) q'" "capPart q' = capPart q"
proof -
  note P = reservePhysicalLocked_ok [OF inv e(1) e(2) [unfolded holdPhysical_def]]
  have "cap_inv R (n # H) (q\<lparr>spoolReserved := spoolReserved q + n\<rparr>)"
    by (rule cap_inv_spool [OF inv]) (use inv P(1,3) in \<open>auto simp: cap_inv_def\<close>)
  with P(2) show "cap_inv R (n # H) q'" "capPart q' = capPart q" by simp_all
qed

lemma cap_inv_unhold:
  assumes inv: "cap_inv R (H1 @ n # H2) q"
  shows "cap_inv R (H1 @ H2) (releaseHold n c q)"
proof -
  have h: "\<forall>h \<in> set (H1 @ n # H2). 0 \<le> h" and sp: "0 \<le> spoolBytes q" "spoolBytes q \<le> max_int64"
    and sr: "spoolReserved q = rsum rphys R + sum_list (H1 @ n # H2)" "spoolReserved q \<le> max_int64" and rp: "\<forall>x \<in> set R. 0 \<le> rphys x"
    using inv by (simp_all add: cap_inv_def)
  have "0 \<le> rsum rphys R" "0 \<le> sum_list H1" "0 \<le> sum_list H2"
    using rp h by (auto intro!: rsum_nonneg sum_list_nonneg)
  then have le: "0 \<le> n" "n \<le> spoolReserved q" using h sr by simp_all
  note l = lowerSpoolReserved_eq [OF le sr(2)]
  have n64: "in64 n" using le sr by (intro in64I) simp_all
  note S = spoolBytes_ops [of "lowerSpoolReserved n q", unfolded spoolBytes_ops(5) [OF sp]]
  have r: "spoolReserved (releaseHold n c q) = spoolReserved q - n"
    using l by (simp add: releaseHold_def commitPhysicalLocked_def S(3) [OF sp])
  show ?thesis
  proof (rule cap_inv_spool [OF inv])
    show "spoolReserved (releaseHold n c q) = rsum rphys R + sum_list (H1 @ H2)" "spoolReserved (releaseHold n c q) \<le> max_int64"
      using sr r le by simp_all
    show "0 \<le> spoolBytes (releaseHold n c q)" "spoolBytes (releaseHold n c q) \<le> max_int64"
      using S(1) [OF sp n64] sp spoolBytes_ops(5) [OF sp] by (simp_all add: releaseHold_def commitPhysicalLocked_def)
  qed (use rp h in auto)
qed

lemma cap_inv_bytes:
  assumes inv: "cap_inv R H q" and "capPart q' = capPart q" "spoolReserved q' = spoolReserved q"
    "0 \<le> spoolBytes q'" "spoolBytes q' \<le> max_int64"
  shows "cap_inv R H q'"
  by (rule cap_inv_spool [OF inv]) (use assms in \<open>auto simp: cap_inv_def\<close>)

lemma cap_inv_usage:
  assumes inv: "cap_inv R H q"
  shows "in64 n \<Longrightarrow> cap_inv R H (removePhysical n q)"
    "0 \<le> b \<Longrightarrow> b \<le> max_int64 \<Longrightarrow> 0 \<le> a \<Longrightarrow> a \<le> max_int64 \<Longrightarrow> cap_inv R H (adjustPhysicalDelta b a q)"
proof -
  have sp: "0 \<le> spoolBytes q" "spoolBytes q \<le> max_int64" using inv by (simp_all add: cap_inv_def)
  note S = spoolBytes_ops [OF sp]
  show "cap_inv R H (removePhysical n q)" if "in64 n"
    using that S sp by (intro cap_inv_bytes [OF inv]) (auto simp: removePhysical_def)
  show "cap_inv R H (adjustPhysicalDelta b a q)" if ab: "0 \<le> b" "b \<le> max_int64" "0 \<le> a" "a \<le> max_int64"
  proof -
    have "a \<ge> b \<Longrightarrow> wrap64 (a - b) = a - b \<and> in64 (a - b)" "\<not> a \<ge> b \<Longrightarrow> wrap64 (b - a) = b - a \<and> in64 (b - a)"
      using ab in64I [of "a - b"] in64I [of "b - a"] by auto
    then show ?thesis using ab S by (intro cap_inv_bytes [OF inv]) (auto simp: adjustPhysicalDelta_def)
  qed
qed

text \<open>Loading an entry keeps the accounts, or refuses it.\<close>

lemma noteAddedLocked_known: "mget (accounted q) (ID e) \<noteq> None \<Longrightarrow> snd (noteAddedLocked e q) = q"
  by (simp add: noteAddedLocked_def)

lemma cap_inv_load:
  assumes inv: "cap_inv [] H q" and s: "0 \<le> Size e" "Size e \<le> max_int64"
  shows "cap_inv [] H (snd (noteAddedLocked e q)) \<and> limits (snd (noteAddedLocked e q)) = limits q"
proof (cases "mget (accounted q) (ID e) = None \<and> qcount q < max_int64 \<and> qbytes q + Size e \<le> max_int64")
  case True
  have "reserved q = 0" "resBytes q = 0" using inv by (simp_all add: cap_inv_def)
  then show ?thesis using noteAddedLocked_new [OF inv _ s(1)] True by auto
next
  case False
  note D = cap_invD [OF inv]
  have "checkedAddInt64 (qbytes q) (Size e) = (if in64 (qbytes q + Size e) then Some (qbytes q + Size e) else None)"
    by (rule checkedAddInt64_eq [OF D(7) in64I [OF s]])
  moreover have "in64 (qbytes q + Size e) \<longleftrightarrow> qbytes q + Size e \<le> max_int64" using D s by (simp add: in64_def min_int64_def)
  moreover have "qcount q \<le> max_int64" using D by (simp add: in64_def)
  ultimately have "snd (noteAddedLocked e q) = q" using False by (auto simp: noteAddedLocked_def)
  then show ?thesis using inv by simp
qed

lemma opened_inv: "opened lim q \<Longrightarrow> cap_inv [] [] q \<and> limits q = lim"
proof (induction rule: opened.induct)
  case (fresh q)
  then show ?case by (auto simp: cap_inv_def expectedUsage_def usageOf_def noUsage_def max_int64_def)
next
  case (load q e)
  then show ?case using cap_inv_load [of "[]" q e] by simp
next
  case (rest q q')
  have "limits q' = limits q" using rest.hyps(2) by (simp add: capPart_def)
  moreover have "cap_inv [] [] q'" by (rule cap_inv_bytes [of "[]" "[]" q]) (use rest in simp_all)
  ultimately show ?case using rest by simp
qed

lemma cap_run_inv:
  assumes inv0: "cap_inv [] [] q0"
  shows "cap_run q0 R H q \<Longrightarrow> cap_inv R H q \<and> limits q = limits q0 \<and> (\<forall>w. w \<noteq> '''' \<longrightarrow> withinUserQuota q0 q w)"
proof (induction rule: cap_run.induct)
  case start
  have "usageOf q0 w = expectedUsage [] (accounted q0) w" if "w \<noteq> ''''" for w using inv0 that by (simp add: cap_inv_def)
  then show ?case using inv0 by (auto simp: withinUserQuota_def expectedUsage_def)
next
  case (reserve R H q sz physical ex ow fd em q')
  then have inv: "cap_inv R H q" by simp
  note C = cap_inv_reserve [OF inv reserve.hyps(2,3,4,5)]
  show ?case using C(1,2) reserve.IH reserve_keeps_user_quota [OF inv reserve.hyps(2,3,4,5)] by simp
next
  case (commit R1 r R2 H q n)
  have "capPart (commitPhysicalLocked n q) = capPart q" by simp
  moreover from this have "limits (commitPhysicalLocked n q) = limits q" by (simp add: capPart_def)
  ultimately show ?case
    using cap_inv_commit [OF _ commit.hyps(2,3)] commit.IH withinUserQuota_capPart by metis
next
  case (abort R H q r)
  then have inv: "cap_inv R H q" by simp
  note C = cap_inv_release [OF inv abort.hyps(2)]
  have "withinUserQuota q0 (releaseReserveLocked (rsize r) (rphys r) (rowner r) q) w" if w: "w \<noteq> ''''" for w
  proof -
    let ?q' = "releaseReserveLocked (rsize r) (rphys r) (rowner r) q"
    have "usageOf ?q' w = expectedUsage (remove1 r R) (accounted q) w" "usageOf q w = expectedUsage R (accounted q) w"
      using C(1,3) inv w by (simp_all add: cap_inv_def)
    moreover have "0 \<le> rsize r" using inv abort.hyps(2) by (simp add: cap_inv_def)
    ultimately show ?thesis using abort.IH w C(2) expectedUsage_remove1 [OF abort.hyps(2)]
      by (auto simp: withinUserQuota_def split: if_splits)
  qed
  then show ?case using C(1,2) abort.IH by simp
next
  case (complete R H q r e)
  let ?q1 = "releaseReserveLocked (rsize r) (rphys r) (rowner r) q"
  have inv: "cap_inv R H q" using complete by simp
  note C = cap_inv_release [OF inv complete.hyps(2)] and room = complete_room [OF inv complete.hyps(2)]
  have s: "0 \<le> Size e" using inv complete.hyps(2,3) by (simp add: cap_inv_def)
  note N = noteAddedLocked_new [OF C(1) _ s, unfolded complete.hyps(3), OF _ room]
  have n: "mget (accounted ?q1) (ID e) = None" using C(3) complete.hyps(5) by simp
  have "withinUserQuota q0 (snd (noteAddedLocked e ?q1)) w" if w: "w \<noteq> ''''" for w
  proof -
    have "usageOf ?q1 w = expectedUsage (remove1 r R) (accounted q) w" "usageOf q w = expectedUsage R (accounted q) w"
      using C(1,3) inv w by (simp_all add: cap_inv_def)
    then show ?thesis
      using complete.IH w C(2) N(3) [OF n] N(5) [OF n w] complete.hyps(4) expectedUsage_remove1 [OF complete.hyps(2)]
      by (auto simp: withinUserQuota_def split: if_splits)
  qed
  then show ?case using N(2,3) [OF n] C(2) complete.IH by simp
next
  case (staged R H q e)
  show ?case
  proof (cases "mget (accounted q) (ID e) = None")
    case True
    have inv: "cap_inv R H q" using staged by simp
    note N = noteAddedLocked_new [OF inv True staged.hyps(3,4,5)]
    have "withinUserQuota q0 (snd (noteAddedLocked e q)) w" if w: "w \<noteq> ''''" for w
      using staged w N(3) N(5) [OF w] by (auto simp: withinUserQuota_def)
    then show ?thesis using N(2,3) staged by simp
  next
    case False
    then show ?thesis using staged noteAddedLocked_known by simp
  qed
next
  case (remove R H q i)
  then have inv: "cap_inv R H q" by simp
  note C = cap_inv_noteRemoved [where i = i, OF inv]
  have "withinUserQuota q0 (noteRemoved i q) w" if w: "w \<noteq> ''''" for w
    using remove.IH w C(2) C(4) [OF w] by (fastforce simp: withinUserQuota_def)
  then show ?case using C(1,2) remove.IH by simp
next
  case (hold R H q n fd te q')
  then have inv: "cap_inv R H q" by simp
  note C = cap_inv_hold [OF inv hold.hyps(2,3)]
  then have "limits q' = limits q" by (simp add: capPart_def)
  then show ?case using C hold.IH withinUserQuota_capPart by metis
next
  case (unhold R H1 n H2 q c)
  have c: "capPart (releaseHold n c q) = capPart q" by simp
  then have "limits (releaseHold n c q) = limits q" by (simp add: capPart_def)
  then show ?case using cap_inv_unhold unhold.IH withinUserQuota_capPart [OF c] by metis
next
  case (usage R H q n)
  have c: "capPart (removePhysical n q) = capPart q" by simp
  then have "limits (removePhysical n q) = limits q" by (simp add: capPart_def)
  then show ?case using cap_inv_usage(1) usage withinUserQuota_capPart [OF c] by metis
next
  case (adjust R H q b a)
  have c: "capPart (adjustPhysicalDelta b a q) = capPart q" by simp
  then have "limits (adjustPhysicalDelta b a q) = limits q" by (simp add: capPart_def)
  then show ?case using cap_inv_usage(2) adjust withinUserQuota_capPart [OF c] by metis
next
  case (measure R H q n now)
  have c: "capPart (q\<lparr>spoolBytes := n, lastSpoolScan := now\<rparr>) = capPart q" by simp
  then have "limits (q\<lparr>spoolBytes := n, lastSpoolScan := now\<rparr>) = limits q" by (simp add: capPart_def)
  moreover have "cap_inv R H (q\<lparr>spoolBytes := n, lastSpoolScan := now\<rparr>)"
    by (rule cap_inv_bytes [of R H q]) (use measure in simp_all)
  ultimately show ?case using measure withinUserQuota_capPart [OF c] by (simp add: refreshSpoolUsage_def)
next
  case (other R H q q')
  have "limits q' = limits q" using other.hyps(2) by (simp add: capPart_def)
  moreover have "cap_inv R H q'"
    by (rule cap_inv_bytes [of R H q]) (use other in \<open>auto simp: cap_inv_def\<close>)
  ultimately show ?case using other withinUserQuota_capPart [OF other.hyps(2)] by simp
qed

lemma cap_reach_inv: "cap_reach lim R H q \<Longrightarrow> cap_inv R H q \<and> limits q = lim"
  unfolding cap_reach_def using cap_run_inv opened_inv by metis

subsection \<open>Properties\<close>

text \<open>C11: In every interleaving of reservations, completions, removals and spool corrections the
  counters are exact and none has wrapped around: messages and bytes are those of the accounted
  entries, reservations those outstanding, and each owner's usage is what it has stored and in
  flight.\<close>

theorem quota_accounting_exact:
  assumes "cap_reach lim R H q"
  shows "qcount q = int (length (accounted q)) \<and> qbytes q = msum entrySize (accounted q) \<and>
    reserved q = int (length R) \<and> resBytes q = rsum rsize R \<and>
    spoolReserved q = rsum rphys R + sum_list H \<and>
    in64 (qcount q + reserved q) \<and> in64 (qbytes q + resBytes q) \<and> in64 (spoolReserved q) \<and>
    (\<forall>ow. ow \<noteq> '''' \<longrightarrow> usageOf q ow = expectedUsage R (accounted q) ow)"
proof -
  have inv: "cap_inv R H q" using cap_reach_inv [OF assms] by simp
  have "in64 (qcount q + reserved q)" "in64 (qbytes q + resBytes q)"
    using inv cap_invD [OF inv] by (auto simp: cap_inv_def intro!: in64I)
  then show ?thesis using inv cap_invD(10) [OF inv] by (simp add: cap_inv_def)
qed


lemma reserveLocked_refused:
  assumes "reserveLocked fd sz physical ex em ow q = (Some err, q')"
  shows "q' = q"
proof -
  obtain r1 q1 where rp: "reservePhysicalLocked fd physical em False q = (r1, q1)" by fastforce
  have "r1 = Some x \<Longrightarrow> q1 = q" for x
    using rp by (auto simp: reservePhysicalLocked_def Let_def split: if_splits option.splits)
  then show ?thesis using assms by (auto simp: reserveLocked_def rp split: if_splits option.splits)
qed

lemma reserveLocked_accounted: "reserveLocked fd sz physical ex em ow q = (r, q') \<Longrightarrow> accounted q' = accounted q"
  by (auto simp: reserveLocked_def reservePhysicalLocked_def chargeReservation_def setUsage_def Let_def
      split: if_splits option.splits prod.splits)

text \<open>Limits as the queue is opened with: accepted by the checks, and of type \<open>int64\<close>.\<close>

definition usableLimits :: "Limits \<Rightarrow> bool" where
  "usableLimits lim \<longleftrightarrow> validLimits lim = None \<and> MaxSpoolBytes lim \<le> max_int64 \<and> SpoolEmergencyBytes lim \<le> max_int64 \<and>
     MinFreeDisk lim \<le> max_int64"

lemma terminalSpoolReserve_eq: "terminalSpoolReserve = 4325376"
  by code_simp

lemma physicalLimit_eq:
  assumes "usableLimits lim" "0 < MaxSpoolBytes lim"
  shows "physicalLimit lim em False = MaxSpoolBytes lim - (if em then 4325376 else SpoolEmergencyBytes lim)"
proof -
  have em: "16777216 \<le> SpoolEmergencyBytes lim" "SpoolEmergencyBytes lim < MaxSpoolBytes lim" "MaxSpoolBytes lim \<le> max_int64"
    using assms by (auto simp: usableLimits_def validLimits_def MinimumSpoolEmergencyBytes_def split: if_splits)
  then have "in64 (MaxSpoolBytes lim - SpoolEmergencyBytes lim)" "in64 (MaxSpoolBytes lim - 4325376)" by (auto intro!: in64I)
  then show ?thesis by (simp add: physicalLimit_def terminalSpoolReserve_eq)
qed

text \<open>What the free-space check lets through, in numbers.\<close>

lemma checkFree_iff:
  assumes "usableLimits lim" "0 < MinFreeDisk lim" "0 \<le> r" "free \<le> max_int64"
  shows "checkFree (Some (Inr free)) lim em False r = None \<longleftrightarrow>
    MinFreeDisk lim + (if em then 4325376 else SpoolEmergencyBytes lim) + r \<le> free"
proof -
  define k where "k = (if em then 4325376 else SpoolEmergencyBytes lim)"
  have k: "0 \<le> k" "in64 k" "in64 (MinFreeDisk lim)"
    using assms(1,2) by (auto simp: k_def usableLimits_def validLimits_def int64_defs split: if_splits)
  have f: "freeFloor lim em False = (if in64 (MinFreeDisk lim + k) then Some (MinFreeDisk lim + k) else None)"
    using checkedAddInt64_eq [OF k(3,2)] by (auto simp: freeFloor_def k_def terminalSpoolReserve_eq)
  have i: "in64 (MinFreeDisk lim + k) \<longleftrightarrow> MinFreeDisk lim + k \<le> max_int64" using k assms(2) by (simp add: in64_def min_int64_def)
  have w: "MinFreeDisk lim + k \<le> free \<Longrightarrow> wrap64 (free - (MinFreeDisk lim + k)) = free - (MinFreeDisk lim + k)"
    using assms(2,4) k by (intro wrap64_id in64I) simp_all
  show ?thesis
    using assms(2-4) f i w unfolding k_def [symmetric] by (auto simp: checkFree_def split: if_splits)
qed


text \<open>C14: Accounting an accepted message cannot fail. While a reservation is held, releasing it and
  accounting its message in one step succeeds, records the entry, and leaves the totals of
  stored and reserved messages and bytes as they were.\<close>

theorem quota_commit_total:
  assumes "cap_reach lim R H q" "r \<in> set R" "Size e = rsize r" "quotaOwner e = rowner r" "mget (accounted q) (ID e) = None"
  shows "case noteAddedLocked e (releaseReserveLocked (rsize r) (rphys r) (rowner r) q) of (ok, q') \<Rightarrow>
    ok \<and> mget (accounted q') (ID e) = Some (accountEntry e) \<and>
    qcount q' + reserved q' = qcount q + reserved q \<and> qbytes q' + resBytes q' = qbytes q + resBytes q"
proof -
  let ?q1 = "releaseReserveLocked (rsize r) (rphys r) (rowner r) q"
  have inv: "cap_inv R H q" using cap_reach_inv [OF assms(1)] by simp
  note C = cap_inv_release [OF inv assms(2)] and room = complete_room [OF inv assms(2)]
  have s: "0 \<le> Size e" using inv assms(2,3) by (simp add: cap_inv_def)
  have n: "mget (accounted ?q1) (ID e) = None" using C(3) assms(5) by simp
  note N = noteAddedLocked_new [OF C(1) n s, unfolded assms(3), OF room]
  have d: "distinct (mkeys (accounted q))" using inv by (simp add: cap_inv_def)
  have "int (length (accounted (snd (noteAddedLocked e ?q1)))) = int (length (accounted q)) + 1"
    using N(4) C(3) assms(5) by (simp add: length_mput_new)
  moreover have "msum entrySize (accounted (snd (noteAddedLocked e ?q1))) = msum entrySize (accounted q) + rsize r"
    using N(4) C(3) assms(3,5) msum_mput [OF d] by (simp add: accountEntry_def)
  ultimately have t: "qcount (snd (noteAddedLocked e ?q1)) = qcount q + 1" "qbytes (snd (noteAddedLocked e ?q1)) = qbytes q + rsize r"
    using N(2) inv by (auto simp: cap_inv_def)
  have r: "reserved (snd (noteAddedLocked e ?q1)) = reserved q - 1" "resBytes (snd (noteAddedLocked e ?q1)) = resBytes q - rsize r"
    using N(2) inv assms(2) by (auto simp: cap_inv_def length_rsum_remove1 rsum_remove1)
  show ?thesis using N(1,4) t r by (auto simp: map_simps split: prod.splits)
qed

text \<open>Ordinary traffic: submissions that are reserved, written, accepted or given up, deliveries that remove
  entries, and measurements that find no more than was estimated. It starts with a queue whose
  estimate is within the ordinary limit.\<close>

inductive traffic :: "Limits \<Rightarrow> reservation list \<Rightarrow> Queue \<Rightarrow> bool" for lim where
  fresh: "opened lim q \<Longrightarrow> spoolReserved q = 0 \<Longrightarrow> spoolBytes q + SpoolEmergencyBytes lim \<le> MaxSpoolBytes lim \<Longrightarrow> traffic lim [] q"
| submit: "traffic lim R q \<Longrightarrow> in64 sz \<Longrightarrow> in64 physical \<Longrightarrow> ow \<noteq> '''' \<Longrightarrow>
    reserveLocked fd sz physical False False ow q = (None, q') \<Longrightarrow> traffic lim (\<lparr>rsize = sz, rphys = physical, rowner = ow\<rparr> # R) q'"
| store: "traffic lim (R1 @ r # R2) q \<Longrightarrow> 0 \<le> n \<Longrightarrow> n \<le> rphys r \<Longrightarrow>
    traffic lim (R1 @ r\<lparr>rphys := rphys r - n\<rparr> # R2) (commitPhysicalLocked n q)"
| giveUp: "traffic lim R q \<Longrightarrow> r \<in> set R \<Longrightarrow> traffic lim (remove1 r R) (releaseReserveLocked (rsize r) (rphys r) (rowner r) q)"
| accept: "traffic lim R q \<Longrightarrow> r \<in> set R \<Longrightarrow> Size e = rsize r \<Longrightarrow> quotaOwner e = rowner r \<Longrightarrow>
    mget (accounted q) (ID e) = None \<Longrightarrow>
    traffic lim (remove1 r R) (snd (noteAddedLocked e (releaseReserveLocked (rsize r) (rphys r) (rowner r) q)))"
| deliver: "traffic lim R q \<Longrightarrow> traffic lim R (noteRemoved i q)"
| delete: "traffic lim R q \<Longrightarrow> in64 n \<Longrightarrow> traffic lim R (removePhysical n q)"
| scan: "traffic lim R q \<Longrightarrow> 0 \<le> n \<Longrightarrow> n \<le> spoolBytes q \<Longrightarrow> traffic lim R (snd (refreshSpoolUsage now (Inr n) q))"
| rest: "traffic lim R q \<Longrightarrow> capPart q' = capPart q \<Longrightarrow> spoolReserved q' = spoolReserved q \<Longrightarrow>
    spoolBytes q' = spoolBytes q \<Longrightarrow> traffic lim R q'"

lemma traffic_reach: "traffic lim R q \<Longrightarrow> cap_reach lim R [] q"
proof (induction rule: traffic.induct)
  case (submit R q sz physical ow fd q')
  have "cap_reach lim (\<lparr>rsize = sz, rphys = physical, rowner = (if False then '''' else ow)\<rparr> # R) [] q'"
    by (rule cap_reach_step [OF submit.IH]) (use submit.hyps in \<open>blast intro: cap_run.reserve\<close>)
  then show ?case by simp
next
  case (scan R q n now)
  have "n \<le> max_int64" using cap_reach_inv [OF scan.IH] scan.hyps by (simp add: cap_inv_def)
  then show ?case using scan by (blast intro: cap_reach_step cap_run.measure)
qed (blast intro: cap_reach_start cap_reach_step cap_run.intros)+

text \<open>What the steps other than admission do to the two parts of the estimate.\<close>

lemma spool_fields [simp]:
  "spoolBytes (releaseReserveLocked n p ow q) = spoolBytes q" "spoolBytes (snd (noteAddedLocked e q)) = spoolBytes q"
  "spoolReserved (snd (noteAddedLocked e q)) = spoolReserved q" "spoolBytes (noteRemoved i q) = spoolBytes q"
  "spoolReserved (noteRemoved i q) = spoolReserved q" "spoolReserved (removePhysical n q) = spoolReserved q"
  by (simp_all add: releaseReserveLocked_def lowerSpoolReserved_def noteAddedLocked_def noteRemoved_def removePhysical_def
      lowerSpoolBytes_def Let_def setUsage_def split: option.splits)

lemma release_lowers:
  assumes "cap_inv R H q" "r \<in> set R"
  shows "spoolReserved (releaseReserveLocked (rsize r) (rphys r) (rowner r) q) \<le> spoolReserved q"
proof -
  have "rsum rphys (remove1 r R) \<le> rsum rphys R" "0 \<le> rphys r" using assms by (simp_all add: rsum_remove1 cap_inv_def)
  then show ?thesis using cap_inv_release(1) [OF assms] assms(1) by (simp add: cap_inv_def)
qed

lemma commit_moves:
  assumes "cap_inv (R1 @ r # R2) H q" "0 \<le> n" "n \<le> rphys r"
  shows "spoolBytes (commitPhysicalLocked n q) + spoolReserved (commitPhysicalLocked n q) \<le> spoolBytes q + spoolReserved q"
proof -
  have c: "spoolReserved (commitPhysicalLocked n q) = spoolReserved q - n"
    using cap_inv_commit [OF assms] assms(1) by (simp add: cap_inv_def rsum_def)
  have b: "in64 (spoolBytes q)" "in64 n"
    using cap_invD [OF assms(1)] cap_invD(5) [OF cap_inv_commit [OF assms]] assms(2) c by (auto simp: in64_def min_int64_def)
  have "spoolBytes (commitPhysicalLocked n q) = spoolBytes (addPhysicalLocked n q)"
    by (simp add: commitPhysicalLocked_def addPhysicalLocked_def lowerSpoolReserved_def)
  also have "\<dots> \<le> spoolBytes q + n"
    using assms(2) checkedAddInt64_eq [OF b] b by (auto simp: addPhysicalLocked_def in64_def min_int64_def)
  finally show ?thesis using c by simp
qed

lemma traffic_spares_reserve:
  assumes lim: "usableLimits lim" "0 < MaxSpoolBytes lim"
  shows "traffic lim R q \<Longrightarrow> spoolBytes q + spoolReserved q + SpoolEmergencyBytes lim \<le> MaxSpoolBytes lim"
proof (induction rule: traffic.induct)
  case (submit R q sz physical ow fd q')
  note r = cap_reach_inv [OF traffic_reach [OF submit.hyps(1)]]
  have ow: "False \<or> ow \<noteq> ''''" using submit.hyps(4) by simp
  note L = reserveLocked_ok [OF conjunct1 [OF r] submit.hyps(2,3) ow submit.hyps(5)]
    and C = cap_inv_reserve [OF conjunct1 [OF r] submit.hyps(2,3) ow submit.hyps(5)]
  have "spoolBytes q' + spoolReserved q' \<le> physicalLimit lim False False"
    using reservePhysicalLocked_ok(4) [OF conjunct1 [OF r] submit.hyps(3) L(6)] r lim(2) C(3,4) by simp
  then show ?case using physicalLimit_eq [OF lim] by simp
next
  case (store R1 r R2 q n)
  then show ?case using commit_moves cap_reach_inv [OF traffic_reach] by fastforce
next
  case (giveUp R q r)
  then show ?case using release_lowers cap_reach_inv [OF traffic_reach] by fastforce
next
  case (accept R q r e)
  then show ?case using release_lowers cap_reach_inv [OF traffic_reach] by fastforce
next
  case (delete R q n)
  have "0 \<le> spoolBytes q" "spoolBytes q \<le> max_int64" using cap_reach_inv [OF traffic_reach [OF delete.hyps(1)]] by (simp_all add: cap_inv_def)
  then have "spoolBytes (removePhysical n q) \<le> spoolBytes q"
    using in64I [of "spoolBytes q - n"] by (auto simp: removePhysical_def lowerSpoolBytes_def)
  then show ?case using delete.IH by simp
qed (auto simp: refreshSpoolUsage_def)


lemma AllocationSize_bounds:
  assumes "n \<le> max_int64 - 65535"
  shows "n \<le> AllocationSize n" "AllocationSize n \<le> max 65536 (n + 65535)" "AllocationSize n mod 65536 = 0" "0 < AllocationSize n"
proof -
  have "n \<le> AllocationSize n \<and> AllocationSize n \<le> max 65536 (n + 65535) \<and> AllocationSize n mod 65536 = 0 \<and> 0 < AllocationSize n"
  proof (cases "n \<le> 0")
    case False
    have "(n + 65535) div 65536 * 65536 + (n + 65535) mod 65536 = n + 65535" by (rule div_mult_mod_eq)
    moreover have "0 \<le> (n + 65535) mod 65536" "(n + 65535) mod 65536 < 65536" by simp_all
    ultimately have "n \<le> (n + 65535) div 65536 * 65536" "(n + 65535) div 65536 * 65536 \<le> n + 65535" by linarith+
    moreover from this have "in64 ((n + 65535) div 65536 * 65536)" using False assms by (intro in64I) simp_all
    moreover from this have "AllocationSize n = (n + 65535) div 65536 * 65536"
      using False assms by (simp add: AllocationSize_def allocationUnit_def add.commute)
    ultimately show ?thesis using False by (simp add: max_def)
  qed (simp add: AllocationSize_def allocationUnit_def)
  then show "n \<le> AllocationSize n" "AllocationSize n \<le> max 65536 (n + 65535)" "AllocationSize n mod 65536 = 0" "0 < AllocationSize n" by blast+
qed

text \<open>The allocation units an object of a given size takes; an empty one takes one.\<close>

definition units :: "int \<Rightarrow> int" where
  "units n = (if n \<le> 0 then 1 else (n + 65535) div 65536)"

lemma AllocationSize_units: "n \<le> max_int64 - 65535 \<Longrightarrow> AllocationSize n = 65536 * units n"
  using AllocationSize_bounds(4) [of n] in64I [of "(n + 65535) div 65536 * 65536"] AllocationSize_bounds(2) [of n]
  by (cases "n \<le> 0") (auto simp: AllocationSize_def units_def allocationUnit_def add.commute mult.commute)

lemma estimate_units:
  assumes "0 \<le> b" "b < 2305843009213693952" "0 \<le> m" "m < 2305843009213693952"
  shows "estimatePersistentEntryAllocation b m = 65536 * (1 + units b + units m + units (int (length addAccepted))) \<and>
    estimateEntryAllocation b m = estimatePersistentEntryAllocation b m + 65536"
proof -
  have l: "int (length addAccepted) = 24" "units 24 = 1" by code_simp+
  have A: "AllocationSize 0 = 65536" "AllocationSize 24 = 65536" by code_simp+
  have B: "AllocationSize b = 65536 * units b" "AllocationSize b \<le> b + 65536" "0 < AllocationSize b"
    and M: "AllocationSize m = 65536 * units m" "AllocationSize m \<le> m + 65536" "0 < AllocationSize m"
    using AllocationSize_bounds [of b] AllocationSize_bounds [of m] AllocationSize_units [of b] AllocationSize_units [of m] assms
    by (simp_all add: max_int64_def)
  have c: "checkedAddInt64 x y = Some (x + y)" if "0 \<le> x" "0 \<le> y" "x + y \<le> 4611686018427715584" for x y
    using that by (subst checkedAddInt64_eq) (auto simp: in64_def min_int64_def max_int64_def)
  have p: "estimatePersistentEntryAllocation b m = 65536 + AllocationSize b + AllocationSize m + 65536"
    unfolding estimatePersistentEntryAllocation_def saturatingSum.simps l A
    using B(2,3) M(2,3) assms by (simp add: c)
  have "estimateEntryAllocation b m = estimatePersistentEntryAllocation b m + 65536"
    unfolding estimateEntryAllocation_def saturatingSum.simps A
    using p B(2,3) M(2,3) assms by (simp add: c)
  then show ?thesis using p B(1) M(1) l by simp
qed

lemma units_bounds: "0 \<le> n \<Longrightarrow> n \<le> 65536 * units n \<and> 65536 * units n \<le> n + 65536"
proof -
  have "(n + 65535) div 65536 * 65536 + (n + 65535) mod 65536 = n + 65535" by (rule div_mult_mod_eq)
  moreover have "0 \<le> (n + 65535) mod 65536" "(n + 65535) mod 65536 < 65536" by simp_all
  ultimately show "0 \<le> n \<Longrightarrow> ?thesis" unfolding units_def by auto
qed

lemma estimate_bounds:
  assumes "0 \<le> b" "b < 2305843009213693952" "0 \<le> m" "m < 2305843009213693952"
  shows "estimatePersistentEntryAllocation b m = 65536 * (1 + units b + units m + units (int (length addAccepted))) \<and>
    65536 + b + m + int (length addAccepted) \<le> estimatePersistentEntryAllocation b m \<and>
    estimatePersistentEntryAllocation b m \<le> b + m + 4 * 65536 \<and>
    estimateEntryAllocation b m = estimatePersistentEntryAllocation b m + 65536"
proof -
  have "int (length addAccepted) = 24" "units 24 = 1" by code_simp+
  then show ?thesis using estimate_units [OF assms] units_bounds [OF assms(1)] units_bounds [OF assms(3)] by simp
qed

text \<open>C21: The estimate a new entry reserves is the space the entry takes. For bodies and metadata of less
  than 2 to the power 61 bytes no addition saturates: the persistent estimate is exactly one allocation unit
  for the directory and the units of the body, the metadata and the acceptance marker, so it covers their bytes
  besides the directory and exceeds the bytes by at most four units; the reservation is one unit above the
  persistent estimate, so moving the persistent part to the usage leaves a non-negative rest to
  release.\<close>

theorem spool_estimate_covers:
  assumes "0 \<le> b" "b < 2305843009213693952" "0 \<le> m" "m < 2305843009213693952"
  shows "estimatePersistentEntryAllocation b m = 65536 * (1 + units b + units m + units (int (length addAccepted))) \<and>
    65536 + b + m + int (length addAccepted) \<le> estimatePersistentEntryAllocation b m \<and>
    estimatePersistentEntryAllocation b m \<le> b + m + 4 * 65536 \<and>
    estimateEntryAllocation b m = estimatePersistentEntryAllocation b m + 65536"
  using assms by (rule estimate_bounds)

subsection \<open>Witnesses\<close>

definition sampleLimits :: Limits where
  "sampleLimits = \<lparr>MaxMessages = 10, MaxBytes = 1000, MaxMessagesPerUser = 2, MaxBytesPerUser = 500,
     MaxSpoolBytes = 33554432, SpoolEmergencyBytes = 16777216, MinFreeDisk = 0, DeadRetention = 0, CorruptRetention = 0\<rparr>"

definition sampleReserved :: Queue where
  "sampleReserved = snd (reserveLocked None 100 327680 False False ''a'' (newQueue sampleLimits))"

lemma sampleReserved_ok:
  "reserveLocked None 100 327680 False False ''a'' (newQueue sampleLimits) = (None, sampleReserved)"
proof -
  have "fst (reserveLocked None 100 327680 False False ''a'' (newQueue sampleLimits)) = None" by code_simp
  then show ?thesis unfolding sampleReserved_def by (metis prod.collapse)
qed

lemma sampleLimits_opened: "opened sampleLimits (newQueue sampleLimits)"
  by (rule opened.fresh) (simp_all add: newQueue_def max_int64_def)

lemma sampleReserved_run:
  assumes "cap_run q0 [] [] (newQueue sampleLimits)"
  shows "cap_run q0 [\<lparr>rsize = 100, rphys = 327680, rowner = ''a''\<rparr>] [] sampleReserved"
proof -
  have i: "in64 100" "in64 327680" by (simp_all add: in64_def min_int64_def max_int64_def)
  have o: "False \<or> ''a'' \<noteq> ''''" by simp
  from cap_run.reserve [OF assms i o sampleReserved_ok] show ?thesis by simp
qed

lemma sampleReserved_reach:
  "cap_reach sampleLimits [\<lparr>rsize = 100, rphys = 327680, rowner = ''a''\<rparr>] [] sampleReserved"
  using cap_reach_step [OF cap_reach_start [OF sampleLimits_opened] sampleReserved_run] .

theorem quota_accounting_exact_witness:
  "qcount sampleReserved = 0 \<and> reserved sampleReserved = 1 \<and> resBytes sampleReserved = 100 \<and>
   ureserved (usageOf sampleReserved ''a'') = 1"
proof -
  have "accounted sampleReserved = []" by code_simp
  then show ?thesis
    using quota_accounting_exact [OF sampleReserved_reach] by (simp add: expectedUsage_def ownedBy_def)
qed

text \<open>A queue opened over three messages of one owner whose limit is two, and one reservation on an empty one.\<close>

definition sampleFull :: Queue where
  "sampleFull = fold (\<lambda>i q. snd (noteAddedLocked (sampleEnvelope i ''a'' 1) q)) [''m1'', ''m2'', ''m3''] (newQueue sampleLimits)"

lemma sampleFull_opened: "opened sampleLimits sampleFull"
proof -
  have "0 \<le> Size (sampleEnvelope i ''a'' 1) \<and> Size (sampleEnvelope i ''a'' 1) \<le> max_int64" for i
    by (simp add: sampleEnvelope_def max_int64_def)
  then show ?thesis unfolding sampleFull_def using sampleLimits_opened opened.load by simp
qed


definition sampleDiskLimits :: Limits where
  "sampleDiskLimits = sampleLimits\<lparr>MinFreeDisk := 1000\<rparr>"

lemma sampleLimits_usable: "usableLimits sampleLimits" "usableLimits sampleDiskLimits"
  by code_simp+


definition sampleMessage :: Envelope where
  "sampleMessage = (sampleEnvelope ''m1'' ''a'' 1)\<lparr>Size := 100\<rparr>"

theorem quota_commit_total_witness:
  "case noteAddedLocked sampleMessage (releaseReserveLocked 100 327680 ''a'' sampleReserved) of (ok, q') \<Rightarrow>
     ok \<and> qcount q' + reserved q' = qcount sampleReserved + reserved sampleReserved"
proof -
  have "accounted sampleReserved = []" by code_simp
  with quota_commit_total [OF sampleReserved_reach, of "\<lparr>rsize = 100, rphys = 327680, rowner = ''a''\<rparr>" sampleMessage]
  show ?thesis by (auto simp: sampleMessage_def sampleEnvelope_def quotaOwner_def split: prod.splits)
qed


theorem spool_estimate_covers_witness:
  "estimatePersistentEntryAllocation 65536 800 = 65536 * 4 \<and> 65536 + 65536 + 800 + 24 \<le> estimatePersistentEntryAllocation 65536 800"
proof -
  have "int (length addAccepted) = 24" "units 24 = 1" "units 65536 = 1" "units 800 = 1" by code_simp+
  with spool_estimate_covers [of 65536 800] show ?thesis by simp
qed

end
