(* ===== verification/Mailbox.thy ===== *)
theory Mailbox
  imports Errors GoStrings
begin

text \<open>
  Mailboxes and routing domains, \<open>src/internal/mailbox/mailbox.go\<close>. The conversion of a
  domain to its ASCII form (\<open>golang.org/x/net/idna\<close>, \<open>Profile.ToASCII\<close>) is the parameter
  \<open>toASCII\<close>, \<open>None\<close> for an error; \<open>net/mail\<close>'s \<open>ParseAddress\<close> is the parameter \<open>parseAddress\<close>,
  which yields the display name and the address. Errors that callers never tell apart are
  named by their text.
\<close>

type_synonym idna = "string \<Rightarrow> string option"

definition maxLocalOctets :: int where
  "maxLocalOctets = 64"

definition maxMailboxOctets :: int where
  "maxMailboxOctets = 254"

definition ErrEmptyDomain :: gerror where
  "ErrEmptyDomain = Msg ''empty domain''"

definition ErrInvalidUTF8 :: gerror where
  "ErrInvalidUTF8 = Msg ''invalid utf-8 domain''"

definition ErrInvalidDomain :: gerror where
  "ErrInvalidDomain = Msg ''invalid domain''"

definition ErrDomainLabel :: gerror where
  "ErrDomainLabel = Msg ''invalid DNS label''"

definition ErrDomainLength :: gerror where
  "ErrDomainLength = Msg ''domain too long''"

definition ErrLocalLength :: gerror where
  "ErrLocalLength = Msg ''local part too long''"

definition ErrMailboxLength :: gerror where
  "ErrMailboxLength = Msg ''mailbox too long''"

definition dot :: char where
  "dot = CHR ''.''"

definition asciiDomain :: "idna \<Rightarrow> string \<Rightarrow> bool \<Rightarrow> gerror + string" where
  "asciiDomain toASCII domain requireFQDN =
     (if domain = [] then Inl ErrEmptyDomain
      else if \<not> utf8Valid domain then Inl ErrInvalidUTF8
      else if edgeSpace domain then Inl ErrInvalidDomain
      else if hasPrefix domain [dot] \<or> hasSuffix domain [dot] \<or> contains domain [dot, dot]
      then Inl ErrDomainLabel
      else
        (case toASCII domain of
           None \<Rightarrow> Inl (Wrap ''idna'' [ErrInvalidDomain])
         | Some a \<Rightarrow>
             (let ascii = toLower a; labels = splitOn dot ascii
              in if ascii = [] then Inl ErrEmptyDomain
                 else if length ascii > 253 then Inl ErrDomainLength
                 else if requireFQDN \<and> length labels < 2 then Inl ErrDomainLabel
                 else if list_ex (\<lambda>l. l = [] \<or> length l > 63) labels then Inl ErrDomainLabel
                 else Inr ascii)))"

definition RoutingDomain :: "idna \<Rightarrow> string \<Rightarrow> gerror + string" where
  "RoutingDomain toASCII domain = asciiDomain toASCII domain True"

text \<open>The position of the last \<open>@\<close>, where it leaves a local part and a domain.\<close>

definition mailboxSplit :: "string \<Rightarrow> nat option" where
  "mailboxSplit addr =
     (let at = lastIndexByte addr (CHR ''@'')
      in if at \<le> 0 \<or> at = int (length addr) - 1 then None else Some (nat at))"

definition DomainOf :: "idna \<Rightarrow> string \<Rightarrow> gerror + string" where
  "DomainOf toASCII addr =
     (case mailboxSplit addr of
        None \<Rightarrow> Inl ErrEmptyDomain
      | Some at \<Rightarrow> RoutingDomain toASCII (drop (at + 1) addr))"

definition ValidateAddress :: "idna \<Rightarrow> string \<Rightarrow> gerror option" where
  "ValidateAddress toASCII addr =
     (if \<not> utf8Valid addr then Some ErrInvalidUTF8
      else if int (length addr) > maxMailboxOctets then Some ErrMailboxLength
      else
        (case mailboxSplit addr of
           None \<Rightarrow> Some ErrEmptyDomain
         | Some at \<Rightarrow>
             if int at > maxLocalOctets then Some ErrLocalLength
             else
               (let domain = drop (at + 1) addr
                in if hasPrefix domain ''['' \<and> hasSuffix domain '']''
                   then (if length domain > 255 then Some ErrDomainLength else None)
                   else (case asciiDomain toASCII domain False of Inl err \<Rightarrow> Some err | Inr _ \<Rightarrow> None))))"

definition mailboxAddress :: "idna \<Rightarrow> (string \<Rightarrow> (string \<times> string) option) \<Rightarrow> string \<Rightarrow> gerror + string" where
  "mailboxAddress toASCII parseAddress value0 =
     (let value = trimSpace value0
      in if value = [] then Inl (Msg ''empty address'')
         else
           (case parseAddress value of
              None \<Rightarrow> Inl (Msg ''mail: invalid address'')
            | Some (nm, addr) \<Rightarrow>
                if nm \<noteq> [] \<or> (addr \<noteq> value \<and> value \<noteq> ''<'' @ addr @ ''>'')
                then Inl (Msg ''address contains a display name'')
                else (case ValidateAddress toASCII addr of Some err \<Rightarrow> Inl err | None \<Rightarrow> Inr addr)))"

definition CanonicalAddress :: "idna \<Rightarrow> (string \<Rightarrow> (string \<times> string) option) \<Rightarrow> string \<Rightarrow> gerror + string" where
  "CanonicalAddress toASCII parseAddress value =
     (case mailboxAddress toASCII parseAddress value of
        Inl err \<Rightarrow> Inl err
      | Inr address \<Rightarrow>
          (case DomainOf toASCII address of
             Inl err \<Rightarrow> Inl err
           | Inr domain \<Rightarrow> Inr (take (nat (lastIndexByte address (CHR ''@'')) + 1) address @ domain)))"

subsection \<open>Routing domains\<close>

lemma asciiDomain_ok:
  assumes "asciiDomain toASCII d b = Inr a"
  obtains a0 where "toASCII d = Some a0" "a = toLower a0" "a \<noteq> []" "length a \<le> 253" "b \<longrightarrow> 2 \<le> length (splitOn dot a)"
    "\<forall>l \<in> set (splitOn dot a). l \<noteq> [] \<and> length l \<le> 63" "d \<noteq> []" "utf8Valid d" "\<not> edgeSpace d"
  using assms by (auto simp: asciiDomain_def Let_def list_ex_iff not_less split: if_splits option.splits)

lemma lower_char_idem: "lower_char (lower_char c) = lower_char c"
  by (auto simp: lower_char_def is_upper_def code_def)

lemma toLower_idem [simp]: "toLower (toLower s) = toLower s"
  by (simp add: toLower_def lower_char_idem comp_def)

lemma toLower_no_upper: "c \<in> set (toLower s) \<Longrightarrow> \<not> is_upper c"
  by (auto simp: toLower_def lower_char_def is_upper_def code_def)

text \<open>What the code relies on of the IDNA profile (\<open>StrictDomainName\<close>, lookup mapping): its
  results are ASCII letters, digits, hyphens and dots, and converting a result, in lower case,
  gives it back.\<close>

definition ldh :: "char \<Rightarrow> bool" where
  "ldh c \<longleftrightarrow> is_upper c \<or> is_lower c \<or> is_digit c \<or> c = CHR ''-'' \<or> c = dot"

definition idnaOK :: "idna \<Rightarrow> bool" where
  "idnaOK toASCII \<longleftrightarrow> (\<forall>d a. toASCII d = Some a \<longrightarrow>
     (\<forall>c \<in> set a. ldh c) \<and> toASCII (toLower a) = Some (toLower a))"

lemma ldh_ascii: "ldh c \<Longrightarrow> code c < 128 \<and> \<not> isSpaceRune (code c)"
  by (auto simp: ldh_def is_upper_def is_lower_def is_digit_def dot_def code_def isSpaceRune_def)

lemma ldh_lower: "ldh c \<Longrightarrow> ldh (lower_char c)"
  by (auto simp: ldh_def lower_char_def is_upper_def is_lower_def is_digit_def code_def)

lemma splitOn_append: "splitOn c (s @ c # t) = splitOn c s @ splitOn c t"
  by (induction s) (auto split: list.splits)

lemma contains_split: "contains s p \<longleftrightarrow> (\<exists>a b. s = a @ p @ b)"
proof (induction s)
  case (Cons c s)
  have "hasPrefix (c # s) p \<longleftrightarrow> (\<exists>b. c # s = p @ b)"
    by (metis append_eq_conv_conj append_take_drop_id hasPrefix_def)
  moreover have "(\<exists>a b. c # s = a @ p @ b) \<longleftrightarrow> (\<exists>b. c # s = p @ b) \<or> (\<exists>a b. s = a @ p @ b)"
    by (auto simp: Cons_eq_append_conv)
  ultimately show ?case using Cons by simp
qed auto

lemma no_empty_label:
  assumes "[] \<notin> set (splitOn dot s)"
  shows "\<not> hasPrefix s [dot]" "\<not> hasSuffix s [dot]" "\<not> contains s [dot, dot]"
proof -
  show "\<not> hasPrefix s [dot]" using assms by (cases s) (auto simp: hasPrefix_def)
  show "\<not> hasSuffix s [dot]"
  proof
    assume "hasSuffix s [dot]"
    then have "s = take (length s - 1) s @ [dot]" by (metis append_take_drop_id hasSuffix_def length_Cons list.size(3) One_nat_def)
    then have "splitOn dot s = splitOn dot (take (length s - 1) s) @ [[]]" by (metis splitOn_append splitOn.simps(1))
    with assms show False by simp
  qed
  show "\<not> contains s [dot, dot]" using assms by (auto simp: contains_split splitOn_append)
qed

text \<open>The routing form is a fixed point of the conversion.\<close>

lemma RoutingDomain_idem:
  assumes "idnaOK toASCII" "RoutingDomain toASCII d = Inr a"
  shows "RoutingDomain toASCII a = Inr a"
proof -
  obtain a0 where a: "toASCII d = Some a0" "a = toLower a0" "a \<noteq> []" "length a \<le> 253" "2 \<le> length (splitOn dot a)"
      "\<forall>l \<in> set (splitOn dot a). l \<noteq> [] \<and> length l \<le> 63"
    using assms(2) unfolding RoutingDomain_def by (elim asciiDomain_ok) auto
  have "\<forall>c \<in> set a. ldh c" using assms(1) a(1,2) by (auto simp: idnaOK_def toLower_def intro: ldh_lower)
  then have "\<forall>c \<in> set a. code c < 128 \<and> \<not> isSpaceRune (code c)" using ldh_ascii by blast
  then have "utf8Valid a" "\<not> edgeSpace a" by (simp_all add: utf8Valid_ascii edgeSpace_ascii)
  moreover have "toASCII a = Some a" using assms(1) a(1,2) unfolding idnaOK_def by blast
  moreover have "[] \<notin> set (splitOn dot a)" using a(6) by blast
  moreover have "toLower a = a" using a(2) by simp
  ultimately show ?thesis using a(3-6) no_empty_label [of a]
    by (auto simp: RoutingDomain_def asciiDomain_def Let_def list_ex_iff)
qed

lemma DomainOf_RoutingDomain:
  "DomainOf toASCII addr = Inr d \<Longrightarrow> \<exists>x. RoutingDomain toASCII x = Inr d"
  by (auto simp: DomainOf_def split: option.splits)

subsection \<open>Properties\<close>

text \<open>A concrete conversion that only knows ASCII domains.\<close>

definition sampleIDNA :: idna where
  "sampleIDNA d = (if list_all ldh d then Some (toLower d) else None)"

lemma sampleIDNA_ok: "idnaOK sampleIDNA"
  by (auto simp: idnaOK_def sampleIDNA_def list_all_iff toLower_def intro: ldh_lower)
     (simp add: lower_char_idem)

text \<open>C26: the domain under which a recipient is routed, limited and looked up is canonical: it is
  made of lower-case letters, digits, hyphens and dots, has at least two labels of one to 63
  octets and at most 253 octets in all, and converting it again gives it back, so that two
  spellings that route alike share one key.\<close>

theorem routing_domain_canonical:
  assumes "idnaOK toASCII" "DomainOf toASCII addr = Inr a"
  shows "(\<forall>c \<in> set a. ldh c \<and> \<not> is_upper c) \<and> length a \<le> 253 \<and> 2 \<le> length (splitOn dot a) \<and>
    (\<forall>l \<in> set (splitOn dot a). 1 \<le> length l \<and> length l \<le> 63) \<and>
    RoutingDomain toASCII a = Inr a \<and> DomainOf toASCII (''x@'' @ a) = Inr a"
proof -
  obtain d where d: "RoutingDomain toASCII d = Inr a" using DomainOf_RoutingDomain assms(2) by blast
  have idem: "RoutingDomain toASCII a = Inr a" by (rule RoutingDomain_idem) fact+
  obtain a0 where a: "toASCII d = Some a0" "a = toLower a0" "a \<noteq> []" "length a \<le> 253"
      "2 \<le> length (splitOn dot a)" "\<forall>l \<in> set (splitOn dot a). l \<noteq> [] \<and> length l \<le> 63"
    using d unfolding RoutingDomain_def by (elim asciiDomain_ok) auto
  have "\<forall>c \<in> set a0. ldh c" using assms(1) a(1) unfolding idnaOK_def by blast
  then have ldh: "\<forall>c \<in> set a. ldh c" using a(2) by (auto simp: toLower_def intro: ldh_lower)
  moreover have "\<forall>c \<in> set a. \<not> is_upper c" using a(2) toLower_no_upper by blast
  moreover have "\<forall>l \<in> set (splitOn dot a). 1 \<le> length l \<and> length l \<le> 63" using a(6) by (auto simp: Suc_le_eq)
  moreover have "mailboxSplit (''x@'' @ a) = Some 1"
  proof -
    have n: "CHR ''@'' \<notin> set a" using ldh by (auto simp: ldh_def dot_def is_upper_def is_lower_def is_digit_def code_def)
    then have "takeWhile (\<lambda>d. d \<noteq> CHR ''@'') (rev a @ ''@x'') = rev a" by (subst takeWhile_append2) auto
    then show ?thesis using a(3) by (simp add: mailboxSplit_def lastIndexByte_def Let_def)
  qed
  ultimately show ?thesis using a(4,5) idem by (simp add: DomainOf_def)
qed

theorem routing_domain_canonical_witness:
  "DomainOf sampleIDNA ''Alice@Mail.Example.ORG'' = Inr ''mail.example.org'' \<and>
   RoutingDomain sampleIDNA ''mail.example.org'' = Inr ''mail.example.org''"
proof -
  have d: "DomainOf sampleIDNA ''Alice@Mail.Example.ORG'' = Inr ''mail.example.org''" by code_simp
  from routing_domain_canonical [OF sampleIDNA_ok d] d show ?thesis by simp
qed

end
