(* ===== verification/Validation.thy ===== *)
theory Validation
  imports Envelope Mailbox "HOL-Library.Signed_Division"
begin

text \<open>
  Validation of envelopes, \<open>src/internal/queue/validation.go\<close>. \<open>validateEnvelope\<close> also fills in
  the status and the routing domain of recipients, so its model returns the error and the
  envelope as it is afterwards, also where it stops at an error half way. The parameters are
  \<open>toASCII\<close> (the IDNA profile of the mailbox package) and \<open>hexdigest\<close> (SHA-256 in hexadecimal).
  Positions in error texts are left out.
\<close>

subsection \<open>Hexadecimal\<close>

definition hexVal :: "char \<Rightarrow> nat option" where
  "hexVal c =
     (if is_digit c then Some (code c - 48)
      else if 97 \<le> code c \<and> code c \<le> 102 then Some (code c - 87)
      else if 65 \<le> code c \<and> code c \<le> 70 then Some (code c - 55)
      else None)"

fun hexDecode :: "string \<Rightarrow> nat list option" where
  "hexDecode [] = Some []"
| "hexDecode [c] = None"
| "hexDecode (a # b # s) =
     (case (hexVal a, hexVal b, hexDecode s) of
        (Some x, Some y, Some bs) \<Rightarrow> Some ((16 * x + y) # bs)
      | _ \<Rightarrow> None)"

definition hexDigit :: "nat \<Rightarrow> char" where
  "hexDigit n = ''0123456789abcdef'' ! n"

definition hexEncode :: "nat list \<Rightarrow> string" where
  "hexEncode bs = concat (map (\<lambda>b. [hexDigit (b div 16), hexDigit (b mod 16)]) bs)"

subsection \<open>Checks on single values\<close>

definition sanitize :: "string \<Rightarrow> string" where
  "sanitize s =
     (let b = map (\<lambda>(r, _). if r < 128 \<and> (is_alnum (char_of r) \<or> r = 45 \<or> r = 95) then char_of r else CHR ''_'') (runes s)
      in if b = [] then ''x'' else b)"

definition validBodyDigest :: "string \<Rightarrow> bool" where
  "validBodyDigest digest =
     (if length digest \<noteq> length bodyDigestPrefix + 32 * 2 \<or> \<not> hasPrefix digest bodyDigestPrefix then False
      else
        (case hexDecode (drop (length bodyDigestPrefix) digest) of
           None \<Rightarrow> False
         | Some digestBytes \<Rightarrow> bodyDigestPrefix @ hexEncode digestBytes = digest))"

text \<open>The format characters (\<open>unicode.Cf\<close>) of the Unicode tables of the Go release.\<close>

definition formatRanges :: "(nat \<times> nat) list" where
  "formatRanges =
     [(173, 173), (1536, 1541), (1564, 1564), (1757, 1757), (1807, 1807), (2192, 2193), (2274, 2274),
      (6158, 6158), (8203, 8207), (8234, 8238), (8288, 8292), (8294, 8303), (65279, 65279), (65529, 65531),
      (69821, 69821), (69837, 69837), (78896, 78911), (113824, 113827), (119155, 119162), (917505, 917505),
      (917536, 917631)]"

definition isControl :: "nat \<Rightarrow> bool" where
  "isControl r \<longleftrightarrow> r < 32 \<or> (127 \<le> r \<and> r < 160)"

definition containsDisplayControl :: "string \<Rightarrow> bool" where
  "containsDisplayControl s =
     list_ex (\<lambda>(r, _). isControl r \<or> list_ex (\<lambda>(lo, hi). lo \<le> r \<and> r \<le> hi) formatRanges \<or> r = 8232 \<or> r = 8233) (runes s)"

definition incrementRevision :: "uint64 \<Rightarrow> gerror + uint64" where
  "incrementRevision revision =
     (if revision = 0 \<or> revision \<ge> maxEnvelopeRevision then Inl (Msg ''queue revision cannot be incremented'')
      else Inr (revision + 1))"

fun metadataFits :: "int \<Rightarrow> string list \<Rightarrow> bool" where
  "metadataFits remaining [] = (remaining \<ge> 0)"
| "metadataFits remaining (s # ss) =
     (if int (length s) > remaining sdiv 6 then False else metadataFits (remaining - int (length s) * 6) ss)"

definition envelopeMetadataWithinLimit :: "Envelope \<Rightarrow> bool" where
  "envelopeMetadataWithinLimit e =
     metadataFits (maxEnvelopeMetadata - 2048 - int (length (Recipients e)) * 256)
       ([ID e, Incarnation e, Username e, Sender e, LastError e, BodyDigest e, DSNIDLink e,
         DSNSourceID e, DSNSourceIncarnation e] @
        concat (map (\<lambda>r. [Recipient.Address r, Domain r, RStatus r, Detail r, EnhancedCode r]) (Recipients e)))"

definition validEnhancedCode :: "string \<Rightarrow> int \<Rightarrow> bool" where
  "validEnhancedCode enhanced cd =
     (case splitOn dot enhanced of
        [p0, p1, p2] \<Rightarrow>
          if length p0 \<noteq> 1 \<or> (p0 \<noteq> ''2'' \<and> p0 \<noteq> ''4'' \<and> p0 \<noteq> ''5'') then False
          else if cd \<noteq> 0 \<and> int (code (hd p0)) - 48 \<noteq> cd sdiv 100 then False
          else list_all (\<lambda>part. 1 \<le> length part \<and> length part \<le> 3 \<and> list_all is_digit part) [p1, p2]
      | _ \<Rightarrow> False)"

definition addressHasNonASCII :: "string \<Rightarrow> bool" where
  "addressHasNonASCII addr = list_ex (\<lambda>c. 128 \<le> code c) addr"

definition validateAddress :: "string \<Rightarrow> gerror option" where
  "validateAddress addr =
     (if addr = [] then Some (Msg ''empty address'')
      else if \<not> utf8Valid addr then Some (Msg ''invalid utf-8'')
      else if int (length addr) > maxEnvelopeStringBytes then Some (Msg ''address too long'')
      else if list_ex (\<lambda>c. code c < 32 \<or> code c = 127) addr then Some (Msg ''control character in address'')
      else if mailboxSplit addr = None then Some (Msg ''missing @domain'')
      else if contains addr '' '' then Some (Msg ''whitespace in address'')
      else None)"

subsection \<open>Envelopes\<close>

text \<open>A 32 character hexadecimal incarnation.\<close>

definition badIncarnation :: "string \<Rightarrow> bool" where
  "badIncarnation s \<longleftrightarrow> length s \<noteq> 32 \<or> hexDecode s = None"

definition badRevision :: "uint64 \<Rightarrow> bool" where
  "badRevision r \<longleftrightarrow> r = 0 \<or> r > maxEnvelopeRevision"

text \<open>The first error of a sequence of checks.\<close>

fun firstErr :: "gerror option list \<Rightarrow> gerror option" where
  "firstErr [] = None"
| "firstErr (Some e # _) = Some e"
| "firstErr (None # es) = firstErr es"

definition fails :: "bool \<Rightarrow> string \<Rightarrow> gerror option" where
  "fails b m = (if b then Some (Msg m) else None)"

definition wrapErr :: "string \<Rightarrow> gerror option \<Rightarrow> gerror option" where
  "wrapErr m e = map_option (\<lambda>e. Wrap m [e]) e"

definition validateLinkage :: "(string \<Rightarrow> string) \<Rightarrow> Envelope \<Rightarrow> gerror option" where
  "validateLinkage hexdigest e =
     (if DSNSourceID e \<noteq> [] then
        firstErr
          [wrapErr ''DSN source'' (ValidateID (DSNSourceID e)),
           fails (badIncarnation (DSNSourceIncarnation e)) ''invalid DSN source incarnation'',
           (if ID e \<noteq> DSNID hexdigest (DSNSourceID e) (DSNSourceIncarnation e) (DSNGeneration e)
            then Some (Wrap ''derived DSN ID mismatch'' [Sentinel ErrIDConflict]) else None),
           fails (badRevision (DSNSourceRevision e)) ''invalid DSN source revision'',
           fails (DSNIDLink e \<noteq> []) ''DSN cannot link another DSN'',
           fails (Sender e \<noteq> []) ''DSN sender must be empty'']
      else if Sender e \<noteq> [] then
        firstErr
          [fails (DSNSourceRevision e \<noteq> 0) ''DSN source revision without source ID'',
           fails (DSNSourceIncarnation e \<noteq> []) ''DSN source incarnation without source ID'',
           wrapErr ''sender'' (validateAddress (Sender e))]
      else Some (Msg ''missing sender''))"

fun validateBodies :: "int \<Rightarrow> int \<Rightarrow> Body list \<Rightarrow> gerror + int" where
  "validateBodies sz bodyEnd [] = Inr bodyEnd"
| "validateBodies sz bodyEnd (b # bs) =
     (if Offset b \<noteq> bodyEnd \<or> BodySize b \<le> 0 \<or> BodySize b > sz - Offset b then Inl (Msg ''invalid range'')
      else if \<not> validBodyDigest (Digest b) then Inl (Msg ''invalid digest'')
      else validateBodies sz (bodyEnd + BodySize b) bs)"

text \<open>The checks before the loop over the recipients.\<close>

definition validateHeader :: "(string \<Rightarrow> string) \<Rightarrow> Envelope \<Rightarrow> gerror option" where
  "validateHeader hexdigest e =
     firstErr
       [ValidateID (ID e),
        fails (badIncarnation (Incarnation e)) ''invalid queue incarnation'',
        fails (badRevision (Revision e)) ''invalid queue revision'',
        fails (Username e = []) ''missing username'',
        fails (int (length (Username e)) > maxEnvelopeStringBytes) ''username too long'',
        fails (int (length (LastError e)) > maxEnvelopeDetailBytes) ''last error too long'',
        validateLinkage hexdigest e,
        (if DSNIDLink e \<noteq> [] \<and> DSNIDLink e \<noteq> DSNID hexdigest (ID e) (Incarnation e) (DSNGeneration e)
         then Some (Wrap ''source DSN link mismatch'' [Sentinel ErrIDConflict]) else None),
        fails (Recipients e = []) ''no recipients'',
        fails (int (length (Recipients e)) > maxEnvelopeRecipients) ''too many recipients'',
        fails (Created e = zero_time) ''missing created timestamp'',
        fails (Attempts e < 0 \<or> Attempts e > maxEnvelopeAttempts) ''invalid attempts'',
        fails (Size e < 0) ''negative size'',
        fails (\<not> validBodyDigest (BodyDigest e)) ''missing or invalid body digest'',
        fails (length (Bodies e) > length (Recipients e)) ''more message bodies than recipients'',
        (case validateBodies (Size e) 0 (Bodies e) of
           Inl err \<Rightarrow> Some err
         | Inr bodyEnd \<Rightarrow> fails (Bodies e \<noteq> [] \<and> bodyEnd \<noteq> Size e) ''message bodies do not cover stored body'')]"

text \<open>The body of the loop over the recipients: the error and the recipient as it is left.\<close>

definition recipientLimits :: "nat \<Rightarrow> Recipient \<Rightarrow> gerror option" where
  "recipientLimits nbodies r =
     firstErr
       [(if nbodies = 0 then fails (BodyIndex r \<noteq> 0) ''body index without message bodies''
         else fails (BodyIndex r < 0 \<or> BodyIndex r \<ge> int nbodies) ''invalid body index''),
        fails (int (length (Domain r)) > maxEnvelopeStringBytes) ''domain too long'',
        fails (int (length (Detail r)) > maxEnvelopeDetailBytes) ''detail too long'',
        fails (containsDisplayControl (Detail r)) ''detail contains display control characters'']"

definition defaultStatus :: "Recipient \<Rightarrow> Recipient" where
  "defaultStatus r = (if RStatus r = [] then r\<lparr>RStatus := StatusPending\<rparr> else r)"

definition recipientStatus :: "Recipient \<Rightarrow> gerror option" where
  "recipientStatus r =
     firstErr
       [fails (RStatus r \<noteq> StatusPending \<and> RStatus r \<noteq> StatusSent \<and> RStatus r \<noteq> StatusFailed) ''invalid status'',
        fails (Code r \<noteq> 0 \<and> (Code r < 200 \<or> Code r > 599)) ''invalid SMTP code'',
        fails (EnhancedCode r \<noteq> [] \<and> (Code r = 0 \<or> \<not> validEnhancedCode (EnhancedCode r) (Code r))) ''invalid enhanced SMTP code'',
        (if RStatus r = StatusPending
         then fails (Code r \<noteq> 0 \<or> EnhancedCode r \<noteq> []) ''pending recipient has a terminal SMTP code''
         else if RStatus r = StatusSent
         then fails (Code r \<noteq> 0 \<and> Code r sdiv 100 \<noteq> 2) ''sent recipient has a non-success SMTP code''
         else fails (Code r \<noteq> 0 \<and> Code r sdiv 100 \<noteq> 5) ''failed recipient has a non-permanent SMTP code'')]"

definition recipientDomain :: "idna \<Rightarrow> Recipient \<Rightarrow> gerror option \<times> Recipient" where
  "recipientDomain toASCII r =
     (case validateAddress (Recipient.Address r) of
        Some err \<Rightarrow> (Some (Wrap ''recipient'' [err]), r)
      | None \<Rightarrow>
          (case DomainOf toASCII (Recipient.Address r) of
             Inl err \<Rightarrow> (Some (Wrap ''recipient'' [err]), r)
           | Inr routing \<Rightarrow>
               if Domain r = [] then (None, r\<lparr>Domain := routing\<rparr>)
               else if RoutingDomain toASCII (Domain r) \<noteq> Inr routing then (Some (Msg ''domain mismatch''), r)
               else (None, r\<lparr>Domain := routing\<rparr>)))"

definition validateRecipient :: "idna \<Rightarrow> nat \<Rightarrow> Recipient \<Rightarrow> gerror option \<times> Recipient" where
  "validateRecipient toASCII nbodies r =
     (case recipientLimits nbodies r of
        Some err \<Rightarrow> (Some err, r)
      | None \<Rightarrow>
          (let r1 = defaultStatus r
           in case recipientStatus r1 of
                Some err \<Rightarrow> (Some err, r1)
              | None \<Rightarrow> recipientDomain toASCII r1))"

fun validateRecipients :: "idna \<Rightarrow> nat \<Rightarrow> Recipient list \<Rightarrow> gerror option \<times> Recipient list" where
  "validateRecipients toASCII nbodies [] = (None, [])"
| "validateRecipients toASCII nbodies (r # rs) =
     (case validateRecipient toASCII nbodies r of
        (Some err, r') \<Rightarrow> (Some err, r' # rs)
      | (None, r') \<Rightarrow> (let (err, rs') = validateRecipients toASCII nbodies rs in (err, r' # rs')))"

text \<open>The flags the loop collects: which bodies a recipient references, and whether an address is
  not ASCII.\<close>

definition usedBodies :: "nat \<Rightarrow> Recipient list \<Rightarrow> bool list" where
  "usedBodies nbodies rs =
     fold (\<lambda>r used. if 0 < nbodies then used[nat (BodyIndex r) := True] else used) rs (replicate nbodies False)"

definition needsUTF8 :: "Envelope \<Rightarrow> bool" where
  "needsUTF8 e \<longleftrightarrow> (Sender e \<noteq> [] \<and> addressHasNonASCII (Sender e)) \<or>
     list_ex (\<lambda>r. addressHasNonASCII (Recipient.Address r)) (Recipients e)"

definition validateEnvelope :: "idna \<Rightarrow> (string \<Rightarrow> string) \<Rightarrow> Envelope \<Rightarrow> gerror option \<times> Envelope" where
  "validateEnvelope toASCII hexdigest e =
     (case validateHeader hexdigest e of
        Some err \<Rightarrow> (Some err, e)
      | None \<Rightarrow>
          (let (err, rs) = validateRecipients toASCII (length (Bodies e)) (Recipients e);
               e1 = e\<lparr>Recipients := rs\<rparr>
           in (firstErr
                 [err,
                  fails (\<not> list_all id (usedBodies (length (Bodies e)) (Recipients e))) ''body not referenced by a recipient'',
                  fails (needsUTF8 e \<and> \<not> SMTPUTF8 e) ''SMTPUTF8 required for non-ASCII envelope address'',
                  fails (\<not> envelopeMetadataWithinLimit e1) ''envelope metadata exceeds its limit''],
               e1)))"

end
