(* ===== verification/Validation_Props.thy ===== *)
theory Validation_Props
  imports Validation
begin

text \<open>
  What validation guarantees: an accepted envelope is in normal form, so that validating it
  again (as every later update of the entry does) changes nothing, and its message bodies tile
  the stored data, so that no reader can slice outside it.
\<close>

lemma firstErr_None [simp]: "firstErr es = None \<longleftrightarrow> (\<forall>e \<in> set es. e = None)"
  by (induction es rule: firstErr.induct) auto

lemma fails_None [simp]: "fails b m = None \<longleftrightarrow> \<not> b"
  by (simp add: fails_def)

lemma wrapErr_None [simp]: "wrapErr m e = None \<longleftrightarrow> e = None"
  by (simp add: wrapErr_def)

subsection \<open>Recipients\<close>

lemma DomainOf_short:
  assumes "DomainOf toASCII addr = Inr d"
  shows "d \<noteq> [] \<and> length d \<le> 253"
proof -
  obtain x where "asciiDomain toASCII x True = Inr d"
    using DomainOf_RoutingDomain [OF assms] by (auto simp: RoutingDomain_def)
  then show ?thesis by (elim asciiDomain_ok) auto
qed

text \<open>What an accepted recipient looks like.\<close>

definition recipient_ok :: "idna \<Rightarrow> nat \<Rightarrow> Recipient \<Rightarrow> bool" where
  "recipient_ok toASCII nbodies r \<longleftrightarrow>
     recipientLimits nbodies r = None \<and> recipientStatus r = None \<and>
     RStatus r \<in> {StatusPending, StatusSent, StatusFailed} \<and>
     validateAddress (Recipient.Address r) = None \<and> DomainOf toASCII (Recipient.Address r) = Inr (Domain r)"

lemmas status_defs = StatusPending_def StatusSent_def StatusFailed_def

lemma validateRecipient_ok:
  assumes "validateRecipient toASCII nbodies r = (None, r')"
  shows "recipient_ok toASCII nbodies r'"
    and "\<exists>d st. r' = r\<lparr>Domain := d, RStatus := st\<rparr>"
proof -
  let ?r1 = "defaultStatus r"
  have lim: "recipientLimits nbodies r = None" and st: "recipientStatus ?r1 = None"
    and dom: "recipientDomain toASCII ?r1 = (None, r')"
    using assms by (auto simp: validateRecipient_def Let_def split: option.splits)
  have a1: "Recipient.Address ?r1 = Recipient.Address r" "Domain ?r1 = Domain r" "BodyIndex ?r1 = BodyIndex r"
      "Detail ?r1 = Detail r"
    by (auto simp: defaultStatus_def)
  obtain routing where rt: "validateAddress (Recipient.Address r) = None"
      "DomainOf toASCII (Recipient.Address r) = Inr routing" "r' = ?r1\<lparr>Domain := routing\<rparr>"
    using dom by (auto simp: recipientDomain_def a1 split: option.splits sum.splits if_splits)
  have "int (length routing) \<le> maxEnvelopeStringBytes"
    using DomainOf_short [OF rt(2)] by (simp add: maxEnvelopeStringBytes_def)
  then have "recipientLimits nbodies r' = None" using lim rt(3) a1 by (auto simp: recipientLimits_def)
  moreover have "recipientStatus r' = None" using st rt(3) by (auto simp: recipientStatus_def)
  moreover have "RStatus r' \<in> {StatusPending, StatusSent, StatusFailed}"
    using st rt(3) by (auto simp: recipientStatus_def)
  ultimately show "recipient_ok toASCII nbodies r'" using rt a1 by (simp add: recipient_ok_def)
  have "r' = r\<lparr>Domain := routing, RStatus := RStatus ?r1\<rparr>" using rt(3) by (simp add: defaultStatus_def)
  then show "\<exists>d st. r' = r\<lparr>Domain := d, RStatus := st\<rparr>" by blast
qed

lemma validateRecipient_fixed:
  assumes "idnaOK toASCII" "recipient_ok toASCII nbodies r"
  shows "validateRecipient toASCII nbodies r = (None, r)"
proof -
  have "RStatus r \<noteq> []" using assms(2) by (auto simp: recipient_ok_def status_defs)
  then have d: "defaultStatus r = r" by (simp add: defaultStatus_def)
  have dom: "DomainOf toASCII (Recipient.Address r) = Inr (Domain r)" using assms(2) by (simp add: recipient_ok_def)
  then have "RoutingDomain toASCII (Domain r) = Inr (Domain r)"
    using DomainOf_RoutingDomain RoutingDomain_idem [OF assms(1)] by blast
  then have "recipientDomain toASCII r = (None, r)"
    using assms(2) dom by (simp add: recipient_ok_def recipientDomain_def)
  then show ?thesis using assms(2) by (simp add: validateRecipient_def d recipient_ok_def)
qed

lemma validateRecipients_ok:
  assumes "validateRecipients toASCII nbodies rs = (None, rs')"
  shows "list_all (recipient_ok toASCII nbodies) rs' \<and>
    list_all2 (\<lambda>r r'. \<exists>d st. r' = r\<lparr>Domain := d, RStatus := st\<rparr>) rs rs'"
  using assms
proof (induction rs arbitrary: rs')
  case (Cons r rs)
  obtain r' rs1 where "validateRecipient toASCII nbodies r = (None, r')"
      "validateRecipients toASCII nbodies rs = (None, rs1)" "rs' = r' # rs1"
    using Cons.prems by (auto split: prod.splits option.splits)
  then show ?case using Cons.IH validateRecipient_ok by auto
qed simp

lemma validateRecipients_fixed:
  assumes "idnaOK toASCII"
  shows "list_all (recipient_ok toASCII nbodies) rs \<Longrightarrow> validateRecipients toASCII nbodies rs = (None, rs)"
  by (induction rs) (auto simp: validateRecipient_fixed [OF assms])

text \<open>The two lists agree in everything but status and domain.\<close>

lemma same_but_domain:
  assumes "list_all2 (\<lambda>r r'. \<exists>d st. r' = r\<lparr>Domain := d, RStatus := st\<rparr>) rs rs'"
  shows "length rs' = length rs" "map BodyIndex rs' = map BodyIndex rs"
    "map Recipient.Address rs' = map Recipient.Address rs"
proof -
  show "length rs' = length rs" using assms by (simp add: list_all2_lengthD)
  have "map BodyIndex rs' = map BodyIndex rs \<and> map Recipient.Address rs' = map Recipient.Address rs"
    using assms
  proof (induction rule: list_all2_induct)
    case (Cons r rs r' rs')
    then have "BodyIndex r' = BodyIndex r" "Recipient.Address r' = Recipient.Address r"
      by auto
    with Cons show ?case by simp
  qed simp
  then show "map BodyIndex rs' = map BodyIndex rs" "map Recipient.Address rs' = map Recipient.Address rs" by auto
qed

lemma fold_by_index:
  "fold (\<lambda>r used. if 0 < n then used[nat (BodyIndex r) := True] else used) rs us =
   fold (\<lambda>b used. if 0 < n then used[nat b := True] else used) (map BodyIndex rs) us"
  by (induction rs arbitrary: us) auto

lemma usedBodies_cong: "map BodyIndex rs' = map BodyIndex rs \<Longrightarrow> usedBodies n rs' = usedBodies n rs"
  unfolding usedBodies_def fold_by_index by simp

lemma needsUTF8_cong:
  assumes "map Recipient.Address rs = map Recipient.Address (Recipients e)"
  shows "needsUTF8 (e\<lparr>Recipients := rs\<rparr>) = needsUTF8 e"
proof -
  have "list_ex (\<lambda>r. addressHasNonASCII (Recipient.Address r)) xs \<longleftrightarrow>
      (\<exists>a \<in> set (map Recipient.Address xs). addressHasNonASCII a)" for xs :: "Recipient list"
    by (auto simp: list_ex_iff)
  from this [of rs] this [of "Recipients e"] assms show ?thesis by (simp only: needsUTF8_def) simp
qed

lemma validateHeader_cong:
  "length rs = length (Recipients e) \<Longrightarrow> validateHeader h (e\<lparr>Recipients := rs\<rparr>) = validateHeader h e"
proof -
  assume l: "length rs = length (Recipients e)"
  then have "rs = [] \<longleftrightarrow> Recipients e = []" by (metis length_0_conv)
  with l show ?thesis unfolding validateHeader_def validateLinkage_def by (cases e) (simp only: Envelope.simps)
qed

subsection \<open>Bodies\<close>

text \<open>Accepted bodies are non-empty, follow each other without a gap and stay within the stored data;
  their slices, joined, are the data.\<close>

lemma validateBodies_tile:
  assumes "validateBodies sz start bs = Inr stop" "0 \<le> start" "start \<le> sz"
  shows "start \<le> stop \<and> stop \<le> sz \<and>
    (\<forall>b \<in> set bs. start \<le> Offset b \<and> 0 < BodySize b \<and> Offset b + BodySize b \<le> stop \<and> validBodyDigest (Digest b)) \<and>
    (\<forall>dat :: string. int (length dat) = sz \<longrightarrow>
       concat (map (\<lambda>b. take (nat (BodySize b)) (drop (nat (Offset b)) dat)) bs) =
       take (nat (stop - start)) (drop (nat start) dat))"
  using assms
proof (induction bs arbitrary: start)
  case (Cons b bs)
  have b: "Offset b = start" "0 < BodySize b" "BodySize b \<le> sz - start" "validBodyDigest (Digest b)"
    and rest: "validateBodies sz (start + BodySize b) bs = Inr stop"
    using Cons.prems(1) by (auto split: if_splits)
  have IH': "start + BodySize b \<le> stop \<and> stop \<le> sz \<and>
    (\<forall>c \<in> set bs. start + BodySize b \<le> Offset c \<and> 0 < BodySize c \<and> Offset c + BodySize c \<le> stop \<and> validBodyDigest (Digest c)) \<and>
    (\<forall>dat :: string. int (length dat) = sz \<longrightarrow>
       concat (map (\<lambda>b. take (nat (BodySize b)) (drop (nat (Offset b)) dat)) bs) =
       take (nat (stop - (start + BodySize b))) (drop (nat (start + BodySize b)) dat))"
    by (rule Cons.IH [OF rest]) (use b Cons.prems in auto)
  have "take (nat (BodySize b)) (drop (nat start) dat) @ take (nat (stop - (start + BodySize b))) (drop (nat (start + BodySize b)) dat) =
      take (nat (stop - start)) (drop (nat start) dat)" for dat :: string
  proof -
    have "nat (stop - start) = nat (BodySize b) + nat (stop - (start + BodySize b))"
      "nat (start + BodySize b) = nat (BodySize b) + nat start" using b Cons.prems IH' by auto
    then show ?thesis by (simp add: take_add)
  qed
  then show ?case using b IH' Cons.prems by auto
qed auto

lemma usedBodies_nth:
  assumes "\<forall>r \<in> set rs. 0 \<le> BodyIndex r \<and> BodyIndex r < int n" "length us = n" "j < n" "0 < n"
  shows "fold (\<lambda>r used. if 0 < n then used[nat (BodyIndex r) := True] else used) rs us ! j \<longleftrightarrow>
    us ! j \<or> (\<exists>r \<in> set rs. nat (BodyIndex r) = j)"
  using assms
proof (induction rs arbitrary: us)
  case (Cons r rs)
  then show ?case by (auto simp: nth_list_update)
qed simp

lemma length_usedBodies: "length (usedBodies n rs) = n"
proof -
  have "length (fold (\<lambda>r used. if 0 < n then used[nat (BodyIndex r) := True] else used) rs us) = length us" for us
    by (induction rs arbitrary: us) auto
  then show ?thesis by (simp add: usedBodies_def)
qed

subsection \<open>Envelopes\<close>

lemma validateEnvelope_ok:
  assumes "validateEnvelope toASCII h e = (None, e')"
  obtains rs where "e' = e\<lparr>Recipients := rs\<rparr>" "validateHeader h e = None" "validateHeader h e' = None"
    "list_all (recipient_ok toASCII (length (Bodies e))) rs" "length rs = length (Recipients e)"
    "map BodyIndex rs = map BodyIndex (Recipients e)"
    "map Recipient.Address rs = map Recipient.Address (Recipients e)"
    "list_all id (usedBodies (length (Bodies e)) rs)" "needsUTF8 e' \<longrightarrow> SMTPUTF8 e'"
    "envelopeMetadataWithinLimit e'"
proof -
  obtain rs where e': "e' = e\<lparr>Recipients := rs\<rparr>" and hd: "validateHeader h e = None"
    and vr: "validateRecipients toASCII (length (Bodies e)) (Recipients e) = (None, rs)"
    and u: "list_all id (usedBodies (length (Bodies e)) (Recipients e))" "needsUTF8 e \<longrightarrow> SMTPUTF8 e"
      "envelopeMetadataWithinLimit e'"
    using assms by (auto simp: validateEnvelope_def Let_def split: option.splits prod.splits)
  note ok = validateRecipients_ok [OF vr]
  note same = same_but_domain [OF conjunct2 [OF ok]]
  show ?thesis
  proof (rule that [OF e' hd _ _ same])
    show "validateHeader h e' = None" using hd validateHeader_cong [OF same(1)] by (simp add: e')
    show "list_all (recipient_ok toASCII (length (Bodies e))) rs" using ok by blast
    show "list_all id (usedBodies (length (Bodies e)) rs)" using u(1) usedBodies_cong [OF same(2)] by simp
    show "needsUTF8 e' \<longrightarrow> SMTPUTF8 e'" using u(2) needsUTF8_cong [OF same(3)] by (simp add: e')
  qed (rule u)
qed

lemma validateEnvelope_fixed:
  assumes "idnaOK toASCII" "validateEnvelope toASCII h e = (None, e')"
  shows "validateEnvelope toASCII h e' = (None, e')"
  using assms(2)
proof (rule validateEnvelope_ok)
  fix rs
  assume a: "e' = e\<lparr>Recipients := rs\<rparr>" "validateHeader h e' = None"
    "list_all (recipient_ok toASCII (length (Bodies e))) rs"
    "list_all id (usedBodies (length (Bodies e)) rs)" "needsUTF8 e' \<longrightarrow> SMTPUTF8 e'" "envelopeMetadataWithinLimit e'"
  have "validateRecipients toASCII (length (Bodies e')) (Recipients e') = (None, rs)"
    using validateRecipients_fixed [OF assms(1) a(3)] a(1) by simp
  then show ?thesis using a(2,4-6) by (simp add: validateEnvelope_def Let_def a(1))
qed

subsection \<open>Properties\<close>

definition sampleDigest :: string where
  "sampleDigest = bodyDigestPrefix @ replicate 64 (CHR ''a'')"

definition sampleSubmission :: Envelope where
  "sampleSubmission =
     \<lparr>ID = ''m1'', Incarnation = replicate 32 (CHR ''0''), Revision = 1, Username = ''alice'', Sender = ''alice@example.org'',
      Recipients =
        [\<lparr>Address = ''bob@Example.COM'', Domain = [], BodyIndex = 1, RStatus = [], Detail = [], Code = 0, EnhancedCode = []\<rparr>,
         \<lparr>Address = ''eve@example.net'', Domain = [], BodyIndex = 0, RStatus = StatusSent, Detail = [], Code = 250,
          EnhancedCode = ''2.0.0''\<rparr>],
      Bodies =
        [\<lparr>Offset = 0, BodySize = 3, Digest = sampleDigest, BodyEightBit = False\<rparr>,
         \<lparr>Offset = 3, BodySize = 2, Digest = sampleDigest, BodyEightBit = False\<rparr>],
      Size = 5, Created = 1, Attempts = 0, NextAttempt = 1, LastError = [], SMTPUTF8 = False, EightBit = False,
      BodyDigest = sampleDigest, DSNIDLink = [], DSNSourceID = [], DSNSourceIncarnation = [], DSNSourceRevision = 0,
      DSNGeneration = 0, PreferredDomain = [], index = -1\<rparr>"

definition sampleHash :: "string \<Rightarrow> string" where
  "sampleHash s = replicate 64 (CHR ''a'')"

lemma sampleSubmission_valid:
  "validateEnvelope sampleIDNA sampleHash sampleSubmission =
     (None, sampleSubmission\<lparr>Recipients :=
        [(Recipients sampleSubmission ! 0)\<lparr>Domain := ''example.com'', RStatus := StatusPending\<rparr>,
         (Recipients sampleSubmission ! 1)\<lparr>Domain := ''example.net''\<rparr>]\<rparr>)"
  by code_simp

text \<open>C24: an envelope that validation accepts is in normal form: only the status and the routing
  domain of its recipients were filled in, every recipient carries the routing domain of its
  address, and validating the result once more, as every later metadata update does on a copy
  that shares the recipients, accepts it without changing anything.\<close>

theorem validation_normal_form:
  assumes "idnaOK toASCII" "validateEnvelope toASCII hexdigest e = (None, e')"
  shows "validateEnvelope toASCII hexdigest e' = (None, e') \<and>
    e' = e\<lparr>Recipients := Recipients e'\<rparr> \<and>
    map Recipient.Address (Recipients e') = map Recipient.Address (Recipients e) \<and>
    (\<forall>r \<in> set (Recipients e'). DomainOf toASCII (Recipient.Address r) = Inr (Domain r) \<and>
       RStatus r \<in> {StatusPending, StatusSent, StatusFailed})"
proof -
  have fixed: "validateEnvelope toASCII hexdigest e' = (None, e')" by (rule validateEnvelope_fixed) fact+
  from assms(2) show ?thesis
  proof (rule validateEnvelope_ok)
    fix rs
    assume a: "e' = e\<lparr>Recipients := rs\<rparr>" "list_all (recipient_ok toASCII (length (Bodies e))) rs"
      "map Recipient.Address rs = map Recipient.Address (Recipients e)"
    then have "\<forall>r \<in> set (Recipients e'). DomainOf toASCII (Recipient.Address r) = Inr (Domain r) \<and>
       RStatus r \<in> {StatusPending, StatusSent, StatusFailed}"
      by (auto simp: list_all_iff recipient_ok_def)
    with fixed a(1,3) show ?thesis by simp
  qed
qed

theorem validation_normal_form_witness:
  "\<exists>e'. validateEnvelope sampleIDNA sampleHash sampleSubmission = (None, e') \<and>
     validateEnvelope sampleIDNA sampleHash e' = (None, e')"
  using validation_normal_form [OF sampleIDNA_ok sampleSubmission_valid] sampleSubmission_valid by blast

text \<open>C25: the message bodies of an accepted envelope tile the stored data: each is a non-empty range
  within it, joined in order they are the data, every recipient selects one of them and every
  one is selected, so that neither selecting a body nor slicing it can go out of range.\<close>

theorem validation_bodies_tile:
  fixes dat :: string
  assumes "validateEnvelope toASCII hexdigest e = (None, e')" "Bodies e' \<noteq> []" "int (length dat) = Size e'"
  shows "concat (map (\<lambda>b. take (nat (BodySize b)) (drop (nat (Offset b)) dat)) (Bodies e')) = dat \<and>
    (\<forall>b \<in> set (Bodies e'). 0 \<le> Offset b \<and> 0 < BodySize b \<and> Offset b + BodySize b \<le> Size e') \<and>
    (\<forall>i < length (Recipients e'). bodyOf e' i \<noteq> None \<and> MessageSize e' i \<noteq> None) \<and>
    (\<forall>j < length (Bodies e'). \<exists>r \<in> set (Recipients e'). BodyIndex r = int j)"
  using assms(1)
proof (rule validateEnvelope_ok)
  fix rs
  assume a: "e' = e\<lparr>Recipients := rs\<rparr>" "validateHeader hexdigest e' = None"
    "list_all (recipient_ok toASCII (length (Bodies e))) rs" "list_all id (usedBodies (length (Bodies e)) rs)"
  have b: "Bodies e = Bodies e'" "rs = Recipients e'" using a(1) by simp_all
  have sz: "0 \<le> Size e'" and vb: "validateBodies (Size e') 0 (Bodies e') = Inr (Size e')"
    using a(2) assms(2) by (auto simp: validateHeader_def split: sum.splits)
  note tile = validateBodies_tile [OF vb order_refl sz]
  have idx: "\<forall>r \<in> set rs. 0 \<le> BodyIndex r \<and> BodyIndex r < int (length (Bodies e'))"
    using a(3) assms(2) by (auto simp: list_all_iff recipient_ok_def recipientLimits_def b)
  have "\<exists>r \<in> set rs. BodyIndex r = int j" if j: "j < length (Bodies e')" for j
  proof -
    have "usedBodies (length (Bodies e')) rs ! j" using a(4) j by (simp add: b list_all_length length_usedBodies)
    then have "\<exists>r \<in> set rs. nat (BodyIndex r) = j"
      using usedBodies_nth [OF idx length_replicate j, of False] j assms(2) unfolding usedBodies_def by simp
    then show ?thesis using idx by (auto simp: nat_eq_iff)
  qed
  moreover have "bodyOf e' i \<noteq> None" if "i < length (Recipients e')" for i
    using that idx by (auto simp: bodyOf_def Let_def b)
  moreover have "take (nat (Size e' - 0)) (drop (nat 0) dat) = dat" using assms(3) by simp
  ultimately show ?thesis using tile assms(2,3) by (auto simp: MessageSize_def b)
qed

theorem validation_bodies_tile_witness:
  "\<exists>e'. validateEnvelope sampleIDNA sampleHash sampleSubmission = (None, e') \<and>
     concat (map (\<lambda>b. take (nat (BodySize b)) (drop (nat (Offset b)) ''abcde'')) (Bodies e')) = ''abcde''"
proof -
  obtain e' where e': "validateEnvelope sampleIDNA sampleHash sampleSubmission = (None, e')"
      "Bodies e' = Bodies sampleSubmission" "Size e' = Size sampleSubmission"
    using sampleSubmission_valid by simp
  have "Bodies e' \<noteq> []" "int (length ''abcde'') = Size e'" by (simp_all add: e'(2,3)) (simp_all add: sampleSubmission_def)
  from validation_bodies_tile [OF e'(1) this] e'(1) show ?thesis by blast
qed

end
