(* ===== verification/Storage.thy ===== *)
theory Storage
  imports QueueState Validation
begin

text \<open>
  Entries on disk, \<open>src/internal/queue/storage.go\<close>, \<open>body.go\<close> and the quarantine of
  \<open>quarantine.go\<close>, over the spool of \<open>FileSystem\<close>. The code outside the repository and the
  encoders it calls are the record \<open>ext\<close>: the IDNA profile, SHA-256 in hexadecimal, and the JSON
  encoding of an envelope with its inverse (\<open>None\<close> for an error).
\<close>

record ext =
  toASCII :: idna
  hexdigest :: "string \<Rightarrow> string"
  marshalJSON :: "Envelope \<Rightarrow> string option"
  unmarshalJSON :: "string \<Rightarrow> Envelope option"

definition metaName :: string where
  "metaName = ''meta.json''"

definition bodyName :: string where
  "bodyName = ''message.eml''"

definition addStateName :: string where
  "addStateName = ''add.state''"

definition reviveMetaName :: string where
  "reviveMetaName = ''revive.json''"

definition maxAddStateBytes :: int where
  "maxAddStateBytes = 64"

text \<open>\<open>strconv.FormatInt\<close> in base 10.\<close>

definition formatInt :: "int \<Rightarrow> string" where
  "formatInt n = (if n < 0 then CHR ''-'' # decimal (nat (- n)) else decimal (nat n))"

subsection \<open>Spool directories\<close>

text \<open>The spool directories themselves; that their own creation survives a crash is not tracked.\<close>

definition sysStatNs :: "spoolDir \<Rightarrow> fsys \<Rightarrow> (gerror + unit) \<times> fsys" where
  "sysStatNs d = syscall (\<lambda>s. if rootV s d then (Inr (), s) else (Inl notExist, s))"

definition sysMkdirNs :: "spoolDir \<Rightarrow> fsys \<Rightarrow> (gerror + unit) \<times> fsys" where
  "sysMkdirNs d = syscall (\<lambda>s. if rootV s d then (Inl (Sentinel OsErrExist), s)
     else (Inr (), s\<lparr>rootV := (rootV s)(d := True)\<rparr>))"

definition sysRmdirNs :: "spoolDir \<Rightarrow> fsys \<Rightarrow> (gerror + unit) \<times> fsys" where
  "sysRmdirNs d = syscall (\<lambda>s. if \<not> rootV s d then (Inl notExist, s)
     else if nsV s d \<noteq> [] then (Inl (Errno 39), s)
     else (Inr (), s\<lparr>rootV := (rootV s)(d := False)\<rparr>))"

text \<open>\<open>disk.MkdirDurable\<close> of a missing spool directory: created, its parent synced, and taken back
  when that fails.\<close>

definition MkdirDurable :: "spoolDir \<Rightarrow> fsys \<Rightarrow> gerror option \<times> fsys" where
  "MkdirDurable d s =
     (let (err, s1) = errOf (sysMkdirNs d s)
      in case err of
           Some e \<Rightarrow>
             if \<not> errors_Is e OsErrExist then (Some e, s1)
             else thenE (errOf (sysStatNs d s1)) (\<lambda>s2. errOf (sysTouch s2))
         | None \<Rightarrow>
             (case errOf (sysTouch s1) of
                (Some e, s2) \<Rightarrow> (Some e, snd (sysRmdirNs d s2))
              | (None, s2) \<Rightarrow> (None, s2)))"

definition ensureDurableDir :: "spoolDir \<Rightarrow> fsys \<Rightarrow> gerror option \<times> fsys" where
  "ensureDurableDir d s =
     (case sysStatNs d s of
        (Inr _, s1) \<Rightarrow> (None, s1)
      | (Inl e, s1) \<Rightarrow> if \<not> errors_Is e OsErrNotExist then (Some e, s1) else MkdirDurable d s1)"

definition quarantineDir :: "entry \<Rightarrow> string \<Rightarrow> gtime \<Rightarrow> fsys \<Rightarrow> gerror option \<times> fsys" where
  "quarantineDir src nm now s =
     thenE (ensureDurableDir dirCorrupt s) (\<lambda>s1.
     case diskRename src (dirCorrupt, nm @ ''.'' @ formatInt now) s1 of
       (Some e, s2) \<Rightarrow> (Some (Wrap ''quarantine'' [e]), s2)
     | (None, s2) \<Rightarrow> (None, s2))"

text \<open>\<open>errors.Is(err, os.ErrNotExist)\<close> and \<open>err == nil\<close> on the result of a call.\<close>

definition missingR :: "gerror + 'a \<Rightarrow> bool" where
  "missingR r = (case r of Inl e \<Rightarrow> errors_Is e OsErrNotExist | Inr _ \<Rightarrow> False)"

definition okR :: "gerror + 'a \<Rightarrow> bool" where
  "okR r = (case r of Inl _ \<Rightarrow> False | Inr _ \<Rightarrow> True)"

text \<open>\<open>moveState\<close> reports whether the rename took effect, also when it returns an error.\<close>

definition moveState :: "entry \<Rightarrow> entry \<Rightarrow> fsys \<Rightarrow> (bool \<times> gerror option) \<times> fsys" where
  "moveState src dst s =
     (case diskRename src dst s of
        (None, s1) \<Rightarrow> ((True, None), s1)
      | (Some err, s1) \<Rightarrow>
          (let (srcR, s2) = sysStat src s1; (dstR, s3) = sysStat dst s2
           in if missingR srcR \<and> okR dstR
              then ((True, Some err), s3) else ((False, Some err), s3)))"

definition removeTrash :: "entry \<Rightarrow> fsys \<Rightarrow> gerror option \<times> fsys" where
  "removeTrash p s =
     (let (removeErr, s1) = RemoveAll p s; (syncErr, s2) = diskSyncNs dirTrash s1
      in (errors_Join [removeErr, syncErr], s2))"

subsection \<open>Reading\<close>

text \<open>\<open>openRegular\<close>: every file of the model is regular, so the type checks never fire.\<close>

definition openRegularFromInfo :: "entry \<Rightarrow> string \<Rightarrow> nat \<Rightarrow> fsys \<Rightarrow> (gerror + nat) \<times> fsys" where
  "openRegularFromInfo p n before s =
     bindE (sysOpen p n s) (\<lambda>f s1.
     bindE (sysTouch s1) (\<lambda>_ s2.
     if before \<noteq> f then (Inl (corruptionf ''queue file changed while opening''), s2) else (Inr f, s2)))"

definition openRegular :: "entry \<Rightarrow> string \<Rightarrow> fsys \<Rightarrow> (gerror + nat) \<times> fsys" where
  "openRegular p n s = bindE (sysStatFile p n s) (\<lambda>before s1. openRegularFromInfo p n before s1)"

definition readBoundedRegular :: "entry \<Rightarrow> string \<Rightarrow> int \<Rightarrow> fsys \<Rightarrow> (gerror + string) \<times> fsys" where
  "readBoundedRegular p n maxBytes s =
     bindE (sysStatFile p n s) (\<lambda>before s1.
     if int (length (fileV s1 before)) > maxBytes then (Inl (corruptionf ''queue metadata exceeds its limit''), s1)
     else
       bindE (openRegularFromInfo p n before s1) (\<lambda>f s2.
       bindE (sysRead f s2) (\<lambda>raw s3.
       if int (length raw) > maxBytes then (Inl (corruptionf ''queue metadata exceeds its limit''), s3) else (Inr raw, s3))))"

definition acceptedDir :: "entry \<Rightarrow> fsys \<Rightarrow> gerror option \<times> fsys" where
  "acceptedDir p s =
     withValue (readBoundedRegular p addStateName maxAddStateBytes s) (\<lambda>st s1.
     if st \<noteq> addAccepted then (Some (corruptionf ''queue entry is not accepted''), s1) else (None, s1))"

definition marshalEnvelope :: "ext \<Rightarrow> Envelope \<Rightarrow> gerror + string" where
  "marshalEnvelope x e =
     (case marshalJSON x e of
        None \<Rightarrow> Inl (Msg ''json'')
      | Some body \<Rightarrow>
          if int (length body) > maxEnvelopeMetadata then Inl (Msg ''envelope metadata exceeds its limit'') else Inr body)"

definition decodeEnvelopeMetadata :: "ext \<Rightarrow> string \<Rightarrow> string \<Rightarrow> gerror + Envelope" where
  "decodeEnvelopeMetadata x raw expectID =
     (case unmarshalJSON x raw of
        None \<Rightarrow> Inl (corruptionf ''invalid json'')
      | Some env \<Rightarrow>
          if ID env \<noteq> expectID then Inl (corruptionf ''id does not match directory'')
          else
            (case ValidateID (ID env) of
               Some e \<Rightarrow> Inl (corruptionf ''invalid stored id'')
             | None \<Rightarrow>
                 (case validateEnvelope (toASCII x) (hexdigest x) env of
                    (Some e, _) \<Rightarrow> Inl (corruptionf ''invalid envelope'')
                  | (None, env') \<Rightarrow> Inr env')))"

definition loadEnvelopeMetadata :: "ext \<Rightarrow> entry \<Rightarrow> string \<Rightarrow> fsys \<Rightarrow> (gerror + Envelope) \<times> fsys" where
  "loadEnvelopeMetadata x p expectID s =
     (case readBoundedRegular p metaName maxEnvelopeMetadata s of
        (Inl e, s1) \<Rightarrow> if errors_Is e OsErrNotExist then (Inl (corruptionf ''missing metadata''), s1) else (Inl e, s1)
      | (Inr raw, s1) \<Rightarrow> (decodeEnvelopeMetadata x raw expectID, s1))"

definition loadAcceptedMetadata :: "ext \<Rightarrow> entry \<Rightarrow> string \<Rightarrow> fsys \<Rightarrow> (gerror + Envelope) \<times> fsys" where
  "loadAcceptedMetadata x p expectID s =
     (case acceptedDir p s of
        (Some e, s1) \<Rightarrow>
          if errors_Is e OsErrNotExist
          then (case sysStat p s1 of
                  (Inr _, s2) \<Rightarrow> (Inl (corruptionf ''queue entry is missing accepted state''), s2)
                | (Inl statErr, s2) \<Rightarrow> (Inl statErr, s2))
          else (Inl e, s1)
      | (None, s1) \<Rightarrow> loadEnvelopeMetadata x p expectID s1)"

subsection \<open>Bodies\<close>

definition bodyDigest :: "ext \<Rightarrow> string \<Rightarrow> string" where
  "bodyDigest x body = bodyDigestPrefix @ hexdigest x body"

text \<open>\<open>data[lo:hi]\<close>; \<open>None\<close> where Go panics.\<close>

definition goSlice :: "string \<Rightarrow> int \<Rightarrow> int \<Rightarrow> string option" where
  "goSlice dat lo hi =
     (if 0 \<le> lo \<and> lo \<le> hi \<and> hi \<le> int (length dat) then Some (take (nat (hi - lo)) (drop (nat lo) dat)) else None)"

definition panicError :: gerror where
  "panicError = Msg ''panic: slice bounds out of range''"

fun verifyBodies :: "ext \<Rightarrow> Body list \<Rightarrow> string \<Rightarrow> gerror option" where
  "verifyBodies x [] dat = None"
| "verifyBodies x (b # bs) dat =
     (case goSlice dat (Offset b) (Offset b + BodySize b) of
        None \<Rightarrow> Some panicError
      | Some variant \<Rightarrow>
          if bodyDigest x variant \<noteq> Digest b then Some (Msg ''digest does not match data'')
          else verifyBodies x bs dat)"

definition verifyBodyData :: "ext \<Rightarrow> Envelope \<Rightarrow> string \<Rightarrow> gerror option" where
  "verifyBodyData x e dat = verifyBodies x (Bodies e) dat"

definition firstBodyVariant :: "ext \<Rightarrow> Envelope \<Rightarrow> string \<Rightarrow> gerror + string" where
  "firstBodyVariant x e dat =
     (case Bodies e of
        [] \<Rightarrow> Inr dat
      | b # _ \<Rightarrow>
          (case goSlice dat (Offset b) (Offset b + BodySize b) of
             None \<Rightarrow> Inl panicError
           | Some variant \<Rightarrow>
               if bodyDigest x variant \<noteq> Digest b then Inl (corruptionf ''message body digest mismatch'') else Inr variant))"

text \<open>\<open>copyExactBody\<close> from the start of a file: at most one byte more than expected is read.\<close>

definition copyExactBody :: "nat \<Rightarrow> int \<Rightarrow> fsys \<Rightarrow> (gerror + string) \<times> fsys" where
  "copyExactBody f expected s =
     (case checkedAddInt64 expected 1 of
        None \<Rightarrow> (Inl (Msg ''body size is too large''), s)
      | Some limit \<Rightarrow>
          bindE (sysRead f s) (\<lambda>raw s1.
          let dat = take (nat limit) raw
          in if int (length dat) \<noteq> expected then (Inl (corruptionf ''body size mismatch while reading''), s1)
             else
               bindE (sysTouch s1) (\<lambda>_ s2.
               if int (length (fileV s2 f)) \<noteq> expected then (Inl (corruptionf ''body size mismatch while reading''), s2)
               else (Inr dat, s2))))"

definition verifyBodyHandle :: "ext \<Rightarrow> nat \<Rightarrow> int \<Rightarrow> string \<Rightarrow> fsys \<Rightarrow> gerror option \<times> fsys" where
  "verifyBodyHandle x f expected digest s =
     thenE (errOf (sysTouch s)) (\<lambda>s.
     withValue (copyExactBody f expected s) (\<lambda>dat s.
     if bodyDigest x dat \<noteq> digest then (Some (corruptionf ''body digest mismatch''), s)
     else errOf (sysTouch s)))"

text \<open>The loop over the bodies: each is read in turn from where the last one ended, and hashed on its
  own and as a part of the whole.\<close>

fun verifyVariants :: "ext \<Rightarrow> nat \<Rightarrow> Body list \<Rightarrow> nat \<Rightarrow> string \<Rightarrow> fsys \<Rightarrow> (gerror + string) \<times> fsys" where
  "verifyVariants x f [] pos whole s = (Inr whole, s)"
| "verifyVariants x f (b # bs) pos whole s =
     bindE (sysRead f s) (\<lambda>raw s1.
     let part = take (nat (BodySize b)) (drop pos raw)
     in if int (length part) \<noteq> BodySize b then (Inl (corruptionf ''body size mismatch while reading''), s1)
        else if bodyDigest x part \<noteq> Digest b then (Inl (corruptionf ''body digest mismatch''), s1)
        else verifyVariants x f bs (pos + length part) (whole @ part) s1)"

definition verifyEnvelopeBodyHandle :: "ext \<Rightarrow> nat \<Rightarrow> Envelope \<Rightarrow> fsys \<Rightarrow> gerror option \<times> fsys" where
  "verifyEnvelopeBodyHandle x f e s =
     (if Bodies e = [] then verifyBodyHandle x f (Size e) (BodyDigest e) s
      else
        thenE (errOf (sysTouch s)) (\<lambda>s.
        withValue (verifyVariants x f (Bodies e) 0 [] s) (\<lambda>whole s.
        thenE (errOf (sysTouch s)) (\<lambda>s.
        if int (length (fileV s f)) \<noteq> Size e then (Some (corruptionf ''body size mismatch while reading''), s)
        else if bodyDigest x whole \<noteq> BodyDigest e then (Some (corruptionf ''body digest mismatch''), s)
        else errOf (sysTouch s)))))"

definition checkBody :: "ext \<Rightarrow> entry \<Rightarrow> Envelope \<Rightarrow> fsys \<Rightarrow> (gerror + Envelope) \<times> fsys" where
  "checkBody x p env s =
     (case openRegular p bodyName s of
        (Inl e, s1) \<Rightarrow>
          if errors_Is e OsErrNotExist then (Inl (corruptionf ''missing body''), s1)
          else (Inl (Wrap ''missing body'' [e]), s1)
      | (Inr f, s1) \<Rightarrow>
          if int (length (fileV s1 f)) \<noteq> Size env then (Inl (corruptionf ''body size mismatch''), s1)
          else
            (case verifyEnvelopeBodyHandle x f env s1 of
               (Some e, s2) \<Rightarrow> (Inl e, s2)
             | (None, s2) \<Rightarrow> (Inr env, s2)))"

definition loadDir :: "ext \<Rightarrow> entry \<Rightarrow> string \<Rightarrow> fsys \<Rightarrow> (gerror + Envelope) \<times> fsys" where
  "loadDir x p expectID s =
     bindE (loadEnvelopeMetadata x p expectID s) (\<lambda>env s1. checkBody x p env s1)"

definition loadAcceptedDir :: "ext \<Rightarrow> entry \<Rightarrow> string \<Rightarrow> fsys \<Rightarrow> (gerror + Envelope) \<times> fsys" where
  "loadAcceptedDir x p expectID s =
     bindE (loadAcceptedMetadata x p expectID s) (\<lambda>env s1. checkBody x p env s1)"

subsection \<open>Updates of metadata\<close>

text \<open>Recipients and bodies are compared pairwise.\<close>

definition sameMessageContent :: "Envelope \<Rightarrow> Envelope \<Rightarrow> bool" where
  "sameMessageContent current updated =
     (if Username current \<noteq> Username updated \<or> Sender current \<noteq> Sender updated then False
      else if Created current \<noteq> Created updated then False
      else if SMTPUTF8 current \<noteq> SMTPUTF8 updated \<or> EightBit current \<noteq> EightBit updated then False
      else if length (Bodies current) \<noteq> length (Bodies updated) \<or> length (Recipients current) \<noteq> length (Recipients updated)
      then False
      else if \<not> list_all2 (\<lambda>a b. a = b) (Bodies current) (Bodies updated) then False
      else
        list_all2 (\<lambda>before after. Recipient.Address before = Recipient.Address after \<and>
          Domain before = Domain after \<and> BodyIndex before = BodyIndex after) (Recipients current) (Recipients updated))"

definition sameDSNSourceLinkage :: "Envelope \<Rightarrow> Envelope \<Rightarrow> bool" where
  "sameDSNSourceLinkage current updated =
     (if DSNSourceID current \<noteq> DSNSourceID updated \<or> DSNSourceIncarnation current \<noteq> DSNSourceIncarnation updated then False
      else if DSNSourceRevision current \<noteq> DSNSourceRevision updated \<or> DSNGeneration current \<noteq> DSNGeneration updated then False
      else True)"

definition sameDSNLinkage :: "Envelope \<Rightarrow> Envelope \<Rightarrow> bool" where
  "sameDSNLinkage current updated =
     (if DSNIDLink current \<noteq> DSNIDLink updated then False else sameDSNSourceLinkage current updated)"

definition sameMessageIdentity :: "Envelope \<Rightarrow> Envelope \<Rightarrow> bool" where
  "sameMessageIdentity current updated = (sameMessageContent current updated \<and> sameDSNLinkage current updated)"

definition addsDSNLink :: "Envelope \<Rightarrow> Envelope \<Rightarrow> bool" where
  "addsDSNLink current updated =
     (if DSNIDLink current \<noteq> [] \<or> DSNIDLink updated = [] then False else sameDSNSourceLinkage current updated)"

definition idConflict :: "string \<Rightarrow> gerror" where
  "idConflict m = Wrap m [Sentinel ErrIDConflict]"

definition matchReadyUpdate :: "ext \<Rightarrow> Envelope \<Rightarrow> bool \<Rightarrow> fsys \<Rightarrow> gerror option \<times> fsys" where
  "matchReadyUpdate x e allowDSNLink s =
     (let p = (dirReady, ID e)
      in thenE (acceptedDir p s) (\<lambda>s1.
         withValue (loadDir x p (ID e) s1) (\<lambda>current s2.
         if Incarnation current \<noteq> Incarnation e then (Some (idConflict ''queue incarnation changed''), s2)
         else if Revision current \<noteq> Revision e then (Some (idConflict ''queue metadata changed''), s2)
         else if Size current \<noteq> Size e \<or> BodyDigest current \<noteq> BodyDigest e
         then (Some (idConflict ''queue body identity changed''), s2)
         else if \<not> (if allowDSNLink then sameMessageContent current e \<and> addsDSNLink current e
                    else sameMessageIdentity current e)
         then (Some (idConflict ''queue message identity changed''), s2)
         else (None, s2))))"

definition matchReady :: "ext \<Rightarrow> Envelope \<Rightarrow> fsys \<Rightarrow> gerror option \<times> fsys" where
  "matchReady x e s = matchReadyUpdate x e False s"

text \<open>The result is whether the update is in effect, whether a temporary file may remain, and the error.\<close>

definition writeMetaReconciled :: "ext \<Rightarrow> entry \<Rightarrow> Envelope \<Rightarrow> fsys \<Rightarrow> (bool \<times> bool \<times> gerror option) \<times> fsys" where
  "writeMetaReconciled x p e s =
     (case marshalEnvelope x e of
        Inl err \<Rightarrow> ((False, False, Some err), s)
      | Inr body \<Rightarrow>
          (case WriteWithTempState p metaName body s of
             ((retainedTemp, Some err), s1) \<Rightarrow>
               (case readBoundedRegular p metaName maxEnvelopeMetadata s1 of
                  (Inr visible, s2) \<Rightarrow>
                    if visible = body then ((True, retainedTemp, Some err), s2)
                    else ((False, retainedTemp, errors_Join [Some err, None]), s2)
                | (Inl readErr, s2) \<Rightarrow> ((False, retainedTemp, errors_Join [Some err, Some readErr]), s2))
           | ((_, None), s1) \<Rightarrow> ((True, False, None), s1)))"

definition setAccountedRevision :: "Envelope \<Rightarrow> Queue \<Rightarrow> Queue" where
  "setAccountedRevision e q =
     (case mget (accounted q) (ID e) of
        None \<Rightarrow> q
      | Some a \<Rightarrow>
          if aincarnation a = Incarnation e
          then q\<lparr>accounted := mput (ID e) (a\<lparr>arevision := Revision e\<rparr>) (accounted q)\<rparr> else q)"

text \<open>The update of an envelope in place; the validation of the copy fills in the recipients, which
  the copy shares with the caller's envelope. The result is whether a temporary file may
  remain uncharged, the error, the caller's envelope, the queue and the spool.\<close>

definition storeReadyUpdate ::
  "ext \<Rightarrow> Envelope \<Rightarrow> bool \<Rightarrow> Queue \<Rightarrow> fsys \<Rightarrow> bool \<times> gerror option \<times> Envelope \<times> Queue \<times> fsys" where
  "storeReadyUpdate x e allowDSNLink q s =
     (case incrementRevision (Revision e) of
        Inl err \<Rightarrow> (False, Some err, e, q, s)
      | Inr nextRevision \<Rightarrow>
          (let p = (dirReady, ID e)
           in case matchReadyUpdate x e allowDSNLink s of
                (Some err, s1) \<Rightarrow> (False, Some err, e, q, s1)
              | (None, s1) \<Rightarrow>
                  (case AllocatedBytes p s1 of
                     (Inl err, s2) \<Rightarrow> (False, Some err, e, q, s2)
                   | (Inr before, s2) \<Rightarrow>
                       (let (verr, updated) = validateEnvelope (toASCII x) (hexdigest x) (e\<lparr>Revision := nextRevision\<rparr>);
                            e1 = e\<lparr>Recipients := Recipients updated\<rparr>
                        in case verr of
                             Some err \<Rightarrow> (False, Some err, e1, q, s2)
                           | None \<Rightarrow>
                               (case marshalEnvelope x updated of
                                  Inl err \<Rightarrow> (False, Some err, e1, q, s2)
                                | Inr metadata \<Rightarrow>
                                    (let ((committed, retainedTemp, err), s3) = writeMetaReconciled x p updated s2;
                                         (measured, s4) = AllocatedBytes p s3;
                                         (retained, q1, err1) =
                                           (case measured of
                                              Inr after \<Rightarrow> (False, adjustPhysicalDelta before after q, err)
                                            | Inl measureErr \<Rightarrow>
                                                if committed \<or> retainedTemp
                                                then (False,
                                                      addPhysicalLocked (wrap64 (AllocationSize (int (length metadata)) + AllocationSize 0)) q,
                                                      errors_Join [err, Some (Wrap ''measure updated queue entry'' [measureErr])])
                                                else (retainedTemp, q, err))
                                     in if \<not> committed then (retained, err1, e1, q1, s4)
                                        else
                                          (let e2 = e1\<lparr>Revision := Revision updated\<rparr>
                                           in (retained, err1, e2, setAccountedRevision e2 q1, s4))))))))"

definition storeReady :: "ext \<Rightarrow> Envelope \<Rightarrow> Queue \<Rightarrow> fsys \<Rightarrow> bool \<times> gerror option \<times> Envelope \<times> Queue \<times> fsys" where
  "storeReady x e q s = storeReadyUpdate x e False q s"

definition storeReadyDSNLink :: "ext \<Rightarrow> Envelope \<Rightarrow> Queue \<Rightarrow> fsys \<Rightarrow> bool \<times> gerror option \<times> Envelope \<times> Queue \<times> fsys" where
  "storeReadyDSNLink x e q s = storeReadyUpdate x e True q s"

end
