(* ===== verification/Add.thy ===== *)
theory Add
  imports Storage
begin

text \<open>
  Accepting a message, \<open>src/internal/queue/add.go\<close>. The queue and the spool are threaded through
  in the order of the code, deferred calls included: they run last in, first out, the cleanup
  of \<open>tmp/\<close> before the reservation is given back, and the ownership of the ID last but one. The
  mutation lock holds nothing but the order of operations. The caller's context is polled
  through \<open>ctxErr\<close>, and is not nil.
\<close>

subsection \<open>The commit point\<close>

definition writeAddState :: "nat \<Rightarrow> string \<Rightarrow> fsys \<Rightarrow> gerror option \<times> fsys" where
  "writeAddState f st s =
     (case sysWriteAt f st s of
        ((n, Some e), s1) \<Rightarrow> (Some e, s1)
      | ((n, None), s1) \<Rightarrow> if n \<noteq> length st then (Some (Msg ''short write''), s1) else (None, s1))"

text \<open>Whether the state is rolled back, and the error. The hook \<open>beforeAddRollback\<close> of the tests is
  a call that may fail.\<close>

definition rollbackAdd :: "nat \<Rightarrow> gerror \<Rightarrow> fsys \<Rightarrow> (bool \<times> gerror) \<times> fsys" where
  "rollbackAdd f cause s =
     (case errOf (sysTouch s) of
        (Some e, s1) \<Rightarrow> ((False, Wrap [] [cause, Wrap ''rollback add state'' [e]]), s1)
      | (None, s1) \<Rightarrow>
          (case writeAddState f addPending s1 of
             (Some e, s2) \<Rightarrow> ((False, Wrap [] [cause, Wrap ''rollback add state'' [e]]), s2)
           | (None, s2) \<Rightarrow>
               (case SyncFile f s2 of
                  (Some e, s3) \<Rightarrow> ((False, Wrap [] [cause, Wrap ''sync rolled-back add state'' [e]]), s3)
                | (None, s3) \<Rightarrow> ((True, cause), s3))))"

definition acceptFailed :: "nat \<Rightarrow> gerror \<Rightarrow> fsys \<Rightarrow> gerror option \<times> fsys" where
  "acceptFailed f cause s =
     (let ((rolledBack, result), s1) = rollbackAdd f cause s
      in (Some (if \<not> rolledBack then acceptanceUnknown result else result), s1))"

definition acceptAdd :: "entry \<Rightarrow> fsys \<Rightarrow> gerror option \<times> fsys" where
  "acceptAdd p s =
     withValue (sysOpen p addStateName s) (\<lambda>f s1.
     case writeAddState f addAccepted s1 of
       (Some e, s2) \<Rightarrow> acceptFailed f e s2
     | (None, s2) \<Rightarrow>
         (case SyncFile f s2 of
            (Some e, s3) \<Rightarrow> acceptFailed f e s3
          | (None, s3) \<Rightarrow> (None, s3)))"

subsection \<open>Staging and undoing\<close>

text \<open>The staging directory is cleared and made anew.\<close>

definition addMkTmp :: "string \<Rightarrow> fsys \<Rightarrow> gerror option \<times> fsys" where
  "addMkTmp i s =
     (case RemoveAll (dirTmp, i) s of
        (Some err, s2) \<Rightarrow> if errors_Is err OsErrNotExist then diskMkdir (dirTmp, i) s2 else (Some err, s2)
      | (None, s2) \<Rightarrow> diskMkdir (dirTmp, i) s2)"

text \<open>From the staging directory to the rename into \<open>ready/\<close>.\<close>

definition addStage :: "string \<Rightarrow> string \<Rightarrow> string \<Rightarrow> fsys \<Rightarrow> gerror option \<times> fsys" where
  "addStage i dat meta s =
     (let tmp = (dirTmp, i)
      in thenE (ctxErr s) (\<lambda>s.
         thenE (diskWrite tmp addStateName addPending s) (\<lambda>s.
         thenE (ctxErr s) (\<lambda>s.
         thenE (diskWrite tmp bodyName dat s) (\<lambda>s.
         thenE (ctxErr s) (\<lambda>s.
         thenE (diskWrite tmp metaName meta s) (\<lambda>s.
         thenE (ctxErr s) (\<lambda>s.
         thenE (diskSyncEntry tmp s) (\<lambda>s.
         thenE (ctxErr s) (\<lambda>s.
         diskRename tmp (dirReady, i) s))))))))))"

text \<open>The deferred cleanup of the staging directory: whether something may remain on disk.\<close>

definition addCleanup :: "string \<Rightarrow> fsys \<Rightarrow> bool \<times> fsys" where
  "addCleanup i s =
     (let (removeErr, s1) = RemoveAll (dirTmp, i) s;
          (syncErr, s2) = diskSyncNs dirTmp s1;
          (tmpR, s3) = sysStat (dirTmp, i) s2;
          (readyR, s4) = sysStat (dirReady, i) s3
      in (removeErr \<noteq> None \<or> syncErr \<noteq> None \<or> okR tmpR \<or> okR readyR, s4))"

definition blockID :: "string \<Rightarrow> Queue \<Rightarrow> Queue" where
  "blockID i q = q\<lparr>blocked := List.insert i (blocked q)\<rparr>"

text \<open>\<open>abortReady\<close>: the error to return, what is left of the physical reservation, the queue and
  the spool.\<close>

definition abortReady ::
  "Envelope \<Rightarrow> int \<Rightarrow> int \<Rightarrow> gtime \<Rightarrow> gerror \<Rightarrow> Queue \<Rightarrow> fsys \<Rightarrow> gerror \<times> int \<times> Queue \<times> fsys" where
  "abortReady e metaLen physicalHeld now cause q s =
     (let ready = (dirReady, ID e);
          (measured, s1) = AllocatedBytes ready s;
          persistent = (case measured of Inr n \<Rightarrow> n | Inl _ \<Rightarrow> estimatePersistentEntryAllocation (Size e) metaLen);
          (abortErr, s2) = quarantineDir ready (ID e @ ''-uncommitted'') now s1;
          commitPhysicalBytes = min persistent physicalHeld;
          q1 = commitPhysicalLocked commitPhysicalBytes q;
          held = physicalHeld - commitPhysicalBytes
      in case abortErr of
           None \<Rightarrow> (definiteAcceptanceCause cause, held, q1, s2)
         | Some ae \<Rightarrow>
             (let (syncErr, s3) = diskSyncNs dirReady s2;
                  (statR, s4) = sysStat ready s3
              in if syncErr = None \<and> missingR statR
                 then (Wrap [] [definiteAcceptanceCause cause,
                                Wrap ''quarantine reported an error after removing ready entry'' [ae]], held, q1, s4)
                 else
                   (let cleanupErr =
                          somes ([Some ae, syncErr] @
                                 (case statR of Inl e \<Rightarrow> if errors_Is e OsErrNotExist then [] else [Some e] | Inr _ \<Rightarrow> []))
                    in if IsAcceptanceUnknown (Some cause)
                       then (acceptanceUnknown (Wrap [] [definiteAcceptanceCause cause,
                               Wrap ''quarantine failed add'' cleanupErr]), held, blockID (ID e) q1, s4)
                       else (Wrap [] [cause, Wrap ''quarantine failed add'' cleanupErr], held, q1, s4))))"

subsection \<open>The operation\<close>

text \<open>Publication of an accepted message.\<close>

definition publishAdd :: "Envelope \<Rightarrow> int \<Rightarrow> int \<Rightarrow> Queue \<Rightarrow> Queue" where
  "publishAdd e metaLen physicalHeld q =
     (let persistentPhysical = estimatePersistentEntryAllocation (Size e) metaLen;
          q1 = commitPhysicalLocked persistentPhysical q;
          q2 = releaseReserveLocked (Size e) (wrap64 (physicalHeld - persistentPhysical)) (Username e) q1;
          (_, q3) = noteAddedLocked e q2;
          (_, q4) = scheduleLocked e (releaseTransition (ID e) q3)
      in signal q4)"

text \<open>What follows a granted reservation. A failure gives the reservation back, less what was
  charged for data that may remain.\<close>

definition addAbort :: "Envelope \<Rightarrow> int \<Rightarrow> Queue \<Rightarrow> Queue" where
  "addAbort e physicalHeld q = releaseReserveLocked (Size e) physicalHeld (Username e) q"

definition addReserved ::
  "Envelope \<Rightarrow> string \<Rightarrow> string \<Rightarrow> int \<Rightarrow> gtime \<Rightarrow> Queue \<Rightarrow> fsys \<Rightarrow> gerror option \<times> Queue \<times> fsys" where
  "addReserved e dat meta physical now q s =
     (let i = ID e; metaLen = int (length meta)
      in case ctxErr s of
           (Some err, s1) \<Rightarrow> (Some err, addAbort e physical q, s1)
         | (None, s1) \<Rightarrow>
             (case addMkTmp i s1 of
                (Some err, s2) \<Rightarrow> (Some err, addAbort e physical q, s2)
              | (None, s2) \<Rightarrow>
                  (case addStage i dat meta s2 of
                     (Some err, s3) \<Rightarrow>
                       (let (remains, s4) = addCleanup i s3
                        in if remains \<and> physical \<noteq> 0
                           then (Some err, addAbort e 0 (commitPhysicalLocked physical q), s4)
                           else (Some err, addAbort e physical q, s4))
                   | (None, s3) \<Rightarrow>
                       (case (case ctxErr s3 of (Some err, s4) \<Rightarrow> (Some err, s4) | (None, s4) \<Rightarrow> acceptAdd (dirReady, i) s4) of
                          (Some err, s4) \<Rightarrow>
                            (let (err', held, q1, s5) = abortReady e metaLen physical now err q s4
                             in (Some err', addAbort e held q1, s5))
                        | (None, s4) \<Rightarrow> (None, publishAdd e metaLen physical q, s4)))))"

text \<open>The search for the ID in the spool. A prior attempt that was never accepted is moved away.\<close>

definition idExists :: gerror where
  "idExists = idConflict ''queue id already exists''"

definition addElsewhere :: "string \<Rightarrow> fsys \<Rightarrow> gerror option \<times> fsys" where
  "addElsewhere i s =
     (case sysStat (dirDead, i) s of
        (Inr _, s1) \<Rightarrow> (Some idExists, s1)
      | (Inl e, s1) \<Rightarrow>
          if \<not> errors_Is e OsErrNotExist then (Some e, s1)
          else
            (case sysStat (dirDSN, i) s1 of
               (Inr _, s2) \<Rightarrow> (Some idExists, s2)
             | (Inl e, s2) \<Rightarrow> if \<not> errors_Is e OsErrNotExist then (Some e, s2) else (None, s2)))"

definition addClear :: "string \<Rightarrow> gtime \<Rightarrow> fsys \<Rightarrow> gerror option \<times> fsys" where
  "addClear i now s =
     (case sysStat (dirReady, i) s of
        (Inr _, s1) \<Rightarrow>
          withValue (readBoundedRegular (dirReady, i) addStateName maxAddStateBytes s1) (\<lambda>st s2.
          if st = addAccepted then (Some idExists, s2)
          else
            (case quarantineDir (dirReady, i) (i @ ''-uncommitted'') now s2 of
               (Some e, s3) \<Rightarrow> (Some (Wrap ''reconcile prior uncommitted add'' [e]), s3)
             | (None, s3) \<Rightarrow> addElsewhere i s3))
      | (Inl e, s1) \<Rightarrow> if \<not> errors_Is e OsErrNotExist then (Some e, s1) else addElsewhere i s1)"

text \<open>What the operation takes from outside: the fresh incarnation, the times it reads, a
  measurement of the spool and the free disk space.\<close>

record addInput =
  freshIncarnation :: "gerror + string"
  startTime :: gtime
  clearTime :: gtime
  abortTime :: gtime
  spoolUsage :: "gerror + int"
  freeSpace :: freeDisk

text \<open>After \<open>startMutation\<close>: the error, the envelope as it is left, the queue and the spool.\<close>

definition addOwned ::
  "ext \<Rightarrow> addInput \<Rightarrow> Envelope \<Rightarrow> string \<Rightarrow> Queue \<Rightarrow> fsys \<Rightarrow> gerror option \<times> Envelope \<times> Queue \<times> fsys" where
  "addOwned x inp e dat q s =
     (case ctxErr s of
        (Some err, s1) \<Rightarrow> (Some err, e, q, s1)
      | (None, s1) \<Rightarrow>
          if ID e \<in> set (blocked q) then (Some (idConflict ''queue id is blocked by an unresolved corrupt entry''), e, q, s1)
          else if mget (accounted q) (ID e) \<noteq> None then (Some (idConflict ''queue id is already ready''), e, q, s1)
          else
            (case addClear (ID e) (clearTime inp) s1 of
               (Some err, s2) \<Rightarrow> (Some err, e, q, s2)
             | (None, s2) \<Rightarrow>
                 (let (verr, e1) = validateEnvelope (toASCII x) (hexdigest x)
                        (e\<lparr>Size := int (length dat), BodyDigest := bodyDigest x dat\<rparr>)
                  in case firstErr [verr, verifyBodyData x e1 dat] of
                       Some err \<Rightarrow> (Some err, e1, q, s2)
                     | None \<Rightarrow>
                         (case marshalEnvelope x e1 of
                            Inl err \<Rightarrow> (Some err, e1, q, s2)
                          | Inr meta \<Rightarrow>
                              (case ctxErr s2 of
                                 (Some err, s3) \<Rightarrow> (Some err, e1, q, s3)
                               | (None, s3) \<Rightarrow>
                                   (let physical = estimateEntryAllocation (Size e1) (int (length meta))
                                    in case reserveLocked (freeSpace inp) (Size e1) physical False False (Username e1) q of
                                         (Some err, q1) \<Rightarrow> (Some err, e1, q1, s3)
                                       | (None, q1) \<Rightarrow>
                                           (let (err, q2, s4) = addReserved e1 dat meta physical (abortTime inp) q1 s3
                                            in (err, e1, q2, s4))))))))"

definition addPrecheck :: "Envelope \<Rightarrow> gerror option" where
  "addPrecheck e =
     firstErr
       [ValidateID (ID e),
        fails (DSNSourceID e \<noteq> [] \<or> DSNIDLink e \<noteq> [] \<or> DSNGeneration e \<noteq> 0)
          ''DSN state is managed by AddDSN and ReviveDead'']"

definition AddContext ::
  "ext \<Rightarrow> addInput \<Rightarrow> Envelope option \<Rightarrow> string \<Rightarrow> Queue \<Rightarrow> fsys \<Rightarrow> gerror option \<times> Envelope option \<times> Queue \<times> fsys" where
  "AddContext x inp envelope dat q s =
     (case ctxErr s of
        (Some err, s1) \<Rightarrow> (Some err, envelope, q, s1)
      | (None, s1) \<Rightarrow>
          (case beginOperation q of
             (Some err, q1) \<Rightarrow> (Some err, envelope, q1, s1)
           | (None, q1) \<Rightarrow>
               (case rejectReadOnly q1 of
                  Some err \<Rightarrow> (Some err, envelope, endOperation q1, s1)
                | None \<Rightarrow>
                    (case envelope of
                       None \<Rightarrow> (Some (Msg ''missing envelope''), envelope, endOperation q1, s1)
                     | Some e \<Rightarrow>
                         (case addPrecheck e of
                            Some err \<Rightarrow> (Some err, envelope, endOperation q1, s1)
                          | None \<Rightarrow>
                              (case freshIncarnation inp of
                                 Inl err \<Rightarrow> (Some err, envelope, endOperation q1, s1)
                               | Inr inc \<Rightarrow>
                                   (let e1 = e\<lparr>Incarnation := inc, Revision := 1\<rparr>
                                    in case beginTransitions [ID e] q1 of
                                         (Some err, q2) \<Rightarrow> (Some err, Some e1, endOperation q2, s1)
                                       | (None, q2) \<Rightarrow>
                                           (case startMutation (startTime inp) (spoolUsage inp) q2 of
                                              (Some err, q3) \<Rightarrow> (Some err, Some e1, endOperation (endTransitions [ID e] q3), s1)
                                            | (None, q3) \<Rightarrow>
                                                (let (err, e2, q4, s2) = addOwned x inp e1 dat q3 s1
                                                 in (err, Some e2,
                                                     endOperation (if err = None then q4 else endTransitions [ID e] q4), s2))))))))))"

end
