(* ===== verification/FileSystem_Inv.thy ===== *)
theory FileSystem_Inv
  imports Storage
begin

text \<open>
  Reasoning about programs over the file system: what a call does when it succeeds, and
  relations between the states before and after that hold whatever the outcomes are. The
  locale \<open>fs_run\<close> is the interface of such a relation, and carries it from the system calls that
  only look at the spool to the operations of the queue that are made of them.
\<close>

named_theorems success \<open>what a successful run means for its parts\<close>

subsection \<open>Successful runs\<close>

lemma takeOutcome_eq: "\<exists>ocs. snd (takeOutcome s) = s\<lparr>outcomes := ocs\<rparr>"
proof (cases "outcomes s")
  case Nil
  then have "snd (takeOutcome s) = s\<lparr>outcomes := []\<rparr>" by (simp add: takeOutcome_def)
  then show ?thesis by blast
qed (auto simp: takeOutcome_def)

lemma thenE_None [success]: "thenE r f = (None, t) \<longleftrightarrow> (\<exists>s1. r = (None, s1) \<and> f s1 = (None, t))"
  by (cases r) (auto simp: thenE_def split: option.splits)

lemma errOf_None [success]: "errOf r = (None, t) \<longleftrightarrow> (\<exists>a. r = (Inr a, t))"
  by (cases r) (auto simp: errOf_def split: sum.splits)

lemma withValue_None [success]: "withValue r f = (None, t) \<longleftrightarrow> (\<exists>a s1. r = (Inr a, s1) \<and> f a s1 = (None, t))"
  by (cases r) (auto simp: withValue_def split: sum.splits)

lemma bindE_Inr [success]: "bindE r f = (Inr b, t) \<longleftrightarrow> (\<exists>a s1. r = (Inr a, s1) \<and> f a s1 = (Inr b, t))"
  by (cases r) (auto simp: bindE_def split: sum.splits)

lemma bindN_Inr [success]: "bindN r f = (Inr b, t) \<longleftrightarrow> (\<exists>s1. r = (None, s1) \<and> f s1 = (Inr b, t))"
  by (cases r) (auto simp: bindN_def split: option.splits)

lemma syscall_Inr:
  assumes "syscall eff s = (Inr a, t)"
  obtains ocs where "eff (s\<lparr>outcomes := ocs\<rparr>) = (Inr a, t)"
proof -
  obtain oc s1 where oc: "takeOutcome s = (oc, s1)" by fastforce
  then obtain ocs where "s1 = s\<lparr>outcomes := ocs\<rparr>" using takeOutcome_eq [of s] by auto
  then show ?thesis using assms oc that by (auto simp: syscall_def split: outcome.splits)
qed

lemma ctxErr_None [success]: "ctxErr s = (None, t) \<Longrightarrow> \<exists>ocs. t = s\<lparr>outcomes := ocs\<rparr>"
  using takeOutcome_eq [of s] by (auto simp: ctxErr_def split: prod.splits outcome.splits)

lemma lookupEntry_outcomes [simp]: "lookupEntry p (s\<lparr>outcomes := ocs\<rparr>) = lookupEntry p s"
  by (simp add: lookupEntry_def)

lemma lookupFile_outcomes [simp]: "lookupFile p n (s\<lparr>outcomes := ocs\<rparr>) = lookupFile p n s"
  by (simp add: lookupFile_def split: option.split)

lemma setNs_fields [simp]:
  "freshNode (setNs d m s) = freshNode s" "nsV (setNs d m s) = (nsV s)(d := m)"
  "nsD (setNs d m s) = (nsD s)(d := m # nsD s d)" "dirV (setNs d m s) = dirV s" "dirD (setNs d m s) = dirD s"
  "fileV (setNs d m s) = fileV s" "fileD (setNs d m s) = fileD s"
  by (simp_all add: setNs_def)

lemma setDir_fields [simp]:
  "freshNode (setDir i m s) = freshNode s" "nsV (setDir i m s) = nsV s" "nsD (setDir i m s) = nsD s"
  "dirV (setDir i m s) = (dirV s)(i := m)" "dirD (setDir i m s) = (dirD s)(i := m # dirD s i)"
  "fileV (setDir i m s) = fileV s" "fileD (setDir i m s) = fileD s"
  by (simp_all add: setDir_def)

lemma setFile_fields [simp]:
  "freshNode (setFile f dat s) = freshNode s" "nsV (setFile f dat s) = nsV s" "nsD (setFile f dat s) = nsD s"
  "dirV (setFile f dat s) = dirV s" "dirD (setFile f dat s) = dirD s"
  by (simp_all add: setFile_def)

subsection \<open>States a crash may leave\<close>

text \<open>Every node that occurs in a directory, now or after a crash, was handed out.\<close>

definition fs_wf :: "fsys \<Rightarrow> bool" where
  "fs_wf s \<longleftrightarrow> fs_ok s \<and>
     (\<forall>d m n i. m \<in> set (nsD s d) \<longrightarrow> mget m n = Some i \<longrightarrow> i < freshNode s) \<and>
     (\<forall>i m n f. m \<in> set (dirD s i) \<longrightarrow> mget m n = Some f \<longrightarrow> f < freshNode s)"

lemma fs_wfD:
  assumes "fs_wf s"
  shows "nsV s d \<in> set (nsD s d)" "dirV s i \<in> set (dirD s i)" "fileV s f \<in> set (fileD s f)"
    "m \<in> set (nsD s d) \<Longrightarrow> mget m n = Some i \<Longrightarrow> i < freshNode s"
    "m \<in> set (dirD s i) \<Longrightarrow> mget m n = Some f \<Longrightarrow> f < freshNode s"
  using assms by (auto simp: fs_wf_def fs_ok_def)

lemma fs_wf_visible:
  assumes "fs_wf s"
  shows "mget (nsV s d) n = Some i \<Longrightarrow> i < freshNode s" "mget (dirV s i) n = Some f \<Longrightarrow> f < freshNode s"
  using assms by (auto intro: fs_wfD)

lemma fs_wf_cong [simp]: "fs_wf (s\<lparr>outcomes := ocs\<rparr>) = fs_wf s" "fs_wf (s\<lparr>rootV := r\<rparr>) = fs_wf s"
  by (auto simp: fs_wf_def fs_ok_def)

lemma fs_wf_empty: "fs_wf (emptyFS ocs)"
  by (auto simp: fs_wf_def fs_ok_def emptyFS_def)

lemma fs_wf_setNs:
  assumes "fs_wf s" "\<And>n i. mget m n = Some i \<Longrightarrow> i < freshNode s"
  shows "fs_wf (setNs d m s)"
  using assms by (auto simp: fs_wf_def fs_ok_def setNs_def)

lemma fs_wf_setDir:
  assumes "fs_wf s" "\<And>n f. mget m n = Some f \<Longrightarrow> f < freshNode s"
  shows "fs_wf (setDir i m s)"
  using assms by (auto simp: fs_wf_def fs_ok_def setDir_def)

lemma overwrite_full: "overwrite (take (length dat) dat) old = overwrite dat old"
  by simp

lemma fs_wf_setFile:
  assumes "fs_wf s"
  shows "fs_wf (setFile f dat s)"
proof -
  have "overwrite dat (fileV s f) \<in> set (fileD (setFile f dat s) f)"
    by (force simp: setFile_def image_iff intro!: bexI [of _ "length dat"])
  then show ?thesis using assms by (auto simp: fs_wf_def fs_ok_def setFile_def)
qed

lemma fs_wf_sync:
  assumes "fs_wf s"
  shows "fs_wf (s\<lparr>nsD := (nsD s)(d := [nsV s d])\<rparr>)" "fs_wf (s\<lparr>dirD := (dirD s)(i := [dirV s i])\<rparr>)"
    "fs_wf (s\<lparr>fileD := (fileD s)(f := [fileV s f])\<rparr>)"
  using assms fs_wf_visible [OF assms] unfolding fs_wf_def fs_ok_def by auto

lemma fs_wf_new:
  assumes "fs_wf s"
  shows "fs_wf (s\<lparr>freshNode := freshNode s + 1, dirV := (dirV s)(i := []), dirD := (dirD s)(i := [[]])\<rparr>)"
    "fs_wf (s\<lparr>freshNode := freshNode s + 1, fileV := (fileV s)(f := []), fileD := (fileD s)(f := [[]])\<rparr>)"
  using assms unfolding fs_wf_def fs_ok_def by (auto intro: less_SucI)

subsection \<open>Relations that reading keeps\<close>

text \<open>The result state of a run, whatever its outcome.\<close>

locale fs_run =
  fixes R :: "fsys \<Rightarrow> fsys \<Rightarrow> bool"
  assumes refl: "R s s"
    and trans: "R s t \<Longrightarrow> R t u \<Longrightarrow> R s u"
    and step: "R s (s\<lparr>outcomes := tl (outcomes s)\<rparr>)"
    and root: "d \<in> {dirCorrupt, dirTrash} \<Longrightarrow> R s (s\<lparr>rootV := (rootV s)(d := b)\<rparr>)"
begin

lemma take: "takeOutcome s = (oc, s1) \<Longrightarrow> R s s1"
  using step [of s] refl by (auto simp: takeOutcome_def split: list.splits)

lemma sys:
  assumes "\<And>s1. R s1 (snd (eff s1))"
  shows "R s (snd (syscall eff s))"
proof (cases "takeOutcome s")
  case (Pair oc s1)
  then have "R s s1" by (rule take)
  with Pair assms [of s1] show ?thesis by (auto simp: syscall_def intro: trans split: outcome.splits)
qed

lemma thenR: "R s (snd r) \<Longrightarrow> (\<And>s1. R s1 (snd (f s1))) \<Longrightarrow> R s (snd (thenE r f))"
  by (cases r) (auto simp: thenE_def split: option.splits intro: trans)

lemma bindR: "R s (snd r) \<Longrightarrow> (\<And>a s1. R s1 (snd (f a s1))) \<Longrightarrow> R s (snd (bindE r f))"
  by (cases r) (auto simp: bindE_def split: sum.splits intro: trans)

lemma bindNR: "R s (snd r) \<Longrightarrow> (\<And>s1. R s1 (snd (f s1))) \<Longrightarrow> R s (snd (bindN r f))"
  by (cases r) (auto simp: bindN_def split: option.splits intro: trans)

lemma withR: "R s (snd r) \<Longrightarrow> (\<And>a s1. R s1 (snd (f a s1))) \<Longrightarrow> R s (snd (withValue r f))"
  by (cases r) (auto simp: withValue_def split: sum.splits intro: trans)

lemma afterR: "R s (snd r) \<Longrightarrow> (\<And>a s1. R s1 (snd (f a s1))) \<Longrightarrow> R s (snd (case_prod f r))"
  by (cases r) (auto intro: trans)

lemma errOfR: "snd (errOf r) = snd r"
  by (cases r) (auto simp: errOf_def split: sum.splits)

lemma ctx: "R s (snd (ctxErr s))"
  using take by (auto simp: ctxErr_def split: prod.splits outcome.splits)

lemma looks:
  "R s (snd (sysStat p s))" "R s (snd (sysStatFile p n s))" "R s (snd (sysOpen p n s))" "R s (snd (sysRead f s))"
  "R s (snd (sysReadDir p s))" "R s (snd (sysTouch s))" "R s (snd (sysStatNs d s))"
  unfolding sysStat_def sysStatFile_def sysOpen_def sysRead_def sysReadDir_def sysTouch_def sysStatNs_def
  by (auto intro!: sys split: option.splits simp: refl)

lemma touch: "R s (snd (errOf (sysTouch s)))"
  by (simp add: errOfR looks)

lemma spoolDirs:
  assumes "d \<in> {dirCorrupt, dirTrash}"
  shows "R s (snd (sysMkdirNs d s))" "R s (snd (sysRmdirNs d s))"
  unfolding sysMkdirNs_def sysRmdirNs_def by (rule sys; use assms root in \<open>auto simp: refl\<close>)+

lemma ensure:
  assumes "d \<in> {dirCorrupt, dirTrash}"
  shows "R s (snd (ensureDurableDir d s))"
proof -
  have mk: "R s (snd (MkdirDurable d s))" for s
  proof (cases "sysMkdirNs d s")
    case (Pair r s1)
    then have "R s s1" using spoolDirs(1) [OF assms, of s] by simp
    moreover have "R s1 (snd (MkdirDurable d s)) \<or> snd (MkdirDurable d s) = s1"
      using Pair touch [of s1] spoolDirs(2) [OF assms] thenR [OF _ touch, of s1 "errOf (sysStatNs d s1)"] looks(7) [of s1 d]
      by (auto simp: MkdirDurable_def errOf_def split: sum.splits prod.splits intro: trans)
    ultimately show ?thesis using trans by auto
  qed
  show ?thesis
    using mk trans looks(7) [of s d] by (cases "sysStatNs d s") (auto simp: ensureDurableDir_def split: sum.splits)
qed

lemma allocated: "R s (snd (AllocatedBytes p s))"
  using looks(1) [of s p] by (auto simp: AllocatedBytes_def split: prod.splits sum.splits)

lemma openRegularFromInfoR: "R s (snd (openRegularFromInfo p n b s))"
  unfolding openRegularFromInfo_def by (auto intro!: bindR looks simp: refl)

lemma openRegularR: "R s (snd (openRegular p n s))"
  unfolding openRegular_def by (auto intro!: bindR looks openRegularFromInfoR)

lemma readBounded: "R s (snd (readBoundedRegular p n mx s))"
  unfolding readBoundedRegular_def by (auto intro!: bindR looks openRegularFromInfoR simp: refl)

lemma accepted: "R s (snd (acceptedDir p s))"
  unfolding acceptedDir_def by (auto intro!: withR readBounded simp: refl)
lemma loadMetadata: "R s (snd (loadEnvelopeMetadata x p i s))"
  using readBounded [of s p metaName maxEnvelopeMetadata]
  by (auto simp: loadEnvelopeMetadata_def split: prod.splits sum.splits)

lemma copyExact: "R s (snd (copyExactBody f n s))"
  unfolding copyExactBody_def by (auto intro!: bindR looks simp: refl Let_def split: option.split)

lemma verifyHandle: "R s (snd (verifyBodyHandle x f n dg s))"
  unfolding verifyBodyHandle_def by (auto intro!: thenR withR copyExact touch simp: refl)

lemma variants: "R s (snd (verifyVariants x f bs pos whole s))"
  by (induction bs arbitrary: pos whole s) (auto intro!: bindR looks simp: refl Let_def)

lemma verifyBody: "R s (snd (verifyEnvelopeBodyHandle x f e s))"
  unfolding verifyEnvelopeBodyHandle_def by (auto intro!: thenR withR variants verifyHandle touch simp: refl)

lemma bodyChecked: "R s (snd (checkBody x p e s))"
  unfolding checkBody_def by (rule afterR [OF openRegularR]) (auto intro!: afterR verifyBody simp: refl split: sum.split option.split)

lemma loaded: "R s (snd (loadDir x p i s))"
  unfolding loadDir_def by (intro bindR loadMetadata bodyChecked)

lemma loadAccepted: "R s (snd (loadAcceptedMetadata x p i s))"
  unfolding loadAcceptedMetadata_def
  by (rule afterR [OF accepted]) (auto intro!: afterR looks loadMetadata simp: refl split: sum.split option.split)

lemma loadedAccepted: "R s (snd (loadAcceptedDir x p i s))"
  unfolding loadAcceptedDir_def by (intro bindR loadAccepted bodyChecked)

lemma matched: "R s (snd (matchReadyUpdate x e link s))"
  unfolding matchReadyUpdate_def Let_def by (auto intro!: thenR withR accepted loaded simp: refl)

end

text \<open>A relation that does not look at the outcomes to come.\<close>

locale fs_rel = fs_run +
  assumes outcome: "R s (s\<lparr>outcomes := ocs\<rparr>)"

subsection \<open>Relations that removing and syncing keep\<close>

text \<open>A relation that is also kept by syncing, by removing names, and by moving an entry to the
  quarantine.\<close>

locale fs_cleanup = fs_rel +
  assumes syncNs: "R s (s\<lparr>nsD := (nsD s)(d := [nsV s d])\<rparr>)"
    and syncDir: "R s (s\<lparr>dirD := (dirD s)(i := [dirV s i])\<rparr>)"
    and syncFile: "R s (s\<lparr>fileD := (fileD s)(f := [fileV s f])\<rparr>)"
    and unlink: "R s (setDir i (mdel n (dirV s i)) s)"
    and rmdir: "R s (setNs d (mdel n (nsV s d)) s)"
    and put_away: "mget (nsV s a) m = Some i \<Longrightarrow> a \<noteq> dirCorrupt \<Longrightarrow>
      R s (setNs dirCorrupt (mput n i (nsV s dirCorrupt)) (setNs a (mdel m (nsV s a)) s))"
begin

lemma syncs:
  "R s (snd (sysSyncNs d s))" "R s (snd (sysSyncEntry p s))" "R s (snd (sysSyncFile f s))"
  unfolding sysSyncNs_def sysSyncEntry_def sysSyncFile_def
  by (auto intro!: sys syncNs syncDir syncFile split: option.splits simp: refl)

lemma diskSyncs: "R s (snd (diskSyncNs d s))" "R s (snd (diskSyncEntry p s))" "R s (snd (SyncFile f s))"
  by (simp_all add: diskSyncNs_def diskSyncEntry_def SyncFile_def errOfR syncs)

lemma removes: "R s (snd (sysUnlink p n s))" "R s (snd (sysRmdir p s))"
  unfolding sysUnlink_def sysRmdir_def by (auto intro!: sys unlink rmdir split: option.splits simp: refl)

lemma tryUnlinkR: "R s (tryUnlink p n s)"
  by (simp add: tryUnlink_def removes)

lemma contents: "R s (snd (removeDirectoryContents p ns s))"
proof (induction ns arbitrary: s)
  case (Cons n ns)
  obtain r s1 where s1: "errOf (sysUnlink p n s) = (r, s1)" by fastforce
  then have "R s s1" using removes(1) [of s p n] errOfR [of "sysUnlink p n s"] by simp
  then show ?case using s1 Cons.IH trans by (auto split: option.splits)
qed (simp add: refl)

lemma removeAll: "R s (snd (RemoveAll p s))"
proof (cases "sysStat p s")
  case (Pair r s1)
  then have 1: "R s s1" using looks(1) [of s p] by simp
  have "R s1 (snd (withValue (sysReadDir p s1) (\<lambda>ns s2. thenE (removeDirectoryContents p ns s2) (\<lambda>s3. errOf (sysRmdir p s3)))))"
    by (intro withR thenR looks contents) (simp add: errOfR removes)
  then show ?thesis using Pair 1 trans by (auto simp: RemoveAll_def split: sum.splits)
qed

lemma renameAway:
  assumes "fst p \<noteq> dirCorrupt"
  shows "R s (snd (diskRename p (dirCorrupt, n) s))"
proof -
  have "R s (snd (sysRename p (dirCorrupt, n) s))"
    unfolding sysRename_def
  proof (rule sys, goal_cases)
    case (1 s1)
    show ?case using assms put_away [of s1 "fst p" "snd p"]
      by (auto simp: refl Let_def lookupEntry_def setNs_def split: option.splits)
  qed
  then show ?thesis unfolding diskRename_def
    by (auto intro!: thenR diskSyncs simp: errOfR refl)
qed

lemma quarantine:
  assumes "fst p \<noteq> dirCorrupt"
  shows "R s (snd (quarantineDir p nm now s))"
proof -
  have "R s1 (snd (case diskRename p (dirCorrupt, n) s1 of (Some e, s2) \<Rightarrow> (Some (Wrap m [e]), s2) | (None, s2) \<Rightarrow> (None, s2)))"
    for s1 n m using renameAway [OF assms, of s1 n] by (auto split: prod.splits option.splits)
  then show ?thesis unfolding quarantineDir_def by (intro thenR ensure) simp_all
qed

end

text \<open>Well-formedness is such a relation.\<close>

definition keeps_wf :: "fsys \<Rightarrow> fsys \<Rightarrow> bool" where
  "keeps_wf s t \<longleftrightarrow> (fs_wf s \<longrightarrow> fs_wf t)"

interpretation wf: fs_cleanup keeps_wf
proof
  show "keeps_wf s (setDir i (mdel n (dirV s i)) s)" for s i n
    unfolding keeps_wf_def
    by (auto intro!: fs_wf_setDir simp: mget_mdel split: if_splits dest: fs_wf_visible(2))
  show rm: "keeps_wf s (setNs d (mdel n (nsV s d)) s)" for s d n
    unfolding keeps_wf_def
    by (auto intro!: fs_wf_setNs simp: mget_mdel split: if_splits dest: fs_wf_visible(1))
  show "keeps_wf s (setNs dirCorrupt (mput n i (nsV s dirCorrupt)) (setNs a (mdel m (nsV s a)) s))"
    if "mget (nsV s a) m = Some i" for s a m i n
    unfolding keeps_wf_def
  proof
    assume wf: "fs_wf s"
    then have "fs_wf (setNs a (mdel m (nsV s a)) s)" using rm unfolding keeps_wf_def by blast
    then show "fs_wf (setNs dirCorrupt (mput n i (nsV s dirCorrupt)) (setNs a (mdel m (nsV s a)) s))"
      by (rule fs_wf_setNs) (use that wf fs_wf_visible(1) in \<open>auto simp: mget_mput setNs_def split: if_splits\<close>)
  qed
qed (auto simp: keeps_wf_def fs_wf_sync)

end
