(* ===== verification/Add_Durable.thy ===== *)
theory Add_Durable
  imports Add FileSystem_Inv Validation_Props
begin

text \<open>
  Acceptance is durable and definite: what \<open>AddContext\<close> reports is true of every state a crash may
  leave, whatever system calls failed on the way.
\<close>

declare map_of_eq_Some_iff [simp del]

subsection \<open>Successful writes\<close>

lemma sysTouch_ok [success]: "sysTouch s = (Inr u, t) \<Longrightarrow> \<exists>ocs. t = s\<lparr>outcomes := ocs\<rparr>"
  unfolding sysTouch_def by (erule syscall_Inr) auto

lemma sysMkdir_ok:
  assumes "sysMkdir p s = (Inr u, t)"
  obtains ocs where "lookupEntry p s \<noteq> None" "t = s\<lparr>outcomes := ocs\<rparr>"
  | ocs where "lookupEntry p s = None"
      "t = setNs (fst p) (mput (snd p) (freshNode s) (nsV s (fst p)))
         (s\<lparr>outcomes := ocs, freshNode := freshNode s + 1, dirV := (dirV s)(freshNode s := []),
            dirD := (dirD s)(freshNode s := [[]])\<rparr>)"
  using assms unfolding sysMkdir_def by (elim syscall_Inr) (auto simp: Let_def split: option.splits)

lemma sysCreate_ok:
  assumes "sysCreate p n s = (Inr f, t)"
  obtains i ocs where "lookupEntry p s = Some i" "mget (dirV s i) n = None" "f = freshNode s"
    "t = setDir i (mput n f (dirV s i))
       (s\<lparr>outcomes := ocs, freshNode := f + 1, fileV := (fileV s)(f := []), fileD := (fileD s)(f := [[]])\<rparr>)"
  using assms unfolding sysCreate_def by (elim syscall_Inr) (auto simp: Let_def split: option.splits if_splits)

lemma sysWriteAt_ok:
  assumes "sysWriteAt f dat s = ((k, None), t)"
  obtains ocs where "k = length dat" "t = setFile f dat (s\<lparr>outcomes := ocs\<rparr>)"
  using assms takeOutcome_eq [of s] by (auto simp: sysWriteAt_def split: prod.splits outcome.splits)

lemma sysSyncFile_ok:
  assumes "sysSyncFile f s = (Inr u, t)"
  obtains ocs where "t = s\<lparr>outcomes := ocs, fileD := (fileD s)(f := [fileV s f])\<rparr>"
  using assms unfolding sysSyncFile_def by (elim syscall_Inr) auto

lemma sysRenameFile_ok:
  assumes "sysRenameFile p a b s = (Inr u, t)"
  obtains i f ocs where "lookupEntry p s = Some i" "mget (dirV s i) a = Some f"
    "t = setDir i (mput b f (mdel a (dirV s i))) (s\<lparr>outcomes := ocs\<rparr>)"
  using assms unfolding sysRenameFile_def by (elim syscall_Inr) (auto split: option.splits)

lemma sysSyncEntry_ok:
  assumes "sysSyncEntry p s = (Inr u, t)"
  obtains i ocs where "lookupEntry p s = Some i" "t = s\<lparr>outcomes := ocs, dirD := (dirD s)(i := [dirV s i])\<rparr>"
  using assms unfolding sysSyncEntry_def by (elim syscall_Inr) (auto split: option.splits)

lemma sysSyncNs_ok:
  assumes "sysSyncNs d s = (Inr u, t)"
  obtains ocs where "t = s\<lparr>outcomes := ocs, nsD := (nsD s)(d := [nsV s d])\<rparr>"
  using assms unfolding sysSyncNs_def by (elim syscall_Inr) auto

lemma sysRename_ok:
  assumes "sysRename p q s = (Inr u, t)"
  obtains i ocs where "lookupEntry p s = Some i"
    "t = setNs (fst q) (mput (snd q) i (nsV (setNs (fst p) (mdel (snd p) (nsV s (fst p))) s) (fst q)))
       (setNs (fst p) (mdel (snd p) (nsV s (fst p))) (s\<lparr>outcomes := ocs\<rparr>))"
  using assms unfolding sysRename_def
  by (elim syscall_Inr) (auto simp: Let_def setNs_def split: option.splits if_splits)

lemma sysOpen_ok:
  assumes "sysOpen p n s = (Inr f, t)"
  obtains ocs where "lookupFile p n s = Some f" "t = s\<lparr>outcomes := ocs\<rparr>"
  using assms unfolding sysOpen_def by (elim syscall_Inr) (auto split: option.splits)

lemma lookupEntry_set [simp]:
  "lookupEntry p (setDir i m s) = lookupEntry p s" "lookupEntry p (setFile f dat s) = lookupEntry p s"
  "lookupEntry p (setNs d m s) = (if d = fst p then mget m (snd p) else lookupEntry p s)"
  "lookupEntry p (s\<lparr>fileD := g\<rparr>) = lookupEntry p s" "lookupEntry p (s\<lparr>dirD := h\<rparr>) = lookupEntry p s"
  "lookupEntry p (s\<lparr>fileV := g'\<rparr>) = lookupEntry p s" "lookupEntry p (s\<lparr>dirV := h'\<rparr>) = lookupEntry p s"
  "lookupEntry p (s\<lparr>freshNode := k\<rparr>) = lookupEntry p s" "lookupEntry p (s\<lparr>nsD := h''\<rparr>) = lookupEntry p s"
  by (simp_all add: lookupEntry_def setDir_def setFile_def setNs_def)

lemma overwrite_Nil [simp]: "overwrite dat [] = dat"
  by (simp add: overwrite_def)

text \<open>The directory after a successful write, and the state as a whole.\<close>

definition writtenDir :: "string \<Rightarrow> fsys \<Rightarrow> nat \<Rightarrow> (string, nat) gmap" where
  "writtenDir n s i = mput n (freshNode s) (mdel (tempName n s) (mput (tempName n s) (freshNode s) (dirV s i)))"

lemma diskWrite_ok:
  assumes "diskWrite p n dat s = (None, t)" "lookupEntry p s = Some i"
  obtains ocs where
    "t = s\<lparr>outcomes := ocs, freshNode := freshNode s + 1, dirV := (dirV s)(i := writtenDir n s i),
           dirD := (dirD s)(i := [writtenDir n s i]), fileV := (fileV s)(freshNode s := dat),
           fileD := (fileD s)(freshNode s := [dat])\<rparr>"
proof -
  let ?temp = "tempName n s" and ?f = "freshNode s"
  obtain f temp s1 s2 k where temp: "diskTemp p n s = (Inr (f, temp), s1)"
    and w: "sysWriteAt f dat s1 = ((k, None), s2)" and c: "Commit f p temp n s2 = (None, t)"
    using assms(1) unfolding diskWrite_def WriteWithTempState_def Let_def
    by (auto split: prod.splits sum.splits option.splits)
  obtain s0 u where s0: "sysMkdir p s = (Inr u, s0)" and t0: "temp = tempName n s0" "sysCreate p temp s0 = (Inr f, s1)"
    using temp unfolding diskTemp_def Let_def diskMkdir_def by (auto simp: success)
  obtain oc0 where m0: "s0 = s\<lparr>outcomes := oc0\<rparr>" using s0 assms(2) by (elim sysMkdir_ok) auto
  then have tn: "temp = ?temp" using t0(1) by (simp add: tempName_def)
  obtain oc1 where m1: "f = ?f" "s1 = setDir i (mput ?temp ?f (dirV s i))
       (s\<lparr>outcomes := oc1, freshNode := ?f + 1, fileV := (fileV s)(?f := []), fileD := (fileD s)(?f := [[]])\<rparr>)"
    using t0(2) m0 assms(2) by (elim sysCreate_ok) (auto simp: tn)
  obtain oc2 where m2: "s2 = setFile ?f dat (s1\<lparr>outcomes := oc2\<rparr>)" using w m1(1) by (elim sysWriteAt_ok) simp
  have "commitFile f p temp n s2 = (None, t)" using c by (auto simp: Commit_def split: prod.splits option.splits)
  then obtain s3 s4 s5 s6 where
    "sysTouch s2 = (Inr (), s3)" and s4: "sysSyncFile f s3 = (Inr (), s4)" and "sysTouch s4 = (Inr (), s5)"
    and s6: "sysRenameFile p temp n s5 = (Inr (), s6)" and sy: "sysSyncEntry p s6 = (Inr (), t)"
    unfolding commitFile_def diskSyncEntry_def by (auto simp: success)
  then obtain oc3 oc5 where m3: "s3 = s2\<lparr>outcomes := oc3\<rparr>" "s5 = s4\<lparr>outcomes := oc5\<rparr>" using sysTouch_ok by metis
  obtain oc4 where m4: "s4 = s3\<lparr>outcomes := oc4, fileD := (fileD s3)(f := [fileV s3 f])\<rparr>" using s4 by (elim sysSyncFile_ok)
  have i5: "lookupEntry p s5 = Some i" "dirV s5 i = mput ?temp ?f (dirV s i)"
    by (simp_all add: m3 m4 m2 m1 assms(2))
  obtain oc6 where m6: "s6 = setDir i (writtenDir n s i) (s5\<lparr>outcomes := oc6\<rparr>)"
    using s6 i5 by (elim sysRenameFile_ok) (auto simp: tn writtenDir_def mget_mput)
  obtain oc7 where m7: "t = s6\<lparr>outcomes := oc7, dirD := (dirD s6)(i := [dirV s6 i])\<rparr>"
    using sy i5 by (elim sysSyncEntry_ok) (auto simp: m6)
  show ?thesis
    by (rule that [of oc7], unfold m7 m6 m3 m4 m2 m1) (simp add: setDir_def setFile_def)
qed

lemmas names = addStateName_def bodyName_def metaName_def

lemma tempName_other: "tempName n s \<noteq> addStateName" "tempName n s \<noteq> bodyName" "tempName n s \<noteq> metaName"
  by (simp_all add: tempName_def names)

lemma mget_writtenDir:
  "mget (writtenDir n s i) m =
     (if m = n then Some (freshNode s) else if m = tempName n s then None else mget (dirV s i) m)"
  by (simp add: writtenDir_def map_simps)

lemma diskRename_ok:
  assumes "diskRename (a, m) (b, n) s = (None, t)" "a \<noteq> b" "lookupEntry (a, m) s = Some i"
  obtains ocs where
    "t = s\<lparr>outcomes := ocs, nsV := (nsV s)(a := mdel m (nsV s a), b := mput n i (nsV s b)),
           nsD := (nsD s)(a := [mdel m (nsV s a)], b := [mput n i (nsV s b)])\<rparr>"
proof -
  obtain s1 s2 where r: "sysRename (a, m) (b, n) s = (Inr (), s1)" and sb: "sysSyncNs b s1 = (Inr (), s2)"
    and sa: "sysSyncNs a s2 = (Inr (), t)"
    using assms(1,2) unfolding diskRename_def diskSyncNs_def by (auto simp: success)
  obtain oc1 where m1: "s1 = setNs b (mput n i (nsV s b)) (setNs a (mdel m (nsV s a)) (s\<lparr>outcomes := oc1\<rparr>))"
    using r assms(2,3) by (elim sysRename_ok) (auto simp: setNs_def)
  obtain oc2 where m2: "s2 = s1\<lparr>outcomes := oc2, nsD := (nsD s1)(b := [nsV s1 b])\<rparr>" using sb by (elim sysSyncNs_ok)
  obtain oc3 where m3: "t = s2\<lparr>outcomes := oc3, nsD := (nsD s2)(a := [nsV s2 a])\<rparr>" using sa by (elim sysSyncNs_ok)
  show ?thesis by (rule that [of oc3], unfold m3 m2 m1) (use assms(2) in \<open>simp add: setNs_def fun_upd_twist\<close>)
qed

text \<open>What a staged entry looks like once it is in \<open>ready/\<close>: every object is synced.\<close>

definition stagedAt :: "string \<Rightarrow> string \<Rightarrow> string \<Rightarrow> string \<Rightarrow> nat \<Rightarrow> fsys \<Rightarrow> bool" where
  "stagedAt i st dat meta node s \<longleftrightarrow>
     nsD s dirReady = [nsV s dirReady] \<and> mget (nsV s dirReady) i = Some node \<and> dirD s node = [dirV s node] \<and>
     (\<exists>f1 f2 f3. f1 \<noteq> f2 \<and> f1 \<noteq> f3 \<and>
        mget (dirV s node) addStateName = Some f1 \<and> fileV s f1 = st \<and> fileD s f1 = [st] \<and>
        mget (dirV s node) bodyName = Some f2 \<and> fileV s f2 = dat \<and> fileD s f2 = [dat] \<and>
        mget (dirV s node) metaName = Some f3 \<and> fileV s f3 = meta \<and> fileD s f3 = [meta])"

lemma addStage_ok:
  assumes "addStage i dat meta s = (None, t)" "lookupEntry (dirTmp, i) s = Some node"
  shows "stagedAt i addPending dat meta node t"
proof -
  let ?p = "(dirTmp, i)"
  obtain c0 s1 c2 s3 c4 s5 c6 s7 c8 where
    c0: "ctxErr s = (None, c0)" and w1: "diskWrite ?p addStateName addPending c0 = (None, s1)"
    and c2: "ctxErr s1 = (None, c2)" and w3: "diskWrite ?p bodyName dat c2 = (None, s3)"
    and c4: "ctxErr s3 = (None, c4)" and w5: "diskWrite ?p metaName meta c4 = (None, s5)"
    and c6: "ctxErr s5 = (None, c6)" and w7: "diskSyncEntry ?p c6 = (None, s7)"
    and c8: "ctxErr s7 = (None, c8)" and r: "diskRename ?p (dirReady, i) c8 = (None, t)"
    using assms(1) unfolding addStage_def Let_def by (auto simp: thenE_None)
  obtain o0 where e0: "c0 = s\<lparr>outcomes := o0\<rparr>" using ctxErr_None [OF c0] by blast
  have l0: "lookupEntry ?p c0 = Some node" by (simp add: e0 assms(2))
  obtain o1 where e1: "s1 = c0\<lparr>outcomes := o1, freshNode := freshNode c0 + 1,
      dirV := (dirV c0)(node := writtenDir addStateName c0 node),
      dirD := (dirD c0)(node := [writtenDir addStateName c0 node]), fileV := (fileV c0)(freshNode c0 := addPending),
      fileD := (fileD c0)(freshNode c0 := [addPending])\<rparr>" by (rule diskWrite_ok [OF w1 l0])
  obtain o2 where e2: "c2 = s1\<lparr>outcomes := o2\<rparr>" using ctxErr_None [OF c2] by blast
  have l2: "lookupEntry ?p c2 = Some node" using l0 by (simp add: e2 e1 lookupEntry_def)
  obtain o3 where e3: "s3 = c2\<lparr>outcomes := o3, freshNode := freshNode c2 + 1,
      dirV := (dirV c2)(node := writtenDir bodyName c2 node),
      dirD := (dirD c2)(node := [writtenDir bodyName c2 node]), fileV := (fileV c2)(freshNode c2 := dat),
      fileD := (fileD c2)(freshNode c2 := [dat])\<rparr>" by (rule diskWrite_ok [OF w3 l2])
  obtain o4 where e4: "c4 = s3\<lparr>outcomes := o4\<rparr>" using ctxErr_None [OF c4] by blast
  have l4: "lookupEntry ?p c4 = Some node" using l2 by (simp add: e4 e3 lookupEntry_def)
  obtain o5 where e5: "s5 = c4\<lparr>outcomes := o5, freshNode := freshNode c4 + 1,
      dirV := (dirV c4)(node := writtenDir metaName c4 node),
      dirD := (dirD c4)(node := [writtenDir metaName c4 node]), fileV := (fileV c4)(freshNode c4 := meta),
      fileD := (fileD c4)(freshNode c4 := [meta])\<rparr>" by (rule diskWrite_ok [OF w5 l4])
  obtain o6 where e6: "c6 = s5\<lparr>outcomes := o6\<rparr>" using ctxErr_None [OF c6] by blast
  have l6: "lookupEntry ?p c6 = Some node" using l4 by (simp add: e6 e5 lookupEntry_def)
  obtain o7 where e7: "s7 = c6\<lparr>outcomes := o7, dirD := (dirD c6)(node := [dirV c6 node])\<rparr>"
    using w7 l6 unfolding diskSyncEntry_def errOf_None by (auto elim!: sysSyncEntry_ok)
  obtain o8 where e8: "c8 = s7\<lparr>outcomes := o8\<rparr>" using ctxErr_None [OF c8] by blast
  have l8: "lookupEntry ?p c8 = Some node" using l6 by (simp add: e8 e7 lookupEntry_def)
  obtain o9 where e9: "t = c8\<lparr>outcomes := o9, nsV := (nsV c8)(dirTmp := mdel i (nsV c8 dirTmp), dirReady := mput i node (nsV c8 dirReady)),
      nsD := (nsD c8)(dirTmp := [mdel i (nsV c8 dirTmp)], dirReady := [mput i node (nsV c8 dirReady)])\<rparr>"
    by (rule diskRename_ok [OF r _ l8]) auto
  let ?f = "freshNode s"
  have fr: "freshNode c0 = ?f" "freshNode c2 = ?f + 1" "freshNode c4 = ?f + 2"
    by (simp_all add: e0 e1 e2 e3 e4)
  have dt: "dirV t node = writtenDir metaName c4 node" "dirD t node = [dirV t node]"
    by (simp_all add: e9 e8 e7 e6 e5)
  have d4: "dirV c4 node = writtenDir bodyName c2 node" "dirV c2 node = writtenDir addStateName c0 node"
    by (simp_all add: e4 e3 e2 e1)
  have dn: "mget (dirV t node) addStateName = Some ?f" "mget (dirV t node) bodyName = Some (?f + 1)"
    "mget (dirV t node) metaName = Some (?f + 2)"
    by (simp_all add: dt d4 mget_writtenDir fr tempName_other [symmetric]) (simp_all add: names)
  have "fileV c2 = (fileV s)(?f := addPending)" "fileD c2 = (fileD s)(?f := [addPending])"
    by (simp_all add: e2 e1 e0)
  then have "fileV c4 = (fileV s)(?f := addPending, ?f + 1 := dat)" "fileD c4 = (fileD s)(?f := [addPending], ?f + 1 := [dat])"
    by (simp_all add: e4 e3 fr(2))
  then have ft: "fileV t = (fileV s)(?f := addPending, ?f + 1 := dat, ?f + 2 := meta)"
      "fileD t = (fileD s)(?f := [addPending], ?f + 1 := [dat], ?f + 2 := [meta])"
    by (simp_all add: e9 e8 e7 e6 e5 fr(3))
  have "fileV t ?f = addPending" "fileD t ?f = [addPending]" "fileV t (?f + 1) = dat" "fileD t (?f + 1) = [dat]"
    "fileV t (?f + 2) = meta" "fileD t (?f + 2) = [meta]"
    by (simp_all add: ft)
  moreover have "nsD t dirReady = [nsV t dirReady]" "mget (nsV t dirReady) i = Some node"
    by (simp_all add: e9 mget_mput)
  moreover have "?f \<noteq> ?f + 1" "?f \<noteq> ?f + 2" by simp_all
  ultimately show ?thesis using dt(2) dn unfolding stagedAt_def by blast
qed

lemma state_lengths: "length addPending = length addAccepted"
  by (simp add: addPending_def addAccepted_def)

lemma overwrite_same_length: "length dat = length old \<Longrightarrow> overwrite dat old = dat"
  by (simp add: overwrite_def)

lemma acceptFailed_Some [simp]: "acceptFailed f cause s \<noteq> (None, t)"
  by (simp add: acceptFailed_def split: prod.split)

lemma recovered_None [success]:
  assumes "\<And>e s1 t. h e s1 \<noteq> (None, t)"
  shows "(case r of (Some e, s1) \<Rightarrow> h e s1 | (None, s1) \<Rightarrow> k s1) = (None, t) \<longleftrightarrow> (\<exists>s1. r = (None, s1) \<and> k s1 = (None, t))"
  using assms by (cases r; cases "fst r") auto

lemma acceptAdd_ok:
  assumes "acceptAdd (dirReady, i) s = (None, t)" "stagedAt i addPending dat meta node s"
  shows "stagedAt i addAccepted dat meta node t"
proof -
  obtain f1 f2 f3 where f: "f1 \<noteq> f2" "f1 \<noteq> f3"
      "mget (dirV s node) addStateName = Some f1" "fileV s f1 = addPending"
      "mget (dirV s node) bodyName = Some f2" "fileV s f2 = dat" "fileD s f2 = [dat]"
      "mget (dirV s node) metaName = Some f3" "fileV s f3 = meta" "fileD s f3 = [meta]"
    and st: "nsD s dirReady = [nsV s dirReady]" "mget (nsV s dirReady) i = Some node" "dirD s node = [dirV s node]"
    using assms(2) unfolding stagedAt_def by auto
  obtain f s1 s2 where "sysOpen (dirReady, i) addStateName s = (Inr f, s1)"
    and w: "writeAddState f addAccepted s1 = (None, s2)" and sy: "SyncFile f s2 = (None, t)"
    using assms(1) unfolding acceptAdd_def withValue_None by (auto simp: recovered_None)
  then obtain o1 where o1: "lookupFile (dirReady, i) addStateName s = Some f" "s1 = s\<lparr>outcomes := o1\<rparr>"
    by (elim sysOpen_ok)
  then have ff: "f = f1" using st f(3) by (simp add: lookupFile_def lookupEntry_def)
  obtain o2 where s2: "s2 = setFile f addAccepted (s1\<lparr>outcomes := o2\<rparr>)"
    using w unfolding writeAddState_def by (auto split: prod.splits option.splits if_splits elim!: sysWriteAt_ok)
  obtain o3 where t: "t = s2\<lparr>outcomes := o3, fileD := (fileD s2)(f := [fileV s2 f])\<rparr>"
    using sy unfolding SyncFile_def errOf_None by (auto elim: sysSyncFile_ok)
  have "fileV t f1 = addAccepted" "fileD t f1 = [addAccepted]"
    by (simp_all add: t s2 ff setFile_def o1(2) f(4) overwrite_same_length state_lengths)
  moreover have "fileV t f2 = dat" "fileD t f2 = [dat]" "fileV t f3 = meta" "fileD t f3 = [meta]"
    using f(1,2) by (simp_all add: t s2 ff setFile_def o1(2) f(6,7,9,10))
  moreover have "nsD t dirReady = nsD s dirReady" "nsV t = nsV s" "dirD t = dirD s" "dirV t = dirV s"
    by (simp_all add: t s2 setFile_def o1(2))
  ultimately show ?thesis using st f unfolding stagedAt_def by simp
qed

subsection \<open>A successful operation\<close>

lemma diskMkdir_ok: "diskMkdir p s = (None, t) \<Longrightarrow> lookupEntry p t \<noteq> None"
  unfolding diskMkdir_def errOf_None by (elim exE sysMkdir_ok) (auto simp: mget_mput)

lemma addReserved_ok:
  assumes "addReserved e dat meta physical now q s = (None, q', t)"
  shows "\<exists>node. stagedAt (ID e) addAccepted dat meta node t"
    and "q' = publishAdd e (int (length meta)) physical q"
proof -
  let ?tmp = "(dirTmp, ID e)"
  obtain s1 where c1: "ctxErr s = (None, s1)"
    using assms by (cases "ctxErr s"; cases "fst (ctxErr s)") (auto simp: addReserved_def Let_def)
  let ?mk = "addMkTmp (ID e) s1"
  obtain s2 where mk: "?mk = (None, s2)"
    using assms by (cases ?mk; cases "fst ?mk") (auto simp: addReserved_def Let_def c1)
  then obtain r where "diskMkdir ?tmp r = (None, s2)"
    by (auto simp: addMkTmp_def split: prod.splits option.splits if_splits)
  then obtain node where node: "lookupEntry ?tmp s2 = Some node" using diskMkdir_ok by blast
  obtain s3 where st: "addStage (ID e) dat meta s2 = (None, s3)"
    using assms by (cases "addStage (ID e) dat meta s2"; cases "fst (addStage (ID e) dat meta s2)")
      (auto simp: addReserved_def Let_def c1 mk split: prod.splits if_splits)
  let ?acc = "case ctxErr s3 of (Some err, s4) \<Rightarrow> (Some err, s4) | (None, s4) \<Rightarrow> acceptAdd (dirReady, ID e) s4"
  obtain s4 where acc: "?acc = (None, s4)"
    using assms by (cases ?acc; cases "fst ?acc") (auto simp: addReserved_def Let_def c1 mk st split: prod.splits)
  have q': "q' = publishAdd e (int (length meta)) physical q" "t = s4"
    using assms by (simp_all add: addReserved_def Let_def c1 mk st acc)
  obtain s5 where s5: "ctxErr s3 = (None, s5)" "acceptAdd (dirReady, ID e) s5 = (None, s4)"
    using acc by (auto split: prod.splits option.splits)
  have "stagedAt (ID e) addPending dat meta node s3" by (rule addStage_ok [OF st node])
  moreover obtain ocs where "s5 = s3\<lparr>outcomes := ocs\<rparr>" using ctxErr_None s5(1) by blast
  ultimately have "stagedAt (ID e) addPending dat meta node s5" by (simp add: stagedAt_def)
  from acceptAdd_ok [OF s5(2) this] show "\<exists>node. stagedAt (ID e) addAccepted dat meta node t" using q'(2) by blast
  show "q' = publishAdd e (int (length meta)) physical q" by (rule q'(1))
qed

lemma addOwned_ok:
  assumes "addOwned x inp e dat q s = (None, e', q', t)"
  obtains node meta q1 where "stagedAt (ID e') addAccepted dat meta node t" "marshalEnvelope x e' = Inr meta"
    "validateEnvelope (toASCII x) (hexdigest x) (e\<lparr>Size := int (length dat), BodyDigest := bodyDigest x dat\<rparr>) = (None, e')"
    "verifyBodyData x e' dat = None" "ID e' \<notin> set (blocked q)" "mget (accounted q) (ID e) = None"
    "reserveLocked (freeSpace inp) (Size e') (estimateEntryAllocation (Size e') (int (length meta))) False False (Username e') q = (None, q1)"
    "q' = publishAdd e' (int (length meta)) (estimateEntryAllocation (Size e') (int (length meta))) q1" "ID e' = ID e"
proof -
  let ?v = "validateEnvelope (toASCII x) (hexdigest x) (e\<lparr>Size := int (length dat), BodyDigest := bodyDigest x dat\<rparr>)"
  obtain meta s3 q1 where 1: "?v = (None, e')" "verifyBodyData x e' dat = None" "marshalEnvelope x e' = Inr meta"
      "ID e \<notin> set (blocked q)" "mget (accounted q) (ID e) = None"
      "reserveLocked (freeSpace inp) (Size e') (estimateEntryAllocation (Size e') (int (length meta))) False False (Username e') q = (None, q1)"
    and r: "addReserved e' dat meta (estimateEntryAllocation (Size e') (int (length meta))) (abortTime inp) q1 s3 = (None, q', t)"
    using assms unfolding addOwned_def Let_def
    by (auto split: prod.splits option.splits sum.splits if_splits)
  have "ID e' = ID e" using 1(1) by (auto elim: validateEnvelope_ok)
  with 1 addReserved_ok [OF r] that show ?thesis by metis
qed

end
