(* ===== verification/Recovered.thy ===== *)
theory Recovered
  imports Add_Durable
begin

text \<open>
  Reading an entry back after a crash, when the file system answers: what was accepted is found,
  verified and decoded to the envelope that was stored.
\<close>

subsection \<open>Runs without failures\<close>

lemma syscall_pass [simp]: "outcomes s = [] \<Longrightarrow> syscall eff s = eff s"
  by (simp add: syscall_def takeOutcome_def)

lemma sysTouch_pass [simp]: "outcomes s = [] \<Longrightarrow> sysTouch s = (Inr (), s)"
  by (simp add: sysTouch_def)

lemma sysRead_pass [simp]: "outcomes s = [] \<Longrightarrow> sysRead f s = (Inr (fileV s f), s)"
  by (simp add: sysRead_def)

lemma openRegularFromInfo_pass:
  "outcomes s = [] \<Longrightarrow> lookupFile p n s = Some f \<Longrightarrow> openRegularFromInfo p n f s = (Inr f, s)"
  by (simp add: openRegularFromInfo_def sysOpen_def bindE_def)

lemma openRegular_pass:
  "outcomes s = [] \<Longrightarrow> lookupFile p n s = Some f \<Longrightarrow> openRegular p n s = (Inr f, s)"
  by (simp add: openRegular_def sysStatFile_def openRegularFromInfo_pass bindE_def)

lemma readBoundedRegular_pass:
  "outcomes s = [] \<Longrightarrow> lookupFile p n s = Some f \<Longrightarrow> int (length (fileV s f)) \<le> mx \<Longrightarrow>
   readBoundedRegular p n mx s = (Inr (fileV s f), s)"
  by (simp add: readBoundedRegular_def sysStatFile_def openRegularFromInfo_pass bindE_def)

lemma copyExactBody_pass:
  assumes "outcomes s = []" "int (length (fileV s f)) < max_int64"
  shows "copyExactBody f (int (length (fileV s f))) s = (Inr (fileV s f), s)"
proof -
  have "checkedAddInt64 (int (length (fileV s f))) 1 = Some (int (length (fileV s f)) + 1)"
    using assms(2) by (simp add: checkedAddInt64_def int64_defs)
  then show ?thesis using assms by (simp add: copyExactBody_def bindE_def Let_def)
qed

lemma verifyVariants_pass:
  assumes "outcomes s = []" "fileV s f = dat" "int (length dat) = sz"
  shows "validateBodies sz (int pos) bs = Inr stop \<Longrightarrow> verifyBodies x bs dat = None \<Longrightarrow> int pos \<le> sz \<Longrightarrow>
    verifyVariants x f bs pos whole s = (Inr (whole @ take (nat stop - pos) (drop pos dat)), s)"
proof (induction bs arbitrary: pos whole)
  case (Cons b bs)
  have b: "Offset b = int pos" "0 < BodySize b" "BodySize b \<le> sz - int pos"
    and rest: "validateBodies sz (int pos + BodySize b) bs = Inr stop"
    using Cons.prems(1) by (auto split: if_splits)
  let ?part = "take (nat (BodySize b)) (drop pos dat)"
  have sl: "goSlice dat (Offset b) (Offset b + BodySize b) = Some ?part"
    using b assms(3) by (simp add: goSlice_def)
  then have dg: "bodyDigest x ?part = Digest b" "verifyBodies x bs dat = None"
    using Cons.prems(2) by (auto split: if_splits)
  have len: "length ?part = nat (BodySize b)" using b assms(3) by (simp add: min_def) linarith
  have pos: "int (pos + nat (BodySize b)) = int pos + BodySize b" using b(2) by simp
  have "int pos + BodySize b \<le> stop"
    using validateBodies_tile [OF rest] b by simp
  then have split: "take (nat stop - pos) (drop pos dat) =
      ?part @ take (nat stop - (pos + nat (BodySize b))) (drop (pos + nat (BodySize b)) dat)"
  proof -
    assume "int pos + BodySize b \<le> stop"
    then have "nat stop - pos = nat (BodySize b) + (nat stop - (pos + nat (BodySize b)))" using b(2) by linarith
    then show ?thesis by (simp add: take_add add.commute)
  qed
  have IH: "verifyVariants x f bs (pos + nat (BodySize b)) (whole @ ?part) s =
      (Inr ((whole @ ?part) @ take (nat stop - (pos + nat (BodySize b))) (drop (pos + nat (BodySize b)) dat)), s)"
    by (rule Cons.IH) (use rest dg(2) pos b in simp_all)
  then show ?case using assms(1,2) dg(1) len b(2) by (simp add: bindE_def Let_def split del: if_split add: split)
qed (simp)

lemma verifyEnvelopeBodyHandle_pass:
  assumes "outcomes s = []" "fileV s f = dat" "int (length dat) = Size e" "int (length dat) < max_int64"
    "BodyDigest e = bodyDigest x dat" "verifyBodyData x e dat = None"
    "Bodies e \<noteq> [] \<longrightarrow> validateBodies (Size e) 0 (Bodies e) = Inr (Size e)"
  shows "verifyEnvelopeBodyHandle x f e s = (None, s)"
proof (cases "Bodies e = []")
  case True
  have "copyExactBody f (Size e) s = (Inr dat, s)" using copyExactBody_pass [OF assms(1), of f] assms(2-4) by simp
  then show ?thesis
    using assms True by (simp add: verifyEnvelopeBodyHandle_def verifyBodyHandle_def thenE_def withValue_def errOf_def)
next
  case False
  have "verifyVariants x f (Bodies e) 0 [] s = (Inr ([] @ take (nat (Size e) - 0) (drop 0 dat)), s)"
    by (rule verifyVariants_pass [OF assms(1,2,3)]) (use assms False in \<open>simp_all add: verifyBodyData_def\<close>)
  moreover have "take (nat (Size e)) dat = dat" using assms(3) by (metis nat_int order_refl take_all)
  ultimately show ?thesis
    using assms False by (simp add: verifyEnvelopeBodyHandle_def thenE_def withValue_def errOf_def)
qed

subsection \<open>Stored envelopes\<close>

text \<open>The fields that are not stored are zero in a decoded envelope.\<close>

definition storedForm :: "Envelope \<Rightarrow> Envelope" where
  "storedForm e = e\<lparr>PreferredDomain := [], index := 0\<rparr>"

text \<open>What the code relies on of \<open>encoding/json\<close>: an envelope whose strings are valid UTF-8 is
  decoded from its encoding as it was stored. (Other bytes are replaced when encoding.)\<close>

definition envelopeText :: "Envelope \<Rightarrow> bool" where
  "envelopeText e \<longleftrightarrow>
     list_all utf8Valid ([ID e, Incarnation e, Username e, Sender e, LastError e, BodyDigest e, DSNIDLink e,
       DSNSourceID e, DSNSourceIncarnation e] @ map Digest (Bodies e) @
       concat (map (\<lambda>r. [Recipient.Address r, Domain r, RStatus r, Detail r, EnhancedCode r]) (Recipients e)))"

definition jsonOK :: "ext \<Rightarrow> bool" where
  "jsonOK x \<longleftrightarrow> (\<forall>e m. marshalJSON x e = Some m \<and> envelopeText e \<longrightarrow> unmarshalJSON x m = Some (storedForm e))"

lemma storedForm_fields [simp]:
  "ID (storedForm e) = ID e" "Bodies (storedForm e) = Bodies e" "Size (storedForm e) = Size e"
  "BodyDigest (storedForm e) = BodyDigest e" "Recipients (storedForm e) = Recipients e"
  "SMTPUTF8 (storedForm e) = SMTPUTF8 e" "Sender (storedForm e) = Sender e" "Incarnation (storedForm e) = Incarnation e"
  "Revision (storedForm e) = Revision e" "Username (storedForm e) = Username e"
  by (simp_all add: storedForm_def)

lemma validateEnvelope_storedForm:
  assumes "validateEnvelope t h e = (None, e)"
  shows "validateEnvelope t h (storedForm e) = (None, storedForm e)"
proof -
  have h: "validateHeader h (storedForm e) = validateHeader h e"
    unfolding validateHeader_def validateLinkage_def storedForm_def by (cases e) (simp only: Envelope.simps)
  have u: "needsUTF8 (storedForm e) = needsUTF8 e" by (simp add: needsUTF8_def)
  have m: "envelopeMetadataWithinLimit (storedForm e) = envelopeMetadataWithinLimit e"
    unfolding envelopeMetadataWithinLimit_def storedForm_def by (cases e) (simp only: Envelope.simps)
  from assms obtain rs where r: "validateRecipients t (length (Bodies e)) (Recipients e) = (None, rs)" "e\<lparr>Recipients := rs\<rparr> = e"
    and rest: "validateHeader h e = None" "list_all id (usedBodies (length (Bodies e)) (Recipients e))"
      "\<not> (needsUTF8 e \<and> \<not> SMTPUTF8 e)" "envelopeMetadataWithinLimit e"
    by (auto simp: validateEnvelope_def Let_def split: option.splits prod.splits)
  have "rs = Recipients e" using arg_cong [OF r(2), of Recipients] by simp
  then have "(storedForm e)\<lparr>Recipients := rs\<rparr> = storedForm e" by (simp add: storedForm_def)
  with r(1) rest show ?thesis by (simp add: validateEnvelope_def h u m)
qed

lemma decode_stored:
  assumes "idnaOK (toASCII x)" "jsonOK x" "envelopeText e" "marshalEnvelope x e = Inr meta"
    "validateEnvelope (toASCII x) (hexdigest x) e0 = (None, e)"
  shows "decodeEnvelopeMetadata x meta (ID e) = Inr (storedForm e)" "int (length meta) \<le> maxEnvelopeMetadata"
proof -
  have m: "marshalJSON x e = Some meta" and l: "int (length meta) \<le> maxEnvelopeMetadata"
    using assms(4) by (auto simp: marshalEnvelope_def split: option.splits if_splits)
  have fixed: "validateEnvelope (toASCII x) (hexdigest x) e = (None, e)" by (rule validateEnvelope_fixed) fact+
  have "unmarshalJSON x meta = Some (storedForm e)" using assms(2,3) m by (auto simp: jsonOK_def)
  moreover have "ValidateID (ID e) = None"
    using fixed by (auto simp: validateHeader_def elim: validateEnvelope_ok)
  ultimately show "decodeEnvelopeMetadata x meta (ID e) = Inr (storedForm e)"
    using validateEnvelope_storedForm [OF fixed] by (simp add: decodeEnvelopeMetadata_def)
  show "int (length meta) \<le> maxEnvelopeMetadata" by (rule l)
qed

subsection \<open>An accepted entry after a crash\<close>

lemma stagedAt_crash:
  assumes "stagedAt i st dat meta node s" "crash s c"
  obtains f1 f2 f3 where "lookupFile (dirReady, i) addStateName c = Some f1" "fileV c f1 = st"
    "lookupFile (dirReady, i) bodyName c = Some f2" "fileV c f2 = dat"
    "lookupFile (dirReady, i) metaName c = Some f3" "fileV c f3 = meta"
proof -
  have "nsV c dirReady \<in> set (nsD s dirReady)" "dirV c node \<in> set (dirD s node)"
    using assms(2) by (auto simp: crash_def)
  then have "nsV c dirReady = nsV s dirReady" "dirV c node = dirV s node" using assms(1) by (auto simp: stagedAt_def)
  moreover have "fileV c f \<in> set (fileD s f)" for f using assms(2) by (auto simp: crash_def)
  then have "fileD s f = [z] \<Longrightarrow> fileV c f = z" for f z by (metis empty_iff insert_iff list.set)
  ultimately show ?thesis
    using assms(1) that unfolding stagedAt_def lookupFile_def lookupEntry_def by auto
qed

lemma loadAcceptedDir_pass:
  assumes "outcomes c = []" "lookupFile (dirReady, i) addStateName c = Some f1" "fileV c f1 = addAccepted"
    "lookupFile (dirReady, i) bodyName c = Some f2" "fileV c f2 = dat"
    "lookupFile (dirReady, i) metaName c = Some f3" "fileV c f3 = meta"
    "decodeEnvelopeMetadata x meta i = Inr e" "int (length meta) \<le> maxEnvelopeMetadata"
    "int (length dat) = Size e" "int (length dat) < max_int64" "BodyDigest e = bodyDigest x dat"
    "verifyBodyData x e dat = None" "Bodies e \<noteq> [] \<longrightarrow> validateBodies (Size e) 0 (Bodies e) = Inr (Size e)"
  shows "loadAcceptedDir x (dirReady, i) i c = (Inr e, c)"
proof -
  have "readBoundedRegular (dirReady, i) addStateName maxAddStateBytes c = (Inr addAccepted, c)"
    using readBoundedRegular_pass [OF assms(1,2)] assms(3) by (simp add: addAccepted_def maxAddStateBytes_def)
  then have a: "acceptedDir (dirReady, i) c = (None, c)" by (simp add: acceptedDir_def withValue_def)
  have "readBoundedRegular (dirReady, i) metaName maxEnvelopeMetadata c = (Inr meta, c)"
    using readBoundedRegular_pass [OF assms(1,6)] assms(7,9) by simp
  then have m: "loadEnvelopeMetadata x (dirReady, i) i c = (Inr e, c)" using assms(8) by (simp add: loadEnvelopeMetadata_def)
  have "verifyEnvelopeBodyHandle x f2 e c = (None, c)" by (rule verifyEnvelopeBodyHandle_pass) fact+
  then have "checkBody x (dirReady, i) e c = (Inr e, c)"
    using openRegular_pass [OF assms(1,4)] assms(5,10) by (simp add: checkBody_def)
  then show ?thesis by (simp add: loadAcceptedDir_def loadAcceptedMetadata_def a m bindE_def)
qed

end
