(* ===== verification/Add_Definite.thy ===== *)
theory Add_Definite
  imports Recovered
begin

text \<open>
  A failure that \<open>AddContext\<close> reports as definite is one: no state a crash may leave holds the
  message as accepted. The proof follows the entry under its name in \<open>ready/\<close>: it stays clean
  (no state file that a crash could leave accepted) through every step but the commit itself,
  and a failed commit is either undone, moved out of \<open>ready/\<close> for good, or reported as unknown.
\<close>

subsection \<open>Entries that no crash leaves accepted\<close>

definition clean :: "nat \<Rightarrow> fsys \<Rightarrow> bool" where
  "clean i s \<longleftrightarrow> (\<forall>d \<in> set (dirD s i). \<forall>f. mget d addStateName = Some f \<longrightarrow> addAccepted \<notin> set (fileD s f))"

definition safe :: "string \<Rightarrow> fsys \<Rightarrow> bool" where
  "safe i s \<longleftrightarrow> fs_wf s \<and> (\<forall>m \<in> set (nsD s dirReady). \<forall>j. mget m i = Some j \<longrightarrow> clean j s)"

text \<open>What the steps other than the commit keep.\<close>

definition calm :: "string \<Rightarrow> fsys \<Rightarrow> fsys \<Rightarrow> bool" where
  "calm i s t \<longleftrightarrow> (fs_wf s \<longrightarrow> fs_wf t \<and> freshNode s \<le> freshNode t \<and>
     (\<forall>j < freshNode s. clean j s \<longrightarrow> clean j t) \<and>
     (\<forall>m \<in> set (nsD t dirReady). \<forall>j. mget m i = Some j \<longrightarrow> (\<exists>m0 \<in> set (nsD s dirReady). mget m0 i = Some j)) \<and>
     (\<forall>j. mget (nsV t dirTmp) i = Some j \<longrightarrow> mget (nsV s dirTmp) i = Some j \<or> freshNode s \<le> j \<and> clean j t))"

lemma calmI:
  assumes "fs_wf s \<Longrightarrow> fs_wf t" "fs_wf s \<Longrightarrow> freshNode s \<le> freshNode t"
    "\<And>j. fs_wf s \<Longrightarrow> j < freshNode s \<Longrightarrow> clean j s \<Longrightarrow> clean j t"
    "\<And>m j. fs_wf s \<Longrightarrow> m \<in> set (nsD t dirReady) \<Longrightarrow> mget m i = Some j \<Longrightarrow> \<exists>m0 \<in> set (nsD s dirReady). mget m0 i = Some j"
    "\<And>j. fs_wf s \<Longrightarrow> mget (nsV t dirTmp) i = Some j \<Longrightarrow> mget (nsV s dirTmp) i = Some j \<or> freshNode s \<le> j \<and> clean j t"
  shows "calm i s t"
  using assms unfolding calm_def by blast

lemma calm_same_ns:
  assumes "fs_wf s \<Longrightarrow> fs_wf t" "freshNode s \<le> freshNode t" "nsV t = nsV s" "nsD t = nsD s"
    "\<And>j. fs_wf s \<Longrightarrow> j < freshNode s \<Longrightarrow> clean j s \<Longrightarrow> clean j t"
  shows "calm i s t"
  using assms by (intro calmI) auto

lemma calm_trans:
  assumes "calm i s t" "calm i t u"
  shows "calm i s u"
proof (rule calmI)
  assume wf: "fs_wf s"
  then have t: "fs_wf t" "freshNode s \<le> freshNode t" using assms(1) by (auto simp: calm_def)
  then have u: "fs_wf u" "freshNode t \<le> freshNode u" using assms(2) by (auto simp: calm_def)
  show "fs_wf u" by (rule u)
  show "freshNode s \<le> freshNode u" using t(2) u(2) by simp
  show "clean j u" if "j < freshNode s" "clean j s" for j
    using assms wf t u that unfolding calm_def by (meson less_le_trans)
  show "\<exists>m0 \<in> set (nsD s dirReady). mget m0 i = Some j" if "m \<in> set (nsD u dirReady)" "mget m i = Some j" for m j
    using assms wf t that unfolding calm_def by blast
  show "mget (nsV s dirTmp) i = Some j \<or> freshNode s \<le> j \<and> clean j u" if "mget (nsV u dirTmp) i = Some j" for j
  proof -
    have "mget (nsV t dirTmp) i = Some j \<or> freshNode t \<le> j \<and> clean j u"
      using assms(2) t that unfolding calm_def by blast
    then show ?thesis
    proof
      assume tj: "mget (nsV t dirTmp) i = Some j"
      have "j < freshNode t" using fs_wf_visible(1) t(1) tj by blast
      then have "clean j t \<longrightarrow> clean j u" using assms(2) t unfolding calm_def by blast
      then show ?thesis using tj assms(1) wf unfolding calm_def by blast
    qed (use t(2) in auto)
  qed
qed

lemma clean_cong:
  assumes "set (dirD t j) \<subseteq> set (dirD s j)" "\<And>f. set (fileD t f) \<subseteq> set (fileD s f)" "clean j s"
  shows "clean j t"
  using assms unfolding clean_def by blast

lemma clean_setNs [simp]: "clean j (setNs d m s) = clean j s"
  by (simp add: clean_def setNs_def)

lemma clean_outcomes [simp]: "clean j (s\<lparr>outcomes := ocs\<rparr>) = clean j s"
  by (simp add: clean_def)

text \<open>A directory that names the same state file as before, or none.\<close>

lemma clean_setDir:
  assumes "clean j s" "fs_wf s" "\<And>f. mget m addStateName = Some f \<Longrightarrow>
    mget (dirV s k) addStateName = Some f \<or> addAccepted \<notin> set (fileD s f)"
  shows "clean j (setDir k m s)"
proof -
  have "dirV s k \<in> set (dirD s k)" using assms(2) fs_wfD(2) by blast
  then have "addAccepted \<notin> set (fileD s f)" if "j = k" "mget m addStateName = Some f" for f
    using assms(1) assms(3) [of f] that unfolding clean_def by blast
  then show ?thesis using assms(1) by (auto simp: clean_def setDir_def)
qed

interpretation calm: fs_cleanup "calm i" for i
proof
  fix s :: fsys
  show "calm i s s" by (intro calmI) auto
  have oc: "calm i s (s\<lparr>outcomes := ocs\<rparr>)" for ocs by (intro calm_same_ns) (auto simp: clean_def)
  show "calm i s (s\<lparr>outcomes := tl (outcomes s)\<rparr>)" by (rule oc)
  show "calm i s (s\<lparr>outcomes := ocs\<rparr>)" for ocs by (rule oc)
  show "calm i s (s\<lparr>rootV := (rootV s)(d := b)\<rparr>)" for d b by (intro calm_same_ns) (auto simp: clean_def)
  show "calm i s (s\<lparr>nsD := (nsD s)(d := [nsV s d])\<rparr>)" for d
    by (intro calmI) (auto simp: fs_wf_sync clean_def split: if_splits dest: fs_wfD(1))
  show "calm i s (s\<lparr>dirD := (dirD s)(k := [dirV s k])\<rparr>)" for k
  proof (rule calm_same_ns)
    show "clean j (s\<lparr>dirD := (dirD s)(k := [dirV s k])\<rparr>)" if "fs_wf s" "clean j s" for j
      by (rule clean_cong [OF _ _ that(2)]) (auto intro: fs_wfD(2) [OF that(1)])
  qed (auto simp: fs_wf_sync)
  show "calm i s (s\<lparr>fileD := (fileD s)(f := [fileV s f])\<rparr>)" for f
  proof (rule calm_same_ns)
    show "clean j (s\<lparr>fileD := (fileD s)(f := [fileV s f])\<rparr>)" if "fs_wf s" "clean j s" for j
      by (rule clean_cong [OF _ _ that(2)]) (auto intro: fs_wfD(3) [OF that(1)])
  qed (auto simp: fs_wf_sync)
  show "calm i s (setDir k (mdel n (dirV s k)) s)" for k n
  proof (rule calm_same_ns)
    show "fs_wf s \<Longrightarrow> fs_wf (setDir k (mdel n (dirV s k)) s)" using wf.unlink unfolding keeps_wf_def by blast
    show "clean j (setDir k (mdel n (dirV s k)) s)" if "fs_wf s" "clean j s" for j
      by (rule clean_setDir [OF that(2,1)]) (simp add: mget_mdel split: if_splits)
  qed simp_all
  show rm: "calm i s (setNs d (mdel n (nsV s d)) s)" for s d n
  proof (rule calmI)
    show "fs_wf s \<Longrightarrow> fs_wf (setNs d (mdel n (nsV s d)) s)" using wf.rmdir unfolding keeps_wf_def by blast
    show "\<exists>m0 \<in> set (nsD s dirReady). mget m0 i = Some j"
      if "fs_wf s" "m \<in> set (nsD (setNs d (mdel n (nsV s d)) s) dirReady)" "mget m i = Some j" for m j
      using that fs_wfD(1) [OF that(1), of dirReady] by (auto simp: mget_mdel split: if_splits)
  qed (auto simp: mget_mdel split: if_splits)
  show "calm i s (setNs dirCorrupt (mput n k (nsV s dirCorrupt)) (setNs a (mdel m (nsV s a)) s))"
    if "mget (nsV s a) m = Some k" "a \<noteq> dirCorrupt" for a m k n
  proof (rule calmI)
    let ?t = "setNs dirCorrupt (mput n k (nsV s dirCorrupt)) (setNs a (mdel m (nsV s a)) s)"
    show "fs_wf s \<Longrightarrow> fs_wf ?t" using wf.put_away that unfolding keeps_wf_def by blast
    show "\<exists>m0 \<in> set (nsD s dirReady). mget m0 i = Some j"
      if "fs_wf s" "m' \<in> set (nsD ?t dirReady)" "mget m' i = Some j" for m' j
      using that fs_wfD(1) [OF that(1), of dirReady] by (auto simp: mget_mdel split: if_splits)
  qed (auto simp: mget_mdel split: if_splits)
qed (rule calm_trans)

subsection \<open>Creating and writing\<close>

lemma mkdir_calm: "calm i s (snd (sysMkdir (dirTmp, i) s))"
  unfolding sysMkdir_def
proof (rule calm.sys, goal_cases)
  case (1 s)
  show ?case
  proof (cases "lookupEntry (dirTmp, i) s")
    case None
    let ?n = "freshNode s"
    let ?s = "s\<lparr>freshNode := ?n + 1, dirV := (dirV s)(?n := []), dirD := (dirD s)(?n := [[]])\<rparr>"
    have "calm i s (setNs dirTmp (mput i ?n (nsV s dirTmp)) ?s)"
    proof (rule calmI)
      assume wf: "fs_wf s"
      show "fs_wf (setNs dirTmp (mput i ?n (nsV s dirTmp)) ?s)"
        by (rule fs_wf_setNs) (use fs_wf_new(1) [OF wf] fs_wf_visible(1) [OF wf] in \<open>auto simp: mget_mput less_SucI split: if_splits\<close>)
      show "clean j (setNs dirTmp (mput i ?n (nsV s dirTmp)) ?s)" if "clean j s" for j
        using that by (auto simp: clean_def)
      show "mget (nsV s dirTmp) i = Some j \<or> ?n \<le> j \<and> clean j (setNs dirTmp (mput i ?n (nsV s dirTmp)) ?s)"
        if "mget (nsV (setNs dirTmp (mput i ?n (nsV s dirTmp)) ?s) dirTmp) i = Some j" for j
        using that by (auto simp: mget_mput clean_def)
    qed auto
    then show ?thesis using None by (simp add: Let_def)
  qed (auto simp: calm.refl)
qed

text \<open>A file that no directory names as a state file, now or after a crash.\<close>

definition unref :: "nat \<Rightarrow> fsys \<Rightarrow> bool" where
  "unref f s \<longleftrightarrow> (\<forall>j. \<forall>d \<in> set (dirD s j). mget d addStateName \<noteq> Some f)"

lemma unref_fresh: "fs_wf s \<Longrightarrow> unref (freshNode s) s"
  unfolding unref_def using fs_wfD(5) by blast

lemma clean_unref:
  assumes "unref f s" "dirD t = dirD s" "\<And>g. g \<noteq> f \<Longrightarrow> fileD t g = fileD s g" "clean j s"
  shows "clean j t"
  using assms unfolding clean_def unref_def by metis

text \<open>A temporary file that is being written, and about to be moved to its name \<open>n\<close>.\<close>

definition tempAt :: "entry \<Rightarrow> string \<Rightarrow> nat \<Rightarrow> string \<Rightarrow> fsys \<Rightarrow> bool" where
  "tempAt p temp f n s \<longleftrightarrow> fs_wf s \<and> unref f s \<and>
     (\<exists>i. lookupEntry p s = Some i \<and> mget (dirV s i) temp = Some f) \<and>
     (n = addStateName \<longrightarrow> addAccepted \<notin> set (fileD s f))"

definition neverAccepted :: "string \<Rightarrow> bool" where
  "neverAccepted dat \<longleftrightarrow> (\<forall>k. take k dat \<noteq> addAccepted)"

lemma neverAccepted_pending: "neverAccepted addPending"
proof -
  have "take k addPending \<noteq> addAccepted" for k
  proof
    assume "take k addPending = addAccepted"
    then have "addAccepted = addPending" using state_lengths
      by (metis length_take min.cobounded2 take_all_iff)
    then show False by (simp add: addPending_def addAccepted_def)
  qed
  then show ?thesis by (simp add: neverAccepted_def)
qed

lemma neverAccepted_take: "neverAccepted dat \<Longrightarrow> neverAccepted (take k dat)"
  by (simp add: neverAccepted_def)

lemma setFile_calm:
  assumes "unref f s"
  shows "calm i s (setFile f dat s)"
proof (rule calm_same_ns)
  show "clean j (setFile f dat s)" if "clean j s" for j
    by (rule clean_unref [OF assms _ _ that]) (simp_all add: setFile_def)
qed (auto intro: fs_wf_setFile)

lemma setFile_tempAt:
  assumes "tempAt p temp f addStateName s \<or> n \<noteq> addStateName \<and> tempAt p temp f n s" "fileV s f = []" "fileD s f = [[]]"
    "n = addStateName \<longrightarrow> neverAccepted dat"
  shows "tempAt p temp f n (setFile f dat s)"
proof -
  have "n = addStateName \<longrightarrow> addAccepted \<notin> set (fileD (setFile f dat s) f)"
    using assms(2-4) by (auto simp: setFile_def neverAccepted_def) metis
  then show ?thesis using assms(1) by (auto simp: tempAt_def unref_def intro: fs_wf_setFile)
qed

lemma sysCreate_calm:
  assumes "n \<noteq> addStateName"
  shows "calm i s (snd (sysCreate p n s))"
  unfolding sysCreate_def
proof (rule calm.sys, goal_cases)
  case (1 s)
  have "calm i s (setDir k (mput n (freshNode s) (dirV s k))
      (s\<lparr>freshNode := Suc (freshNode s), fileV := (fileV s)(freshNode s := []), fileD := (fileD s)(freshNode s := [[]])\<rparr>))" for k
  proof (rule calm_same_ns)
    let ?f = "freshNode s"
    let ?s = "s\<lparr>freshNode := Suc ?f, fileV := (fileV s)(?f := []), fileD := (fileD s)(?f := [[]])\<rparr>"
    assume wf: "fs_wf s"
    have wf': "fs_wf ?s" using fs_wf_new(2) [OF wf, of ?f] by simp
    then show "fs_wf (setDir k (mput n ?f (dirV s k)) ?s)"
      by (rule fs_wf_setDir) (use fs_wf_visible(2) [OF wf] in \<open>auto simp: mget_mput less_SucI split: if_splits\<close>)
    show "clean j (setDir k (mput n ?f (dirV s k)) ?s)" if "clean j s" for j
    proof (rule clean_setDir [OF _ wf'])
      show "clean j ?s" by (rule clean_unref [OF unref_fresh [OF wf] _ _ that]) auto
    qed (use assms in \<open>auto simp: mget_mput\<close>)
  qed simp_all
  then show ?case by (auto simp: Let_def calm.refl split: option.splits)
qed

lemma sysCreate_tempAt:
  assumes "sysCreate p temp s = (Inr f, t)" "temp \<noteq> addStateName" "fs_wf s"
  shows "tempAt p temp f n t" "fileV t f = []" "fileD t f = [[]]"
proof -
  have "fs_wf t" using sysCreate_calm [OF assms(2), of "[]" s p] assms(1,3) by (simp add: calm_def)
  with assms(1) show "tempAt p temp f n t" "fileV t f = []" "fileD t f = [[]]"
    using unref_fresh [OF assms(3)] fs_wfD(2) [OF assms(3)] assms(2)
    by (auto elim!: sysCreate_ok simp: tempAt_def unref_def mget_mput addAccepted_def split: if_splits) metis
qed

lemma renameFile_calm:
  assumes "tempAt p temp f n s" "temp \<noteq> addStateName"
  shows "calm i s (snd (sysRenameFile p temp n s))"
proof -
  obtain k where k: "lookupEntry p s = Some k" "mget (dirV s k) temp = Some f" using assms(1) by (auto simp: tempAt_def)
  have wf: "fs_wf s" using assms(1) by (simp add: tempAt_def)
  let ?m = "mput n f (mdel temp (dirV s k))"
  have "calm i s (setDir k ?m (s\<lparr>outcomes := ocs\<rparr>))" for ocs
  proof (rule calm_same_ns)
    show "fs_wf (setDir k ?m (s\<lparr>outcomes := ocs\<rparr>))"
      by (rule fs_wf_setDir) (use wf k(2) fs_wf_visible(2) [OF wf] in \<open>auto simp: mget_mput mget_mdel split: if_splits\<close>)
    show "clean j (setDir k ?m (s\<lparr>outcomes := ocs\<rparr>))" if "clean j s" for j
      by (rule clean_setDir) (use wf that assms in \<open>auto simp: mget_mput mget_mdel tempAt_def split: if_splits\<close>)
  qed simp_all
  moreover have "calm i s (s\<lparr>outcomes := ocs\<rparr>)" for ocs by (rule calm.outcome)
  moreover obtain ocs where "snd (takeOutcome s) = s\<lparr>outcomes := ocs\<rparr>" using takeOutcome_eq by blast
  ultimately show ?thesis using k
    by (cases "takeOutcome s") (auto simp: sysRenameFile_def syscall_def split: outcome.splits)
qed

lemma thenE_calm:
  assumes "calm i s (snd r)" "\<And>s1. r = (None, s1) \<Longrightarrow> calm i s1 (snd (f s1))"
  shows "calm i s (snd (thenE r f))"
  using assms by (cases r) (auto simp: thenE_def split: option.splits intro: calm_trans)

lemma tempAt_outcomes [simp]: "tempAt p temp f n (s\<lparr>outcomes := ocs\<rparr>) = tempAt p temp f n s"
  by (simp add: tempAt_def unref_def)

lemma touch_tempAt: "errOf (sysTouch s) = (None, t) \<Longrightarrow> tempAt p temp f n s \<Longrightarrow> tempAt p temp f n t"
  using sysTouch_ok [of s] by (auto simp: errOf_None)

lemma sync_tempAt:
  assumes "errOf (sysSyncFile f s) = (None, t)" "tempAt p temp f n s"
  shows "tempAt p temp f n t"
proof -
  obtain ocs where t: "t = s\<lparr>outcomes := ocs, fileD := (fileD s)(f := [fileV s f])\<rparr>"
    using assms(1) by (auto simp: errOf_None elim: sysSyncFile_ok)
  have wf: "fs_wf s" using assms(2) by (simp add: tempAt_def)
  then have "fileV s f \<in> set (fileD s f)" by (rule fs_wfD)
  then show ?thesis using assms(2) wf fs_wf_sync(3) [of "s\<lparr>outcomes := ocs\<rparr>" f] by (auto simp: t tempAt_def unref_def)
qed

lemma commitFile_calm:
  assumes "tempAt p temp f n s" "temp \<noteq> addStateName"
  shows "calm i s (snd (commitFile f p temp n s))"
  unfolding commitFile_def
proof (intro thenE_calm)
  fix s1 s2 s3 s4
  assume "errOf (sysTouch s) = (None, s1)" and s2: "errOf (sysSyncFile f s1) = (None, s2)"
    and s3: "errOf (sysTouch s2) = (None, s3)"
  then have "tempAt p temp f n s1" using assms(1) touch_tempAt by blast
  then have "tempAt p temp f n s2" using s2 sync_tempAt by blast
  then have "tempAt p temp f n s3" using s3 touch_tempAt by blast
  then show "calm i s3 (snd (errOf (sysRenameFile p temp n s3)))"
    using renameFile_calm assms(2) by (simp add: calm.errOfR)
qed (simp_all add: calm.errOfR calm.looks calm.syncs calm.diskSyncs)

lemma Commit_calm:
  assumes "tempAt p temp f n s" "temp \<noteq> addStateName"
  shows "calm i s (snd (Commit f p temp n s))"
proof -
  have "calm i s1 (tryUnlink p temp (snd (sysTouch s1)))" for s1
    using calm.looks(6) calm.tryUnlinkR calm_trans by blast
  then show ?thesis using commitFile_calm [OF assms, of i]
    by (cases "commitFile f p temp n s") (auto simp: Commit_def split: option.splits intro: calm_trans)
qed

lemma pathMayExist_calm: "calm i s (snd (pathMayExist p n s))"
  using calm.looks(2) [of i s p n] by (auto simp: pathMayExist_def split: prod.splits sum.splits)

lemma sysWriteAt_tempAt:
  assumes "tempAt p temp f n s" "fileV s f = []" "fileD s f = [[]]" "n = addStateName \<longrightarrow> neverAccepted dat"
    "sysWriteAt f dat s = ((k, err), t)"
  shows "calm i s t" "tempAt p temp f n t"
proof -
  obtain oc ocs where tk: "takeOutcome s = (oc, s\<lparr>outcomes := ocs\<rparr>)" using takeOutcome_eq [of s] by (metis prod.collapse)
  have u: "unref f (s\<lparr>outcomes := ocs\<rparr>)" using assms(1) by (simp add: tempAt_def unref_def)
  have c: "calm i s (setFile f d (s\<lparr>outcomes := ocs\<rparr>))" for d
    using calm.outcome setFile_calm [OF u] calm_trans by blast
  have a: "tempAt p temp f n (setFile f d (s\<lparr>outcomes := ocs\<rparr>))" if "n = addStateName \<longrightarrow> neverAccepted d" for d
    by (rule setFile_tempAt) (use assms(1-3) that in auto)
  show "calm i s t" using assms(5) tk c calm.outcome by (auto simp: sysWriteAt_def split: outcome.splits)
  show "tempAt p temp f n t"
    using assms(1,4,5) tk a neverAccepted_take by (auto simp: sysWriteAt_def split: outcome.splits)
qed

lemma diskWrite_calm:
  assumes "n = addStateName \<longrightarrow> neverAccepted dat"
  shows "calm i s (snd (diskWrite (dirTmp, i) n dat s))"
proof (cases "fs_wf s")
  case wf: True
  let ?p = "(dirTmp, i)"
  obtain r0 s0 where s0: "diskMkdir ?p s = (r0, s0)" by fastforce
  have c0: "calm i s s0" using mkdir_calm [of i s] s0 calm.errOfR [of "sysMkdir ?p s"] by (simp add: diskMkdir_def)
  have wf0: "fs_wf s0" using c0 wf by (simp add: calm_def)
  let ?temp = "tempName n s0"
  note tn = tempName_other(1) [of n s0]
  obtain r1 s1 where s1: "sysCreate ?p ?temp s0 = (r1, s1)" by fastforce
  have c1: "calm i s s1" using c0 sysCreate_calm [OF tn, of i s0 ?p] s1 calm_trans by auto
  show ?thesis
  proof (cases "\<exists>f. r0 = None \<and> r1 = Inr f")
    case False
    then show ?thesis using s0 s1 c0 c1
      by (cases r0; cases r1) (auto simp: diskWrite_def WriteWithTempState_def diskTemp_def bindN_def bindE_def Let_def)
  next
    case True
    then obtain f where r: "r0 = None" "r1 = Inr f" by blast
    have t1: "tempAt ?p ?temp f n s1" "fileV s1 f = []" "fileD s1 f = [[]]"
      using sysCreate_tempAt s1 r(2) tn wf0 by auto
    obtain k err s2 where s2: "sysWriteAt f dat s1 = ((k, err), s2)" by (metis prod.collapse)
    note w = sysWriteAt_tempAt(1) [OF t1 assms s2, of i] sysWriteAt_tempAt(2) [OF t1 assms s2]
    have c2: "calm i s s2" using c1 w(1) calm_trans by blast
    have c3: "calm i s2 (snd (Commit f ?p ?temp n s2))" by (rule Commit_calm [OF w(2) tn])
    have c4: "calm i s2 (snd (pathMayExist ?p ?temp (tryUnlink ?p ?temp (snd (sysTouch s2)))))"
      using calm.looks(6) calm.tryUnlinkR pathMayExist_calm calm_trans by meson
    have c5: "calm i s2 (snd (pathMayExist ?p ?temp (snd (Commit f ?p ?temp n s2))))"
      using c3 pathMayExist_calm calm_trans by meson
    have tmp: "diskTemp ?p n s = (Inr (f, ?temp), s1)"
      by (simp add: diskTemp_def s0 r bindN_def bindE_def s1)
    have "calm i s2 (snd (diskWrite ?p n dat s))"
      using c3 c4 c5 unfolding diskWrite_def WriteWithTempState_def tmp
      by (auto simp: s2 Let_def split: prod.splits option.splits)
    then show ?thesis using c2 calm_trans by blast
  qed
qed (simp add: calm_def)

subsection \<open>Staging\<close>

lemma calm_safe: "safe i s \<Longrightarrow> calm i s t \<Longrightarrow> safe i t"
  unfolding safe_def calm_def by (meson fs_wfD(4))

text \<open>The entry is safe, and so is what would be moved to its name.\<close>

definition staging :: "string \<Rightarrow> fsys \<Rightarrow> bool" where
  "staging i s \<longleftrightarrow> safe i s \<and> (\<forall>j. mget (nsV s dirTmp) i = Some j \<longrightarrow> clean j s)"

lemma calm_staging:
  assumes "staging i s" "calm i s t"
  shows "staging i t"
proof -
  have wf: "fs_wf s" using assms(1) by (simp add: staging_def safe_def)
  have "clean j t" if "mget (nsV t dirTmp) i = Some j" for j
    using assms wf that fs_wf_visible(1) [OF wf] unfolding staging_def calm_def by blast
  then show ?thesis using assms calm_safe unfolding staging_def by blast
qed

lemma thenE_staging:
  assumes "staging i s" "calm i s (snd r)" "\<And>s1. staging i s1 \<Longrightarrow> safe i (snd (f s1))"
  shows "safe i (snd (thenE r f))"
  using assms calm_staging [OF assms(1,2)] by (cases r) (auto simp: thenE_def staging_def split: option.splits)

lemma rename_safe:
  assumes "staging i s"
  shows "safe i (snd (diskRename (dirTmp, i) (dirReady, i) s))"
proof -
  have moved: "safe i (setNs dirReady (mput i j (nsV s dirReady)) (setNs dirTmp (mdel i (nsV s dirTmp)) (s\<lparr>outcomes := ocs\<rparr>)))"
    if j: "mget (nsV s dirTmp) i = Some j" for j ocs
  proof -
    have wf: "fs_wf s" and cl: "clean j s" using assms j by (auto simp: staging_def safe_def)
    have "fs_wf (setNs dirTmp (mdel i (nsV s dirTmp)) (s\<lparr>outcomes := ocs\<rparr>))"
      using wf.rmdir [of "s\<lparr>outcomes := ocs\<rparr>" dirTmp i] wf by (simp add: keeps_wf_def)
    then have "fs_wf (setNs dirReady (mput i j (nsV s dirReady)) (setNs dirTmp (mdel i (nsV s dirTmp)) (s\<lparr>outcomes := ocs\<rparr>)))"
      by (rule fs_wf_setNs) (use fs_wf_visible(1) [OF wf] j in \<open>auto simp: mget_mput split: if_splits\<close>)
    then show ?thesis using assms cl by (auto simp: safe_def staging_def mget_mput)
  qed
  obtain ocs where tk: "snd (takeOutcome s) = s\<lparr>outcomes := ocs\<rparr>" using takeOutcome_eq by blast
  have s0: "safe i (s\<lparr>outcomes := ocs\<rparr>)" using calm_safe calm.outcome assms by (auto simp: staging_def)
  have "safe i (snd (sysRename (dirTmp, i) (dirReady, i) s))"
    using tk s0 moved by (cases "takeOutcome s")
      (auto simp: sysRename_def syscall_def Let_def lookupEntry_def split: outcome.splits option.splits)
  moreover have "calm i s1 (snd (thenE (diskSyncNs dirReady s1) (\<lambda>s2. diskSyncNs dirTmp s2)))" for s1
    by (intro calm.thenR calm.diskSyncs)
  ultimately show ?thesis
    by (cases "errOf (sysRename (dirTmp, i) (dirReady, i) s)")
      (use calm.errOfR [of "sysRename (dirTmp, i) (dirReady, i) s"] calm_safe in
        \<open>auto simp: diskRename_def thenE_def [of "(_, _)"] split: option.splits\<close>)
qed

lemma addStage_safe:
  assumes "staging i s"
  shows "safe i (snd (addStage i dat meta s))"
  unfolding addStage_def Let_def
  by (intro thenE_staging [OF _ calm.ctx] thenE_staging [OF _ diskWrite_calm] thenE_staging [OF _ calm.diskSyncs(2)] rename_safe assms)
    (simp_all add: neverAccepted_pending names)

lemma ioErrno_exists [simp]: "\<not> errnoIs (ioErrno e) OsErrNotExist"
  by (cases e) (simp_all add: errnoIs_def)

lemma syscall_missing:
  assumes "syscall eff s = (Inl e, t)" "errors_Is e OsErrNotExist"
  obtains ocs where "eff (s\<lparr>outcomes := ocs\<rparr>) = (Inl e, t)"
  using assms takeOutcome_eq [of s] by (cases "takeOutcome s") (auto simp: syscall_def split: outcome.splits)

lemma contents_error: "removeDirectoryContents p ns s = (Some e, t) \<Longrightarrow> \<not> errors_Is e OsErrNotExist"
  by (induction ns arbitrary: s) (auto split: prod.splits option.splits if_splits)

lemma sysRmdir_gone:
  assumes "sysRmdir p s = (r, t)" "okR r \<or> missingR r"
  shows "lookupEntry p t = None"
proof (cases r)
  case (Inl e)
  then have ne: "errors_Is e OsErrNotExist" using assms(2) by (simp add: okR_def missingR_def)
  show ?thesis
    by (rule syscall_missing [OF assms(1) [unfolded sysRmdir_def Inl] ne])
      (use ne in \<open>auto simp: errnoIs_def split: option.splits if_splits\<close>)
next
  case (Inr u)
  with assms(1) show ?thesis unfolding sysRmdir_def
    by (auto elim!: syscall_Inr simp: mget_mdel split: option.splits if_splits)
qed

lemma stat_missing: "sysStat p s = (r, t) \<Longrightarrow> missingR r \<Longrightarrow> lookupEntry p t = None"
  unfolding sysStat_def missingR_def by (cases r) (auto elim!: syscall_missing split: option.splits)

lemma readDir_missing: "sysReadDir p s = (r, t) \<Longrightarrow> missingR r \<Longrightarrow> lookupEntry p t = None"
  unfolding sysReadDir_def missingR_def by (cases r) (auto elim!: syscall_missing split: option.splits)

definition noErr :: "gerror option \<Rightarrow> bool" where
  "noErr r \<longleftrightarrow> (case r of None \<Rightarrow> True | Some e \<Rightarrow> errors_Is e OsErrNotExist)"

lemma removed_or_error:
  assumes "RemoveAll p s = (r, t)" "noErr r"
  shows "lookupEntry p t = None"
proof (cases "sysStat p s")
  case (Pair r1 s1)
  show ?thesis
  proof (cases r1)
    case (Inl e)
    then show ?thesis using assms Pair stat_missing [OF Pair]
      by (auto simp: RemoveAll_def missingR_def noErr_def split: if_splits)
  next
    case (Inr k)
    obtain r2 s2 where s2: "sysReadDir p s1 = (r2, s2)" by fastforce
    show ?thesis
    proof (cases r2)
      case (Inl e)
      then show ?thesis using assms Pair Inr s2 readDir_missing [OF s2]
        by (auto simp: RemoveAll_def withValue_def missingR_def noErr_def)
    next
      case r2: (Inr ns)
      obtain r3 s3 where s3: "removeDirectoryContents p ns s2 = (r3, s3)" by fastforce
      show ?thesis
      proof (cases r3)
        case (Some e)
        then show ?thesis using assms Pair Inr s2 r2 s3 contents_error [of p ns s2 e s3]
          by (auto simp: RemoveAll_def withValue_def thenE_def noErr_def)
      next
        case None
        obtain r4 s4 where s4: "sysRmdir p s3 = (r4, s4)" by fastforce
        then show ?thesis using assms Pair Inr s2 r2 s3 None sysRmdir_gone [OF s4]
          by (auto simp: RemoveAll_def withValue_def thenE_def errOf_def okR_def missingR_def noErr_def split: sum.splits)
      qed
    qed
  qed
qed

subsection \<open>The commit\<close>

lemma pending_prefix: "overwrite addPending old \<noteq> addAccepted"
proof
  assume "overwrite addPending old = addAccepted"
  then have "take (length addPending) addAccepted = addPending" unfolding overwrite_def by (metis append_eq_conv_conj)
  then show False by (simp add: addPending_def addAccepted_def)
qed

text \<open>The commit touches one file.\<close>

definition onlyFile :: "nat \<Rightarrow> fsys \<Rightarrow> fsys \<Rightarrow> bool" where
  "onlyFile f s t \<longleftrightarrow> (fs_wf s \<longrightarrow> fs_wf t) \<and> nsV t = nsV s \<and> nsD t = nsD s \<and> dirV t = dirV s \<and> dirD t = dirD s \<and>
     (\<forall>g. g \<noteq> f \<longrightarrow> fileD t g = fileD s g)"

lemma onlyFile_trans: "onlyFile f s t \<Longrightarrow> onlyFile f t u \<Longrightarrow> onlyFile f s u"
  unfolding onlyFile_def by auto

lemma onlyFile_steps:
  "onlyFile f s (snd (sysTouch s))" "onlyFile f s (snd (writeAddState f st s))" "onlyFile f s (snd (SyncFile f s))"
proof -
  obtain oc ocs where tk: "takeOutcome s = (oc, s\<lparr>outcomes := ocs\<rparr>)" using takeOutcome_eq [of s] by (metis prod.collapse)
  have 0: "onlyFile f s (s\<lparr>outcomes := ocs\<rparr>)" by (simp add: onlyFile_def)
  have 1: "onlyFile f s (setFile f d (s\<lparr>outcomes := ocs\<rparr>))" for d
    by (auto simp: onlyFile_def intro: fs_wf_setFile) (simp add: setFile_def)
  have 2: "onlyFile f s (s\<lparr>outcomes := ocs, fileD := (fileD s)(f := [fileV s f])\<rparr>)"
    using fs_wf_sync(3) [of "s\<lparr>outcomes := ocs\<rparr>" f] by (simp add: onlyFile_def)
  show "onlyFile f s (snd (sysTouch s))" using tk 0 by (auto simp: sysTouch_def syscall_def split: outcome.splits)
  show "onlyFile f s (snd (writeAddState f st s))"
    using tk 0 1 by (auto simp: writeAddState_def sysWriteAt_def split: outcome.splits)
  show "onlyFile f s (snd (SyncFile f s))"
    using tk 0 2 by (auto simp: SyncFile_def errOf_def sysSyncFile_def syscall_def split: outcome.splits)
qed

lemma rollbackAdd_spec:
  assumes "rollbackAdd f cause s = ((rolledBack, result), t)" "fs_wf s"
  shows "onlyFile f s t" "rolledBack \<Longrightarrow> addAccepted \<notin> set (fileD t f)"
proof -
  obtain r1 s1 where s1: "errOf (sysTouch s) = (r1, s1)" by fastforce
  obtain r2 s2 where s2: "writeAddState f addPending s1 = (r2, s2)" by fastforce
  obtain r3 s3 where s3: "SyncFile f s2 = (r3, s3)" by fastforce
  have o1: "onlyFile f s s1" using onlyFile_steps(1) [of f s] s1 calm.errOfR [of "sysTouch s"] by simp
  have o2: "onlyFile f s1 s2" using onlyFile_steps(2) [of f s1 addPending] s2 by simp
  have o3: "onlyFile f s2 s3" using onlyFile_steps(3) [of f s2] s3 by simp
  have "t \<in> {s1, s2, s3}" using assms(1) s1 s2 s3 by (auto simp: rollbackAdd_def split: option.splits)
  then show "onlyFile f s t" using o1 onlyFile_trans [OF o1 o2] onlyFile_trans [OF onlyFile_trans [OF o1 o2] o3] by blast
  assume "rolledBack"
  then have r: "r2 = None" "r3 = None" "t = s3"
    using assms(1) s1 s2 s3 by (auto simp: rollbackAdd_def split: option.splits)
  obtain ocs where v: "s2 = setFile f addPending (s1\<lparr>outcomes := ocs\<rparr>)"
    using s2 r(1) unfolding writeAddState_def by (auto split: prod.splits option.splits if_splits elim!: sysWriteAt_ok)
  obtain ocs' where t: "t = s2\<lparr>outcomes := ocs', fileD := (fileD s2)(f := [fileV s2 f])\<rparr>"
    using s3 r(2,3) unfolding SyncFile_def by (auto simp: errOf_None elim: sysSyncFile_ok)
  show "addAccepted \<notin> set (fileD t f)" using pending_prefix [symmetric] by (auto simp: t v setFile_def)
qed

lemma safe_onlyFile:
  assumes "safe i s" "onlyFile f s t" "addAccepted \<notin> set (fileD t f)"
  shows "safe i t"
proof -
  have "clean j t" if "clean j s" for j using that assms(2,3) unfolding clean_def onlyFile_def by metis
  then show ?thesis using assms(1,2) unfolding safe_def onlyFile_def by auto
qed

lemma acceptFailed_spec:
  assumes "acceptFailed f cause s = (Some err, t)" "onlyFile f s0 s" "safe i s0"
  shows "fs_wf t" "\<not> IsAcceptanceUnknown (Some err) \<Longrightarrow> safe i t"
proof -
  obtain rb res where rb: "rollbackAdd f cause s = ((rb, res), t)" "err = (if \<not> rb then acceptanceUnknown res else res)"
    using assms(1) unfolding acceptFailed_def Let_def by (auto split: prod.splits)
  have wf: "fs_wf s" using assms(2,3) by (simp add: onlyFile_def safe_def)
  note spec = rollbackAdd_spec [OF rb(1) wf]
  have o: "onlyFile f s0 t" using assms(2) spec(1) by (rule onlyFile_trans)
  then show "fs_wf t" using assms(3) by (simp add: onlyFile_def safe_def)
  assume "\<not> IsAcceptanceUnknown (Some err)"
  then have "rb" using rb(2) by (auto split: if_splits)
  then show "safe i t" using safe_onlyFile [OF assms(3) o] spec(2) by blast
qed

lemma acceptAdd_spec:
  assumes "acceptAdd (dirReady, i) s = (Some err, t)" "safe i s"
  shows "fs_wf t" "\<not> IsAcceptanceUnknown (Some err) \<Longrightarrow> safe i t"
proof -
  obtain r1 s1 where s1: "sysOpen (dirReady, i) addStateName s = (r1, s1)" by fastforce
  have sf1: "safe i s1" using calm_safe [OF assms(2)] calm.looks(3) [of i s "(dirReady, i)" addStateName] s1 by simp
  have "fs_wf t \<and> (\<not> IsAcceptanceUnknown (Some err) \<longrightarrow> safe i t)"
  proof (cases r1)
    case (Inl e)
    then show ?thesis using assms(1) s1 sf1 by (auto simp: acceptAdd_def withValue_def safe_def)
  next
    case (Inr f)
    obtain r2 s2 where s2: "writeAddState f addAccepted s1 = (r2, s2)" by fastforce
    obtain r3 s3 where s3: "SyncFile f s2 = (r3, s3)" by fastforce
    have o2: "onlyFile f s1 s2" using onlyFile_steps(2) [of f s1 addAccepted] s2 by simp
    have o3: "onlyFile f s1 s3" using onlyFile_steps(3) [of f s2] s3 o2 onlyFile_trans by auto
    have "(\<exists>e. acceptFailed f e s2 = (Some err, t)) \<or> (\<exists>e. acceptFailed f e s3 = (Some err, t))"
      using assms(1) s1 s2 s3 Inr by (auto simp: acceptAdd_def withValue_def split: option.splits)
    then show ?thesis using acceptFailed_spec o2 o3 sf1 by blast
  qed
  then show "fs_wf t" "\<not> IsAcceptanceUnknown (Some err) \<Longrightarrow> safe i t" by auto
qed

subsection \<open>Moving a failed entry out of the way\<close>

lemma gone_safe: "fs_wf t \<Longrightarrow> nsD t dirReady = [nsV t dirReady] \<Longrightarrow> mget (nsV t dirReady) i = None \<Longrightarrow> safe i t"
  by (simp add: safe_def)

lemma quarantineDir_ok:
  assumes "quarantineDir (dirReady, i) nm now s = (None, t)" "fs_wf s"
  shows "safe i t"
proof -
  obtain s1 where s1: "diskRename (dirReady, i) (dirCorrupt, nm @ ''.'' @ formatInt now) s1 = (None, t)"
    using assms(1) by (auto simp: quarantineDir_def thenE_None recovered_None)
  obtain s2 where s2: "sysRename (dirReady, i) (dirCorrupt, nm @ ''.'' @ formatInt now) s1 = (Inr (), s2)"
    using s1 by (auto simp: diskRename_def success)
  obtain k where k: "lookupEntry (dirReady, i) s1 = Some k" using s2 by (elim sysRename_ok) auto
  have "fs_wf t" using wf.quarantine [of "(dirReady, i)" s nm now] assms by (simp add: keeps_wf_def)
  moreover have "nsD t dirReady = [nsV t dirReady] \<and> mget (nsV t dirReady) i = None"
    by (rule diskRename_ok [OF s1 _ k]) (auto simp: mget_mdel)
  ultimately show ?thesis using gone_safe by blast
qed

lemma abortReady_spec:
  assumes "abortReady e metaLen physicalHeld now cause q s = (err, held, q', t)" "fs_wf s"
    "\<not> IsAcceptanceUnknown (Some cause) \<Longrightarrow> safe (ID e) s"
  shows "fs_wf t" "\<not> IsAcceptanceUnknown (Some err) \<Longrightarrow> safe (ID e) t"
proof -
  let ?p = "(dirReady, ID e)"
  obtain m s1 where s1: "AllocatedBytes ?p s = (m, s1)" by fastforce
  obtain ab s2 where s2: "quarantineDir ?p (ID e @ ''-uncommitted'') now s1 = (ab, s2)" by fastforce
  obtain sy s3 where s3: "diskSyncNs dirReady s2 = (sy, s3)" by fastforce
  obtain st s4 where s4: "sysStat ?p s3 = (st, s4)" by fastforce
  have c1: "calm (ID e) s s1" using calm.allocated [of "ID e" s ?p] s1 by simp
  have c2: "calm (ID e) s1 s2" using calm.quarantine [of ?p "ID e" s1 "ID e @ ''-uncommitted''" now] s2 by simp
  have c3: "calm (ID e) s2 s3" using calm.diskSyncs(1) [of "ID e" s2 dirReady] s3 by simp
  have c4: "calm (ID e) s3 s4" using calm.looks(1) [of "ID e" s3 ?p] s4 by simp
  have c24: "calm (ID e) s s2" "calm (ID e) s s4" using c1 c2 c3 c4 calm_trans by metis+
  have t: "t = (if ab = None then s2 else s4)"
    using assms(1) s1 s2 s3 s4 by (auto simp: abortReady_def Let_def split: option.splits if_splits)
  have wf: "fs_wf s1" "fs_wf s2" "fs_wf s4" using assms(2) c1 c24 by (auto simp: calm_def)
  then show "fs_wf t" using t by simp
  assume known: "\<not> IsAcceptanceUnknown (Some err)"
  show "safe (ID e) t"
  proof (cases ab)
    case None
    then show ?thesis using quarantineDir_ok s2 wf(1) t by auto
  next
    case (Some ae)
    show ?thesis
    proof (cases "sy = None \<and> missingR st")
      case True
      then obtain ocs where "s3 = s2\<lparr>outcomes := ocs, nsD := (nsD s2)(dirReady := [nsV s2 dirReady])\<rparr>"
        using s3 by (auto simp: diskSyncNs_def errOf_None elim: sysSyncNs_ok)
      then have "nsD s3 dirReady = [nsV s3 dirReady]" by simp
      moreover have "nsV s4 = nsV s3" "nsD s4 = nsD s3" "mget (nsV s4 dirReady) (ID e) = None"
        using True s4 stat_missing [OF s4]
        by (auto simp: sysStat_def missingR_def lookupEntry_def elim!: syscall_missing split: sum.splits option.splits)
      ultimately show ?thesis using gone_safe [OF wf(3)] t Some by simp
    next
      case False
      then have "\<not> IsAcceptanceUnknown (Some cause)"
        using assms(1) known s1 s2 s3 s4 Some
        by (auto simp: abortReady_def Let_def split: if_splits)
      then show ?thesis using assms(3) calm_safe c24(2) t Some by simp
    qed
  qed
qed

subsection \<open>The operation\<close>

lemma diskMkdir_calm: "calm i s (snd (diskMkdir (dirTmp, i) s))"
  using mkdir_calm by (simp add: diskMkdir_def calm.errOfR)

lemma addMkTmp_spec:
  assumes "addMkTmp i s = (r, t)" "safe i s"
  shows "safe i t" "r = None \<Longrightarrow> staging i t"
proof -
  obtain r1 s1 where s1: "RemoveAll (dirTmp, i) s = (r1, s1)" by fastforce
  obtain r2 s2 where s2: "diskMkdir (dirTmp, i) s1 = (r2, s2)" by fastforce
  have sf1: "safe i s1" using calm_safe [OF assms(2)] calm.removeAll [of i s "(dirTmp, i)"] s1 by simp
  have c2: "calm i s1 s2" using diskMkdir_calm [of i s1] s2 by simp
  show "safe i t"
    using assms(1) s1 s2 sf1 calm_safe [OF sf1 c2] by (auto simp: addMkTmp_def split: option.splits if_splits)
  assume "r = None"
  then have "noErr r1" "t = s2" using assms(1) s1 s2 by (auto simp: addMkTmp_def noErr_def split: option.splits if_splits)
  then have "mget (nsV s1 dirTmp) i = None" using removed_or_error [OF s1] by (simp add: lookupEntry_def)
  then have "staging i s1" using sf1 by (simp add: staging_def)
  then show "staging i t" using calm_staging c2 \<open>t = s2\<close> by blast
qed

lemma addCleanup_calm: "calm i s (snd (addCleanup i s))"
proof -
  obtain a s1 where s1: "RemoveAll (dirTmp, i) s = (a, s1)" by fastforce
  obtain b s2 where s2: "diskSyncNs dirTmp s1 = (b, s2)" by fastforce
  obtain c s3 where s3: "sysStat (dirTmp, i) s2 = (c, s3)" by fastforce
  obtain d s4 where s4: "sysStat (dirReady, i) s3 = (d, s4)" by fastforce
  have "calm i s s1" "calm i s1 s2" "calm i s2 s3" "calm i s3 s4"
    using calm.removeAll [of i s "(dirTmp, i)"] calm.diskSyncs(1) [of i s1 dirTmp]
      calm.looks(1) [of i s2 "(dirTmp, i)"] calm.looks(1) [of i s3 "(dirReady, i)"] s1 s2 s3 s4 by simp_all
  then have "calm i s s4" using calm_trans by metis
  then show ?thesis by (simp add: addCleanup_def s1 s2 s3 s4)
qed

lemma ctx_safe: "ctxErr s = (r, t) \<Longrightarrow> safe i s \<Longrightarrow> safe i t"
  using calm_safe calm.ctx [of i s] by auto

lemma addReserved_spec:
  assumes "addReserved e dat meta physical now q s = (err, q', t)" "safe (ID e) s" "err \<noteq> None"
    "\<not> IsAcceptanceUnknown err"
  shows "safe (ID e) t"
proof -
  let ?i = "ID e"
  obtain r1 s1 where s1: "ctxErr s = (r1, s1)" by fastforce
  have sf1: "safe ?i s1" by (rule ctx_safe) fact+
  obtain r2 s2 where s2: "addMkTmp ?i s1 = (r2, s2)" by fastforce
  note mk = addMkTmp_spec [OF s2 sf1]
  obtain r3 s3 where s3: "addStage ?i dat meta s2 = (r3, s3)" by fastforce
  obtain r4 s4 where s4: "ctxErr s3 = (r4, s4)" by fastforce
  obtain r5 s5 where s5: "acceptAdd (dirReady, ?i) s4 = (r5, s5)" by fastforce
  have eq: "addReserved e dat meta physical now q s =
     (case r1 of Some e1 \<Rightarrow> (Some e1, addAbort e physical q, s1)
      | None \<Rightarrow> (case r2 of Some e2 \<Rightarrow> (Some e2, addAbort e physical q, s2)
      | None \<Rightarrow> (case r3 of Some e3 \<Rightarrow>
          (let (remains, s4) = addCleanup ?i s3
           in if remains \<and> physical \<noteq> 0 then (Some e3, addAbort e 0 (commitPhysicalLocked physical q), s4)
              else (Some e3, addAbort e physical q, s4))
      | None \<Rightarrow>
          (case (case r4 of Some e4 \<Rightarrow> (Some e4, s4) | None \<Rightarrow> (r5, s5)) of
             (Some e4, s4) \<Rightarrow>
               (let (err', held, q1, s5) = abortReady e (int (length meta)) physical now e4 q s4
                in (Some err', addAbort e held q1, s5))
           | (None, s4) \<Rightarrow> (None, publishAdd e (int (length meta)) physical q, s4)))))"
    by (cases r1; cases r2; cases r3; cases r4; cases r5) (simp_all add: addReserved_def Let_def s1 s2 s3 s4 s5)
  show ?thesis
  proof (cases "r1 = None \<and> r2 = None")
    case False
    then show ?thesis using eq assms(1) sf1 mk(1) by (cases r1; cases r2) auto
  next
    case True
    then have stg: "staging ?i s2" using mk(2) by simp
    have sf3: "safe ?i s3" using addStage_safe [OF stg, of dat meta] s3 by simp
    show ?thesis
    proof (cases r3)
      case (Some e3)
      obtain rem sc where sc: "addCleanup ?i s3 = (rem, sc)" by fastforce
      then have "safe ?i sc" using calm_safe [OF sf3] addCleanup_calm [of ?i s3] by simp
      then show ?thesis using eq assms(1) True Some sc by (auto split: if_splits)
    next
      case None
      have sf4: "safe ?i s4" using ctx_safe s4 sf3 by blast
      obtain cause u where cu: "(case r4 of Some e4 \<Rightarrow> (Some e4, s4) | None \<Rightarrow> (r5, s5)) = (cause, u)" by fastforce
      have "cause \<noteq> None" using eq assms(1,3) True None cu by (auto split: option.splits)
      then obtain c where c: "cause = Some c" by blast
      have u: "fs_wf u" "\<not> IsAcceptanceUnknown (Some c) \<Longrightarrow> safe ?i u"
        using cu c s5 sf4 acceptAdd_spec [of ?i s4 c u] by (auto simp: safe_def split: option.splits)
      obtain err' held q1 s6 where ab: "abortReady e (int (length meta)) physical now c q u = (err', held, q1, s6)"
        using prod_cases4 by blast
      have "err = Some err'" "t = s6" using eq assms(1) True None cu c ab by auto
      then show ?thesis using abortReady_spec(2) [OF ab u] assms(4) by simp
    qed
  qed
qed

lemma addElsewhere_calm: "calm i s (snd (addElsewhere i s))"
proof -
  obtain a s1 where s1: "sysStat (dirDead, i) s = (a, s1)" by fastforce
  obtain b s2 where s2: "sysStat (dirDSN, i) s1 = (b, s2)" by fastforce
  have "calm i s s1" "calm i s1 s2"
    using calm.looks(1) [of i s "(dirDead, i)"] calm.looks(1) [of i s1 "(dirDSN, i)"] s1 s2 by simp_all
  then show ?thesis using calm_trans [of i s s1 s2] by (cases a; cases b) (auto simp: addElsewhere_def s1 s2)
qed

lemma addClear_calm: "calm i s (snd (addClear i now s))"
proof -
  have q: "calm i s1 (snd (case quarantineDir (dirReady, i) nm now s1 of
      (Some e, s3) \<Rightarrow> (Some (Wrap m [e]), s3) | (None, s3) \<Rightarrow> addElsewhere i s3))" for s1 nm m
    using calm.quarantine [of "(dirReady, i)" i s1 nm now] calm_trans [OF _ addElsewhere_calm]
    by (cases "quarantineDir (dirReady, i) nm now s1") (auto split: option.splits)
  obtain r s1 where s1: "sysStat (dirReady, i) s = (r, s1)" by fastforce
  have c1: "calm i s s1" using calm.looks(1) [of i s "(dirReady, i)"] s1 by simp
  show ?thesis
  proof (cases r)
    case (Inl e)
    then show ?thesis using c1 calm_trans [OF c1 addElsewhere_calm] by (simp add: addClear_def s1)
  next
    case (Inr k)
    show ?thesis unfolding addClear_def s1 Inr
      by (simp, rule calm_trans [OF c1], intro calm.withR calm.readBounded) (simp add: calm.refl q)
  qed
qed

lemma addOwned_spec:
  assumes "addOwned x inp e dat q s = (err, e', q', t)" "safe (ID e) s" "err \<noteq> None" "\<not> IsAcceptanceUnknown err"
  shows "safe (ID e) t"
proof -
  let ?i = "ID e"
  obtain r1 s1 where s1: "ctxErr s = (r1, s1)" by fastforce
  obtain r2 s2 where s2: "addClear ?i (clearTime inp) s1 = (r2, s2)" by fastforce
  obtain verr e1 where v: "validateEnvelope (toASCII x) (hexdigest x)
      (e\<lparr>Size := int (length dat), BodyDigest := bodyDigest x dat\<rparr>) = (verr, e1)" by fastforce
  obtain r3 s3 where s3: "ctxErr s2 = (r3, s3)" by fastforce
  have sf1: "safe ?i s1" using ctx_safe s1 assms(2) by blast
  have sf2: "safe ?i s2" using calm_safe [OF sf1] addClear_calm [of ?i s1 "clearTime inp"] s2 by simp
  have sf3: "safe ?i s3" using ctx_safe s3 sf2 by blast
  have "t \<in> {s1, s2, s3} \<or> (\<exists>meta ph q1 q2. verr = None \<and>
      addReserved e1 dat meta ph (abortTime inp) q1 s3 = (err, q2, t))"
    using assms(1,3) s1 s2 v s3 unfolding addOwned_def
    by (auto simp: Let_def split: prod.splits option.splits sum.splits if_splits)
  then show ?thesis
  proof
    assume "\<exists>meta ph q1 q2. verr = None \<and> addReserved e1 dat meta ph (abortTime inp) q1 s3 = (err, q2, t)"
    then obtain meta ph q1 q2 where r: "verr = None" "addReserved e1 dat meta ph (abortTime inp) q1 s3 = (err, q2, t)" by blast
    have "ID e1 = ?i" using v r(1) by (auto elim: validateEnvelope_ok)
    then show ?thesis using addReserved_spec [OF r(2)] sf3 assms(3,4) by simp
  qed (use sf1 sf2 sf3 in auto)
qed

lemma AddContext_spec:
  assumes "AddContext x inp (Some e) dat q s = (err, e', q', t)" "safe (ID e) s" "err \<noteq> None" "\<not> IsAcceptanceUnknown err"
  shows "safe (ID e) t"
proof -
  obtain r1 s1 where s1: "ctxErr s = (r1, s1)" by fastforce
  have sf1: "safe (ID e) s1" using ctx_safe s1 assms(2) by blast
  have "t = s1 \<or> (\<exists>inc q3 e2 q4. addOwned x inp (e\<lparr>Incarnation := inc, Revision := 1\<rparr>) dat q3 s1 = (err, e2, q4, t))"
    using assms(1) s1 unfolding AddContext_def
    by (auto simp: Let_def split: prod.splits option.splits sum.splits)
  then show ?thesis using sf1 assms(3,4) addOwned_spec [of x inp "e\<lparr>Incarnation := _, Revision := 1\<rparr>" dat] by fastforce
qed

end
