(* ===== verification/Delivery.thy ===== *)
theory Delivery
  imports Add
begin

text \<open>
  Outcomes of a delivery attempt, \<open>src/internal/queue/delivery.go\<close>, \<open>dead.go\<close>, \<open>quarantine.go\<close>
  and \<open>export.go\<close>: the envelope of a checked-out message is stored again, moved to the dead
  letters, removed or put aside. The state is the queue and the spool.
\<close>

subsection \<open>Ownership of an entry\<close>

text \<open>What an operation takes from outside: the times it reads, a measurement of the spool, the free
  disk space, and the total a failed measurement of an entry had reached.\<close>

record opInput =
  opTime :: gtime
  opUsage :: "gerror + int"
  opFree :: freeDisk
  opStamp :: gtime
  opPartial :: int

text \<open>The guards that every operation on an entry starts with, and their deferred release.\<close>

definition enterOp :: "opInput \<Rightarrow> string \<Rightarrow> Queue \<Rightarrow> (gerror \<times> Queue) + Queue" where
  "enterOp inp i q =
     (case beginOperation q of
        (Some err, q1) \<Rightarrow> Inl (err, q1)
      | (None, q1) \<Rightarrow>
          (case firstErr [rejectReadOnly q1, ValidateID i] of
             Some err \<Rightarrow> Inl (err, endOperation q1)
           | None \<Rightarrow>
               (case beginTransitions [i] q1 of
                  (Some err, q2) \<Rightarrow> Inl (err, endOperation q2)
                | (None, q2) \<Rightarrow>
                    (case startMutation (opTime inp) (opUsage inp) q2 of
                       (Some err, q3) \<Rightarrow> Inl (err, endOperation (endTransitions [i] q3))
                     | (None, q3) \<Rightarrow> Inr q3))))"

definition leaveOp :: "string \<Rightarrow> bool \<Rightarrow> Queue \<Rightarrow> Queue" where
  "leaveOp i owned q = endOperation (if owned then endTransitions [i] q else q)"

text \<open>The publication of a retained entry: ownership is given up, and the entry scheduled.\<close>

definition publishEntry :: "bool \<Rightarrow> Envelope \<Rightarrow> Queue \<Rightarrow> Queue" where
  "publishEntry schedule e q =
     (let q1 = releaseTransition (ID e) q;
          (added, q2) = (if schedule then scheduleLocked e q1 else (False, q1))
      in signalIf added q2)"

text \<open>The physical reservation for replacing metadata of the given length.\<close>

definition replaceHold :: "int \<Rightarrow> int" where
  "replaceHold n = wrap64 (AllocationSize (wrap64 (n + AllocationSize 0)) + AllocationSize 0)"

subsection \<open>Retry\<close>

text \<open>After the guards: whether the entry is still owned, the error, the caller's envelope, queue and
  spool.\<close>

definition retryOwned ::
  "ext \<Rightarrow> opInput \<Rightarrow> bool \<Rightarrow> Envelope \<Rightarrow> Queue \<Rightarrow> fsys \<Rightarrow> bool \<times> gerror option \<times> Envelope \<times> Queue \<times> fsys" where
  "retryOwned x inp reschedule e q s =
     (let (verr, e1) = validateEnvelope (toASCII x) (hexdigest x) e
      in case verr of
           Some err \<Rightarrow>
             (let (durable, s1) = loadAcceptedDir x (dirReady, ID e) (ID e) s
              in (False, Some err, e1, publishEntry True (case durable of Inr d \<Rightarrow> d | Inl _ \<Rightarrow> e1) q, s1))
         | None \<Rightarrow>
             (case marshalEnvelope x e1 of
                Inl err \<Rightarrow> (False, Some err, e1, publishEntry True e1 q, s)
              | Inr meta \<Rightarrow>
                  (let n = replaceHold (int (length meta))
                   in case holdPhysical (opFree inp) n False q of
                        (Some err, q1) \<Rightarrow> (False, Some err, e1, publishEntry True e1 q1, s)
                      | (None, q1) \<Rightarrow>
                          (let (commitHold, err, e2, q2, s1) = storeReady x e1 q1 s
                           in case err of
                                Some er \<Rightarrow>
                                  if errors_Is er ErrIDConflict then (True, Some er, e2, releaseHold n commitHold q2, s1)
                                  else (False, Some er, e2, releaseHold n commitHold (publishEntry True e2 q2), s1)
                              | None \<Rightarrow> (False, None, e2, releaseHold n commitHold (publishEntry reschedule e2 q2), s1)))))"

definition retry ::
  "ext \<Rightarrow> opInput \<Rightarrow> bool \<Rightarrow> Envelope option \<Rightarrow> Queue \<Rightarrow> fsys \<Rightarrow> gerror option \<times> Envelope option \<times> Queue \<times> fsys" where
  "retry x inp reschedule envelope q s =
     (case envelope of
        None \<Rightarrow> (Some (Sentinel ErrNilEnvelope), None, q, s)
      | Some e \<Rightarrow>
          (case enterOp inp (ID e) q of
             Inl (err, q1) \<Rightarrow> (Some err, envelope, q1, s)
           | Inr q1 \<Rightarrow>
               (let (owned, err, e1, q2, s1) = retryOwned x inp reschedule e q1 s
                in (err, Some e1, leaveOp (ID e) owned q2, s1))))"

definition Retry :: "ext \<Rightarrow> opInput \<Rightarrow> Envelope option \<Rightarrow> Queue \<Rightarrow> fsys \<Rightarrow> gerror option \<times> Envelope option \<times> Queue \<times> fsys" where
  "Retry x inp envelope q s = retry x inp True envelope q s"

definition RetryDeferred :: "ext \<Rightarrow> opInput \<Rightarrow> Envelope option \<Rightarrow> Queue \<Rightarrow> fsys \<Rightarrow> gerror option \<times> Envelope option \<times> Queue \<times> fsys" where
  "RetryDeferred x inp envelope q s = retry x inp False envelope q s"

subsection \<open>Finish\<close>

text \<open>\<open>os.MkdirAll\<close> of a spool directory.\<close>

definition diskMkdirNs :: "spoolDir \<Rightarrow> fsys \<Rightarrow> gerror option \<times> fsys" where
  "diskMkdirNs d s = errOf (syscall (\<lambda>s. (Inr (), s\<lparr>rootV := (rootV s)(d := True)\<rparr>)) s)"

definition measuredBytes :: "opInput \<Rightarrow> gerror + int \<Rightarrow> int" where
  "measuredBytes inp m = (case m of Inr n \<Rightarrow> n | Inl _ \<Rightarrow> opPartial inp)"

definition trashEntry :: "string \<Rightarrow> opInput \<Rightarrow> entry" where
  "trashEntry nm inp = (dirTrash, nm @ ''.'' @ formatInt (opStamp inp))"

definition cleanupFailed :: "gerror \<Rightarrow> gerror" where
  "cleanupFailed err = Wrap [] [Sentinel ErrCleanup, err]"

text \<open>A missing entry counts as removed before.\<close>

definition finishMove :: "opInput \<Rightarrow> entry \<Rightarrow> entry \<Rightarrow> string \<Rightarrow> Queue \<Rightarrow> fsys \<Rightarrow> gerror option \<times> Queue \<times> fsys" where
  "finishMove inp src dst i q s =
     (let (measured, s1) = AllocatedBytes src s; entryBytes = measuredBytes inp measured
      in case diskMkdirNs dirTrash s1 of
           (Some err, s2) \<Rightarrow> (Some err, q, s2)
         | (None, s2) \<Rightarrow>
             (case moveState src dst s2 of
                ((moved, Some err), s3) \<Rightarrow>
                  if moved \<or> errors_Is err OsErrNotExist
                  then (if \<not> moved then None else Some err, noteRemoved i q, s3)
                  else (Some err, q, s3)
              | ((_, None), s3) \<Rightarrow>
                  (case removeTrash dst s3 of
                     (Some err, s4) \<Rightarrow> (Some (cleanupFailed err), noteRemoved i q, s4)
                   | (None, s4) \<Rightarrow> (None, removePhysical entryBytes (noteRemoved i q), s4))))"

definition finishOwned :: "ext \<Rightarrow> opInput \<Rightarrow> Envelope \<Rightarrow> Queue \<Rightarrow> fsys \<Rightarrow> gerror option \<times> Queue \<times> fsys" where
  "finishOwned x inp e q s =
     (let src = (dirReady, ID e); dst = trashEntry (ID e) inp; (merr, s1) = matchReady x e s
      in case merr of
           Some err \<Rightarrow>
             if \<not> errors_Is err OsErrNotExist then (Some err, q, s1) else finishMove inp src dst (ID e) q s1
         | None \<Rightarrow> finishMove inp src dst (ID e) q s1)"

definition Finish :: "ext \<Rightarrow> opInput \<Rightarrow> Envelope option \<Rightarrow> Queue \<Rightarrow> fsys \<Rightarrow> gerror option \<times> Queue \<times> fsys" where
  "Finish x inp envelope q s =
     (case envelope of
        None \<Rightarrow> (Some (Sentinel ErrNilEnvelope), q, s)
      | Some e \<Rightarrow>
          (case enterOp inp (ID e) q of
             Inl (err, q1) \<Rightarrow> (Some err, q1, s)
           | Inr q1 \<Rightarrow>
               (let (err, q2, s1) = finishOwned x inp e q1 s in (err, leaveOp (ID e) True q2, s1))))"

subsection \<open>Bury\<close>

text \<open>An entry that is missing from \<open>ready/\<close> may have been buried before.\<close>

definition buryMissing :: "ext \<Rightarrow> Envelope \<Rightarrow> gerror \<Rightarrow> Queue \<Rightarrow> fsys \<Rightarrow> bool \<times> gerror option \<times> Queue \<times> fsys" where
  "buryMissing x e err q s =
     (let (srcR, s1) = sysStat (dirReady, ID e) s;
          giveUp = (\<lambda>s. if \<not> errors_Is err ErrIDConflict then (False, Some err, publishEntry True e q, s)
                        else (True, Some err, q, s))
      in if missingR srcR
         then (case loadAcceptedDir x (dirDead, ID e) (ID e) s1 of
                 (Inr dead, s2) \<Rightarrow>
                   if Incarnation dead \<noteq> Incarnation e \<or> Revision dead \<noteq> Revision e
                   then (True, Some (idConflict ''dead-letter identity changed''), q, s2)
                   else (True, None, noteRemoved (ID e) q, s2)
               | (Inl deadErr, s2) \<Rightarrow>
                   if \<not> errors_Is deadErr OsErrNotExist then (True, Some deadErr, q, s2) else giveUp s2)
         else giveUp s1)"

text \<open>After the guards, the validation and the physical reservation of \<open>n\<close> bytes.\<close>

definition buryHeld ::
  "ext \<Rightarrow> Envelope \<Rightarrow> Queue \<Rightarrow> fsys \<Rightarrow> bool \<times> bool \<times> gerror option \<times> Envelope \<times> Queue \<times> fsys" where
  "buryHeld x e q s =
     (case matchReady x e s of
        (Some err, s1) \<Rightarrow>
          (let (owned, r, q1, s2) = buryMissing x e err q s1 in (False, owned, r, e, q1, s2))
      | (None, s1) \<Rightarrow>
          (case sysStat (dirDead, ID e) s1 of
             (Inr _, s2) \<Rightarrow> (False, False, Some (idConflict ''dead-letter id already exists''), e, publishEntry True e q, s2)
           | (Inl err, s2) \<Rightarrow>
               if \<not> errors_Is err OsErrNotExist then (False, False, Some err, e, publishEntry True e q, s2)
               else
                 (let (commitHold, err, e1, q1, s3) = storeReady x e q s2
                  in case err of
                       Some er \<Rightarrow>
                         if errors_Is er ErrIDConflict then (commitHold, True, Some er, e1, q1, s3)
                         else (commitHold, False, Some er, e1, publishEntry True e1 q1, s3)
                     | None \<Rightarrow>
                         (case moveState (dirReady, ID e) (dirDead, ID e) s3 of
                            ((moved, Some er), s4) \<Rightarrow>
                              if moved then (commitHold, True, Some er, e1, noteRemoved (ID e) q1, s4)
                              else (commitHold, False, Some er, e1, publishEntry True e1 q1, s4)
                          | ((_, None), s4) \<Rightarrow> (commitHold, True, None, e1, noteRemoved (ID e) q1, s4)))))"

definition buryOwned ::
  "ext \<Rightarrow> opInput \<Rightarrow> Envelope \<Rightarrow> Queue \<Rightarrow> fsys \<Rightarrow> bool \<times> gerror option \<times> Envelope \<times> Queue \<times> fsys" where
  "buryOwned x inp e q s =
     (let (verr, e1) = validateEnvelope (toASCII x) (hexdigest x) e
      in case verr of
           Some err \<Rightarrow>
             (let (durable, s1) = loadAcceptedDir x (dirReady, ID e) (ID e) s
              in (False, Some err, e1, publishEntry True (case durable of Inr d \<Rightarrow> d | Inl _ \<Rightarrow> e1) q, s1))
         | None \<Rightarrow>
             (case marshalEnvelope x e1 of
                Inl err \<Rightarrow> (False, Some err, e1, publishEntry True e1 q, s)
              | Inr meta \<Rightarrow>
                  (let n = replaceHold (int (length meta))
                   in case holdPhysical (opFree inp) n True q of
                        (Some err, q1) \<Rightarrow> (False, Some err, e1, publishEntry True e1 q1, s)
                      | (None, q1) \<Rightarrow>
                          (let (commitHold, owned, err, e2, q2, s1) = buryHeld x e1 q1 s
                           in (owned, err, e2, releaseHold n commitHold q2, s1)))))"

definition Bury :: "ext \<Rightarrow> opInput \<Rightarrow> Envelope option \<Rightarrow> Queue \<Rightarrow> fsys \<Rightarrow> gerror option \<times> Envelope option \<times> Queue \<times> fsys" where
  "Bury x inp envelope q s =
     (case envelope of
        None \<Rightarrow> (Some (Sentinel ErrNilEnvelope), None, q, s)
      | Some e \<Rightarrow>
          (case enterOp inp (ID e) q of
             Inl (err, q1) \<Rightarrow> (Some err, envelope, q1, s)
           | Inr q1 \<Rightarrow>
               (let (owned, err, e1, q2, s1) = buryOwned x inp e q1 s
                in (err, Some e1, leaveOp (ID e) owned q2, s1))))"

subsection \<open>Quarantine of a checked-out entry\<close>

text \<open>Taking an entry out of the schedule.\<close>

definition unschedule :: "string \<Rightarrow> gtime \<Rightarrow> Queue \<Rightarrow> Queue" where
  "unschedule i now q =
     (case mget (scheduled q) i of
        None \<Rightarrow> q
      | Some p \<Rightarrow>
          q\<lparr>pending := snd (schedRemove (fst p) (Username (snd p)) now (pending q)), scheduled := mdel i (scheduled q)\<rparr>)"

definition reportCorrupt :: "string \<Rightarrow> gerror list \<Rightarrow> Queue \<Rightarrow> Queue" where
  "reportCorrupt m causes q = q\<lparr>Corrupt := Corrupt q @ [Wrap m causes]\<rparr>"

definition reportWarning :: "string \<Rightarrow> gerror list \<Rightarrow> Queue \<Rightarrow> Queue" where
  "reportWarning m causes q = q\<lparr>Warnings := Warnings q @ [Wrap m causes]\<rparr>"

definition blockCheckedOut :: "string \<Rightarrow> gtime \<Rightarrow> gerror \<Rightarrow> Queue \<Rightarrow> Queue" where
  "blockCheckedOut i now relocation q =
     reportCorrupt (''QUARANTINE FAILED; BLOCKED '' @ i) [relocation] (unschedule i now (blockID i q))"

definition identityChanged :: gerror where
  "identityChanged = idConflict ''checked-out queue identity changed''"

definition quarantineOwned :: "ext \<Rightarrow> opInput \<Rightarrow> Envelope \<Rightarrow> gerror \<Rightarrow> Queue \<Rightarrow> fsys \<Rightarrow> gerror option \<times> Queue \<times> fsys" where
  "quarantineOwned x inp e cause q s =
     (let i = ID e; src = (dirReady, i); block = (\<lambda>err. blockCheckedOut i (opTime inp) err q)
      in if (case mget (accounted q) i of None \<Rightarrow> True
             | Some a \<Rightarrow> mget (scheduled q) i \<noteq> None \<or> aincarnation a \<noteq> Incarnation e \<or> arevision a \<noteq> Revision e)
         then (Some identityChanged, q, s)
         else
           (case loadAcceptedMetadata x src i s of
              (Inl err, s1) \<Rightarrow> (Some err, block (Wrap ''verify checked-out identity'' [err]), s1)
            | (Inr current, s1) \<Rightarrow>
                if Incarnation current \<noteq> Incarnation e \<or> Revision current \<noteq> Revision e \<or> Size current \<noteq> Size e \<or>
                   BodyDigest current \<noteq> BodyDigest e
                then (Some identityChanged, block identityChanged, s1)
                else
                  (case ensureDurableDir dirCorrupt s1 of
                     (Some err, s2) \<Rightarrow> (Some err, block err, s2)
                   | (None, s2) \<Rightarrow>
                       (case moveState src (dirCorrupt, i @ ''-runtime.'' @ formatInt (opStamp inp)) s2 of
                          ((False, moveErr), s3) \<Rightarrow> (moveErr, (case moveErr of None \<Rightarrow> q | Some err \<Rightarrow> block err), s3)
                        | ((True, Some err), s3) \<Rightarrow>
                            (Some err, reportCorrupt (''QUARANTINE DURABILITY FAILED; BLOCKED '' @ i) [err]
                               (blockID i (noteRemoved i q)), s3)
                        | ((True, None), s3) \<Rightarrow> (None, reportCorrupt (''ready '' @ i) [cause] (noteRemoved i q), s3)))))"

definition QuarantineCheckedOut ::
  "ext \<Rightarrow> opInput \<Rightarrow> Envelope option \<Rightarrow> gerror option \<Rightarrow> Queue \<Rightarrow> fsys \<Rightarrow> gerror option \<times> Queue \<times> fsys" where
  "QuarantineCheckedOut x inp envelope cause q s =
     (case (envelope, cause) of
        (Some e, Some c) \<Rightarrow>
          if \<not> IsCorruption cause then (Some (Msg ''checked-out quarantine requires a corruption error''), q, s)
          else
            (case enterOp inp (ID e) q of
               Inl (err, q1) \<Rightarrow> (Some err, q1, s)
             | Inr q1 \<Rightarrow> (let (err, q2, s1) = quarantineOwned x inp e c q1 s in (err, leaveOp (ID e) True q2, s1)))
      | _ \<Rightarrow> (Some (Msg ''checked-out quarantine requires a corruption error''), q, s))"

end
