(* ===== verification/Survival.thy ===== *)
theory Survival
  imports Add_Definite Delivery
begin

text \<open>
  Messages that survive: an entry whose acceptance, body and metadata are found again whatever a
  crash leaves. Reading, syncing and replacing the metadata keep such an entry.
\<close>

definition survives :: "spoolDir \<Rightarrow> string \<Rightarrow> string \<Rightarrow> string set \<Rightarrow> fsys \<Rightarrow> bool" where
  "survives d i dat ms s \<longleftrightarrow> (\<forall>c. crash s c \<longrightarrow>
     fileAfter c (d, i) addStateName = Some addAccepted \<and> fileAfter c (d, i) bodyName = Some dat \<and>
     (\<exists>m \<in> ms. fileAfter c (d, i) metaName = Some m))"

subsection \<open>Entries in every state a crash may leave\<close>

definition fileHeld :: "(string, nat) gmap \<Rightarrow> string \<Rightarrow> string set \<Rightarrow> fsys \<Rightarrow> bool" where
  "fileHeld dm n cs s \<longleftrightarrow> (\<exists>f. mget dm n = Some f \<and> set (fileD s f) \<subseteq> cs)"

definition entryHeld :: "nat \<Rightarrow> string \<Rightarrow> string set \<Rightarrow> fsys \<Rightarrow> bool" where
  "entryHeld j dat ms s \<longleftrightarrow> (\<forall>dm \<in> set (dirD s j).
     fileHeld dm addStateName {addAccepted} s \<and> fileHeld dm bodyName {dat} s \<and> fileHeld dm metaName ms s)"

definition held :: "spoolDir \<Rightarrow> string \<Rightarrow> string \<Rightarrow> string set \<Rightarrow> fsys \<Rightarrow> bool" where
  "held d i dat ms s \<longleftrightarrow> fs_wf s \<and> (\<forall>m \<in> set (nsD s d). \<exists>j. mget m i = Some j \<and> entryHeld j dat ms s)"

lemma held_survives:
  assumes "held d i dat ms s"
  shows "survives d i dat ms s"
  unfolding survives_def
proof (intro allI impI)
  fix c
  assume c: "crash s c"
  then obtain j where j: "mget (nsV c d) i = Some j" "entryHeld j dat ms s"
    using assms unfolding held_def crash_def by blast
  have "dirV c j \<in> set (dirD s j)" using c by (simp add: crash_def)
  then have h: "fileHeld (dirV c j) addStateName {addAccepted} s" "fileHeld (dirV c j) bodyName {dat} s" "fileHeld (dirV c j) metaName ms s"
    using j(2) by (auto simp: entryHeld_def)
  have "\<exists>x \<in> cs. fileAfter c (d, i) n = Some x" if fh: "fileHeld (dirV c j) n cs s" for n cs
  proof -
    obtain f where "mget (dirV c j) n = Some f" "set (fileD s f) \<subseteq> cs" using fh by (auto simp: fileHeld_def)
    moreover have "fileV c f \<in> set (fileD s f)" using c by (simp add: crash_def)
    ultimately show ?thesis using j(1) by (auto simp: fileAfter_def lookupFile_def lookupEntry_def)
  qed
  from this [OF h(1)] this [OF h(2)] this [OF h(3)]
  show "fileAfter c (d, i) addStateName = Some addAccepted \<and> fileAfter c (d, i) bodyName = Some dat \<and>
     (\<exists>m \<in> ms. fileAfter c (d, i) metaName = Some m)" by auto
qed

lemma crash_file:
  assumes "fs_wf s" "m \<in> set (nsD s d)" "mget m i = Some j" "dm \<in> set (dirD s j)"
  obtains c where "crash s c" "fileAfter c (d, i) n = (case mget dm n of None \<Rightarrow> None | Some f \<Rightarrow> Some (fileV s f))"
proof -
  let ?c = "s\<lparr>nsV := (nsV s)(d := m), dirV := (dirV s)(j := dm)\<rparr>"
  have "crash s ?c" using assms fs_wfD(1-3) [OF assms(1)] by (auto simp: crash_def)
  then show ?thesis using that [of ?c] assms(3) by (auto simp: fileAfter_def lookupFile_def lookupEntry_def split: option.splits)
qed

lemma survives_held:
  assumes "survives d i dat ms s" "fs_wf s"
  shows "held d i dat ms s"
proof -
  have f: "fileHeld dm n cs s"
    if m: "m \<in> set (nsD s d)" "mget m i = Some j" "dm \<in> set (dirD s j)"
      and n: "\<And>c. crash s c \<Longrightarrow> \<exists>x \<in> cs. fileAfter c (d, i) n = Some x" for m j dm n cs
  proof -
    obtain f where f: "mget dm n = Some f"
    proof (cases "mget dm n")
      case None
      then show ?thesis using crash_file [OF assms(2) m, of n] n by (metis option.distinct(1) option.simps(4))
    qed (use that in blast)
    have "set (fileD s f) \<subseteq> cs"
    proof
      fix y
      assume y: "y \<in> set (fileD s f)"
      let ?c = "s\<lparr>nsV := (nsV s)(d := m), dirV := (dirV s)(j := dm), fileV := (fileV s)(f := y)\<rparr>"
      have "crash s ?c" using m y fs_wfD(1-3) [OF assms(2)] by (auto simp: crash_def)
      then show "y \<in> cs" using n [of ?c] m(2) f by (auto simp: fileAfter_def lookupFile_def lookupEntry_def)
    qed
    then show ?thesis using f by (auto simp: fileHeld_def)
  qed
  have "\<exists>j. mget m i = Some j" if m: "m \<in> set (nsD s d)" for m
  proof -
    let ?c = "s\<lparr>nsV := (nsV s)(d := m)\<rparr>"
    have "crash s ?c" using m fs_wfD(1-3) [OF assms(2)] by (auto simp: crash_def)
    then show ?thesis using assms(1)
      by (auto simp: survives_def fileAfter_def lookupFile_def lookupEntry_def split: option.splits dest!: spec [of _ ?c])
  qed
  moreover have "entryHeld j dat ms s" if m: "m \<in> set (nsD s d)" "mget m i = Some j" for m j
    unfolding entryHeld_def
  proof (intro ballI conjI)
    fix dm
    assume dm: "dm \<in> set (dirD s j)"
    show "fileHeld dm addStateName {addAccepted} s" "fileHeld dm bodyName {dat} s" "fileHeld dm metaName ms s"
      by (rule f [OF m dm]; use assms(1) in \<open>auto simp: survives_def\<close>)+
  qed
  ultimately show ?thesis using assms(2) unfolding held_def by blast
qed

lemma held_mono: "held d i dat ms s \<Longrightarrow> ms \<subseteq> ms' \<Longrightarrow> held d i dat ms' s"
  unfolding held_def entryHeld_def fileHeld_def by (meson order_trans)

lemma held_visible:
  assumes "held d i dat ms s"
  obtains j where "lookupEntry (d, i) s = Some j" "entryHeld j dat ms s"
proof -
  have "nsV s d \<in> set (nsD s d)" using assms fs_wfD(1) by (simp add: held_def)
  then show ?thesis using assms that unfolding held_def lookupEntry_def by auto
qed

text \<open>The name of an entry is settled when no crash changes what it refers to.\<close>

definition settled :: "spoolDir \<Rightarrow> string \<Rightarrow> fsys \<Rightarrow> bool" where
  "settled d i s \<longleftrightarrow> (\<forall>c. crash s c \<longrightarrow> lookupEntry (d, i) c = lookupEntry (d, i) s)"

lemma settled_iff:
  assumes "fs_wf s"
  shows "settled d i s \<longleftrightarrow> (\<forall>m \<in> set (nsD s d). mget m i = lookupEntry (d, i) s)"
proof
  assume a: "settled d i s"
  show "\<forall>m \<in> set (nsD s d). mget m i = lookupEntry (d, i) s"
  proof
    fix m
    assume m: "m \<in> set (nsD s d)"
    let ?c = "s\<lparr>nsV := (nsV s)(d := m)\<rparr>"
    have "crash s ?c" using m fs_wfD(1-3) [OF assms] by (auto simp: crash_def)
    then have "lookupEntry (d, i) ?c = lookupEntry (d, i) s" using a by (simp add: settled_def)
    then show "mget m i = lookupEntry (d, i) s" by (simp add: lookupEntry_def)
  qed
next
  assume "\<forall>m \<in> set (nsD s d). mget m i = lookupEntry (d, i) s"
  then show "settled d i s" by (auto simp: settled_def crash_def lookupEntry_def)
qed

text \<open>An entry is kept by what keeps the lists it occurs in.\<close>

lemma entryHeld_cong:
  assumes "set (dirD t j) \<subseteq> set (dirD s j)" "\<And>f. set (fileD t f) \<subseteq> set (fileD s f)" "entryHeld j dat ms s"
  shows "entryHeld j dat ms t"
  using assms unfolding entryHeld_def fileHeld_def by (meson order_trans subsetD)

definition holds_on :: "spoolDir \<Rightarrow> string \<Rightarrow> string \<Rightarrow> string set \<Rightarrow> fsys \<Rightarrow> fsys \<Rightarrow> bool" where
  "holds_on d i dat ms s t \<longleftrightarrow> (held d i dat ms s \<longrightarrow> held d i dat ms t)"

lemma holds_onI:
  assumes "fs_wf s \<Longrightarrow> fs_wf t" "fs_wf s \<Longrightarrow> set (nsD t d) \<subseteq> set (nsD s d)"
    "\<And>j. fs_wf s \<Longrightarrow> set (dirD t j) \<subseteq> set (dirD s j)" "\<And>f. fs_wf s \<Longrightarrow> set (fileD t f) \<subseteq> set (fileD s f)"
  shows "holds_on d i dat ms s t"
  using assms entryHeld_cong unfolding holds_on_def held_def by (meson subsetD)

interpretation held: fs_rel "holds_on d i dat ms" for d i dat ms
proof
  fix s t u :: fsys
  show "holds_on d i dat ms s s" by (simp add: holds_on_def)
  show "holds_on d i dat ms s t \<Longrightarrow> holds_on d i dat ms t u \<Longrightarrow> holds_on d i dat ms s u" by (simp add: holds_on_def)
  have oc: "holds_on d i dat ms s (s\<lparr>outcomes := ocs\<rparr>)" for ocs by (rule holds_onI) auto
  show "holds_on d i dat ms s (s\<lparr>outcomes := tl (outcomes s)\<rparr>)" by (rule oc)
  show "holds_on d i dat ms s (s\<lparr>outcomes := ocs\<rparr>)" for ocs by (rule oc)
  show "holds_on d i dat ms s (s\<lparr>rootV := (rootV s)(k := b)\<rparr>)" for k b by (rule holds_onI) auto
qed

lemma held_syncs:
  "holds_on d i dat ms s (s\<lparr>nsD := (nsD s)(k := [nsV s k])\<rparr>)"
  "holds_on d i dat ms s (s\<lparr>dirD := (dirD s)(j := [dirV s j])\<rparr>)"
  "holds_on d i dat ms s (s\<lparr>fileD := (fileD s)(f := [fileV s f])\<rparr>)"
  by (rule holds_onI; auto simp: fs_wf_sync intro: fs_wfD)+


subsection \<open>Replacing the metadata\<close>

abbreviation storedNames :: "string set" where
  "storedNames \<equiv> {addStateName, bodyName, metaName}"

definition unstored :: "nat \<Rightarrow> fsys \<Rightarrow> bool" where
  "unstored f s \<longleftrightarrow> (\<forall>k dm n. dm \<in> set (dirD s k) \<longrightarrow> n \<in> storedNames \<longrightarrow> mget dm n \<noteq> Some f)"

lemma unstored_fresh: "fs_wf s \<Longrightarrow> unstored (freshNode s) s"
  unfolding unstored_def by (meson fs_wfD(5) less_irrefl)

text \<open>Only a file that no stored name refers to changes.\<close>

lemma held_unstored:
  assumes "held d i dat ms s" "unstored f s" "fs_wf t" "nsD t = nsD s" "dirD t = dirD s" "\<And>g. g \<noteq> f \<Longrightarrow> fileD t g = fileD s g"
  shows "held d i dat ms t"
proof -
  have "fileHeld dm n cs t" if "fileHeld dm n cs s" "dm \<in> set (dirD s k)" "n \<in> storedNames" for dm n cs k
    using that assms(2,6) unfolding fileHeld_def unstored_def by metis
  then show ?thesis using assms(1,3-5) unfolding held_def entryHeld_def by fastforce
qed

text \<open>A directory that names the same stored files as before.\<close>

lemma held_setDir:
  assumes "held d i dat ms s" "fs_wf (setDir j m s)" "\<And>n. n \<in> storedNames \<Longrightarrow> mget m n = mget (dirV s j) n"
  shows "held d i dat ms (setDir j m s)"
proof -
  have v: "dirV s j \<in> set (dirD s j)" using assms(1) fs_wfD(2) by (simp add: held_def)
  have f: "fileHeld dm n cs (setDir j m s) = fileHeld dm n cs s" for dm n cs by (simp add: fileHeld_def)
  have "fileHeld m n cs s = fileHeld (dirV s j) n cs s" if "n \<in> storedNames" for n cs
    using assms(3) [OF that] by (simp add: fileHeld_def)
  then have "entryHeld k dat ms (setDir j m s)" if "entryHeld k dat ms s" for k
    using that v unfolding entryHeld_def f by auto
  then show ?thesis using assms(1,2) unfolding held_def by auto
qed

lemma held_unlink:
  assumes "held d i dat ms s" "n \<notin> storedNames"
  shows "held d i dat ms (snd (sysUnlink p n s))"
proof -
  have "held d i dat ms (setDir j (mdel n (dirV t j)) t)" if "held d i dat ms t" for t j
  proof (rule held_setDir [OF that])
    show "fs_wf (setDir j (mdel n (dirV t j)) t)" using wf.unlink that unfolding keeps_wf_def held_def by blast
  qed (use assms(2) in \<open>auto simp: mget_mdel\<close>)
  then have "holds_on d i dat ms s (snd (sysUnlink p n s))"
    unfolding sysUnlink_def by (intro held.sys) (auto simp: holds_on_def split: option.splits)
  then show ?thesis using assms(1) by (simp add: holds_on_def)
qed

lemma held_tryUnlink: "held d i dat ms s \<Longrightarrow> n \<notin> storedNames \<Longrightarrow> held d i dat ms (tryUnlink p n (snd (sysTouch s)))"
  using held_unlink held.looks(6) [of d i dat ms s] by (simp add: tryUnlink_def holds_on_def)

lemma held_pathMayExist: "holds_on d i dat ms s (snd (pathMayExist p n s))"
  using held.looks(2) [of d i dat ms s p n] by (auto simp: pathMayExist_def split: prod.splits sum.splits)

lemma held_diskSyncs:
  "holds_on d i dat ms s (snd (diskSyncEntry p s))" "holds_on d i dat ms s (snd (diskSyncNs k s))"
  "holds_on d i dat ms s (snd (errOf (sysSyncFile f s)))"
  unfolding diskSyncEntry_def diskSyncNs_def held.errOfR sysSyncEntry_def sysSyncNs_def sysSyncFile_def
  by (auto intro!: held.sys held_syncs simp: held.refl split: option.splits)

text \<open>A new file that is not yet one of the stored ones.\<close>

definition newFile :: "entry \<Rightarrow> string \<Rightarrow> nat \<Rightarrow> fsys \<Rightarrow> bool" where
  "newFile p temp f s \<longleftrightarrow> unstored f s \<and> (\<exists>j. lookupEntry p s = Some j \<and> mget (dirV s j) temp = Some f)"

lemma newFile_cong [simp]: "newFile p temp f (s\<lparr>outcomes := ocs\<rparr>) = newFile p temp f s"
  by (simp add: newFile_def unstored_def)

lemma sysCreate_held:
  assumes "held d i dat ms s" "temp \<notin> storedNames" "sysCreate p temp s = (r, t)"
  shows "held d i dat ms t" "r = Inr f \<Longrightarrow> newFile p temp f t \<and> fileV t f = []"
proof -
  let ?f = "freshNode s"
  let ?t = "\<lambda>ocs j. setDir j (mput temp ?f (dirV s j))
      (s\<lparr>outcomes := ocs, freshNode := Suc ?f, fileV := (fileV s)(?f := []), fileD := (fileD s)(?f := [[]])\<rparr>)"
  have wf: "fs_wf s" using assms(1) by (simp add: held_def)
  have h: "held d i dat ms (?t ocs j)" for ocs j
  proof (rule held_setDir)
    let ?u = "s\<lparr>outcomes := ocs, freshNode := Suc ?f, fileV := (fileV s)(?f := []), fileD := (fileD s)(?f := [[]])\<rparr>"
    have wu: "fs_wf ?u" using fs_wf_new(2) [of "s\<lparr>outcomes := ocs\<rparr>" ?f] wf by simp
    show "held d i dat ms ?u" by (rule held_unstored [OF assms(1) unstored_fresh [OF wf] wu]) auto
    show "fs_wf (?t ocs j)"
      by (rule fs_wf_setDir [OF wu]) (use fs_wf_visible(2) [OF wf] in \<open>auto simp: mget_mput less_SucI split: if_splits\<close>)
  qed (use assms(2) in \<open>auto simp: mget_mput\<close>)
  have h0: "held d i dat ms (s\<lparr>outcomes := ocs\<rparr>)" for ocs using held.outcome assms(1) unfolding holds_on_def by blast
  obtain ocs where "snd (takeOutcome s) = s\<lparr>outcomes := ocs\<rparr>" using takeOutcome_eq by blast
  then show "held d i dat ms t"
    using assms(3) h h0
    by (cases "takeOutcome s") (auto simp: sysCreate_def syscall_def Let_def split: outcome.splits option.splits if_splits)
  show "newFile p temp f t \<and> fileV t f = []" if r: "r = Inr f"
  proof -
    obtain j ocs where t: "lookupEntry p s = Some j" "f = ?f" "t = ?t ocs j"
      by (rule sysCreate_ok [OF assms(3) [unfolded r]]) auto
    have "unstored ?f t" using unstored_fresh [OF wf] fs_wfD(2) [OF wf, of j] assms(2)
      by (auto simp: t(3) unstored_def mget_mput)
    then show ?thesis using t by (auto simp: newFile_def lookupEntry_def mget_mput)
  qed
qed

lemma sysWriteAt_held:
  assumes "held d i dat ms s" "newFile p temp f s" "fileV s f = []" "sysWriteAt f body s = ((k, err), t)"
  shows "held d i dat ms t" "newFile p temp f t" "err = None \<Longrightarrow> fileV t f = body"
proof -
  obtain oc ocs where tk: "takeOutcome s = (oc, s\<lparr>outcomes := ocs\<rparr>)" using takeOutcome_eq [of s] by (metis prod.collapse)
  have h0: "held d i dat ms (s\<lparr>outcomes := ocs\<rparr>)" using held.outcome assms(1) unfolding holds_on_def by blast
  have wf: "fs_wf s" using assms(1) by (simp add: held_def)
  have h: "held d i dat ms (setFile f x (s\<lparr>outcomes := ocs\<rparr>))" for x
    by (rule held_unstored [OF assms(1)]) (use assms(2) wf in \<open>auto simp: newFile_def setFile_def intro!: fs_wf_setFile [of "s\<lparr>outcomes := ocs\<rparr>" f x, unfolded setFile_def, simplified]\<close>)
  have n: "newFile p temp f (setFile f x (s\<lparr>outcomes := ocs\<rparr>))" for x
    using assms(2) by (simp add: newFile_def unstored_def lookupEntry_def)
  show "held d i dat ms t" using assms(4) tk h h0 by (auto simp: sysWriteAt_def split: outcome.splits)
  show "newFile p temp f t" using assms(2,4) tk n by (auto simp: sysWriteAt_def split: outcome.splits)
  show "fileV t f = body" if "err = None"
    using that assms(3,4) tk by (auto simp: sysWriteAt_def setFile_def split: outcome.splits)
qed


lemma held_post: "holds_on d i dat ms s t \<Longrightarrow> held d i dat ms s \<Longrightarrow> held d i dat ms t"
  by (simp add: holds_on_def)

lemma renameFile_held:
  assumes "held d i dat ms s" "newFile p temp f s" "temp \<notin> storedNames" "set (fileD s f) \<subseteq> {body}"
  shows "held d i dat (insert body ms) (snd (sysRenameFile p temp metaName s))"
proof -
  obtain j where j: "lookupEntry p s = Some j" "mget (dirV s j) temp = Some f" using assms(2) by (auto simp: newFile_def)
  have wf: "fs_wf s" using assms(1) by (simp add: held_def)
  let ?m = "mput metaName f (mdel temp (dirV s j))"
  let ?t = "\<lambda>ocs. setDir j ?m (s\<lparr>outcomes := ocs\<rparr>)"
  have v: "dirV s j \<in> set (dirD s j)" using wf fs_wfD(2) by blast
  have same: "fileHeld ?m n cs s = fileHeld (dirV s j) n cs s" if "n = addStateName \<or> n = bodyName" for n cs
    using that assms(3) by (auto simp: fileHeld_def mget_mput mget_mdel names)
  have new: "fileHeld ?m metaName (insert body ms) s" using assms(4) by (auto simp: fileHeld_def mget_mput)
  have mono: "fileHeld dm metaName ms s \<Longrightarrow> fileHeld dm metaName (insert body ms) s" for dm
    by (auto simp: fileHeld_def)
  have f: "fileHeld dm n cs (?t ocs) = fileHeld dm n cs s" for dm n cs ocs by (simp add: fileHeld_def)
  have e: "entryHeld k dat (insert body ms) (?t ocs)" if "entryHeld k dat ms s" for k ocs
    using that v new same mono unfolding entryHeld_def f by auto
  have w: "fs_wf (?t ocs)" for ocs
    by (rule fs_wf_setDir) (use wf j(2) fs_wf_visible(2) [OF wf] in \<open>auto simp: mget_mput mget_mdel split: if_splits\<close>)
  have "held d i dat (insert body ms) (?t ocs)" for ocs
    using assms(1) e [of _ ocs] w [of ocs] unfolding held_def by auto
  moreover have "held d i dat (insert body ms) (s\<lparr>outcomes := ocs\<rparr>)" for ocs
    using held_mono [OF held_post [OF held.outcome assms(1)]] by blast
  moreover obtain ocs where "snd (takeOutcome s) = s\<lparr>outcomes := ocs\<rparr>" using takeOutcome_eq by blast
  ultimately show ?thesis using j
    by (cases "takeOutcome s") (auto simp: sysRenameFile_def syscall_def split: outcome.splits)
qed

lemma touch_same: "errOf (sysTouch s) = (r, t) \<Longrightarrow> \<exists>ocs. t = s\<lparr>outcomes := ocs\<rparr>"
  using takeOutcome_eq [of s] by (cases "takeOutcome s") (auto simp: sysTouch_def syscall_def errOf_def split: outcome.splits)

lemma commitFile_held:
  assumes "held d i dat ms s" "newFile p temp f s" "temp \<notin> storedNames" "fileV s f = body"
  shows "held d i dat (insert body ms) (snd (commitFile f p temp metaName s))"
proof -
  obtain r1 s1 where s1: "errOf (sysTouch s) = (r1, s1)" by fastforce
  obtain r2 s2 where s2: "errOf (sysSyncFile f s1) = (r2, s2)" by fastforce
  obtain r3 s3 where s3: "errOf (sysTouch s2) = (r3, s3)" by fastforce
  obtain r4 s4 where s4: "errOf (sysRenameFile p temp metaName s3) = (r4, s4)" by fastforce
  obtain oc1 oc3 where o: "s1 = s\<lparr>outcomes := oc1\<rparr>" "s3 = s2\<lparr>outcomes := oc3\<rparr>" using touch_same s1 s3 by blast
  have h1: "held d i dat ms s1" using o(1) held_post [OF held.outcome assms(1)] by simp
  have h2: "held d i dat ms s2" using held_post [OF held_diskSyncs(3) h1, of f] s2 by simp
  have h3: "held d i dat ms s3" using o(2) held_post [OF held.outcome h2] by simp
  have h4: "held d i dat (insert body ms) s4" if r2: "r2 = None"
  proof -
    obtain oc2 where t2: "s2 = s1\<lparr>outcomes := oc2, fileD := (fileD s1)(f := [fileV s1 f])\<rparr>"
      using s2 r2 by (auto simp: errOf_None elim: sysSyncFile_ok)
    have "newFile p temp f s3" using assms(2) by (simp add: o t2 newFile_def unstored_def lookupEntry_def)
    moreover have "set (fileD s3 f) \<subseteq> {body}" using assms(4) by (simp add: o t2)
    ultimately have "held d i dat (insert body ms) (snd (sysRenameFile p temp metaName s3))"
      using renameFile_held [OF h3 _ assms(3)] by blast
    then show ?thesis using s4 held.errOfR [of "sysRenameFile p temp metaName s3"] by simp
  qed
  have m: "held d i dat ms t \<Longrightarrow> held d i dat (insert body ms) t" for t using held_mono by blast
  have "held d i dat (insert body ms) (snd (diskSyncEntry p s4))" if "r2 = None"
    by (rule held_post [OF held_diskSyncs(1) h4 [OF that]])
  then show ?thesis using s1 s2 s3 s4 h1 h2 h3 h4 m
    by (auto simp: commitFile_def thenE_def split: option.splits)
qed

lemma Commit_held:
  assumes "held d i dat ms s" "newFile p temp f s" "temp \<notin> storedNames" "fileV s f = body"
  shows "held d i dat (insert body ms) (snd (Commit f p temp metaName s))"
  using commitFile_held [OF assms] held_tryUnlink [OF _ assms(3)]
  by (cases "commitFile f p temp metaName s") (auto simp: Commit_def split: option.splits)

lemma mkdir_held:
  assumes "held d i dat ms s" "diskMkdir (d, i) s = (r, t)"
  shows "held d i dat ms t"
proof -
  obtain j where j: "lookupEntry (d, i) s = Some j" using held_visible [OF assms(1)] by blast
  obtain ocs where "snd (takeOutcome s) = s\<lparr>outcomes := ocs\<rparr>" using takeOutcome_eq by blast
  then have "t = s\<lparr>outcomes := ocs\<rparr>"
    using assms(2) j by (cases "takeOutcome s") (auto simp: diskMkdir_def errOf_def sysMkdir_def syscall_def split: outcome.splits)
  then show ?thesis using held_post [OF held.outcome assms(1)] by simp
qed

lemma WriteWithTempState_held:
  assumes "held d i dat ms s" "WriteWithTempState (d, i) metaName body s = ((left, err), t)"
  shows "held d i dat (insert body ms) t" "err = None \<Longrightarrow> settled d i s \<Longrightarrow> held d i dat {body} t"
proof -
  let ?p = "(d, i)"
  have m: "held d i dat ms t \<Longrightarrow> held d i dat (insert body ms) t" for t using held_mono by blast
  obtain r0 s0 where s0: "diskMkdir ?p s = (r0, s0)" by fastforce
  have h0: "held d i dat ms s0" by (rule mkdir_held [OF assms(1) s0])
  let ?temp = "tempName metaName s0"
  have tn: "?temp \<notin> storedNames" using tempName_other by auto
  obtain r1 s1 where s1: "sysCreate ?p ?temp s0 = (r1, s1)" by fastforce
  note h1 = sysCreate_held [OF h0 tn s1]
  show all: "held d i dat (insert body ms) t"
  proof (cases "\<exists>f. r0 = None \<and> r1 = Inr f")
    case False
    then show ?thesis using assms(2) s0 s1 h0 h1(1) m
      by (cases r0; cases r1) (auto simp: WriteWithTempState_def diskTemp_def bindN_def bindE_def Let_def)
  next
    case True
    then obtain f where r: "r0 = None" "r1 = Inr f" by blast
    obtain k e s2 where s2: "sysWriteAt f body s1 = ((k, e), s2)" by (metis prod.collapse)
    note w = sysWriteAt_held [OF h1(1) _ _ s2, of ?p ?temp]
    have nf: "newFile ?p ?temp f s1" "fileV s1 f = []" using h1(2) r(2) by auto
    have tmp: "diskTemp ?p metaName s = (Inr (f, ?temp), s1)"
      by (simp add: diskTemp_def s0 r bindN_def bindE_def s1)
    show ?thesis
    proof (cases e)
      case (Some er)
      have "held d i dat ms (snd (pathMayExist ?p ?temp (tryUnlink ?p ?temp (snd (sysTouch s2)))))"
        using held_post [OF held_pathMayExist held_tryUnlink [OF w(1) [OF nf] tn]] .
      then show ?thesis using assms(2) m unfolding WriteWithTempState_def tmp by (auto simp: s2 Some Let_def split: prod.splits)
    next
      case None
      have c: "held d i dat (insert body ms) (snd (Commit f ?p ?temp metaName s2))"
        by (rule Commit_held [OF w(1,2) [OF nf] tn w(3) [OF nf None]])
      then have "held d i dat (insert body ms) (snd (pathMayExist ?p ?temp (snd (Commit f ?p ?temp metaName s2))))"
        by (rule held_post [OF held_pathMayExist])
      then show ?thesis using assms(2) c unfolding WriteWithTempState_def tmp
        by (auto simp: s2 None Let_def split: prod.splits option.splits)
    qed
  qed
  show "held d i dat {body} t" if e: "err = None" and st: "settled d i s"
  proof -
    have dw: "diskWrite ?p metaName body s = (None, t)" using assms(2) e by (simp add: diskWrite_def)
    obtain j where j: "lookupEntry ?p s = Some j" using held_visible [OF assms(1)] by blast
    have ns: "nsD t = nsD s" by (rule diskWrite_ok [OF dw j]) simp
    have t: "dirD t = (dirD s)(j := [writtenDir metaName s j])" "fileD t (freshNode s) = [body]"
      by (rule diskWrite_ok [OF dw j]; simp)+
    have wf: "fs_wf t" "fs_wf s" using all assms(1) by (simp_all add: held_def)
    have "fileHeld dm metaName {body} t" if "dm \<in> set (dirD t j)" for dm
      using that by (auto simp: t fileHeld_def mget_writtenDir)
    moreover have "held d i dat (insert body ms) t" by (rule all)
    moreover have "mget m i = Some j" if "m \<in> set (nsD t d)" for m
      using that st j settled_iff [OF wf(2), of d i] by (simp add: ns)
    ultimately show ?thesis unfolding held_def entryHeld_def by fastforce
  qed
qed


subsection \<open>Names\<close>

text \<open>The spool directories stay as they are.\<close>

definition sameNames :: "fsys \<Rightarrow> fsys \<Rightarrow> bool" where
  "sameNames s t \<longleftrightarrow> nsV t = nsV s \<and> nsD t = nsD s"

interpretation names: fs_rel sameNames
  by unfold_locales (auto simp: sameNames_def)

lemma sameNames_settled: "sameNames s t \<Longrightarrow> fs_wf s \<Longrightarrow> fs_wf t \<Longrightarrow> settled d i t = settled d i s"
  by (simp add: settled_iff sameNames_def lookupEntry_def)

lemma names_updates [simp]: "sameNames s (setDir j m t) = sameNames s t" "sameNames s (setFile f x t) = sameNames s t"
  by (simp_all add: sameNames_def)

lemma names_calls:
  "sameNames s (snd (sysUnlink p n s))" "sameNames s (snd (sysRenameFile p a b s))" "sameNames s (snd (sysCreate p n s))"
  "sameNames s (snd (sysSyncEntry p s))" "sameNames s (snd (sysSyncFile f s))"
  unfolding sysUnlink_def sysRenameFile_def sysCreate_def sysSyncEntry_def sysSyncFile_def
  by (rule names.sys; auto simp: sameNames_def Let_def split: option.split)+

lemma names_write: "sameNames s (snd (sysWriteAt f dat s))"
  using takeOutcome_eq [of s] by (cases "takeOutcome s") (auto simp: sysWriteAt_def sameNames_def split: outcome.splits)

lemma names_commit: "sameNames s (snd (Commit f p temp n s))"
proof -
  have c: "sameNames s (snd (commitFile f p temp n s))" for s
    unfolding commitFile_def diskSyncEntry_def by (intro names.thenR) (simp_all add: names.errOfR names.looks names_calls)
  show ?thesis unfolding Commit_def
  proof (rule names.afterR [OF c])
    fix r :: "gerror option" and t
    have "sameNames t (tryUnlink p temp (snd (sysTouch t)))"
      using names.looks(6) [of t] names_calls(1) names.trans unfolding tryUnlink_def by blast
    then show "sameNames t (snd (case r of None \<Rightarrow> (None, t) | Some e \<Rightarrow> (Some e, tryUnlink p temp (snd (sysTouch t)))))"
      by (cases r) (auto simp: names.refl)
  qed
qed

lemma names_replace:
  assumes "lookupEntry p s \<noteq> None"
  shows "sameNames s (snd (WriteWithTempState p n body s))"
proof -
  have mk: "sameNames s (snd (diskMkdir p s))"
    using assms takeOutcome_eq [of s]
    by (cases "takeOutcome s") (auto simp: diskMkdir_def errOf_def sysMkdir_def syscall_def sameNames_def split: outcome.splits)
  have tmp: "sameNames s (snd (diskTemp p n s))" unfolding diskTemp_def Let_def
    by (intro names.bindNR [OF mk] names.bindR names_calls) (simp add: names.refl)
  have path: "sameNames t (snd (pathMayExist p m t))" for t m
    unfolding pathMayExist_def by (rule names.afterR [OF names.looks(2)]) (auto simp: names.refl split: sum.split)
  have un: "sameNames t (snd (pathMayExist p m (tryUnlink p m (snd (sysTouch t)))))" for t m
    using names.looks(6) [of t] names_calls(1) path names.trans unfolding tryUnlink_def by meson
  have w: "sameNames t (snd (case sysWriteAt f body t of
        ((_, Some e), s2) \<Rightarrow> (let (left, s3) = pathMayExist p m (tryUnlink p m (snd (sysTouch s2))) in ((left, Some e), s3))
      | ((_, None), s2) \<Rightarrow>
          (case Commit f p m n s2 of
             (Some e, s3) \<Rightarrow> (let (left, s4) = pathMayExist p m s3 in ((left, Some e), s4))
           | (None, s3) \<Rightarrow> ((False, None), s3))))" for f m t
  proof (rule names.afterR [OF names_write], goal_cases)
    case (1 r t)
    obtain k e where r: "r = (k, e)" by fastforce
    show ?case
    proof (cases e)
      case (Some er)
      then show ?thesis using un [of t m] by (auto simp: r split: prod.split)
    next
      case None
      show ?thesis unfolding r None prod.case option.case
        by (rule names.afterR [OF names_commit]) (auto simp: names.refl Let_def case_prod_beta path split: option.split)
    qed
  qed
  show ?thesis unfolding WriteWithTempState_def
    by (rule names.afterR [OF tmp]) (use w in \<open>auto simp: names.refl split: sum.split\<close>)
qed


subsection \<open>Storing an entry again\<close>

text \<open>The metadata a replacement may leave: that of the same entry at the next revision.\<close>

definition nextMeta :: "ext \<Rightarrow> Envelope \<Rightarrow> string set" where
  "nextMeta x e = {m. \<exists>u. marshalEnvelope x u = Inr m \<and> ID u = ID e \<and> Incarnation u = Incarnation e \<and> Revision u = Revision e + 1}"

lemma validateEnvelope_ids:
  "validateEnvelope a h e = (None, u) \<Longrightarrow> ID u = ID e \<and> Incarnation u = Incarnation e \<and> Revision u = Revision e"
  by (auto elim: validateEnvelope_ok)

lemma incrementRevision_Inr: "incrementRevision r = Inr n \<Longrightarrow> n = r + 1"
  by (auto simp: incrementRevision_def split: if_splits)

lemma somes_Nil [simp]: "somes es = [] \<longleftrightarrow> (\<forall>e \<in> set es. e = None)"
  by (induction es rule: somes.induct) auto

lemma errors_Join_None [simp]: "errors_Join es = None \<longleftrightarrow> (\<forall>e \<in> set es. e = None)"
  by (auto simp: errors_Join_def split: list.splits) (metis list.distinct(1) option.exhaust somes_Nil)+

lemma writeMetaReconciled_held:
  assumes "held d i dat ms s" "writeMetaReconciled x (d, i) u s = ((committed, left, err), t)"
  shows "marshalEnvelope x u = Inr m \<Longrightarrow> held d i dat (insert m ms) t"
    "err = None \<Longrightarrow> settled d i s \<Longrightarrow> \<exists>m. marshalEnvelope x u = Inr m \<and> held d i dat {m} t" "sameNames s t"
proof -
  show "held d i dat (insert m ms) t" if m: "marshalEnvelope x u = Inr m"
  proof -
    obtain l e s1 where w: "WriteWithTempState (d, i) metaName m s = ((l, e), s1)" by (metis prod.collapse)
    have "held d i dat (insert m ms) s1" by (rule WriteWithTempState_held [OF assms(1) w])
    then show ?thesis using assms(2) held_post [OF held.readBounded [of d i dat "insert m ms" s1 "(d, i)" metaName maxEnvelopeMetadata]]
      by (auto simp: writeMetaReconciled_def m w split: option.splits prod.splits sum.splits if_splits)
  qed
  show "\<exists>m. marshalEnvelope x u = Inr m \<and> held d i dat {m} t" if en: "err = None" and st: "settled d i s"
  proof -
    obtain m where m: "marshalEnvelope x u = Inr m" using assms(2) en by (auto simp: writeMetaReconciled_def split: sum.splits)
    obtain l e s1 where w: "WriteWithTempState (d, i) metaName m s = ((l, e), s1)" by (metis prod.collapse)
    have "e = None \<and> t = s1" using assms(2) en
      by (auto simp: writeMetaReconciled_def m w split: option.splits prod.splits sum.splits if_splits)
    then show ?thesis using WriteWithTempState_held(2) [OF assms(1) w] m st by blast
  qed
  show "sameNames s t"
  proof (cases "marshalEnvelope x u")
    case (Inl er)
    then show ?thesis using assms(2) by (simp add: writeMetaReconciled_def names.refl)
  next
    case (Inr m)
    obtain l e s1 where w: "WriteWithTempState (d, i) metaName m s = ((l, e), s1)" by (metis prod.collapse)
    have "lookupEntry (d, i) s \<noteq> None" using held_visible [OF assms(1)] by blast
    then have "sameNames s s1" using names_replace [of "(d, i)" s metaName m] w by simp
    then show ?thesis using assms(2) names.readBounded [of s1 "(d, i)" metaName maxEnvelopeMetadata] names.trans
      by (auto simp: writeMetaReconciled_def Inr w split: option.splits prod.splits sum.splits if_splits)
  qed
qed

text \<open>A run of \<open>storeReadyUpdate\<close> is one of reading only, or reads, writes and measures.\<close>

lemma storeReadyUpdate_cases:
  assumes "storeReadyUpdate x e link q s = (retained, err, e', q', t)"
  obtains (read) r s1 where "err \<noteq> None" "matchReadyUpdate x e link s = (r, s1)" "t = s \<or> t = s1 \<or> t = snd (AllocatedBytes (dirReady, ID e) s1)"
      "ID e' = ID e"
  | (wrote) r s1 u committed left err1 s3 where "matchReadyUpdate x e link s = (r, s1)"
      "validateEnvelope (toASCII x) (hexdigest x) (e\<lparr>Revision := Revision e + 1\<rparr>) = (None, u)"
      "writeMetaReconciled x (dirReady, ID e) u (snd (AllocatedBytes (dirReady, ID e) s1)) = ((committed, left, err1), s3)"
      "t = snd (AllocatedBytes (dirReady, ID e) s3)" "err = None \<Longrightarrow> err1 = None" "committed \<Longrightarrow> e' = u" "ID e' = ID e"
proof -
  obtain r s1 where m: "matchReadyUpdate x e link s = (r, s1)" by fastforce
  obtain b s2 where b: "AllocatedBytes (dirReady, ID e) s1 = (b, s2)" by fastforce
  obtain verr u where v: "validateEnvelope (toASCII x) (hexdigest x) (e\<lparr>Revision := Revision e + 1\<rparr>) = (verr, u)" by fastforce
  obtain committed left err1 s3 where w: "writeMetaReconciled x (dirReady, ID e) u s2 = ((committed, left, err1), s3)"
    by (metis prod.collapse)
  obtain a s4 where a: "AllocatedBytes (dirReady, ID e) s3 = (a, s4)" by fastforce
  show ?thesis
  proof (cases "\<exists>n before meta. incrementRevision (Revision e) = Inr n \<and> r = None \<and> b = Inr before \<and> verr = None \<and> marshalEnvelope x u = Inr meta")
    case False
    then show ?thesis
      using assms m b v incrementRevision_Inr [of "Revision e"] unfolding storeReadyUpdate_def
      by (intro read [of r s1]) (auto simp: Let_def split: sum.splits option.splits)
  next
    case True
    then obtain n before meta where t: "incrementRevision (Revision e) = Inr n" "n = Revision e + 1" "r = None" "b = Inr before" "verr = None"
        "marshalEnvelope x u = Inr meta" using incrementRevision_Inr by blast
    have u: "\<exists>rs. u = e\<lparr>Revision := Revision e + 1, Recipients := rs\<rparr>" using v t(5) by (auto elim: validateEnvelope_ok)
    show ?thesis
    proof (rule wrote)
      show "matchReadyUpdate x e link s = (r, s1)" "validateEnvelope (toASCII x) (hexdigest x) (e\<lparr>Revision := Revision e + 1\<rparr>) = (None, u)"
        "writeMetaReconciled x (dirReady, ID e) u (snd (AllocatedBytes (dirReady, ID e) s1)) = ((committed, left, err1), s3)"
        using m b v w t(5) by simp_all
    qed (use assms m b v w a t u in \<open>auto simp: storeReadyUpdate_def Let_def split: sum.splits option.splits if_splits\<close>)
  qed
qed

lemma storeReadyUpdate_held:
  assumes "held dirReady (ID e) dat ms s" "storeReadyUpdate x e link q s = (retained, err, e', q', t)"
  shows "held dirReady (ID e) dat (ms \<union> nextMeta x e) t"
    "err = None \<Longrightarrow> settled dirReady (ID e) s \<Longrightarrow> \<exists>m. marshalEnvelope x e' = Inr m \<and> Revision e' = Revision e + 1 \<and>
       held dirReady (ID e) dat {m} t"
    "sameNames s t" "ID e' = ID e"
proof -
  let ?p = "(dirReady, ID e)"
  have r: "held dirReady (ID e) dat ms s1 \<and> held dirReady (ID e) dat ms (snd (AllocatedBytes ?p s1)) \<and>
      sameNames s s1 \<and> sameNames s (snd (AllocatedBytes ?p s1))" if "matchReadyUpdate x e link s = (r, s1)" for r s1
    using that held_post [OF held.matched assms(1), of x e link] held_post [OF held.allocated, of dirReady "ID e" dat ms s1 ?p]
      names.matched [of s x e link] names.allocated [of s1 ?p] names.trans by auto
  from assms(2) have "held dirReady (ID e) dat (ms \<union> nextMeta x e) t \<and> sameNames s t \<and> ID e' = ID e \<and>
      (err = None \<longrightarrow> settled dirReady (ID e) s \<longrightarrow> (\<exists>m. marshalEnvelope x e' = Inr m \<and> Revision e' = Revision e + 1 \<and>
         held dirReady (ID e) dat {m} t))"
  proof (cases rule: storeReadyUpdate_cases)
    case (read r s1)
    then have "held dirReady (ID e) dat ms t \<and> sameNames s t" using r assms(1) names.refl by auto
    then show ?thesis using read(1,4) held_mono by blast
  next
    case (wrote r s1 u committed left err1 s3)
    let ?s2 = "snd (AllocatedBytes ?p s1)"
    have h2: "held dirReady (ID e) dat ms ?s2" and n2: "sameNames s ?s2" using r wrote(1) by blast+
    note w = writeMetaReconciled_held [OF h2 wrote(3)]
    have u: "ID u = ID e" "Incarnation u = Incarnation e" "Revision u = Revision e + 1"
      using validateEnvelope_ids [OF wrote(2)] by simp_all
    have post: "held dirReady (ID e) dat ms' s3 \<Longrightarrow> held dirReady (ID e) dat ms' t" for ms'
      using held_post [OF held.allocated] wrote(4) by blast
    have nt: "sameNames s t" using names.trans [OF n2 names.trans [OF w(3) names.allocated]] wrote(4) by simp
    have all: "held dirReady (ID e) dat (ms \<union> nextMeta x e) t"
    proof (cases "marshalEnvelope x u")
      case (Inl er)
      then have "s3 = ?s2" using wrote(3) by (simp add: writeMetaReconciled_def)
      then show ?thesis using post h2 held_mono by blast
    next
      case (Inr m)
      then have "m \<in> nextMeta x e" using u by (auto simp: nextMeta_def)
      then show ?thesis using post w(1) [OF Inr] held_mono by (metis Un_iff insert_subset order_refl subsetI)
    qed
    have "\<exists>m. marshalEnvelope x e' = Inr m \<and> Revision e' = Revision e + 1 \<and> held dirReady (ID e) dat {m} t"
      if en: "err = None" and st: "settled dirReady (ID e) s"
    proof -
      have wf: "fs_wf s" "fs_wf ?s2" using assms(1) h2 by (simp_all add: held_def)
      have e1: "err1 = None" by (rule wrote(5) [OF en])
      then have "committed" using wrote(3) by (auto simp: writeMetaReconciled_def split: sum.splits option.splits prod.splits if_splits)
      then have "e' = u" by (rule wrote(6))
      then show ?thesis using w(2) [OF e1] sameNames_settled [OF n2 wf] st post u(3) by metis
    qed
    then show ?thesis using all nt wrote(7) by blast
  qed
  then show "held dirReady (ID e) dat (ms \<union> nextMeta x e) t"
    "err = None \<Longrightarrow> settled dirReady (ID e) s \<Longrightarrow> \<exists>m. marshalEnvelope x e' = Inr m \<and> Revision e' = Revision e + 1 \<and>
       held dirReady (ID e) dat {m} t"
    "sameNames s t" "ID e' = ID e" by blast+
qed

end
