(* ===== verification/Acceptance.thy ===== *)
theory Acceptance
  imports Add_Definite Capacity_Inv
begin

text \<open>
  What a caller of \<open>AddContext\<close> may rely on, over every sequence of outcomes of its system calls.
\<close>

subsection \<open>Accepted messages\<close>

lemma acceptAdd_wf:
  assumes "acceptAdd (dirReady, i) s = (None, t)" "fs_wf s"
  shows "fs_wf t"
proof -
  obtain f s1 s2 where 1: "sysOpen (dirReady, i) addStateName s = (Inr f, s1)"
      "writeAddState f addAccepted s1 = (None, s2)" "SyncFile f s2 = (None, t)"
    using assms(1) unfolding acceptAdd_def withValue_None by (auto simp: recovered_None)
  then have "fs_wf s1" using wf.looks(3) [of s "(dirReady, i)" addStateName] assms(2) by (simp add: keeps_wf_def)
  moreover have "onlyFile f s1 s2" "onlyFile f s2 t"
    using onlyFile_steps(2) [of f s1 addAccepted] onlyFile_steps(3) [of f s2] 1(2,3) by simp_all
  ultimately show ?thesis by (simp add: onlyFile_def)
qed

lemma addReserved_wf:
  assumes "addReserved e dat meta physical now q s = (None, q', t)" "safe (ID e) s"
  shows "fs_wf t"
proof -
  let ?i = "ID e"
  obtain r1 s1 where s1: "ctxErr s = (r1, s1)" by fastforce
  have sf1: "safe ?i s1" by (rule ctx_safe) fact+
  obtain r2 s2 where s2: "addMkTmp ?i s1 = (r2, s2)" by fastforce
  obtain r3 s3 where s3: "addStage ?i dat meta s2 = (r3, s3)" by fastforce
  obtain r4 s4 where s4: "ctxErr s3 = (r4, s4)" by fastforce
  have r: "r1 = None \<and> r2 = None \<and> r3 = None \<and> r4 = None \<and> acceptAdd (dirReady, ?i) s4 = (None, t)"
    using assms(1) s1 s2 s3 s4 unfolding addReserved_def
    by (auto simp: Let_def split: option.splits prod.splits if_splits)
  then have "staging ?i s2" using addMkTmp_spec(2) [OF s2 sf1] by simp
  then have "safe ?i s3" using addStage_safe [of ?i s2 dat meta] s3 by simp
  then have "safe ?i s4" using ctx_safe s4 by blast
  then show ?thesis using acceptAdd_wf r by (auto simp: safe_def)
qed

lemma AddContext_ok:
  assumes "AddContext x inp envelope dat q s = (None, oe, q', t)"
  obtains e0 inc e q1 q3 q4 s1 where "envelope = Some e0" "oe = Some e" "freshIncarnation inp = Inr inc"
    "ctxErr s = (None, s1)" "beginTransitions [ID e0] (q\<lparr>active := active q + 1\<rparr>) = (None, q1)"
    "startMutation (startTime inp) (spoolUsage inp) q1 = (None, q3)"
    "addPrecheck e0 = None"
    "addOwned x inp (e0\<lparr>Incarnation := inc, Revision := 1\<rparr>) dat q3 s1 = (None, e, q4, t)" "q' = endOperation q4"
  using assms unfolding AddContext_def
  by (auto simp: Let_def beginOperation_def split: prod.splits option.splits sum.splits if_splits)

lemma addOwned_wf:
  assumes "addOwned x inp e dat q s = (None, e', q', t)" "safe (ID e) s"
  shows "fs_wf t"
proof -
  let ?i = "ID e"
  obtain r1 s1 where s1: "ctxErr s = (r1, s1)" by fastforce
  obtain r2 s2 where s2: "addClear ?i (clearTime inp) s1 = (r2, s2)" by fastforce
  obtain verr e1 where v: "validateEnvelope (toASCII x) (hexdigest x)
      (e\<lparr>Size := int (length dat), BodyDigest := bodyDigest x dat\<rparr>) = (verr, e1)" by fastforce
  obtain r3 s3 where s3: "ctxErr s2 = (r3, s3)" by fastforce
  have sf1: "safe ?i s1" using ctx_safe s1 assms(2) by blast
  have sf2: "safe ?i s2" using calm_safe [OF sf1] addClear_calm [of ?i s1 "clearTime inp"] s2 by simp
  have sf3: "safe ?i s3" using ctx_safe s3 sf2 by blast
  obtain meta ph q1 q2 where r: "verr = None" "addReserved e1 dat meta ph (abortTime inp) q1 s3 = (None, q2, t)"
    using assms(1) s1 s2 v s3 unfolding addOwned_def
    by (auto simp: Let_def split: prod.splits option.splits sum.splits if_splits)
  have "ID e1 = ?i" using v r(1) by (auto elim: validateEnvelope_ok)
  then show ?thesis using addReserved_wf [OF r(2)] sf3 by simp
qed

subsection \<open>Quota\<close>

text \<open>The fields the quota depends on, and the steps that leave them alone.\<close>

definition capAll :: "Queue \<Rightarrow> _" where
  "capAll q = (capPart q, spoolReserved q, spoolBytes q)"

lemma capAll_other: "cap_reach lim R H q \<Longrightarrow> capAll q' = capAll q \<Longrightarrow> cap_reach lim R H q'"
  by (rule cap_reach_other) (auto simp: capAll_def)

lemma capAll_fields [simp]:
  "capAll (q\<lparr>active := a\<rparr>) = capAll q" "capAll (q\<lparr>transitioning := ts\<rparr>) = capAll q"
  "capAll (q\<lparr>requeues := rq\<rparr>) = capAll q" "capAll (signal q) = capAll q" "capAll (blockID i q) = capAll q"
  "capAll (endOperation q) = capAll q" "capAll (releaseTransition i q) = capAll q"
  by (simp_all add: capAll_def capPart_def signal_def blockID_def endOperation_def releaseTransition_def)

lemma scheduleLocked_cap [simp]: "capAll (snd (scheduleLocked e q)) = capAll q"
  by (simp add: scheduleLocked_def Let_def capAll_def capPart_def)

lemma scheduleFirst_cap [simp]: "capAll (snd (scheduleFirst es q)) = capAll q"
proof (induction es arbitrary: q)
  case (Cons e es)
  obtain ok q1 where s: "scheduleLocked e q = (ok, q1)" by fastforce
  then have "capAll q1 = capAll q" using scheduleLocked_cap [of e q] by simp
  then show ?case using s Cons.IH by (cases ok) auto
qed simp

lemma endTransitions_cap [simp]: "capAll (endTransitions is q) = capAll q"
proof -
  have "capAll (snd (endTransitionsLoop is a q)) = capAll q" for a
  proof (induction "is" arbitrary: a q)
    case (Cons i "is")
    obtain hit q2 where h: "scheduleFirst (requeuesOf (q\<lparr>transitioning := removeAll i (transitioning q)\<rparr>) i)
        (q\<lparr>transitioning := removeAll i (transitioning q)\<rparr>) = (hit, q2)" by fastforce
    then have "capAll q2 = capAll q"
      using scheduleFirst_cap [of _ "q\<lparr>transitioning := removeAll i (transitioning q)\<rparr>"] by (metis capAll_fields(2) snd_conv)
    then show ?case using Cons.IH h by (simp add: Let_def)
  qed simp
  then show ?thesis by (auto simp: endTransitions_def signalIf_def split: prod.splits) (metis snd_conv)+
qed

lemma beginTransitions_cap: "beginTransitions is q = (r, q') \<Longrightarrow> capAll q' = capAll q"
  by (auto simp: beginTransitions_def capAll_def capPart_def split: if_splits)

definition measuredOK :: "gerror + int \<Rightarrow> bool" where
  "measuredOK m \<longleftrightarrow> (case m of Inl _ \<Rightarrow> True | Inr n \<Rightarrow> 0 \<le> n \<and> n \<le> max_int64)"

lemma startMutation_cap:
  assumes "cap_reach lim R H q" "measuredOK m" "startMutation now m q = (r, q')"
  shows "cap_reach lim R H q'"
proof (cases "q' = q")
  case False
  then obtain n where "m = Inr n" "q' = snd (refreshSpoolUsage now (Inr n) q)"
    using assms(3) by (auto simp: startMutation_def refreshSpoolUsage_def split: if_splits sum.splits)
  then show ?thesis using cap_reach_measure [OF assms(1)] assms(2) by (simp add: measuredOK_def)
qed (use assms(1) in simp)

text \<open>Giving a reservation back, after part of it was charged.\<close>

lemma addAbort_cap:
  assumes "cap_reach lim (\<lparr>rsize = Size e, rphys = ph, rowner = Username e\<rparr> # R) H q"
  shows "cap_reach lim R H (addAbort e ph q)"
  using cap_reach_abort [OF assms, of "\<lparr>rsize = Size e, rphys = ph, rowner = Username e\<rparr>"] by (simp add: addAbort_def)

lemma commit_cap:
  assumes "cap_reach lim (\<lparr>rsize = Size e, rphys = ph, rowner = Username e\<rparr> # R) H q" "0 \<le> n" "n \<le> ph"
  shows "cap_reach lim (\<lparr>rsize = Size e, rphys = ph - n, rowner = Username e\<rparr> # R) H (commitPhysicalLocked n q)"
  using cap_reach_commit [of lim "[]" "\<lparr>rsize = Size e, rphys = ph, rowner = Username e\<rparr>" R H q n] assms by simp

lemma AllocationSize_pos: "0 < AllocationSize n"
proof (cases "n \<le> max_int64 - 65535")
  case False
  then show ?thesis by (simp add: AllocationSize_def allocationUnit_def max_int64_def)
qed (use AllocationSize_bounds(4) in blast)

lemma sumAllocated_nonneg: "sumAllocated tot zs = Inr n \<Longrightarrow> 0 \<le> tot \<Longrightarrow> 0 \<le> n"
proof (induction zs arbitrary: tot)
  case (Cons z zs)
  then show ?case using AllocationSize_pos [of z] by (auto simp: Let_def split: if_splits)
qed simp

lemma abortReady_cap:
  assumes "abortReady e metaLen ph now cause q s = (err, held, q', t)"
    "cap_reach lim (\<lparr>rsize = Size e, rphys = ph, rowner = Username e\<rparr> # R) H q" "0 \<le> ph"
    "0 \<le> estimatePersistentEntryAllocation (Size e) metaLen"
  shows "cap_reach lim (\<lparr>rsize = Size e, rphys = held, rowner = Username e\<rparr> # R) H q'"
proof -
  obtain m s1 where m: "AllocatedBytes (dirReady, ID e) s = (m, s1)" by fastforce
  let ?p = "case m of Inr n \<Rightarrow> n | Inl _ \<Rightarrow> estimatePersistentEntryAllocation (Size e) metaLen"
  have "0 \<le> ?p" using m assms(4) sumAllocated_nonneg
    by (auto simp: AllocatedBytes_def simp del: sumAllocated.simps split: prod.splits sum.splits)
  then have c: "cap_reach lim (\<lparr>rsize = Size e, rphys = ph - min ?p ph, rowner = Username e\<rparr> # R) H
      (commitPhysicalLocked (min ?p ph) q)" by (intro commit_cap [OF assms(2)]) (use assms(3) in auto)
  have "held = ph - min ?p ph \<and> capAll q' = capAll (commitPhysicalLocked (min ?p ph) q)"
    using assms(1) m by (auto simp: abortReady_def Let_def split: prod.splits option.splits if_splits)
  then show ?thesis using capAll_other [OF c] by simp
qed

text \<open>An operation with a granted reservation \<open>r\<close> ends without it; on success its message is accounted.\<close>

lemma publishAdd_cap:
  assumes "cap_reach lim (\<lparr>rsize = Size e, rphys = ph, rowner = Username e\<rparr> # R) H q" "DSNSourceID e = []"
    "0 \<le> estimatePersistentEntryAllocation (Size e) n" "estimatePersistentEntryAllocation (Size e) n \<le> ph" "ph \<le> max_int64"
    "mget (accounted q) (ID e) = None"
  shows "cap_reach lim R H (publishAdd e n ph q)" "mget (accounted (publishAdd e n ph q)) (ID e) = Some (accountEntry e)"
proof -
  let ?p = "estimatePersistentEntryAllocation (Size e) n"
  let ?q1 = "commitPhysicalLocked ?p q"
  let ?r = "\<lparr>rsize = Size e, rphys = ph - ?p, rowner = Username e\<rparr>"
  let ?q2 = "releaseReserveLocked (Size e) (ph - ?p) (Username e) ?q1"
  have w: "wrap64 (ph - ?p) = ph - ?p" using assms(3-5) by (intro wrap64_id in64I) auto
  have c1: "cap_reach lim (?r # R) H ?q1" by (rule commit_cap) fact+
  have a1: "mget (accounted ?q1) (ID e) = None" using capPart_spool(3) [of ?p q] assms(6) by (simp add: capPart_def)
  have ow: "quotaOwner e = Username e" using assms(2) by (simp add: quotaOwner_def)
  have c3: "cap_reach lim R H (snd (noteAddedLocked e ?q2))"
    using cap_reach_complete [OF c1, of ?r e] a1 ow by simp
  have inv: "cap_inv (?r # R) H ?q1" using cap_reach_inv [OF c1] by simp
  note C = cap_inv_release [OF inv, of ?r] and room = complete_room [OF inv, of ?r]
  have s: "0 \<le> Size e" using inv by (simp add: cap_inv_def)
  have acc: "accounted (snd (noteAddedLocked e ?q2)) = mput (ID e) (accountEntry e) (accounted ?q2)"
    by (rule noteAddedLocked_new(4)) (use C room s a1 in auto)
  let ?q4 = "snd (scheduleLocked e (releaseTransition (ID e) (snd (noteAddedLocked e ?q2))))"
  have eq: "publishAdd e n ph q = signal ?q4"
    by (simp add: publishAdd_def Let_def w split: prod.splits)
  have ca: "capAll (publishAdd e n ph q) = capAll (snd (noteAddedLocked e ?q2))" by (simp add: eq)
  show "cap_reach lim R H (publishAdd e n ph q)" by (rule capAll_other [OF c3 ca])
  show "mget (accounted (publishAdd e n ph q)) (ID e) = Some (accountEntry e)"
    using ca acc by (simp add: capAll_def capPart_def mget_mput)
qed

lemma addReserved_cap:
  assumes "addReserved e dat meta ph now q s = (err, q', t)"
    "cap_reach lim (\<lparr>rsize = Size e, rphys = ph, rowner = Username e\<rparr> # R) H q" "DSNSourceID e = []"
    "0 \<le> estimatePersistentEntryAllocation (Size e) (int (length meta))"
    "estimatePersistentEntryAllocation (Size e) (int (length meta)) \<le> ph" "ph \<le> max_int64"
    "mget (accounted q) (ID e) = None"
  shows "cap_reach lim R H q' \<and> (err = None \<longrightarrow> mget (accounted q') (ID e) = Some (accountEntry e))"
proof (cases err)
  case None
  then have "q' = publishAdd e (int (length meta)) ph q" using addReserved_ok(2) assms(1) by blast
  then show ?thesis using publishAdd_cap [OF assms(2-7)] by simp
next
  case (Some er)
  have ph: "0 \<le> ph" using assms(4,5) by simp
  have "q' = addAbort e ph q \<or> q' = addAbort e 0 (commitPhysicalLocked ph q) \<or>
      (\<exists>c s4 er' held q1 s5. abortReady e (int (length meta)) ph now c q s4 = (er', held, q1, s5) \<and> q' = addAbort e held q1)"
    using assms(1) Some unfolding addReserved_def Let_def
    by (auto split: prod.splits option.splits if_splits) blast+
  moreover have "cap_reach lim R H (addAbort e ph q)" by (rule addAbort_cap) fact
  moreover have "cap_reach lim R H (addAbort e 0 (commitPhysicalLocked ph q))"
    using addAbort_cap commit_cap [OF assms(2) ph order_refl] by simp
  moreover have "cap_reach lim R H (addAbort e held q1)"
    if "abortReady e (int (length meta)) ph now c q s4 = (er', held, q1, s5)" for c s4 er' held q1 s5
    by (rule addAbort_cap, rule abortReady_cap [OF that assms(2) ph assms(4)])
  ultimately show ?thesis using Some by auto
qed

lemma addOwned_cap:
  assumes "addOwned x inp e dat q s = (err, e', q', t)" "cap_reach lim R H q" "DSNSourceID e = []"
    "int (length dat) < 2305843009213693952"
  shows "cap_reach lim R H q' \<and> (err = None \<longrightarrow> mget (accounted q') (ID e') = Some (accountEntry e'))"
proof -
  obtain verr e1 where v: "validateEnvelope (toASCII x) (hexdigest x)
      (e\<lparr>Size := int (length dat), BodyDigest := bodyDigest x dat\<rparr>) = (verr, e1)" by fastforce
  have "(err \<noteq> None \<and> q' = q) \<or> (\<exists>meta q1 s3. verr = None \<and> marshalEnvelope x e1 = Inr meta \<and> e' = e1 \<and>
      mget (accounted q) (ID e) = None \<and>
      (let ph = estimateEntryAllocation (Size e1) (int (length meta))
       in reserveLocked (freeSpace inp) (Size e1) ph False False (Username e1) q = (None, q1) \<and>
          addReserved e1 dat meta ph (abortTime inp) q1 s3 = (err, q', t))) \<or>
      (\<exists>ph er. err = Some er \<and> reserveLocked (freeSpace inp) (Size e1) ph False False (Username e1) q = (Some er, q'))"
    using assms(1) v unfolding addOwned_def
    by (auto simp: Let_def split: prod.splits option.splits sum.splits if_splits)
  then consider (same) "err \<noteq> None" "q' = q"
    | (run) meta q1 s3 where "verr = None" "marshalEnvelope x e1 = Inr meta" "e' = e1" "mget (accounted q) (ID e) = None"
        "reserveLocked (freeSpace inp) (Size e1) (estimateEntryAllocation (Size e1) (int (length meta))) False False (Username e1) q = (None, q1)"
        "addReserved e1 dat meta (estimateEntryAllocation (Size e1) (int (length meta))) (abortTime inp) q1 s3 = (err, q', t)"
    | (refused) er ph where "err = Some er" "reserveLocked (freeSpace inp) (Size e1) ph False False (Username e1) q = (Some er, q')"
    unfolding Let_def by (elim disjE exE conjE) metis+
  then show ?thesis
  proof cases
    case refused
    then have "q' = q" using reserveLocked_refused by blast
    then show ?thesis using assms(2) refused(1) by simp
  next
    case run
    let ?ph = "estimateEntryAllocation (Size e1) (int (length meta))"
    have e1: "Size e1 = int (length dat)" "ID e1 = ID e" "DSNSourceID e1 = []" "Username e1 \<noteq> []"
      using v run(1) assms(3) by (auto simp: validateHeader_def elim: validateEnvelope_ok)
    have ml: "int (length meta) < 2305843009213693952"
      using run(2) by (auto simp: marshalEnvelope_def maxEnvelopeMetadata_def split: option.splits if_splits)
    note est = estimate_bounds [of "Size e1" "int (length meta)", unfolded e1(1), OF of_nat_0_le_iff assms(4) of_nat_0_le_iff ml]
    have ph: "0 \<le> estimatePersistentEntryAllocation (Size e1) (int (length meta))"
        "estimatePersistentEntryAllocation (Size e1) (int (length meta)) \<le> ?ph" "?ph \<le> max_int64"
      using est assms(4) ml unfolding e1(1) max_int64_def by linarith+
    have i: "in64 (Size e1)" "in64 ?ph" using assms(4) ph by (auto simp: e1(1) in64_def min_int64_def max_int64_def)
    have "cap_reach lim (\<lparr>rsize = Size e1, rphys = ?ph, rowner = Username e1\<rparr> # R) H q1"
      using cap_reach_reserve [OF assms(2) i _ run(5)] e1(4) by simp
    moreover have "mget (accounted q1) (ID e1) = None"
      using run(4,5) reserveLocked_accounted e1(2) by metis
    ultimately show ?thesis using addReserved_cap [OF run(6) _ e1(3) ph] run(3) by simp
  qed (use assms(2) in auto)
qed

lemma addPrecheck_source: "addPrecheck e = None \<Longrightarrow> DSNSourceID e = []"
  by (simp add: addPrecheck_def)

lemma AddContext_cap:
  assumes "AddContext x inp envelope dat q s = (err, oe, q', t)" "cap_reach lim R H q" "measuredOK (spoolUsage inp)"
    "int (length dat) < 2305843009213693952"
  shows "cap_reach lim R H q' \<and> (err = None \<longrightarrow> (\<exists>e. oe = Some e \<and> mget (accounted q') (ID e) = Some (accountEntry e)))"
proof (cases "\<exists>e0 inc q2 r q3. envelope = Some e0 \<and> addPrecheck e0 = None \<and>
    beginTransitions [ID e0] (q\<lparr>active := active q + 1\<rparr>) = (None, q2) \<and>
    startMutation (startTime inp) (spoolUsage inp) q2 = (r, q3) \<and>
    (if r \<noteq> None then err = r \<and> q' = endOperation (endTransitions [ID e0] q3)
     else \<exists>s1 e2 q4. addOwned x inp (e0\<lparr>Incarnation := inc, Revision := 1\<rparr>) dat q3 s1 = (err, e2, q4, t) \<and>
       oe = Some e2 \<and> q' = endOperation (if err = None then q4 else endTransitions [ID e0] q4))")
  case True
  then obtain e0 inc q2 r q3 where b0: "addPrecheck e0 = None" and b: "DSNSourceID e0 = []" "beginTransitions [ID e0] (q\<lparr>active := active q + 1\<rparr>) = (None, q2)"
      "startMutation (startTime inp) (spoolUsage inp) q2 = (r, q3)"
    and c: "if r \<noteq> None then err = r \<and> q' = endOperation (endTransitions [ID e0] q3)
     else \<exists>s1 e2 q4. addOwned x inp (e0\<lparr>Incarnation := inc, Revision := 1\<rparr>) dat q3 s1 = (err, e2, q4, t) \<and>
       oe = Some e2 \<and> q' = endOperation (if err = None then q4 else endTransitions [ID e0] q4)"
    using addPrecheck_source by blast
  have "cap_reach lim R H q2" using capAll_other [OF assms(2)] beginTransitions_cap [OF b(2)] by simp
  then have q3: "cap_reach lim R H q3" using startMutation_cap assms(3) b(3) by blast
  show ?thesis
  proof (cases "r = None")
    case False
    then show ?thesis using c capAll_other [OF q3] by auto
  next
    case True
    then obtain s1 e2 q4 where o: "addOwned x inp (e0\<lparr>Incarnation := inc, Revision := 1\<rparr>) dat q3 s1 = (err, e2, q4, t)"
        "oe = Some e2" "q' = endOperation (if err = None then q4 else endTransitions [ID e0] q4)" using c by auto
    have q4: "cap_reach lim R H q4 \<and> (err = None \<longrightarrow> mget (accounted q4) (ID e2) = Some (accountEntry e2))"
      using addOwned_cap [OF o(1) q3] b(1) assms(4) by simp
    have "capAll q' = capAll q4" using o(3) by simp
    then have "cap_reach lim R H q'" using capAll_other q4 by blast
    moreover have "accounted (endOperation q4) = accounted q4" by (simp add: endOperation_def)
    ultimately show ?thesis using q4 o(2,3) by auto
  qed
next
  case False
  then have "capAll q' = capAll q \<and> err \<noteq> None"
    using assms(1) unfolding AddContext_def
    by (auto simp: Let_def beginOperation_def dest: beginTransitions_cap split: prod.splits option.splits sum.splits if_splits)
      metis+
  then show ?thesis using capAll_other [OF assms(2)] by auto
qed

subsection \<open>Crashes and safety\<close>

text \<open>An entry is safe exactly when no crash leaves it accepted.\<close>

definition acceptedAfterCrash :: "fsys \<Rightarrow> string \<Rightarrow> bool" where
  "acceptedAfterCrash s i \<longleftrightarrow> (\<exists>c. crash s c \<and> fileAfter c (dirReady, i) addStateName = Some addAccepted)"

lemma safe_iff:
  assumes "fs_wf s"
  shows "safe i s \<longleftrightarrow> \<not> acceptedAfterCrash s i"
proof
  assume "safe i s"
  then show "\<not> acceptedAfterCrash s i"
    by (auto simp: acceptedAfterCrash_def safe_def clean_def crash_def fileAfter_def lookupFile_def lookupEntry_def
        split: option.splits) (metis (no_types))
next
  assume n: "\<not> acceptedAfterCrash s i"
  have "addAccepted \<notin> set (fileD s f)"
    if m: "m \<in> set (nsD s dirReady)" "mget m i = Some j" and d: "d \<in> set (dirD s j)" "mget d addStateName = Some f" for m j d f
  proof
    assume a: "addAccepted \<in> set (fileD s f)"
    let ?c = "s\<lparr>nsV := (nsV s)(dirReady := m), dirV := (dirV s)(j := d), fileV := (fileV s)(f := addAccepted)\<rparr>"
    have "crash s ?c" using m(1) d(1) a fs_wfD(1-3) [OF assms] by (auto simp: crash_def)
    moreover have "fileAfter ?c (dirReady, i) addStateName = Some addAccepted"
      using m(2) d(2) by (simp add: fileAfter_def lookupFile_def lookupEntry_def)
    ultimately show False using n unfolding acceptedAfterCrash_def by blast
  qed
  then show "safe i s" using assms by (auto simp: safe_def clean_def)
qed

lemma recovers_added:
  assumes "idnaOK (toASCII x)" "jsonOK x" "AddContext x inp envelope dat q s = (None, Some e, q', s')"
    "envelopeText e" "int (length dat) < max_int64" "crash s' c"
  shows "loadAcceptedDir x (dirReady, ID e) (ID e) (c\<lparr>outcomes := []\<rparr>) = (Inr (storedForm e), c\<lparr>outcomes := []\<rparr>)"
    and "fileAfter c (dirReady, ID e) bodyName = Some dat"
proof -
  obtain e0 inc q3 q4 s1 where "addOwned x inp (e0\<lparr>Incarnation := inc, Revision := 1\<rparr>) dat q3 s1 = (None, e, q4, s')"
    using assms(3) by (elim AddContext_ok) auto
  then obtain node meta where st: "stagedAt (ID e) addAccepted dat meta node s'" and m: "marshalEnvelope x e = Inr meta"
    and v: "validateEnvelope (toASCII x) (hexdigest x)
        (e0\<lparr>Incarnation := inc, Revision := 1, Size := int (length dat), BodyDigest := bodyDigest x dat\<rparr>) = (None, e)"
    and vb: "verifyBodyData x e dat = None" by (elim addOwned_ok) auto
  have sz: "Size e = int (length dat)" "BodyDigest e = bodyDigest x dat" using v by (auto elim: validateEnvelope_ok)
  have hd: "validateHeader (hexdigest x) e = None" using v by (auto elim: validateEnvelope_ok)
  have bs: "Bodies e \<noteq> [] \<longrightarrow> validateBodies (Size e) 0 (Bodies e) = Inr (Size e)"
    using hd by (auto simp: validateHeader_def split: sum.splits)
  obtain f1 f2 f3 where f: "lookupFile (dirReady, ID e) addStateName c = Some f1" "fileV c f1 = addAccepted"
      "lookupFile (dirReady, ID e) bodyName c = Some f2" "fileV c f2 = dat"
      "lookupFile (dirReady, ID e) metaName c = Some f3" "fileV c f3 = meta"
    by (rule stagedAt_crash [OF st assms(6)])
  note dec = decode_stored [OF assms(1,2,4) m v]
  show "loadAcceptedDir x (dirReady, ID e) (ID e) (c\<lparr>outcomes := []\<rparr>) = (Inr (storedForm e), c\<lparr>outcomes := []\<rparr>)"
    by (rule loadAcceptedDir_pass [where dat = dat and meta = meta])
      (use f dec sz bs vb assms(5) in \<open>auto simp: verifyBodyData_def\<close>)
  show "fileAfter c (dirReady, ID e) bodyName = Some dat" using f(3,4) by (simp add: fileAfter_def)
qed

end
