(* ===== verification/Add_Live.thy ===== *)
theory Add_Live
  imports Acceptance
begin

text \<open>
  When every system call passes, a valid message with room in the quota is accepted.
\<close>

lemma takeOutcome_pass [simp]: "outcomes s = [] \<Longrightarrow> takeOutcome s = (Pass, s)"
  by (simp add: takeOutcome_def)

lemma ctxErr_pass [simp]: "outcomes s = [] \<Longrightarrow> ctxErr s = (None, s)"
  by (simp add: ctxErr_def)

lemma outcomes_set [simp]:
  "outcomes (setNs d m s) = outcomes s" "outcomes (setDir i m s) = outcomes s" "outcomes (setFile f dat s) = outcomes s"
  by (simp_all add: setNs_def setDir_def setFile_def)

lemma diskWrite_pass:
  assumes "outcomes s = []" "lookupEntry p s = Some i" "mget (dirV s i) (tempName n s) = None"
  shows "\<exists>t. diskWrite p n dat s = (None, t) \<and> outcomes t = []"
proof -
  let ?temp = "tempName n s" and ?f = "freshNode s"
  define s1 where "s1 = setDir i (mput ?temp ?f (dirV s i)) (s\<lparr>freshNode := ?f + 1, fileV := (fileV s)(?f := []), fileD := (fileD s)(?f := [[]])\<rparr>)"
  have t: "diskTemp p n s = (Inr (?f, ?temp), s1)"
    using assms by (simp add: diskTemp_def diskMkdir_def errOf_def sysMkdir_def sysCreate_def bindN_def bindE_def Let_def s1_def)
  define s2 where "s2 = setFile ?f dat s1"
  have o1: "outcomes s1 = []" "lookupEntry p s1 = Some i" "mget (dirV s1 i) ?temp = Some ?f"
    using assms by (simp_all add: s1_def setDir_def mget_mput lookupEntry_def)
  have w: "sysWriteAt ?f dat s1 = ((length dat, None), s2)" using o1 by (simp add: sysWriteAt_def s2_def)
  have o2: "outcomes s2 = []" "lookupEntry p s2 = Some i" "mget (dirV s2 i) ?temp = Some ?f"
    using o1 by (simp_all add: s2_def setFile_def lookupEntry_def)
  have "\<exists>t. commitFile ?f p ?temp n s2 = (None, t) \<and> outcomes t = []"
    using o2 by (simp add: commitFile_def thenE_def errOf_def sysSyncFile_def sysRenameFile_def diskSyncEntry_def
        sysSyncEntry_def lookupEntry_def)
  then obtain t' where "commitFile ?f p ?temp n s2 = (None, t')" "outcomes t' = []" by blast
  then show ?thesis by (simp add: diskWrite_def WriteWithTempState_def t w Commit_def)
qed

lemma diskRename_pass:
  assumes "outcomes s = []" "lookupEntry p s = Some i" "lookupEntry q s = None" "rootV s (fst q)"
  shows "\<exists>t. diskRename p q s = (None, t) \<and> outcomes t = []"
  using assms by (simp add: diskRename_def thenE_def errOf_def sysRename_def diskSyncNs_def sysSyncNs_def Let_def)

text \<open>A successful write, seen from outside its directory.\<close>

lemma diskWrite_frame:
  assumes "diskWrite p n dat s = (None, t)" "lookupEntry p s = Some i"
  shows "nsV t = nsV s" "rootV t = rootV s" "dirV t i = writtenDir n s i" "freshNode t = freshNode s + 1"
  by (rule diskWrite_ok [OF assms], simp)+

lemma tempName_inj: "tempName a s = tempName b s \<Longrightarrow> a = b"
  by (simp add: tempName_def)

text \<open>Temporary names end in digits, the stored names do not.\<close>

lemma writtenDir_temp:
  assumes "\<forall>m f. mget (dirV s i) m = Some f \<longrightarrow> m \<in> {addStateName, bodyName, metaName}" "n \<in> {addStateName, bodyName, metaName}"
  shows "\<forall>m f. mget (writtenDir n s i) m = Some f \<longrightarrow> m \<in> {addStateName, bodyName, metaName}"
  using assms by (auto simp: mget_writtenDir split: if_splits)

lemma addStage_pass:
  assumes "outcomes s = []" "lookupEntry (dirTmp, i) s = Some node" "dirV s node = []"
    "lookupEntry (dirReady, i) s = None" "rootV s dirReady"
  shows "\<exists>t. addStage i dat meta s = (None, t) \<and> outcomes t = []"
proof -
  let ?p = "(dirTmp, i)"
  let ?only = "\<lambda>s. \<forall>m f. mget (dirV s node) m = Some f \<longrightarrow> m \<in> {addStateName, bodyName, metaName}"
  have step: "\<exists>t. diskWrite ?p n d s = (None, t) \<and> outcomes t = [] \<and> lookupEntry ?p t = Some node \<and> ?only t \<and>
      lookupEntry (dirReady, i) t = None \<and> rootV t = rootV s"
    if a: "outcomes s = []" "lookupEntry ?p s = Some node" "?only s" "lookupEntry (dirReady, i) s = None"
      "n \<in> {addStateName, bodyName, metaName}" for n d s
  proof -
    have "mget (dirV s node) (tempName n s) = None"
    proof (cases "mget (dirV s node) (tempName n s)")
      case (Some f)
      then have "tempName n s \<in> {addStateName, bodyName, metaName}" using a(3) by blast
      then show ?thesis using tempName_other [of n s] by auto
    qed
    then obtain t where t: "diskWrite ?p n d s = (None, t)" "outcomes t = []" using diskWrite_pass a(1,2) by blast
    note fr = diskWrite_frame [OF t(1) a(2)]
    then show ?thesis using t a writtenDir_temp [OF a(3,5)] by (auto simp: lookupEntry_def)
  qed
  have o0: "?only s" using assms(3) by simp
  obtain s1 where s1: "diskWrite ?p addStateName addPending s = (None, s1)" "outcomes s1 = []" "lookupEntry ?p s1 = Some node"
      "?only s1" "lookupEntry (dirReady, i) s1 = None" "rootV s1 = rootV s"
    using step [OF assms(1,2) o0 assms(4), of addStateName addPending] by auto
  obtain s2 where s2: "diskWrite ?p bodyName dat s1 = (None, s2)" "outcomes s2 = []" "lookupEntry ?p s2 = Some node"
      "?only s2" "lookupEntry (dirReady, i) s2 = None" "rootV s2 = rootV s"
    using step [OF s1(2-5), of bodyName dat] s1(6) by auto
  obtain s3 where s3: "diskWrite ?p metaName meta s2 = (None, s3)" "outcomes s3 = []" "lookupEntry ?p s3 = Some node"
      "lookupEntry (dirReady, i) s3 = None" "rootV s3 = rootV s"
    using step [OF s2(2-5), of metaName meta] s2(6) by auto
  let ?s4 = "s3\<lparr>dirD := (dirD s3)(node := [dirV s3 node])\<rparr>"
  have s4: "diskSyncEntry ?p s3 = (None, ?s4)" using s3 by (simp add: diskSyncEntry_def sysSyncEntry_def errOf_def)
  obtain t where t: "diskRename ?p (dirReady, i) ?s4 = (None, t)" "outcomes t = []"
    using diskRename_pass [of ?s4 ?p node "(dirReady, i)"] s3 assms(5) by auto
  show ?thesis using assms(1) s1 s2 s3 s4 t by (simp add: addStage_def thenE_def)
qed


lemma stagedAt_open:
  assumes "stagedAt i st dat meta node t"
  obtains f where "lookupFile (dirReady, i) addStateName t = Some f" "fileV t f = st"
  using assms by (auto simp: stagedAt_def lookupFile_def lookupEntry_def)

lemma acceptAdd_pass:
  assumes "outcomes s = []" "lookupFile (dirReady, i) addStateName s = Some f"
  shows "\<exists>t. acceptAdd (dirReady, i) s = (None, t) \<and> outcomes t = []"
  using assms by (simp add: acceptAdd_def withValue_def sysOpen_def writeAddState_def sysWriteAt_def SyncFile_def errOf_def sysSyncFile_def)

lemma addMkTmp_pass:
  assumes "outcomes s = []" "lookupEntry (dirTmp, i) s = None"
  shows "\<exists>t node. addMkTmp i s = (None, t) \<and> outcomes t = [] \<and> lookupEntry (dirTmp, i) t = Some node \<and> dirV t node = [] \<and>
    lookupEntry (dirReady, i) t = lookupEntry (dirReady, i) s \<and> rootV t = rootV s"
  using assms
  by (simp add: addMkTmp_def RemoveAll_def sysStat_def notExist_def diskMkdir_def errOf_def sysMkdir_def Let_def)
    (simp add: lookupEntry_def setNs_def mget_mput)

lemma addReserved_pass:
  assumes "outcomes s = []" "rootV s dirReady" "lookupEntry (dirTmp, ID e) s = None" "lookupEntry (dirReady, ID e) s = None"
  shows "\<exists>t. addReserved e dat meta ph now q s = (None, publishAdd e (int (length meta)) ph q, t) \<and> outcomes t = []"
proof -
  obtain t1 node where t1: "addMkTmp (ID e) s = (None, t1)" "outcomes t1 = []" "lookupEntry (dirTmp, ID e) t1 = Some node"
      "dirV t1 node = []" "lookupEntry (dirReady, ID e) t1 = None" "rootV t1 dirReady"
    using addMkTmp_pass [OF assms(1,3)] assms(2,4) by auto
  obtain t2 where t2: "addStage (ID e) dat meta t1 = (None, t2)" "outcomes t2 = []"
    using addStage_pass [OF t1(2-6)] by blast
  obtain f where "lookupFile (dirReady, ID e) addStateName t2 = Some f"
    using addStage_ok [OF t2(1) t1(3)] stagedAt_open by metis
  then obtain t where "acceptAdd (dirReady, ID e) t2 = (None, t)" "outcomes t = []" using acceptAdd_pass t2(2) by blast
  then show ?thesis using assms(1) t1(1) t2 by (simp add: addReserved_def)
qed

lemma addOwned_pass:
  assumes "outcomes s = []" "rootV s dirReady" "\<forall>d \<in> {dirTmp, dirReady, dirDead, dirDSN}. lookupEntry (d, ID e) s = None"
    "ID e \<notin> set (blocked q)" "mget (accounted q) (ID e) = None"
    "validateEnvelope (toASCII x) (hexdigest x) (e\<lparr>Size := int (length dat), BodyDigest := bodyDigest x dat\<rparr>) = (None, e')"
    "verifyBodyData x e' dat = None" "marshalEnvelope x e' = Inr meta"
    "reserveLocked (freeSpace inp) (Size e') (estimateEntryAllocation (Size e') (int (length meta))) False False (Username e') q = (None, q1)"
  shows "\<exists>q' t. addOwned x inp e dat q s = (None, e', q', t) \<and> outcomes t = []"
proof -
  have "addClear (ID e) (clearTime inp) s = (None, s)"
    using assms(1,3) by (simp add: addClear_def addElsewhere_def sysStat_def notExist_def)
  moreover have "ID e' = ID e" using assms(6) by (auto elim: validateEnvelope_ok)
  then obtain t where "addReserved e' dat meta (estimateEntryAllocation (Size e') (int (length meta))) (abortTime inp) q1 s =
      (None, publishAdd e' (int (length meta)) (estimateEntryAllocation (Size e') (int (length meta))) q1, t)" "outcomes t = []"
    using addReserved_pass [of s e'] assms(1-3) by fastforce
  ultimately show ?thesis using assms by (simp add: addOwned_def Let_def)
qed

lemma reserveLocked_other:
  assumes "reserveLocked fd sz ph ex em w q = (None, q1)"
  shows "\<exists>q2. reserveLocked fd sz ph ex em w (q\<lparr>active := a, transitioning := ts\<rparr>) = (None, q2)"
proof -
  let ?q = "q\<lparr>active := a, transitioning := ts\<rparr>"
  have u: "usageOf ?q w = usageOf q w" by (simp add: usageOf_def)
  have quota: "quotaExceeded ?q u b sz w = quotaExceeded q u b sz w" for u b
    unfolding quotaExceeded_def u by simp
  have ph: "fst (reservePhysicalLocked fd ph em False ?q) = fst (reservePhysicalLocked fd ph em False q)"
    by (auto simp: reservePhysicalLocked_def Let_def split: option.splits)
  have "fst (reserveLocked fd sz ph ex em w ?q) = fst (reserveLocked fd sz ph ex em w q)"
    using ph by (auto simp: reserveLocked_def quota split: option.splits prod.splits)
  then show ?thesis using assms by (metis fst_conv prod.collapse)
qed

lemma AddContext_pass:
  assumes calls: "outcomes s = []" "rootV s dirReady" "\<forall>d \<in> {dirTmp, dirReady, dirDead, dirDSN}. lookupEntry (d, ID e) s = None"
    and queue: "\<not> closing q" "\<not> readOnly q" "\<not> nearSpoolLimit q" "ID e \<notin> set (transitioning q)" "ID e \<notin> set (blocked q)"
      "mget (accounted q) (ID e) = None"
    and input: "addPrecheck e = None" "freshIncarnation inp = Inr inc"
      "validateEnvelope (toASCII x) (hexdigest x)
        (e\<lparr>Incarnation := inc, Revision := 1, Size := int (length dat), BodyDigest := bodyDigest x dat\<rparr>) = (None, e')"
      "verifyBodyData x e' dat = None" "marshalEnvelope x e' = Inr meta"
      "reserveLocked (freeSpace inp) (Size e') (estimateEntryAllocation (Size e') (int (length meta))) False False (Username e') q = (None, q1)"
  shows "\<exists>q' s'. AddContext x inp (Some e) dat q s = (None, Some e', q', s')"
proof -
  let ?q = "q\<lparr>active := active q + 1, transitioning := List.insert (ID e) (transitioning q)\<rparr>"
  have near: "nearSpoolLimit ?q = nearSpoolLimit q" by (simp add: nearSpoolLimit_def Let_def)
  have m: "startMutation (startTime inp) (spoolUsage inp) ?q = (None, ?q)"
    unfolding startMutation_def near using queue(3) by simp
  obtain q2 where "reserveLocked (freeSpace inp) (Size e') (estimateEntryAllocation (Size e') (int (length meta))) False False (Username e') ?q = (None, q2)"
    using reserveLocked_other [OF input(6)] by blast
  then obtain q' t where "addOwned x inp (e\<lparr>Incarnation := inc, Revision := 1\<rparr>) dat ?q s = (None, e', q', t)"
    using addOwned_pass [of s "e\<lparr>Incarnation := inc, Revision := 1\<rparr>" ?q x dat e' meta inp q2] calls queue input by auto
  then show ?thesis
    using calls(1) queue input(1,2) m
    by (simp add: AddContext_def beginOperation_def rejectReadOnly_def beginTransitions_def Let_def)
qed


subsection \<open>A sample run\<close>

definition sampleStored :: Envelope where
  "sampleStored = storedForm (snd (validateEnvelope sampleIDNA sampleHash sampleSubmission))"

definition sampleExt :: ext where
  "sampleExt =
     \<lparr>toASCII = sampleIDNA, hexdigest = sampleHash,
      marshalJSON = (\<lambda>e. if storedForm e = sampleStored then Some ''m''
                          else if storedForm e = sampleStored\<lparr>Revision := 2\<rparr> then Some ''n'' else None),
      unmarshalJSON = (\<lambda>m. if m = ''m'' then Some sampleStored
                            else if m = ''n'' then Some (sampleStored\<lparr>Revision := 2\<rparr>) else None)\<rparr>"

definition sampleInput :: addInput where
  "sampleInput =
     \<lparr>freshIncarnation = Inr (replicate 32 (CHR ''0'')), startTime = 0, clearTime = 0, abortTime = 0, spoolUsage = Inr 0, freeSpace = None\<rparr>"

lemma sampleExt_ok: "idnaOK (toASCII sampleExt)" "jsonOK sampleExt"
  by (simp_all add: sampleExt_def sampleIDNA_ok jsonOK_def split: if_splits)

lemma sampleExt_fields [simp]: "toASCII sampleExt = sampleIDNA" "hexdigest sampleExt = sampleHash"
  by (simp_all add: sampleExt_def)

abbreviation sampleAccepted :: Envelope where
  "sampleAccepted \<equiv> snd (validateEnvelope sampleIDNA sampleHash sampleSubmission)"

lemma sampleAccepted_fields [simp]: "Size sampleAccepted = 5" "Username sampleAccepted = ''alice''"
    "ID sampleAccepted = ''m1''" "Bodies sampleAccepted = Bodies sampleSubmission"
  by (simp_all add: sampleSubmission_valid) (simp_all add: sampleSubmission_def)

lemma sampleAccepted_text: "envelopeText sampleAccepted"
  by code_simp

lemma sampleBodies_ok: "verifyBodyData sampleExt sampleAccepted ''abcde'' = None"
  by (simp add: verifyBodyData_def) (simp add: sampleSubmission_def goSlice_def bodyDigest_def sampleDigest_def sampleHash_def)

lemma sample_estimate: "estimateEntryAllocation 5 1 = 327680"
  by code_simp

lemma sample_reserve:
  "fst (reserveLocked None 5 327680 False False ''alice'' (newQueue sampleLimits)) = None"
  by code_simp

lemma sample_submitted:
  "sampleSubmission\<lparr>Incarnation := replicate 32 (CHR ''0''), Revision := 1, Size := int (length ''abcde''),
     BodyDigest := bodyDigest sampleExt ''abcde''\<rparr> = sampleSubmission"
  by (simp add: sampleSubmission_def bodyDigest_def sampleDigest_def sampleHash_def)

text \<open>The premises of acceptance hold for the sample message.\<close>

lemma sample_spool: "outcomes (emptyFS []) = []" "rootV (emptyFS []) dirReady"
    "\<forall>d \<in> {dirTmp, dirReady, dirDead, dirDSN}. lookupEntry (d, ID sampleSubmission) (emptyFS []) = None"
  by (simp_all add: emptyFS_def lookupEntry_def)

lemma sample_queue: "\<not> closing (newQueue sampleLimits)" "\<not> readOnly (newQueue sampleLimits)" "\<not> nearSpoolLimit (newQueue sampleLimits)"
    "ID sampleSubmission \<notin> set (transitioning (newQueue sampleLimits))" "ID sampleSubmission \<notin> set (blocked (newQueue sampleLimits))"
    "mget (accounted (newQueue sampleLimits)) (ID sampleSubmission) = None"
  by (simp_all add: newQueue_def nearSpoolLimit_def sampleLimits_def int64_defs checkedAddInt64_def)

lemma sample_input: "addPrecheck sampleSubmission = None" "freshIncarnation sampleInput = Inr (replicate 32 (CHR ''0''))"
    "validateEnvelope (toASCII sampleExt) (hexdigest sampleExt)
      (sampleSubmission\<lparr>Incarnation := replicate 32 (CHR ''0''), Revision := 1, Size := int (length ''abcde''),
         BodyDigest := bodyDigest sampleExt ''abcde''\<rparr>) = (None, sampleAccepted)"
    "verifyBodyData sampleExt sampleAccepted ''abcde'' = None" "marshalEnvelope sampleExt sampleAccepted = Inr ''m''"
proof -
  show "addPrecheck sampleSubmission = None" by code_simp
  show "validateEnvelope (toASCII sampleExt) (hexdigest sampleExt)
      (sampleSubmission\<lparr>Incarnation := replicate 32 (CHR ''0''), Revision := 1, Size := int (length ''abcde''),
         BodyDigest := bodyDigest sampleExt ''abcde''\<rparr>) = (None, sampleAccepted)"
    unfolding sample_submitted by (simp add: sampleSubmission_valid)
  show "marshalEnvelope sampleExt sampleAccepted = Inr ''m''"
    by (simp add: marshalEnvelope_def sampleExt_def sampleStored_def maxEnvelopeMetadata_def)
qed (simp_all add: sampleInput_def sampleBodies_ok)

lemma sample_premises:
  obtains q1 where "reserveLocked (freeSpace sampleInput) (Size sampleAccepted)
      (estimateEntryAllocation (Size sampleAccepted) (int (length ''m''))) False False (Username sampleAccepted) (newQueue sampleLimits) = (None, q1)"
  using sample_reserve by (simp add: sample_estimate sampleInput_def) (metis prod.collapse)

lemma sample_added:
  obtains q' s' where "AddContext sampleExt sampleInput (Some sampleSubmission) ''abcde'' (newQueue sampleLimits) (emptyFS []) =
    (None, Some sampleAccepted, q', s')"
  using AddContext_pass [OF sample_spool sample_queue sample_input] sample_premises by metis

lemma emptyFS_unaccepted: "\<not> acceptedAfterCrash (emptyFS ocs) i"
  by (auto simp: acceptedAfterCrash_def crash_def emptyFS_def fileAfter_def lookupFile_def lookupEntry_def)

lemma sample_wf:
  assumes "AddContext sampleExt sampleInput (Some sampleSubmission) ''abcde'' (newQueue sampleLimits) (emptyFS []) = (None, oe, q', s')"
  shows "fs_wf s'"
  using assms
proof (rule AddContext_ok)
  fix e0 inc e q3 q4 s1
  assume a: "ctxErr (emptyFS []) = (None, s1)"
    "addOwned sampleExt sampleInput (e0\<lparr>Incarnation := inc, Revision := 1\<rparr>) ''abcde'' q3 s1 = (None, e, q4, s')"
  have "s1 = emptyFS []" using a(1) sample_spool(1) by simp
  then have "safe (ID e0) s1" using safe_iff fs_wf_empty emptyFS_unaccepted by blast
  then show ?thesis using addOwned_wf [OF a(2)] by simp
qed

lemma sampleLimits_reach: "cap_reach sampleLimits [] [] (newQueue sampleLimits)"
  by (rule cap_reach_start [OF sampleLimits_opened])

subsection \<open>Properties\<close>

text \<open>C1: an accepted message is durable. When \<open>AddContext\<close> returns without an error, then whatever
  state a crash leaves the spool in, the entry is found under \<open>ready/\<close>, is marked accepted, its
  body is the submitted data and passes every digest check, and its metadata decodes to the
  envelope that was accepted.\<close>

theorem add_durable:
  assumes "idnaOK (toASCII x)" "jsonOK x" "AddContext x inp envelope dat q s = (None, Some e, q', s')"
    "envelopeText e" "int (length dat) < max_int64" "crash s' c"
  shows "loadAcceptedDir x (dirReady, ID e) (ID e) (c\<lparr>outcomes := []\<rparr>) = (Inr (storedForm e), c\<lparr>outcomes := []\<rparr>) \<and>
    fileAfter c (dirReady, ID e) bodyName = Some dat"
  using recovers_added [OF assms] by simp

theorem add_durable_witness:
  "\<exists>e q' s' c. AddContext sampleExt sampleInput (Some sampleSubmission) ''abcde'' (newQueue sampleLimits) (emptyFS []) =
      (None, Some e, q', s') \<and> crash s' c \<and>
    loadAcceptedDir sampleExt (dirReady, ID e) (ID e) (c\<lparr>outcomes := []\<rparr>) = (Inr (storedForm e), c\<lparr>outcomes := []\<rparr>) \<and>
    fileAfter c (dirReady, ID e) bodyName = Some ''abcde''"
proof (rule sample_added)
  fix q' s'
  assume a: "AddContext sampleExt sampleInput (Some sampleSubmission) ''abcde'' (newQueue sampleLimits) (emptyFS []) =
    (None, Some sampleAccepted, q', s')"
  have c: "crash s' s'" using fs_wfD(1-3) [OF sample_wf [OF a]] by (simp add: crash_def)
  have "int (length ''abcde'') < max_int64" by (simp add: max_int64_def)
  from add_durable [OF sampleExt_ok a sampleAccepted_text this c] show ?thesis using a c by blast
qed

text \<open>C2: a reported failure is definite. When \<open>AddContext\<close> returns an error that is not an unknown
  acceptance, then no state a crash may leave holds the entry as accepted, provided none did
  before: the message was not accepted and will not be delivered.\<close>

theorem add_definite_failure:
  assumes "fs_wf s" "\<not> acceptedAfterCrash s (ID e)"
    "AddContext x inp (Some e) dat q s = (Some err, oe, q', s')" "\<not> IsAcceptanceUnknown (Some err)"
  shows "\<not> acceptedAfterCrash s' (ID e)"
proof -
  have "safe (ID e) s" using safe_iff assms(1,2) by blast
  from AddContext_spec [OF assms(3) this _ assms(4)] have "safe (ID e) s'" by simp
  then show ?thesis using safe_iff by (auto simp: safe_def)
qed

theorem add_definite_failure_witness:
  "\<exists>err oe q' s'. AddContext sampleExt sampleInput (Some sampleSubmission) ''abcde'' (newQueue sampleLimits)
      (emptyFS [FailBefore EIO]) = (Some err, oe, q', s') \<and> \<not> IsAcceptanceUnknown (Some err) \<and>
    \<not> acceptedAfterCrash s' (ID sampleSubmission)"
proof -
  have run: "AddContext sampleExt sampleInput (Some sampleSubmission) ''abcde'' (newQueue sampleLimits) (emptyFS [FailBefore EIO]) =
      (Some (Sentinel CtxErr), Some sampleSubmission, newQueue sampleLimits, emptyFS [])"
    by (simp add: AddContext_def ctxErr_def takeOutcome_def emptyFS_def)
  have known: "\<not> IsAcceptanceUnknown (Some (Sentinel CtxErr))" by code_simp
  show ?thesis using add_definite_failure [OF fs_wf_empty emptyFS_unaccepted run known] run known by blast
qed

text \<open>C7: accepting a message keeps the quota exact on every path. Whatever fails, the reservation
  taken is given back, so that the operation ends in a state of the quota that the same other
  reservations explain; on success the message is accounted under its ID.\<close>

theorem add_keeps_quota:
  assumes "cap_reach lim R H q" "AddContext x inp envelope dat q s = (err, oe, q', s')"
    "measuredOK (spoolUsage inp)" "int (length dat) < 2305843009213693952"
  shows "cap_reach lim R H q' \<and>
    (err = None \<longrightarrow> (\<exists>e. oe = Some e \<and> mget (accounted q') (ID e) = Some (accountEntry e)))"
  using AddContext_cap [OF assms(2,1,3,4)] .

theorem add_keeps_quota_witness:
  "\<exists>e q' s'. AddContext sampleExt sampleInput (Some sampleSubmission) ''abcde'' (newQueue sampleLimits) (emptyFS []) =
      (None, Some e, q', s') \<and> cap_reach sampleLimits [] [] q' \<and> mget (accounted q') (ID e) = Some (accountEntry e)"
proof (rule sample_added)
  fix q' s'
  assume a: "AddContext sampleExt sampleInput (Some sampleSubmission) ''abcde'' (newQueue sampleLimits) (emptyFS []) =
    (None, Some sampleAccepted, q', s')"
  have "measuredOK (spoolUsage sampleInput)" by (simp add: measuredOK_def sampleInput_def max_int64_def)
  from add_keeps_quota [OF sampleLimits_reach a this] show ?thesis using a by auto
qed

text \<open>C8: acceptance is live. When every system call passes, the queue is open and writable, the ID is
  new to queue and spool, the envelope validates and the reservation is granted, \<open>AddContext\<close>
  accepts the message: it returns no error and the validated envelope.\<close>

theorem add_succeeds:
  assumes calls: "outcomes s = []" "rootV s dirReady" "\<forall>d \<in> {dirTmp, dirReady, dirDead, dirDSN}. lookupEntry (d, ID e) s = None"
    and queue: "\<not> closing q" "\<not> readOnly q" "\<not> nearSpoolLimit q" "ID e \<notin> set (transitioning q)" "ID e \<notin> set (blocked q)"
      "mget (accounted q) (ID e) = None"
    and input: "addPrecheck e = None" "freshIncarnation inp = Inr inc"
      "validateEnvelope (toASCII x) (hexdigest x)
        (e\<lparr>Incarnation := inc, Revision := 1, Size := int (length dat), BodyDigest := bodyDigest x dat\<rparr>) = (None, e')"
      "verifyBodyData x e' dat = None" "marshalEnvelope x e' = Inr meta"
      "reserveLocked (freeSpace inp) (Size e') (estimateEntryAllocation (Size e') (int (length meta))) False False (Username e') q = (None, q1)"
  shows "\<exists>q' s'. AddContext x inp (Some e) dat q s = (None, Some e', q', s')"
  using AddContext_pass [OF assms] .

theorem add_succeeds_witness:
  "\<exists>q' s'. AddContext sampleExt sampleInput (Some sampleSubmission) ''abcde'' (newQueue sampleLimits) (emptyFS []) =
    (None, Some sampleAccepted, q', s')"
proof (rule sample_premises)
  fix q1
  assume "reserveLocked (freeSpace sampleInput) (Size sampleAccepted)
      (estimateEntryAllocation (Size sampleAccepted) (int (length ''m''))) False False (Username sampleAccepted) (newQueue sampleLimits) = (None, q1)"
  from add_succeeds [OF sample_spool sample_queue sample_input this] show ?thesis .
qed

end
