(* ===== verification/Delivery_Durable.thy ===== *)
theory Delivery_Durable
  imports Survival Add_Live
begin

text \<open>
  What becomes of an accepted message on disk when its delivery is recorded, over every sequence
  of outcomes of the system calls. A crash in the middle of an operation is the case that every
  call from some point on fails without effect.
\<close>

subsection \<open>Renaming an entry\<close>

lemma rename_effect:
  assumes "sysRename p q s = (r, t)"
  shows "(\<exists>ocs. t = s\<lparr>outcomes := ocs\<rparr>) \<or> lookupEntry p t = None \<or> fst p = fst q"
proof -
  obtain ocs where "snd (takeOutcome s) = s\<lparr>outcomes := ocs\<rparr>" using takeOutcome_eq by blast
  then show ?thesis using assms
    by (cases "takeOutcome s")
      (auto simp: sysRename_def syscall_def Let_def lookupEntry_def mget_mdel split: outcome.splits option.splits if_splits)
qed

lemma rename_kept:
  assumes "held d i dat ms s" "diskRename (d, i) q s = (r, t)" "fst q \<noteq> d" "lookupEntry (d, i) t \<noteq> None"
  shows "held d i dat ms t" "settled d i s \<Longrightarrow> settled d i t"
proof -
  obtain r1 s1 where s1: "sysRename (d, i) q s = (r1, s1)" by fastforce
  have ns: "nsV (snd (diskSyncNs k s)) = nsV s" for k s
    using takeOutcome_eq [of s]
    by (cases "takeOutcome s") (auto simp: diskSyncNs_def errOf_def sysSyncNs_def syscall_def split: outcome.splits)
  have "nsV t = nsV s1"
    using assms(2) s1 ns [of "fst q" s1] ns [of d]
    by (auto simp: diskRename_def thenE_def errOf_def split: sum.splits option.splits if_splits prod.splits) (metis snd_conv)+
  then have "lookupEntry (d, i) s1 \<noteq> None" using assms(4) by (simp add: lookupEntry_def)
  then obtain ocs where o: "s1 = s\<lparr>outcomes := ocs\<rparr>" using rename_effect [OF s1] assms(3) by auto
  then have h1: "held d i dat ms s1" using held_post [OF held.outcome assms(1)] by simp
  have post: "P t" if "P s1" "\<And>k u. P u \<Longrightarrow> P (snd (diskSyncNs k u))" for P
    using assms(2) s1 that(1) that(2) [of s1 "fst q"] that(2) [of "snd (diskSyncNs (fst q) s1)" d]
    by (auto simp: diskRename_def thenE_def errOf_def split: sum.splits option.splits if_splits prod.splits)
  show "held d i dat ms t" by (rule post [of "held d i dat ms", OF h1]) (rule held_post [OF held_diskSyncs(2)])
  show "settled d i t" if st: "settled d i s"
  proof -
    have w: "fs_wf s" using assms(1) by (simp add: held_def)
    have "fs_wf t \<and> settled d i t"
    proof (rule post [of "\<lambda>u. fs_wf u \<and> settled d i u"])
      show "fs_wf s1 \<and> settled d i s1" using st w sameNames_settled [of s s1] by (simp add: o sameNames_def)
      show "fs_wf (snd (diskSyncNs k u)) \<and> settled d i (snd (diskSyncNs k u))" if u: "fs_wf u \<and> settled d i u" for k u
      proof -
        have wk: "fs_wf (snd (diskSyncNs k u))" using wf.diskSyncs(1) [of u k] u by (simp add: keeps_wf_def)
        have "set (nsD (snd (diskSyncNs k u)) d) \<subseteq> set (nsD u d)"
          using takeOutcome_eq [of u] fs_wfD(1) [of u k] u
          by (cases "takeOutcome u") (auto simp: diskSyncNs_def errOf_def sysSyncNs_def syscall_def split: outcome.splits if_splits)
        then show ?thesis using u wk ns [of k u] settled_iff by (auto simp: lookupEntry_def)
      qed
    qed
    then show ?thesis by simp
  qed
qed

lemma rename_missing:
  assumes "diskRename p q s = (Some e, t)" "errors_Is e OsErrNotExist"
  shows "lookupEntry p s = None \<or> \<not> rootV s (fst q)"
proof -
  have sy: "\<not> errors_Is e' OsErrNotExist" if "diskSyncNs k u = (Some e', v)" for k u e' v
    using that by (cases "takeOutcome u") (auto simp: diskSyncNs_def errOf_def sysSyncNs_def syscall_def split: outcome.splits)
  obtain r1 s1 where s1: "sysRename p q s = (r1, s1)" by fastforce
  have "r1 = Inl e" using assms s1 sy
    by (auto simp: diskRename_def thenE_def errOf_def split: sum.splits option.splits if_splits prod.splits)
  then show ?thesis using s1 assms(2) unfolding sysRename_def
    by (auto elim!: syscall_missing simp: errnoIs_def Let_def split: option.splits if_splits)
qed

text \<open>An entry that moved, with both directories synced.\<close>

lemma rename_moved:
  assumes "held d i dat ms s" "diskRename (d, i) (k, n) s = (None, t)" "k \<noteq> d"
  shows "held k n dat ms t" "settled k n t" "\<forall>c. crash t c \<longrightarrow> lookupEntry (d, i) c = None" "lookupEntry (d, i) t = None"
proof -
  obtain j where j: "lookupEntry (d, i) s = Some j" "entryHeld j dat ms s" using held_visible [OF assms(1)] by blast
  have wf: "fs_wf s" using assms(1) by (simp add: held_def)
  obtain ocs where t: "t = s\<lparr>outcomes := ocs, nsV := (nsV s)(d := mdel i (nsV s d), k := mput n j (nsV s k)),
           nsD := (nsD s)(d := [mdel i (nsV s d)], k := [mput n j (nsV s k)])\<rparr>"
    using diskRename_ok [OF assms(2) assms(3) [symmetric] j(1)] by blast
  have "mget (nsV s d) i = Some j" using j(1) by (simp add: lookupEntry_def)
  then have w: "fs_wf t" using wf fs_wf_visible(1) [OF wf] assms(3)
    unfolding t fs_wf_def fs_ok_def by (auto simp: mget_mput mget_mdel split: if_splits)
  have "entryHeld j dat ms t" by (rule entryHeld_cong [OF _ _ j(2)]) (simp_all add: t)
  then show "held k n dat ms t" using w by (simp add: held_def t mget_mput)
  show "settled k n t" using settled_iff [OF w] by (simp add: t lookupEntry_def mget_mput)
  show "\<forall>c. crash t c \<longrightarrow> lookupEntry (d, i) c = None" using assms(3) by (simp add: t crash_def lookupEntry_def mget_mdel)
  show "lookupEntry (d, i) t = None" using assms(3) by (simp add: t lookupEntry_def mget_mdel)
qed

lemma moveState_None: "moveState p q s = ((b, None), t) \<longleftrightarrow> b \<and> diskRename p q s = (None, t)"
  by (cases "diskRename p q s") (auto simp: moveState_def Let_def split: option.splits prod.splits)

lemma moveState_kept:
  assumes "held d i dat ms s" "moveState (d, i) q s = (r, t)" "fst q \<noteq> d" "lookupEntry (d, i) t \<noteq> None"
  shows "held d i dat ms t"
proof -
  obtain r1 s1 where s1: "diskRename (d, i) q s = (r1, s1)" by fastforce
  obtain r2 s2 where s2: "sysStat (d, i) s1 = (r2, s2)" by fastforce
  obtain r3 s3 where s3: "sysStat q s2 = (r3, s3)" by fastforce
  have "t = s1 \<or> t = s3" using assms(2) s1 s2 s3 by (auto simp: moveState_def Let_def split: option.splits if_splits)
  moreover have n: "sameNames s1 s3" using names.looks(1) [of s1 "(d, i)"] names.looks(1) [of s2 q] s2 s3 names.trans by fastforce
  ultimately have "lookupEntry (d, i) s1 \<noteq> None" using assms(4) by (auto simp: sameNames_def lookupEntry_def)
  then have h1: "held d i dat ms s1" using rename_kept(1) [OF assms(1) s1 assms(3)] by simp
  have "held d i dat ms s2" using held_post [OF held.looks(1) h1, of "(d, i)"] s2 by simp
  then have "held d i dat ms s3" using held_post [OF held.looks(1), of d i dat ms s2 q] s3 by simp
  then show ?thesis using h1 \<open>t = s1 \<or> t = s3\<close> by auto
qed


subsection \<open>Retry\<close>

lemma nextMeta_cong: "ID u = ID e \<Longrightarrow> Incarnation u = Incarnation e \<Longrightarrow> Revision u = Revision e \<Longrightarrow> nextMeta x u = nextMeta x e"
  by (simp add: nextMeta_def)

lemma retryOwned_held:
  assumes "held dirReady (ID e) dat ms s" "retryOwned x inp resched e q s = (owned, err, e', q', t)"
  shows "held dirReady (ID e) dat (ms \<union> nextMeta x e) t" "sameNames s t"
    "err = None \<Longrightarrow> settled dirReady (ID e) s \<Longrightarrow> \<exists>m. marshalEnvelope x e' = Inr m \<and> Revision e' = Revision e + 1 \<and>
       held dirReady (ID e) dat {m} t"
proof -
  obtain verr e1 where v: "validateEnvelope (toASCII x) (hexdigest x) e = (verr, e1)" by fastforce
  have "held dirReady (ID e) dat ms (snd (loadAcceptedDir x (dirReady, ID e) (ID e) s))"
    by (rule held_post [OF held.loadedAccepted assms(1)])
  then have read: "held dirReady (ID e) dat (ms \<union> nextMeta x e) t \<and> sameNames s t"
    if "t = s \<or> t = snd (loadAcceptedDir x (dirReady, ID e) (ID e) s)"
    using that held_mono [OF _ Un_upper1] assms(1) names.loadedAccepted [of s x] names.refl [of s] by auto
  show "held dirReady (ID e) dat (ms \<union> nextMeta x e) t" "sameNames s t"
    "err = None \<Longrightarrow> settled dirReady (ID e) s \<Longrightarrow> \<exists>m. marshalEnvelope x e' = Inr m \<and> Revision e' = Revision e + 1 \<and>
       held dirReady (ID e) dat {m} t"
  proof (atomize (full), cases "\<exists>q1 c e2 q2 er. verr = None \<and> storeReady x e1 q1 s = (c, er, e2, q2, t) \<and> e' = e2 \<and> err = er")
    case True
    then obtain q1 c e2 q2 where t: "verr = None" "storeReadyUpdate x e1 False q1 s = (c, err, e2, q2, t)" "e' = e2"
      by (auto simp: storeReady_def)
    have i: "ID e1 = ID e" "Incarnation e1 = Incarnation e" "Revision e1 = Revision e"
      using validateEnvelope_ids v t(1) by blast+
    show "held dirReady (ID e) dat (ms \<union> nextMeta x e) t \<and> sameNames s t \<and>
        (err = None \<longrightarrow> settled dirReady (ID e) s \<longrightarrow> (\<exists>m. marshalEnvelope x e' = Inr m \<and> Revision e' = Revision e + 1 \<and>
          held dirReady (ID e) dat {m} t))"
      using storeReadyUpdate_held [OF _ t(2), of dat ms] assms(1) i nextMeta_cong [OF i, of x] t(3) by simp
  next
    case False
    then have "err \<noteq> None \<and> (t = s \<or> t = snd (loadAcceptedDir x (dirReady, ID e) (ID e) s))"
      using assms(2) v unfolding retryOwned_def
      by (auto simp: Let_def split: prod.splits option.splits sum.splits if_splits)
    then show "held dirReady (ID e) dat (ms \<union> nextMeta x e) t \<and> sameNames s t \<and>
        (err = None \<longrightarrow> settled dirReady (ID e) s \<longrightarrow> (\<exists>m. marshalEnvelope x e' = Inr m \<and> Revision e' = Revision e + 1 \<and>
          held dirReady (ID e) dat {m} t))"
      using read by blast
  qed
qed

lemma retry_held:
  assumes "held dirReady (ID e) dat ms s" "settled dirReady (ID e) s" "retry x inp resched (Some e) q s = (err, oe, q', t)"
  shows "held dirReady (ID e) dat (ms \<union> nextMeta x e) t \<and> settled dirReady (ID e) t \<and>
    (err = None \<longrightarrow> (\<exists>e' m. oe = Some e' \<and> marshalEnvelope x e' = Inr m \<and> Revision e' = Revision e + 1 \<and>
       held dirReady (ID e) dat {m} t))"
proof (cases "enterOp inp (ID e) q")
  case (Inl r)
  then show ?thesis using assms held_mono by (cases r) (auto simp: retry_def)
next
  case (Inr q1)
  obtain owned err1 e1 q2 t1 where r: "retryOwned x inp resched e q1 s = (owned, err1, e1, q2, t1)" by (metis prod.collapse)
  then have t: "err = err1" "oe = Some e1" "t = t1" using assms(3) Inr by (auto simp: retry_def)
  note h = retryOwned_held [OF assms(1) r]
  have "settled dirReady (ID e) t"
    using sameNames_settled [OF h(2)] assms(1,2) h(1) t(3) by (simp add: held_def)
  then show ?thesis using h assms(2) t by blast
qed


subsection \<open>Finish\<close>

lemma mkdirNs_ok: "diskMkdirNs d s = (None, t) \<Longrightarrow> rootV t d"
  unfolding diskMkdirNs_def by (auto simp: errOf_None elim!: syscall_Inr)

lemma mkdirNs_rel: "holds_on d i dat ms s (snd (diskMkdirNs dirTrash s))" "sameNames s (snd (diskMkdirNs dirTrash s))"
  unfolding diskMkdirNs_def held.errOfR names.errOfR
  by (auto intro!: held.sys names.sys held.root names.root)

text \<open>What no state of \<open>ready/\<close> names stays so while the trash is removed.\<close>

definition unnamed :: "string \<Rightarrow> fsys \<Rightarrow> bool" where
  "unnamed i s \<longleftrightarrow> fs_wf s \<and> (\<forall>m \<in> set (nsD s dirReady). mget m i = None)"

lemma unnamed_calm: "unnamed i s \<Longrightarrow> calm i s t \<Longrightarrow> unnamed i t"
  unfolding unnamed_def calm_def by (metis not_None_eq)

lemma unnamed_gone: "unnamed i s \<Longrightarrow> (\<forall>c. crash s c \<longrightarrow> lookupEntry (dirReady, i) c = None) \<and> lookupEntry (dirReady, i) s = None"
  using fs_wfD(1) by (auto simp: unnamed_def crash_def lookupEntry_def)

lemma removeTrash_calm: "calm i s (snd (removeTrash p s))"
  unfolding removeTrash_def Let_def
  by (rule calm.afterR [OF calm.removeAll], rule calm.afterR [OF calm.diskSyncs(1)]) (simp add: calm.refl)

lemma moved_unnamed:
  assumes "held dirReady i dat ms s" "diskRename (dirReady, i) (k, n) s = (None, t)" "k \<noteq> dirReady"
  shows "unnamed i t"
proof -
  have "fs_wf t" using rename_moved(1) [OF assms] by (simp add: held_def)
  obtain j where j: "lookupEntry (dirReady, i) s = Some j" using held_visible [OF assms(1)] by blast
  have "nsD t dirReady = [mdel i (nsV s dirReady)]"
    by (rule diskRename_ok [OF assms(2) assms(3) [symmetric] j]) (use assms(3) in auto)
  then show ?thesis using \<open>fs_wf t\<close> by (simp add: unnamed_def mget_mdel)
qed

lemma noteRemoved_gone: "mget (accounted (noteRemoved i q)) i = None"
  by (simp add: noteRemoved_def setUsage_def Let_def mget_mdel split: option.split)

lemma removePhysical_accounted [simp]: "accounted (removePhysical n q) = accounted q"
  by (simp add: removePhysical_def lowerSpoolBytes_def)

lemma finishMove_held:
  assumes "held dirReady i dat ms s" "finishMove inp (dirReady, i) (dirTrash, n) i q s = (err, q', t)"
  shows "err = None \<Longrightarrow> unnamed i t \<and> mget (accounted q') i = None" "lookupEntry (dirReady, i) t \<noteq> None \<Longrightarrow> held dirReady i dat ms t"
proof -
  let ?p = "(dirReady, i)" and ?d = "(dirTrash, n)"
  obtain r1 s1 where s1: "AllocatedBytes ?p s = (r1, s1)" by fastforce
  obtain r2 s2 where s2: "diskMkdirNs dirTrash s1 = (r2, s2)" by fastforce
  obtain moved r3 s3 where s3: "moveState ?p ?d s2 = ((moved, r3), s3)" by (metis prod.collapse)
  have h1: "held dirReady i dat ms s1" using held_post [OF held.allocated assms(1), of ?p] s1 by simp
  have h2: "held dirReady i dat ms s2" using held_post [OF mkdirNs_rel(1) h1] s2 by simp
  obtain j where j: "lookupEntry ?p s2 = Some j" using held_visible [OF h2] by blast
  have k3: "lookupEntry ?p s3 \<noteq> None \<Longrightarrow> held dirReady i dat ms s3" by (rule moveState_kept [OF h2 s3]) simp_all
  have un: "unnamed i s3" if "r3 = None" using moved_unnamed [OF h2] s3 that by (auto simp: moveState_None)
  obtain r4 s4 where s4: "removeTrash ?d s3 = (r4, s4)" by fastforce
  have un4: "unnamed i s4" if "r3 = None" using unnamed_calm [OF un [OF that] removeTrash_calm [of i s3 ?d]] s4 by simp
  have miss: "moved \<or> \<not> errors_Is er OsErrNotExist" if er: "r3 = Some er" and ok: "r2 = None" for er
  proof (rule ccontr)
    assume "\<not> (moved \<or> \<not> errors_Is er OsErrNotExist)"
    then have nx: "errors_Is er OsErrNotExist" by simp
    obtain u where "diskRename ?p ?d s2 = (Some er, u)" using s3 er
      by (auto simp: moveState_def Let_def split: prod.splits option.splits if_splits)
    then show False using rename_missing nx j mkdirNs_ok [OF s2 [unfolded ok]] by fastforce
  qed
  show "unnamed i t \<and> mget (accounted q') i = None" if "err = None"
    using assms(2) that s1 s2 s3 s4 miss un4 noteRemoved_gone
    by (auto simp: finishMove_def Let_def split: option.splits if_splits)
  show "held dirReady i dat ms t" if "lookupEntry ?p t \<noteq> None"
    using assms(2) that s1 s2 s3 s4 h2 k3 un4 unnamed_gone
    by (auto simp: finishMove_def Let_def split: option.splits if_splits)
qed

lemma finishOwned_held:
  assumes "held dirReady (ID e) dat ms s" "finishOwned x inp e q s = (err, q', t)"
  shows "err = None \<Longrightarrow> unnamed (ID e) t \<and> mget (accounted q') (ID e) = None"
    "lookupEntry (dirReady, ID e) t \<noteq> None \<Longrightarrow> held dirReady (ID e) dat ms t"
proof -
  obtain r1 s1 where s1: "matchReady x e s = (r1, s1)" by fastforce
  have h1: "held dirReady (ID e) dat ms s1" using held_post [OF held.matched assms(1), of x e False] s1 by (simp add: matchReady_def)
  obtain n where n: "trashEntry (ID e) inp = (dirTrash, n)" by (simp add: trashEntry_def)
  have "(err \<noteq> None \<and> t = s1) \<or> finishMove inp (dirReady, ID e) (dirTrash, n) (ID e) q s1 = (err, q', t)"
    using assms(2) s1 n by (auto simp: finishOwned_def Let_def split: option.splits if_splits)
  then show "err = None \<Longrightarrow> unnamed (ID e) t \<and> mget (accounted q') (ID e) = None"
    "lookupEntry (dirReady, ID e) t \<noteq> None \<Longrightarrow> held dirReady (ID e) dat ms t"
    using finishMove_held [OF h1] h1 by blast+
qed

subsection \<open>Bury\<close>

lemma buryMissing_read:
  assumes "buryMissing x e er q s = (owned, err, q', t)"
  shows "holds_on d i dat ms s t" "sameNames s t" "lookupEntry (dirReady, ID e) s \<noteq> None \<Longrightarrow> err \<noteq> None"
proof -
  obtain r1 s1 where s1: "sysStat (dirReady, ID e) s = (r1, s1)" by fastforce
  obtain r2 s2 where s2: "loadAcceptedDir x (dirDead, ID e) (ID e) s1 = (r2, s2)" by fastforce
  have t: "t = s1 \<or> t = s2" using assms s1 s2 by (auto simp: buryMissing_def Let_def split: sum.splits if_splits)
  have "holds_on d i dat ms s s1" "sameNames s s1" using held.looks(1) [of d i dat ms s] names.looks(1) [of s] s1 by (metis snd_conv)+
  moreover have "holds_on d i dat ms s1 s2" "sameNames s1 s2"
    using held.loadedAccepted [of d i dat ms s1] names.loadedAccepted [of s1] s2 by (metis snd_conv)+
  ultimately show "holds_on d i dat ms s t" "sameNames s t" using t held.trans names.trans by blast+
  show "err \<noteq> None" if v: "lookupEntry (dirReady, ID e) s \<noteq> None"
  proof -
    have "\<not> missingR r1" using stat_missing [OF s1] v names.looks(1) [of s "(dirReady, ID e)"] s1
      by (auto simp: sameNames_def lookupEntry_def)
    then show ?thesis using assms s1 by (auto simp: buryMissing_def Let_def split: if_splits)
  qed
qed

lemma buryHeld_held:
  assumes "held dirReady (ID e) dat ms s" "settled dirReady (ID e) s" "buryHeld x e q s = (commit, owned, err, e', q', t)"
  shows "err = None \<Longrightarrow> \<exists>m. marshalEnvelope x e' = Inr m \<and> Revision e' = Revision e + 1 \<and>
      held dirDead (ID e) dat {m} t \<and> settled dirDead (ID e) t \<and> unnamed (ID e) t \<and> mget (accounted q') (ID e) = None"
    "lookupEntry (dirReady, ID e) t \<noteq> None \<Longrightarrow> held dirReady (ID e) dat (ms \<union> nextMeta x e) t"
proof -
  let ?i = "ID e" and ?p = "(dirReady, ID e)"
  obtain r1 s1 where s1: "matchReady x e s = (r1, s1)" by fastforce
  have h1: "held dirReady ?i dat ms s1" using held_post [OF held.matched assms(1), of x e False] s1 by (simp add: matchReady_def)
  have n1: "sameNames s s1" using names.matched [of s x e False] s1 by (simp add: matchReady_def)
  have v1: "lookupEntry ?p s1 \<noteq> None" using held_visible [OF h1] by blast
  obtain r2 s2 where s2: "sysStat (dirDead, ?i) s1 = (r2, s2)" by fastforce
  have h2: "held dirReady ?i dat ms s2" using held_post [OF held.looks(1) h1, of "(dirDead, ?i)"] s2 by simp
  have "sameNames s s2" using names.trans [OF n1 names.looks(1)] s2 by (metis snd_conv)
  then have st2: "settled dirReady ?i s2" using sameNames_settled [of s s2] assms(1,2) h2 by (simp add: held_def)
  obtain c r3 e3 q3 s3 where s3: "storeReady x e q s2 = (c, r3, e3, q3, s3)" by (metis prod.collapse)
  note h3 = storeReadyUpdate_held [OF h2 s3 [unfolded storeReady_def]]
  obtain moved r4 s4 where s4: "moveState ?p (dirDead, ?i) s3 = ((moved, r4), s4)" by (metis prod.collapse)
  have k4: "lookupEntry ?p s4 \<noteq> None \<Longrightarrow> held dirReady ?i dat (ms \<union> nextMeta x e) s4"
    by (rule moveState_kept [OF h3(1) s4]) simp_all
  have mono: "held dirReady ?i dat ms u \<Longrightarrow> held dirReady ?i dat (ms \<union> nextMeta x e) u" for u using held_mono by blast
  have nb: "buryMissing x e er q s1 \<noteq> (ow, None, q2, u)" for er ow q2 u using buryMissing_read(3) v1 by blast
  show "\<exists>m. marshalEnvelope x e' = Inr m \<and> Revision e' = Revision e + 1 \<and>
      held dirDead ?i dat {m} t \<and> settled dirDead ?i t \<and> unnamed ?i t \<and> mget (accounted q') ?i = None" if en: "err = None"
  proof -
    have ok: "r1 = None \<and> r3 = None \<and> r4 = None \<and> t = s4 \<and> e' = e3 \<and> q' = noteRemoved ?i q3"
      using assms(3) en s1 s2 s3 s4 nb
      by (auto simp: buryHeld_def Let_def split: option.splits sum.splits if_splits prod.splits)
    obtain m where m: "marshalEnvelope x e3 = Inr m" "Revision e3 = Revision e + 1" "held dirReady ?i dat {m} s3"
      using h3(2) ok st2 by blast
    have ren: "diskRename ?p (dirDead, ?i) s3 = (None, s4)" using s4 ok by (simp add: moveState_None)
    show ?thesis using m ok rename_moved(1,2) [OF m(3) ren] moved_unnamed [OF m(3) ren] noteRemoved_gone by auto
  qed
  show "held dirReady ?i dat (ms \<union> nextMeta x e) t" if v: "lookupEntry ?p t \<noteq> None"
  proof (cases r1)
    case (Some er)
    obtain ow r q1 u where b: "buryMissing x e er q s1 = (ow, r, q1, u)" by (metis prod.collapse)
    then have "t = u" using assms(3) s1 Some by (simp add: buryHeld_def)
    then show ?thesis using mono held_post [OF buryMissing_read(1) [OF b] h1] by blast
  next
    case None
    then have "t = s2 \<or> t = s3 \<or> t = s4" using assms(3) s1 s2 s3 s4
      by (auto simp: buryHeld_def Let_def split: option.splits sum.splits if_splits)
    then show ?thesis using mono h2 h3(1) k4 v by blast
  qed
qed


lemma buryOwned_held:
  assumes "held dirReady (ID e) dat ms s" "settled dirReady (ID e) s" "buryOwned x inp e q s = (owned, err, e', q', t)"
  shows "err = None \<Longrightarrow> \<exists>m. marshalEnvelope x e' = Inr m \<and> Revision e' = Revision e + 1 \<and>
      held dirDead (ID e) dat {m} t \<and> settled dirDead (ID e) t \<and> unnamed (ID e) t \<and> mget (accounted q') (ID e) = None"
    "lookupEntry (dirReady, ID e) t \<noteq> None \<Longrightarrow> held dirReady (ID e) dat (ms \<union> nextMeta x e) t"
proof -
  obtain verr e1 where v: "validateEnvelope (toASCII x) (hexdigest x) e = (verr, e1)" by fastforce
  have rel: "accounted (releaseHold n c q) = accounted q" for n c q
    by (simp add: releaseHold_def commitPhysicalLocked_def addPhysicalLocked_def lowerSpoolReserved_def)
  have "held dirReady (ID e) dat ms (snd (loadAcceptedDir x (dirReady, ID e) (ID e) s))"
    by (rule held_post [OF held.loadedAccepted assms(1)])
  then have read: "held dirReady (ID e) dat (ms \<union> nextMeta x e) t"
    if "t = s \<or> t = snd (loadAcceptedDir x (dirReady, ID e) (ID e) s)"
    using that held_mono [OF _ Un_upper1] assms(1) by auto
  show "err = None \<Longrightarrow> \<exists>m. marshalEnvelope x e' = Inr m \<and> Revision e' = Revision e + 1 \<and>
      held dirDead (ID e) dat {m} t \<and> settled dirDead (ID e) t \<and> unnamed (ID e) t \<and> mget (accounted q') (ID e) = None"
    "lookupEntry (dirReady, ID e) t \<noteq> None \<Longrightarrow> held dirReady (ID e) dat (ms \<union> nextMeta x e) t"
  proof (atomize (full), cases "\<exists>q1 c o' q2. verr = None \<and> buryHeld x e1 q1 s = (c, o', err, e', q2, t) \<and> accounted q' = accounted q2")
    case True
    then obtain q1 c o' q2 where t: "verr = None" "buryHeld x e1 q1 s = (c, o', err, e', q2, t)" "accounted q' = accounted q2" by blast
    have i: "ID e1 = ID e" "Incarnation e1 = Incarnation e" "Revision e1 = Revision e"
      using validateEnvelope_ids v t(1) by blast+
    show "(err = None \<longrightarrow> (\<exists>m. marshalEnvelope x e' = Inr m \<and> Revision e' = Revision e + 1 \<and>
      held dirDead (ID e) dat {m} t \<and> settled dirDead (ID e) t \<and> unnamed (ID e) t \<and> mget (accounted q') (ID e) = None)) \<and>
      (lookupEntry (dirReady, ID e) t \<noteq> None \<longrightarrow> held dirReady (ID e) dat (ms \<union> nextMeta x e) t)"
      using buryHeld_held [OF _ _ t(2), of dat ms] assms(1,2) i nextMeta_cong [OF i, of x] t(3) by simp
  next
    case False
    then have "err \<noteq> None \<and> (t = s \<or> t = snd (loadAcceptedDir x (dirReady, ID e) (ID e) s))"
      using assms(3) v rel unfolding buryOwned_def
      by (auto simp: Let_def split: prod.splits option.splits sum.splits if_splits) blast+
    then show "(err = None \<longrightarrow> (\<exists>m. marshalEnvelope x e' = Inr m \<and> Revision e' = Revision e + 1 \<and>
      held dirDead (ID e) dat {m} t \<and> settled dirDead (ID e) t \<and> unnamed (ID e) t \<and> mget (accounted q') (ID e) = None)) \<and>
      (lookupEntry (dirReady, ID e) t \<noteq> None \<longrightarrow> held dirReady (ID e) dat (ms \<union> nextMeta x e) t)"
      using read by blast
  qed
qed

subsection \<open>A sample message\<close>

text \<open>A staged entry survives every crash, and its name is settled.\<close>

lemma stagedAt_held:
  assumes "stagedAt i addAccepted dat meta node s" "fs_wf s"
  shows "held dirReady i dat {meta} s" "settled dirReady i s"
  using assms settled_iff [OF assms(2), of dirReady i]
  by (auto simp: stagedAt_def held_def entryHeld_def fileHeld_def lookupEntry_def)

definition sampleRun :: "gerror option \<times> Envelope option \<times> Queue \<times> fsys" where
  "sampleRun = AddContext sampleExt sampleInput (Some sampleSubmission) ''abcde'' (newQueue sampleLimits) (emptyFS [])"

definition sampleQueue :: Queue where
  "sampleQueue = fst (snd (snd sampleRun))"

definition sampleSpool :: fsys where
  "sampleSpool = snd (snd (snd sampleRun))"

definition sampleOp :: opInput where
  "sampleOp = \<lparr>opTime = 0, opUsage = Inr 0, opFree = None, opStamp = 0, opPartial = 0\<rparr>"

lemma sampleSpool_ok:
  "fs_wf sampleSpool" "survives dirReady ''m1'' ''abcde'' {''m''} sampleSpool" "settled dirReady ''m1'' sampleSpool"
proof -
  obtain q' s' where a: "AddContext sampleExt sampleInput (Some sampleSubmission) ''abcde'' (newQueue sampleLimits) (emptyFS []) =
      (None, Some sampleAccepted, q', s')" by (rule sample_added)
  then have s: "sampleSpool = s'" by (simp add: sampleSpool_def sampleRun_def)
  show wf: "fs_wf sampleSpool" using sample_wf [OF a] s by simp
  obtain e0 inc q3 q4 s1 where "addOwned sampleExt sampleInput (e0\<lparr>Incarnation := inc, Revision := 1\<rparr>) ''abcde'' q3 s1 =
      (None, sampleAccepted, q4, s')"
    using a by (elim AddContext_ok) auto
  then obtain node meta where st: "stagedAt ''m1'' addAccepted ''abcde'' meta node s'"
    and m: "marshalEnvelope sampleExt sampleAccepted = Inr meta" by (elim addOwned_ok) auto
  have "meta = ''m''" using m sample_input(5) by simp
  then show "survives dirReady ''m1'' ''abcde'' {''m''} sampleSpool" "settled dirReady ''m1'' sampleSpool"
    using stagedAt_held [OF st] held_survives wf s by auto
qed

subsection \<open>Properties\<close>

text \<open>C3: storing a message again is atomic and durable. Whatever the outcome of \<open>retry\<close>, a crash
  leaves the message accepted under \<open>ready/\<close> with its body and either its former metadata or
  that of the next revision, never a mixture; when \<open>retry\<close> returns without an error it is the
  new metadata, the encoding of the envelope handed back.\<close>

theorem retry_durable:
  assumes "fs_wf s" "survives dirReady (ID e) dat ms s" "settled dirReady (ID e) s"
    "retry x inp resched (Some e) q s = (err, oe, q', s')"
  shows "survives dirReady (ID e) dat (ms \<union> nextMeta x e) s' \<and> settled dirReady (ID e) s' \<and>
    (err = None \<longrightarrow> (\<exists>e' m. oe = Some e' \<and> marshalEnvelope x e' = Inr m \<and> Revision e' = Revision e + 1 \<and>
       survives dirReady (ID e) dat {m} s'))"
  using retry_held [OF survives_held [OF assms(2,1)] assms(3,4)] held_survives by blast

theorem retry_durable_witness:
  "\<exists>err oe q' s'. retry sampleExt sampleOp True (Some sampleSubmission) sampleQueue (sampleSpool\<lparr>outcomes := [Pass, FailAfter EIO]\<rparr>) = (err, oe, q', s') \<and>
    survives dirReady ''m1'' ''abcde'' ({''m''} \<union> nextMeta sampleExt sampleSubmission) s'"
proof -
  let ?s = "sampleSpool\<lparr>outcomes := [Pass, FailAfter EIO]\<rparr>"
  obtain err oe q' s' where run: "retry sampleExt sampleOp True (Some sampleSubmission) sampleQueue ?s = (err, oe, q', s')"
    by (metis prod.collapse)
  have i: "ID sampleSubmission = ''m1''" by (simp add: sampleSubmission_def)
  have "fs_wf ?s" "survives dirReady ''m1'' ''abcde'' {''m''} ?s" "settled dirReady ''m1'' ?s"
    using sampleSpool_ok by (simp_all add: survives_def settled_def crash_def lookupEntry_def)
  from retry_durable [OF this [folded i] run] show ?thesis using run i by auto
qed

text \<open>C4: finishing a delivered message removes it for good, and only then. When \<open>Finish\<close> returns
  without an error, no crash brings the message back under \<open>ready/\<close>, so that it is not delivered
  twice, and it is no longer accounted; as long as the message is still seen under \<open>ready/\<close>, it
  survives every crash unchanged.\<close>

theorem finish_exact:
  assumes "fs_wf s" "survives dirReady (ID e) dat ms s" "Finish x inp (Some e) q s = (err, q', s')"
  shows "(err = None \<longrightarrow> (\<forall>c. crash s' c \<longrightarrow> lookupEntry (dirReady, ID e) c = None) \<and> mget (accounted q') (ID e) = None) \<and>
    (lookupEntry (dirReady, ID e) s' \<noteq> None \<longrightarrow> survives dirReady (ID e) dat ms s')"
proof (cases "enterOp inp (ID e) q")
  case (Inl r)
  then show ?thesis using assms by (cases r) (auto simp: Finish_def)
next
  case (Inr q1)
  obtain err1 q2 t where r: "finishOwned x inp e q1 s = (err1, q2, t)" by (metis prod.collapse)
  then have t: "err = err1" "q' = leaveOp (ID e) True q2" "s' = t" using assms(3) Inr by (auto simp: Finish_def)
  have "accounted q' = accounted q2"
    using endTransitions_cap [of "[ID e]" q2] by (simp add: t(2) leaveOp_def endOperation_def capAll_def capPart_def)
  then show ?thesis
    using finishOwned_held [OF survives_held [OF assms(2,1)] r] held_survives unnamed_gone t by metis
qed

theorem finish_exact_witness:
  "\<exists>err q' s'. Finish sampleExt sampleOp (Some sampleSubmission) sampleQueue sampleSpool = (err, q', s') \<and>
    (lookupEntry (dirReady, ''m1'') s' = None \<or> survives dirReady ''m1'' ''abcde'' {''m''} s')"
proof -
  obtain err q' s' where run: "Finish sampleExt sampleOp (Some sampleSubmission) sampleQueue sampleSpool = (err, q', s')"
    by (metis prod.collapse)
  have i: "ID sampleSubmission = ''m1''" by (simp add: sampleSubmission_def)
  from finish_exact [OF sampleSpool_ok(1) sampleSpool_ok(2) [folded i] run] show ?thesis using run i by auto
qed

text \<open>C5: burying a message moves it for good. When \<open>Bury\<close> returns without an error, a crash leaves
  the message accepted among the dead letters, with its body and the metadata of the envelope
  handed back, and not under \<open>ready/\<close>; as long as it is still seen under \<open>ready/\<close>, it survives
  there with its former metadata or that of the next revision.\<close>

theorem bury_durable:
  assumes "fs_wf s" "survives dirReady (ID e) dat ms s" "settled dirReady (ID e) s"
    "Bury x inp (Some e) q s = (err, oe, q', s')"
  shows "(err = None \<longrightarrow> (\<exists>e' m. oe = Some e' \<and> marshalEnvelope x e' = Inr m \<and> survives dirDead (ID e) dat {m} s') \<and>
      (\<forall>c. crash s' c \<longrightarrow> lookupEntry (dirReady, ID e) c = None) \<and> mget (accounted q') (ID e) = None) \<and>
    (lookupEntry (dirReady, ID e) s' \<noteq> None \<longrightarrow> survives dirReady (ID e) dat (ms \<union> nextMeta x e) s')"
proof (cases "enterOp inp (ID e) q")
  case (Inl r)
  then show ?thesis using assms held_survives [OF held_mono [OF survives_held [OF assms(2,1)]], of "ms \<union> nextMeta x e"]
    by (cases r) (auto simp: Bury_def)
next
  case (Inr q1)
  obtain owned err1 e1 q2 t where r: "buryOwned x inp e q1 s = (owned, err1, e1, q2, t)" by (metis prod.collapse)
  then have t: "err = err1" "oe = Some e1" "q' = leaveOp (ID e) owned q2" "s' = t" using assms(4) Inr by (auto simp: Bury_def)
  have "accounted q' = accounted q2"
    using endTransitions_cap [of "[ID e]" q2] by (simp add: t(3) leaveOp_def endOperation_def capAll_def capPart_def)
  then show ?thesis
    using buryOwned_held [OF survives_held [OF assms(2,1)] assms(3) r] held_survives unnamed_gone t by metis
qed

theorem bury_durable_witness:
  "\<exists>err oe q' s'. Bury sampleExt sampleOp (Some sampleSubmission) sampleQueue sampleSpool = (err, oe, q', s') \<and>
    (lookupEntry (dirReady, ''m1'') s' = None \<or> survives dirReady ''m1'' ''abcde'' ({''m''} \<union> nextMeta sampleExt sampleSubmission) s')"
proof -
  obtain err oe q' s' where run: "Bury sampleExt sampleOp (Some sampleSubmission) sampleQueue sampleSpool = (err, oe, q', s')"
    by (metis prod.collapse)
  have i: "ID sampleSubmission = ''m1''" by (simp add: sampleSubmission_def)
  from bury_durable [OF sampleSpool_ok(1) sampleSpool_ok(2,3) [folded i] run] show ?thesis using run i by auto
qed

end
