(* ===== verification/Recovery.thy ===== *)
theory Recovery
  imports Delivery
begin

text \<open>
  Recovery of the spool when a queue is opened, \<open>src/internal/queue/recovery.go\<close> and the part of
  \<open>open.go\<close> that follows the lock: interrupted additions are put aside, the trash is emptied,
  staged delivery notices are published, dead letters are checked, and every accepted entry is
  accounted and scheduled. Every entry of a spool directory is a directory in the model, so the
  branches for stray files do not occur. \<open>stamp\<close> is the time read when an entry is put aside
  under a name.
\<close>

type_synonym world = "Queue \<times> fsys"

subsection \<open>Directories\<close>

text \<open>\<open>os.ReadDir\<close> sorts the names bytewise.\<close>

fun strLe :: "string \<Rightarrow> string \<Rightarrow> bool" where
  "strLe [] ys = True"
| "strLe (x # xs) [] = False"
| "strLe (x # xs) (y # ys) =
     ((of_char x :: nat) < of_char y \<or> x = y \<and> strLe xs ys)"

fun insertName :: "string \<Rightarrow> string list \<Rightarrow> string list" where
  "insertName n [] = [n]"
| "insertName n (m # ms) = (if strLe n m then n # m # ms else m # insertName n ms)"

fun sortNames :: "string list \<Rightarrow> string list" where
  "sortNames [] = []"
| "sortNames (n # ns) = insertName n (sortNames ns)"

definition sysReadNs :: "spoolDir \<Rightarrow> fsys \<Rightarrow> (gerror + string list) \<times> fsys" where
  "sysReadNs d = syscall (\<lambda>s. if rootV s d then (Inr (sortNames (remdups (mkeys (nsV s d)))), s) else (Inl notExist, s))"

text \<open>A loop over names that threads the queue and the spool.\<close>

fun forNames :: "(string \<Rightarrow> world \<Rightarrow> world) \<Rightarrow> string list \<Rightarrow> world \<Rightarrow> world" where
  "forNames f [] w = w"
| "forNames f (n # ns) w = forNames f ns (f n w)"

text \<open>\<open>moveState\<close> on two files of one entry.\<close>

definition diskRenameFile :: "entry \<Rightarrow> string \<Rightarrow> string \<Rightarrow> fsys \<Rightarrow> gerror option \<times> fsys" where
  "diskRenameFile p a b s = thenE (errOf (sysRenameFile p a b s)) (\<lambda>s1. diskSyncEntry p s1)"

definition moveStateFile :: "entry \<Rightarrow> string \<Rightarrow> string \<Rightarrow> fsys \<Rightarrow> (bool \<times> gerror option) \<times> fsys" where
  "moveStateFile p a b s =
     (case diskRenameFile p a b s of
        (None, s1) \<Rightarrow> ((True, None), s1)
      | (Some err, s1) \<Rightarrow>
          (let (srcR, s2) = sysStatFile p a s1; (dstR, s3) = sysStatFile p b s2
           in if missingR srcR \<and> okR dstR then ((True, Some err), s3) else ((False, Some err), s3)))"

subsection \<open>Reports\<close>

definition recordQuarantineFailure :: "string \<Rightarrow> gerror \<Rightarrow> Queue \<Rightarrow> Queue" where
  "recordQuarantineFailure i quarantineErr q = reportCorrupt (''QUARANTINE FAILED; BLOCKED '' @ i) [quarantineErr] (blockID i q)"

definition recordBlocked :: "string \<Rightarrow> gerror \<Rightarrow> Queue \<Rightarrow> Queue" where
  "recordBlocked i cause q = reportCorrupt (''BLOCKED '' @ i) [cause] (blockID i q)"

definition recordTransientBlocked :: "string \<Rightarrow> gerror \<Rightarrow> Queue \<Rightarrow> Queue" where
  "recordTransientBlocked i cause q = reportWarning (''TRANSIENTLY BLOCKED '' @ i) [cause] (blockID i q)"

text \<open>An entry is put aside and reported, or its ID blocked.\<close>

definition putAside :: "(string \<Rightarrow> gtime) \<Rightarrow> string \<Rightarrow> entry \<Rightarrow> string \<Rightarrow> string \<Rightarrow> gerror list \<Rightarrow> world \<Rightarrow> world" where
  "putAside stamp i p nm m causes w =
     (case quarantineDir p nm (stamp nm) (snd w) of
        (Some qerr, s1) \<Rightarrow> (recordQuarantineFailure i qerr (fst w), s1)
      | (None, s1) \<Rightarrow> (reportCorrupt m causes (fst w), s1))"

subsection \<open>Steps\<close>

definition recoverTmp :: "(string \<Rightarrow> gtime) \<Rightarrow> world \<Rightarrow> gerror option \<times> world" where
  "recoverTmp stamp w =
     (case sysReadNs dirTmp (snd w) of
        (Inl err, s1) \<Rightarrow> (Some err, fst w, s1)
      | (Inr entries, s1) \<Rightarrow>
          (let w1 = forNames (\<lambda>i. putAside stamp i (dirTmp, i) (i @ ''-uncommitted'') (''tmp '' @ i @ '': interrupted uncommitted add'') [])
                 entries (fst w, s1);
               (err, s2) = diskSyncNs dirTmp (snd w1)
           in (err, fst w1, s2)))"

fun removeNames :: "string list \<Rightarrow> fsys \<Rightarrow> gerror option list \<times> fsys" where
  "removeNames [] s = ([], s)"
| "removeNames (n # ns) s =
     (let (err, s1) = RemoveAll (dirTrash, n) s; (errs, s2) = removeNames ns s1
      in (map_option (\<lambda>e. Wrap (''remove trash '' @ n) [e]) err # errs, s2))"

definition cleanTrash :: "fsys \<Rightarrow> gerror option \<times> fsys" where
  "cleanTrash s =
     (case sysReadNs dirTrash s of
        (Inl err, s1) \<Rightarrow> (Some err, s1)
      | (Inr entries, s1) \<Rightarrow>
          (let (errs, s2) = removeNames entries s1; (err, s3) = diskSyncNs dirTrash s2
           in (errors_Join (errs @ [map_option (\<lambda>e. Wrap ''sync trash'' [e]) err]), s3)))"

definition validateDeadOne :: "ext \<Rightarrow> (string \<Rightarrow> gtime) \<Rightarrow> string \<Rightarrow> world \<Rightarrow> world" where
  "validateDeadOne x stamp i w =
     (let (cause, s1) =
            (if ValidateID i \<noteq> None then (Some (corruptionf ''invalid dead id''), snd w)
             else errOf (loadAcceptedDir x (dirDead, i) i (snd w)))
      in case cause of
           None \<Rightarrow> (fst w, s1)
         | Some c \<Rightarrow>
             if \<not> IsCorruption cause then (recordTransientBlocked i (Wrap ''validate dead'' [c]) (fst w), s1)
             else putAside stamp i (dirDead, i) (i @ ''-invalid-dead'') (''dead '' @ i) [c] (fst w, s1))"

definition validateDead :: "ext \<Rightarrow> (string \<Rightarrow> gtime) \<Rightarrow> world \<Rightarrow> world" where
  "validateDead x stamp w =
     (case sysReadNs dirDead (snd w) of
        (Inl err, s1) \<Rightarrow> (reportWarning ''validate dead'' [err] (fst w), s1)
      | (Inr entries, s1) \<Rightarrow> forNames (validateDeadOne x stamp) entries (fst w, s1))"

subsection \<open>Staged delivery notices\<close>

definition sameDSNIdentity :: "Envelope \<Rightarrow> Envelope \<Rightarrow> bool" where
  "sameDSNIdentity a b \<longleftrightarrow> ID a = ID b \<and> Incarnation a = Incarnation b \<and> DSNSourceID a = DSNSourceID b \<and>
     DSNSourceIncarnation a = DSNSourceIncarnation b \<and> DSNGeneration a = DSNGeneration b"

definition blockSourceOne :: "ext \<Rightarrow> string \<Rightarrow> gerror \<Rightarrow> string \<Rightarrow> world \<Rightarrow> world" where
  "blockSourceOne x dsnID cause i w =
     (case loadAcceptedDir x (dirReady, i) i (snd w) of
        (Inl err, s1) \<Rightarrow>
          if \<not> IsCorruption (Some err) then (recordTransientBlocked i (Wrap ''inspect possible source for staged DSN'' [err]) (fst w), s1)
          else (fst w, s1)
      | (Inr source, s1) \<Rightarrow>
          if DSNIDLink source \<noteq> dsnID then (fst w, s1)
          else (recordTransientBlocked (ID source) (Wrap ''linked staged DSN could not be read'' [cause]) (fst w), s1))"

definition blockLinkedSource :: "ext \<Rightarrow> string \<Rightarrow> gerror \<Rightarrow> world \<Rightarrow> world" where
  "blockLinkedSource x dsnID cause w =
     (case sysReadNs dirReady (snd w) of
        (Inl err, s1) \<Rightarrow> (reportWarning (''inspect source for staged DSN '' @ dsnID) [err] (fst w), s1)
      | (Inr entries, s1) \<Rightarrow> forNames (blockSourceOne x dsnID cause) entries (fst w, s1))"

definition errDSNSourceScanIncomplete :: gerror where
  "errDSNSourceScanIncomplete = Msg ''DSN source scan incomplete''"

text \<open>The scan for the sources that link to a staged notice; \<open>Inl\<close> when one could not be read.\<close>

fun linkedSources :: "ext \<Rightarrow> string \<Rightarrow> string list \<Rightarrow> fsys \<Rightarrow> (gerror + Envelope list) \<times> fsys" where
  "linkedSources x dsnID [] s = (Inr [], s)"
| "linkedSources x dsnID (n # ns) s =
     (case loadAcceptedDir x (dirReady, n) n s of
        (Inl err, s1) \<Rightarrow> if \<not> IsCorruption (Some err) then (Inl err, s1) else linkedSources x dsnID ns s1
      | (Inr source, s1) \<Rightarrow>
          bindE (linkedSources x dsnID ns s1) (\<lambda>rest s2.
            (Inr (if DSNIDLink source \<noteq> dsnID then rest else source # rest), s2)))"

text \<open>The error \<open>fmt.Errorf("%w: source %s: %v")\<close> is told apart by its first component.\<close>

definition quarantineDSNStage ::
  "ext \<Rightarrow> (string \<Rightarrow> gtime) \<Rightarrow> string \<Rightarrow> string \<Rightarrow> gerror \<Rightarrow> world \<Rightarrow> (bool \<times> gerror option) \<times> world" where
  "quarantineDSNStage x stamp i suffix cause w =
     (if \<not> IsCorruption (Some cause)
      then ((False, Some (Msg ''refusing to quarantine DSN stage without typed corruption'')), w)
      else
        (case sysReadNs dirReady (snd w) of
           (Inl err, s1) \<Rightarrow> ((False, Some err), fst w, s1)
         | (Inr entries, s1) \<Rightarrow>
             (case linkedSources x i entries s1 of
                (Inl err, s2) \<Rightarrow>
                  ((True, Some errDSNSourceScanIncomplete),
                   forNames (\<lambda>n w. (recordTransientBlocked n (Wrap ''source scan is incomplete'' [err]) (fst w), snd w)) entries (fst w, s2))
              | (Inr linked, s2) \<Rightarrow>
                  (let w1 = forNames (\<lambda>n. putAside stamp n (dirReady, n) (n @ ''-dsn-source'') (''ready '' @ n) [])
                              (map ID linked) (fst w, s2)
                   in case quarantineDir (dirDSN, i) (i @ ''-dsn-'' @ suffix) (stamp (i @ ''-dsn-'' @ suffix)) (snd w1) of
                        (Some err, s3) \<Rightarrow> ((False, Some err), fst w1, s3)
                      | (None, s3) \<Rightarrow> ((False, None), reportCorrupt (''staged DSN '' @ i) [cause] (fst w1), s3)))))"

definition quarantineStage :: "ext \<Rightarrow> (string \<Rightarrow> gtime) \<Rightarrow> string \<Rightarrow> string \<Rightarrow> gerror \<Rightarrow> world \<Rightarrow> world" where
  "quarantineStage x stamp i suffix cause w =
     (case quarantineDSNStage x stamp i suffix cause w of
        ((_, Some qerr), w1) \<Rightarrow> (recordQuarantineFailure i qerr (fst w1), snd w1)
      | ((_, None), w1) \<Rightarrow> w1)"

definition blockBoth :: "string \<Rightarrow> string \<Rightarrow> gerror \<Rightarrow> Queue \<Rightarrow> Queue" where
  "blockBoth i source err q =
     recordTransientBlocked source (Msg ''linked DSN is unresolved'') (recordTransientBlocked i err q)"

text \<open>A staged notice whose source is settled is published, or is a duplicate of a published one.\<close>

definition publishStage :: "ext \<Rightarrow> (string \<Rightarrow> gtime) \<Rightarrow> string \<Rightarrow> Envelope \<Rightarrow> Envelope \<Rightarrow> world \<Rightarrow> world" where
  "publishStage x stamp i dsn source w =
     (case sysStat (dirReady, i) (snd w) of
        (Inr _, s1) \<Rightarrow>
          (case loadAcceptedDir x (dirReady, i) i s1 of
             (Inr existing, s2) \<Rightarrow>
               if sameDSNIdentity existing dsn \<and> DSNSourceRevision existing = Revision source
               then putAside stamp i (dirDSN, i) (i @ ''-dsn-duplicate'') (''staged DSN '' @ i @ '': duplicate ready entry'') [] (fst w, s2)
               else quarantineStage x stamp i ''collision'' (corruptionf ''ready DSN collision'') (fst w, s2)
           | (Inl loadErr, s2) \<Rightarrow>
               if \<not> IsCorruption (Some loadErr)
               then (blockBoth i (ID source) (Wrap ''read existing ready DSN'' [loadErr]) (fst w), s2)
               else quarantineStage x stamp i ''collision'' (corruptionf ''ready DSN collision'') (fst w, s2))
      | (Inl err, s1) \<Rightarrow>
          if \<not> errors_Is err OsErrNotExist
          then (blockBoth i (ID source) (Wrap ''inspect ready DSN'' [err]) (fst w), s1)
          else
            (case moveState (dirDSN, i) (dirReady, i) s1 of
               ((_, Some err), s2) \<Rightarrow> (blockBoth i (ID source) (Wrap ''publish recovered DSN'' [err]) (fst w), s2)
             | ((_, None), s2) \<Rightarrow> (fst w, s2)))"

definition recoverStage :: "ext \<Rightarrow> (string \<Rightarrow> gtime) \<Rightarrow> string \<Rightarrow> Envelope \<Rightarrow> world \<Rightarrow> world" where
  "recoverStage x stamp i dsn w =
     (let src = DSNSourceID dsn
      in case diskSyncEntry (dirReady, src) (snd w) of
           (Some err, s1) \<Rightarrow> (blockBoth i src (Wrap ''establish source durability barrier'' [err]) (fst w), s1)
         | (None, s1) \<Rightarrow>
             (case loadAcceptedDir x (dirReady, src) src s1 of
                (Inl err, s2) \<Rightarrow>
                  if \<not> IsCorruption (Some err) \<and> \<not> errors_Is err OsErrNotExist
                  then (blockBoth i src (Wrap ''read linked DSN source'' [err]) (fst w), s2)
                  else quarantineStage x stamp i ''orphan'' (corruptionf ''source link missing or invalid'') (fst w, s2)
              | (Inr source, s2) \<Rightarrow>
                  if Incarnation source \<noteq> DSNSourceIncarnation dsn \<or> Revision source \<noteq> DSNSourceRevision dsn \<or>
                     DSNIDLink source \<noteq> ID dsn \<or> DSNGeneration source \<noteq> DSNGeneration dsn
                  then quarantineStage x stamp i ''orphan'' (corruptionf ''source reciprocal DSN identity is invalid'') (fst w, s2)
                  else publishStage x stamp i dsn source (fst w, s2)))"

definition recoverDSNOne :: "ext \<Rightarrow> (string \<Rightarrow> gtime) \<Rightarrow> string \<Rightarrow> world \<Rightarrow> world" where
  "recoverDSNOne x stamp i w =
     (case loadAcceptedDir x (dirDSN, i) i (snd w) of
        (Inl err, s1) \<Rightarrow>
          if \<not> IsCorruption (Some err)
          then blockLinkedSource x i err (recordTransientBlocked i (Wrap ''read staged DSN'' [err]) (fst w), s1)
          else
            (case quarantineDSNStage x stamp i ''invalid'' err (fst w, s1) of
               ((True, Some qerr), w1) \<Rightarrow> (recordTransientBlocked i qerr (fst w1), snd w1)
             | ((False, Some qerr), w1) \<Rightarrow> (recordQuarantineFailure i qerr (fst w1), snd w1)
             | ((_, None), w1) \<Rightarrow> w1)
      | (Inr dsn, s1) \<Rightarrow> recoverStage x stamp i dsn (fst w, s1))"

definition recoverDSN :: "ext \<Rightarrow> (string \<Rightarrow> gtime) \<Rightarrow> world \<Rightarrow> gerror option \<times> world" where
  "recoverDSN x stamp w =
     (case sysReadNs dirDSN (snd w) of
        (Inl err, s1) \<Rightarrow> (Some err, fst w, s1)
      | (Inr entries, s1) \<Rightarrow> (None, forNames (recoverDSNOne x stamp) entries (fst w, s1)))"

subsection \<open>Entries awaiting delivery\<close>

text \<open>The entry is accounted and scheduled.\<close>

definition admitReady :: "(string \<Rightarrow> gtime) \<Rightarrow> string \<Rightarrow> Envelope \<Rightarrow> world \<Rightarrow> world" where
  "admitReady stamp i env w =
     (let (ok, q1) = noteAddedLocked env (fst w)
      in if \<not> ok
         then putAside stamp i (dirReady, i) (i @ ''-accounting-overflow'') (''ready '' @ i @ '': queue accounting overflow'') [] (q1, snd w)
         else (snd (scheduleLocked env q1), snd w))"

definition checkDead :: "ext \<Rightarrow> (string \<Rightarrow> gtime) \<Rightarrow> string \<Rightarrow> Envelope \<Rightarrow> world \<Rightarrow> world" where
  "checkDead x stamp i env w =
     (case loadAcceptedDir x (dirDead, i) i (snd w) of
        (Inr dead, s1) \<Rightarrow>
          if Incarnation dead \<noteq> Incarnation env \<or> Revision dead \<noteq> Revision env
          then (recordBlocked i (idConflict ''ready and dead entries differ'') (fst w), s1)
          else putAside stamp i (dirReady, i) (i @ ''-dead-duplicate'') (''ready '' @ i @ '': duplicate dead-letter entry'') [] (fst w, s1)
      | (Inl deadErr, s1) \<Rightarrow>
          if errors_Is deadErr OsErrNotExist then admitReady stamp i env (fst w, s1)
          else if \<not> IsCorruption (Some deadErr)
          then (recordTransientBlocked i (Wrap ''read colliding dead entry'' [deadErr]) (fst w), s1)
          else
            (case quarantineDir (dirDead, i) (i @ ''-invalid-dead'') (stamp (i @ ''-invalid-dead'')) s1 of
               (Some qerr, s2) \<Rightarrow> (recordQuarantineFailure i qerr (fst w), s2)
             | (None, s2) \<Rightarrow> admitReady stamp i env (reportCorrupt (''dead '' @ i) [deadErr] (fst w), s2)))"

definition loadEntry :: "ext \<Rightarrow> (string \<Rightarrow> gtime) \<Rightarrow> string \<Rightarrow> world \<Rightarrow> world" where
  "loadEntry x stamp i w =
     (case loadDir x (dirReady, i) i (snd w) of
        (Inl err, s1) \<Rightarrow>
          if \<not> IsCorruption (Some err) then (recordTransientBlocked i (Wrap ''read ready entry'' [err]) (fst w), s1)
          else putAside stamp i (dirReady, i) i (''ready '' @ i) [err] (fst w, s1)
      | (Inr env, s1) \<Rightarrow> checkDead x stamp i env (fst w, s1))"

text \<open>A revival that was interrupted is completed first.\<close>

definition completeRevive :: "ext \<Rightarrow> (string \<Rightarrow> gtime) \<Rightarrow> string \<Rightarrow> world \<Rightarrow> world" where
  "completeRevive x stamp i w =
     (case sysStatFile (dirReady, i) reviveMetaName (snd w) of
        (Inr _, s1) \<Rightarrow>
          (case moveStateFile (dirReady, i) reviveMetaName metaName s1 of
             ((False, Some moveErr), s2) \<Rightarrow> (recordTransientBlocked i (Wrap ''complete revive'' [moveErr]) (fst w), s2)
           | (_, s2) \<Rightarrow> loadEntry x stamp i (fst w, s2))
      | (Inl err, s1) \<Rightarrow>
          if \<not> errors_Is err OsErrNotExist then (recordTransientBlocked i (Wrap ''inspect revive'' [err]) (fst w), s1)
          else loadEntry x stamp i (fst w, s1))"

definition loadReadyOne :: "ext \<Rightarrow> (string \<Rightarrow> gtime) \<Rightarrow> string \<Rightarrow> world \<Rightarrow> world" where
  "loadReadyOne x stamp i w =
     (if i \<in> set (blocked (fst w)) then w
      else if ValidateID i \<noteq> None
      then putAside stamp i (dirReady, i) (''badid-'' @ sanitize i) (''ready '' @ i) [corruptionf ''invalid ready id''] w
      else
        (case acceptedDir (dirReady, i) (snd w) of
           (Some err0, s1) \<Rightarrow>
             (let err = (if errors_Is err0 OsErrNotExist then corruptionf ''queue entry is missing acceptance state'' else err0)
              in if \<not> IsCorruption (Some err)
                 then (recordTransientBlocked i (Wrap ''read acceptance state'' [err]) (fst w), s1)
                 else putAside stamp i (dirReady, i) i (''ready '' @ i @ '': read add state'') [err] (fst w, s1))
         | (None, s1) \<Rightarrow> completeRevive x stamp i (fst w, s1)))"

definition loadReady :: "ext \<Rightarrow> (string \<Rightarrow> gtime) \<Rightarrow> world \<Rightarrow> gerror option \<times> world" where
  "loadReady x stamp w =
     (case sysReadNs dirReady (snd w) of
        (Inl err, s1) \<Rightarrow> (Some err, fst w, s1)
      | (Inr entries, s1) \<Rightarrow> (None, forNames (loadReadyOne x stamp) entries (fst w, s1)))"

text \<open>The steps of \<open>OpenWithOptions\<close> between the two measurements, without the retention pruning.\<close>

definition recoverSpool :: "ext \<Rightarrow> (string \<Rightarrow> gtime) \<Rightarrow> world \<Rightarrow> gerror option \<times> world" where
  "recoverSpool x stamp w =
     (case recoverTmp stamp w of
        (Some err, w1) \<Rightarrow> (Some err, w1)
      | (None, w1) \<Rightarrow>
          (let (terr, s2) = cleanTrash (snd w1);
               q2 = (case terr of None \<Rightarrow> fst w1 | Some e \<Rightarrow> reportWarning ''trash cleanup'' [e] (fst w1))
           in case recoverDSN x stamp (q2, s2) of
                (Some err, w3) \<Rightarrow> (Some err, w3)
              | (None, w3) \<Rightarrow> loadReady x stamp (validateDead x stamp w3)))"

end
