(* ===== verification/Recovery_Live.thy ===== *)
theory Recovery_Live
  imports Recovery Delivery_Durable
begin

text \<open>
  Opening a queue over what a crash left brings every accepted message back to the schedule. The
  runs here have no failing calls; the spool is followed through the recovery steps by what it
  shows, whatever else is put aside or removed on the way.
\<close>

subsection \<open>What the spool shows\<close>

text \<open>Reading changes nothing that is shown.\<close>

definition sameView :: "fsys \<Rightarrow> fsys \<Rightarrow> bool" where
  "sameView s t \<longleftrightarrow> (outcomes s = [] \<longrightarrow> outcomes t = []) \<and> nsV t = nsV s \<and> dirV t = dirV s \<and> fileV t = fileV s \<and>
     (\<forall>d. d \<notin> {dirCorrupt, dirTrash} \<longrightarrow> rootV t d = rootV s d)"

interpretation shown: fs_run sameView
  by unfold_locales (auto simp: sameView_def)

lemma shown_sync: "sameView s (snd (diskSyncNs d s))" "sameView s (snd (diskSyncEntry p s))"
  unfolding diskSyncNs_def diskSyncEntry_def shown.errOfR sysSyncNs_def sysSyncEntry_def
  by (rule shown.sys; auto simp: sameView_def split: option.split)+

lemma shown_readNs: "sameView s (snd (sysReadNs d s))"
  unfolding sysReadNs_def by (rule shown.sys) (auto simp: sameView_def)

text \<open>Compared with the state \<open>c\<close> the crash left, the entries \<open>L\<close> under \<open>ready/\<close> are intact, and
  \<open>dead/\<close>, \<open>dsn/\<close> and \<open>trash/\<close> have gained nothing.\<close>

definition fewer :: "fsys \<Rightarrow> fsys \<Rightarrow> spoolDir \<Rightarrow> bool" where
  "fewer c s d \<longleftrightarrow> (\<forall>n. lookupEntry (d, n) s = None \<or> lookupEntry (d, n) s = lookupEntry (d, n) c)"

definition viewOf :: "fsys \<Rightarrow> string set \<Rightarrow> fsys \<Rightarrow> bool" where
  "viewOf c L s \<longleftrightarrow> outcomes s = [] \<and> fileV s = fileV c \<and> (\<forall>d. d \<notin> {dirCorrupt, dirTrash} \<longrightarrow> rootV s d) \<and>
     fewer c s dirDead \<and> fewer c s dirDSN \<and> fewer c s dirTrash \<and>
     (\<forall>j \<in> L. lookupEntry (dirReady, j) s = lookupEntry (dirReady, j) c \<and>
        (\<forall>k. lookupEntry (dirReady, j) c = Some k \<longrightarrow> dirV s k = dirV c k))"

lemma viewOf_same: "sameView s t \<Longrightarrow> viewOf c L s \<Longrightarrow> viewOf c L t"
  by (auto simp: viewOf_def sameView_def fewer_def lookupEntry_def)

lemma viewOf_mono: "viewOf c L s \<Longrightarrow> L' \<subseteq> L \<Longrightarrow> viewOf c L' s"
  by (auto simp: viewOf_def)

lemma viewOf_file: "viewOf c L s \<Longrightarrow> j \<in> L \<Longrightarrow> lookupFile (dirReady, j) n s = lookupFile (dirReady, j) n c"
  by (auto simp: viewOf_def lookupFile_def split: option.splits)

text \<open>An entry put aside: nothing else changes.\<close>

lemma sysRename_view:
  assumes "sysRename p (dirCorrupt, n) s = (r, t)" "outcomes s = []" "fst p \<noteq> dirCorrupt"
  shows "outcomes t = [] \<and> fileV t = fileV s \<and> dirV t = dirV s \<and> rootV t = rootV s \<and>
    (\<forall>q. fst q \<noteq> dirCorrupt \<longrightarrow> lookupEntry q t = (if q = p \<and> okR r then None else lookupEntry q s))"
proof -
  obtain a m where p: "p = (a, m)" by (cases p)
  show ?thesis
  proof (cases "lookupEntry p s")
    case None
    then show ?thesis using assms by (auto simp: sysRename_def okR_def)
  next
    case (Some i)
    then show ?thesis using assms
      by (auto simp: sysRename_def p okR_def lookupEntry_def setNs_def Let_def mget_mdel split: if_splits)
  qed
qed

lemma quarantine_view:
  assumes "quarantineDir p nm now s = (r, t)" "outcomes s = []" "fst p \<noteq> dirCorrupt"
  shows "outcomes t = [] \<and> fileV t = fileV s \<and> dirV t = dirV s \<and> (\<forall>d. d \<notin> {dirCorrupt, dirTrash} \<longrightarrow> rootV t d = rootV s d) \<and>
    (\<forall>q. fst q \<noteq> dirCorrupt \<longrightarrow> q \<noteq> p \<longrightarrow> lookupEntry q t = lookupEntry q s) \<and>
    (lookupEntry p t = None \<or> lookupEntry p t = lookupEntry p s)"
proof -
  let ?d = "(dirCorrupt, nm @ ''.'' @ formatInt now)"
  obtain r1 s1 where s1: "ensureDurableDir dirCorrupt s = (r1, s1)" by fastforce
  have v1: "sameView s s1" using shown.ensure [of dirCorrupt s] s1 by simp
  then have o1: "outcomes s1 = []" using assms(2) by (simp add: sameView_def)
  obtain r2 s2 where s2: "sysRename p ?d s1 = (r2, s2)" by fastforce
  note v2 = sysRename_view [OF s2 o1 assms(3)]
  have post: "sameView s2 u" if "diskRename p ?d s1 = (e, u)" for e u
  proof -
    have "sameView s2 (snd (thenE (diskSyncNs dirCorrupt s2) (\<lambda>s3. if fst p \<noteq> dirCorrupt then diskSyncNs (fst p) s3 else (None, s3))))"
      by (rule shown.thenR [OF shown_sync(1)]) (simp add: shown_sync shown.refl)
    then show ?thesis using that s2 by (cases r2) (auto simp: diskRename_def thenE_def errOf_def shown.refl)
  qed
  have "t = s1 \<or> sameView s2 t"
    using assms(1) s1 post by (auto simp: quarantineDir_def thenE_def split: option.splits prod.splits)
  then show ?thesis
  proof
    assume "t = s1"
    then show ?thesis using v1 assms(2) by (auto simp: sameView_def lookupEntry_def)
  next
    assume t: "sameView s2 t"
    have l: "lookupEntry q t = lookupEntry q s2" "lookupEntry q s1 = lookupEntry q s" for q
      using t v1 by (auto simp: sameView_def lookupEntry_def)
    have q: "lookupEntry q s2 = (if q = p \<and> okR r2 then None else lookupEntry q s)" if "fst q \<noteq> dirCorrupt" for q
      using v2 that l(2) [of q] by metis
    have "lookupEntry p s2 = None \<or> lookupEntry p s2 = lookupEntry p s" using q [OF assms(3)] by simp
    then show ?thesis using t v1 v2 q unfolding l by (simp add: sameView_def)
  qed
qed

lemma viewOf_quarantine:
  assumes "viewOf c L s" "quarantineDir p nm now s = (r, t)" "p = (dirReady, j) \<and> j \<notin> L \<or> fst p \<in> {dirTmp, dirDead, dirDSN}"
  shows "viewOf c L t"
proof -
  have o: "outcomes s = []" using assms(1) by (simp add: viewOf_def)
  have d: "fst p \<noteq> dirCorrupt" using assms(3) by auto
  note q = quarantine_view [OF assms(2) o d]
  have "lookupEntry (dirReady, n) t = lookupEntry (dirReady, n) s" if "n \<in> L" for n
  proof -
    have "(dirReady, n) \<noteq> p" using that assms(3) by auto
    then show ?thesis using q by simp
  qed
  moreover have "fewer c t k" if "fewer c s k" "k \<noteq> dirCorrupt" for k
    unfolding fewer_def
  proof
    fix n
    show "lookupEntry (k, n) t = None \<or> lookupEntry (k, n) t = lookupEntry (k, n) c"
      using q that by (cases "(k, n) = p") (auto simp: fewer_def)
  qed
  ultimately show ?thesis using assms(1) q unfolding viewOf_def by auto
qed


text \<open>What the crash left is a tree: no directory is found under two names.\<close>

definition treeNames :: "fsys \<Rightarrow> bool" where
  "treeNames c \<longleftrightarrow> (\<forall>p q k. lookupEntry p c = Some k \<longrightarrow> lookupEntry q c = Some k \<longrightarrow> p = q)"

lemma contents_view:
  assumes "removeDirectoryContents p ns s = (r, t)" "outcomes s = []"
  shows "outcomes t = [] \<and> fileV t = fileV s \<and> rootV t = rootV s \<and> nsV t = nsV s \<and>
    (\<forall>k. lookupEntry p s \<noteq> Some k \<longrightarrow> dirV t k = dirV s k)"
  using assms
proof (induction ns arbitrary: s)
  case (Cons n ns)
  obtain e s1 where s1: "errOf (sysUnlink p n s) = (e, s1)" by fastforce
  have u: "outcomes s1 = [] \<and> fileV s1 = fileV s \<and> rootV s1 = rootV s \<and> nsV s1 = nsV s \<and>
      (\<forall>k. lookupEntry p s \<noteq> Some k \<longrightarrow> dirV s1 k = dirV s k)"
    using s1 Cons.prems(2) by (auto simp: sysUnlink_def errOf_def setDir_def split: option.splits if_splits)
  then have "lookupEntry p s1 = lookupEntry p s" by (simp add: lookupEntry_def)
  then show ?case using Cons.IH [of s1] Cons.prems(1) s1 u by (auto split: option.splits if_splits)
qed simp

lemma removeAll_view:
  assumes "RemoveAll p s = (r, t)" "outcomes s = []"
  shows "outcomes t = [] \<and> fileV t = fileV s \<and> rootV t = rootV s \<and> (\<forall>k. lookupEntry p s \<noteq> Some k \<longrightarrow> dirV t k = dirV s k) \<and>
    (\<forall>q. q \<noteq> p \<longrightarrow> lookupEntry q t = lookupEntry q s) \<and> (lookupEntry p t = None \<or> lookupEntry p t = lookupEntry p s)"
proof (cases "lookupEntry p s")
  case None
  then show ?thesis using assms by (auto simp: RemoveAll_def sysStat_def notExist_def)
next
  case (Some k)
  obtain r1 s1 where s1: "removeDirectoryContents p (mkeys (dirV s k)) s = (r1, s1)" by fastforce
  note v = contents_view [OF s1 assms(2)]
  have l: "lookupEntry q s1 = lookupEntry q s" for q using v by (simp add: lookupEntry_def)
  show ?thesis
  proof (cases r1)
    case (Some e)
    then show ?thesis using assms s1 \<open>lookupEntry p s = Some k\<close> v l
      by (auto simp: RemoveAll_def sysStat_def sysReadDir_def withValue_def thenE_def)
  next
    case None
    obtain r2 where r2: "RemoveAll p s = errOf (sysRmdir p s1)" "r2 = sysRmdir p s1"
      using assms s1 Some None by (simp add: RemoveAll_def sysStat_def sysReadDir_def withValue_def thenE_def)
    obtain a m where p: "p = (a, m)" by (cases p)
    show ?thesis using assms(1) r2(1) v l Some
      by (auto simp: sysRmdir_def errOf_def p lookupEntry_def setNs_def mget_mdel split: if_splits)
  qed
qed

lemma viewOf_trash:
  assumes "viewOf c L s" "treeNames c" "RemoveAll (dirTrash, n) s = (r, t)"
  shows "viewOf c L t"
proof -
  have o: "outcomes s = []" using assms(1) by (simp add: viewOf_def)
  note v = removeAll_view [OF assms(3) o]
  have "dirV t k = dirV s k" if "lookupEntry (dirReady, j) c = Some k" for j k
  proof -
    have "lookupEntry (dirTrash, n) s = None \<or> lookupEntry (dirTrash, n) s = lookupEntry (dirTrash, n) c"
      using assms(1) by (auto simp: viewOf_def fewer_def)
    moreover have "lookupEntry (dirTrash, n) c \<noteq> Some k" using assms(2) that unfolding treeNames_def by blast
    ultimately show ?thesis using v by auto
  qed
  moreover have "lookupEntry (dirReady, j) t = lookupEntry (dirReady, j) s" for j using v by simp
  moreover have "fewer c t d" if f: "fewer c s d" for d
    unfolding fewer_def
  proof
    fix m
    show "lookupEntry (d, m) t = None \<or> lookupEntry (d, m) t = lookupEntry (d, m) c"
      using v f by (cases "(d, m) = (dirTrash, n)") (auto simp: fewer_def)
  qed
  ultimately show ?thesis using assms(1) v unfolding viewOf_def by auto
qed

lemma viewOf_removeNames: "viewOf c L s \<Longrightarrow> treeNames c \<Longrightarrow> viewOf c L (snd (removeNames ns s))"
proof (induction ns arbitrary: s)
  case (Cons n ns)
  obtain r s1 where s1: "RemoveAll (dirTrash, n) s = (r, s1)" by fastforce
  have "viewOf c L s1" by (rule viewOf_trash [OF Cons.prems s1])
  then show ?case using Cons.IH [of s1] Cons.prems(2) s1 by (simp add: case_prod_beta Let_def)
qed simp

lemma viewOf_cleanTrash: "viewOf c L s \<Longrightarrow> treeNames c \<Longrightarrow> viewOf c L (snd (cleanTrash s))"
proof -
  assume v: "viewOf c L s" "treeNames c"
  obtain r s1 where s1: "sysReadNs dirTrash s = (r, s1)" by fastforce
  have v1: "viewOf c L s1" using viewOf_same [OF shown_readNs v(1), of dirTrash] s1 by simp
  have "viewOf c L (snd (diskSyncNs dirTrash (snd (removeNames ns s1))))" for ns
    by (rule viewOf_same [OF shown_sync(1)]) (rule viewOf_removeNames [OF v1 v(2)])
  then show ?thesis using s1 v1 by (cases r) (auto simp: cleanTrash_def case_prod_beta Let_def)
qed

lemma lookupFile_same: "nsV t = nsV s \<Longrightarrow> dirV t = dirV s \<Longrightarrow> lookupFile p n t = lookupFile p n s"
  by (simp add: lookupFile_def lookupEntry_def split: option.split)

text \<open>Completing a revival renames a file of its own entry.\<close>

lemma renameFile_view:
  assumes "diskRenameFile p a b s = (r, t)" "outcomes s = []"
  shows "outcomes t = [] \<and> fileV t = fileV s \<and> rootV t = rootV s \<and> nsV t = nsV s \<and> (\<forall>k. lookupEntry p s \<noteq> Some k \<longrightarrow> dirV t k = dirV s k) \<and>
    (\<forall>n. n \<noteq> a \<longrightarrow> n \<noteq> b \<longrightarrow> lookupFile p n t = lookupFile p n s)"
proof -
  obtain r1 s1 where s1: "sysRenameFile p a b s = (r1, s1)" by fastforce
  have v1: "outcomes s1 = [] \<and> fileV s1 = fileV s \<and> rootV s1 = rootV s \<and> nsV s1 = nsV s \<and> (\<forall>k. lookupEntry p s \<noteq> Some k \<longrightarrow> dirV s1 k = dirV s k) \<and>
      (\<forall>n. n \<noteq> a \<longrightarrow> n \<noteq> b \<longrightarrow> lookupFile p n s1 = lookupFile p n s)"
    using s1 assms(2) by (auto simp: sysRenameFile_def setDir_def lookupFile_def lookupEntry_def mget_mput mget_mdel split: option.splits)
  have "rootV (snd (diskSyncEntry p s1)) = rootV s1"
    using v1 by (auto simp: diskSyncEntry_def errOf_def sysSyncEntry_def split: option.splits sum.splits)
  moreover have "lookupFile p n (snd (diskSyncEntry p s1)) = lookupFile p n s1" for n
    using shown_sync(2) [of s1 p] by (intro lookupFile_same) (simp_all add: sameView_def)
  ultimately show ?thesis using assms(1) s1 v1 shown_sync(2) [of s1 p]
    by (cases r1) (auto simp: diskRenameFile_def thenE_def errOf_def sameView_def)
qed

lemma viewOf_moveStateFile:
  assumes "viewOf c (insert j L) s" "treeNames c" "j \<notin> L" "moveStateFile (dirReady, j) a b s = (r, t)"
  shows "viewOf c L t" "n \<noteq> a \<Longrightarrow> n \<noteq> b \<Longrightarrow> lookupFile (dirReady, j) n t = lookupFile (dirReady, j) n c"
proof -
  have o: "outcomes s = []" using assms(1) by (simp add: viewOf_def)
  obtain r1 s1 where s1: "diskRenameFile (dirReady, j) a b s = (r1, s1)" by fastforce
  note v = renameFile_view [OF s1 o]
  have "dirV s1 k = dirV s k" if "lookupEntry (dirReady, n) c = Some k" "n \<noteq> j" for n k
  proof -
    have "lookupEntry (dirReady, j) s = lookupEntry (dirReady, j) c" using assms(1) by (simp add: viewOf_def)
    moreover have "lookupEntry (dirReady, j) c \<noteq> Some k" using assms(2) that unfolding treeNames_def by blast
    ultimately show ?thesis using v by auto
  qed
  moreover have l: "lookupEntry q s1 = lookupEntry q s" for q using v by (simp add: lookupEntry_def)
  ultimately have v1: "viewOf c L s1" using assms(1,3) v unfolding viewOf_def fewer_def l by auto metis
  obtain r2 s2 where s2: "sysStatFile (dirReady, j) a s1 = (r2, s2)" by fastforce
  obtain r3 s3 where s3: "sysStatFile (dirReady, j) b s2 = (r3, s3)" by fastforce
  have v3: "sameView s1 s2" "sameView s2 s3" using shown.looks(2) s2 s3 by (metis snd_conv)+
  then have "viewOf c L s3" using v1 viewOf_same by blast
  moreover have t: "t = s1 \<or> t = s3" using assms(4) s1 s2 s3 by (auto simp: moveStateFile_def Let_def split: option.splits if_splits)
  ultimately show "viewOf c L t" using v1 by blast
  show "lookupFile (dirReady, j) n t = lookupFile (dirReady, j) n c" if "n \<noteq> a" "n \<noteq> b"
  proof -
    have "lookupFile (dirReady, j) n s1 = lookupFile (dirReady, j) n s" using v that by blast
    moreover have "lookupFile (dirReady, j) n s = lookupFile (dirReady, j) n c" using viewOf_file [OF assms(1)] by simp
    moreover have "lookupFile (dirReady, j) n s3 = lookupFile (dirReady, j) n s1"
      using v3 by (intro lookupFile_same) (simp_all add: sameView_def)
    ultimately show ?thesis using t by auto
  qed
qed


subsection \<open>Entries read alike\<close>

text \<open>When no call fails, reading an entry depends on its own files only.\<close>

definition alike :: "entry \<Rightarrow> fsys \<Rightarrow> fsys \<Rightarrow> bool" where
  "alike p c s \<longleftrightarrow> outcomes c = [] \<and> outcomes s = [] \<and> fileV s = fileV c \<and> lookupEntry p s = lookupEntry p c \<and>
     (\<forall>n. lookupFile p n s = lookupFile p n c)"

lemma viewOf_alike: "viewOf c L s \<Longrightarrow> outcomes c = [] \<Longrightarrow> j \<in> L \<Longrightarrow> alike (dirReady, j) c s"
  using viewOf_file [of c L s j] by (auto simp: alike_def viewOf_def)

lemma alike_readBounded: "alike p c s \<Longrightarrow> readBoundedRegular p n mx s = (fst (readBoundedRegular p n mx c), s)"
  by (cases "lookupFile p n c")
    (simp_all add: alike_def readBoundedRegular_def openRegularFromInfo_def sysStatFile_def sysOpen_def bindE_def)

lemma alike_accepted: "alike p c s \<Longrightarrow> acceptedDir p s = (fst (acceptedDir p c), s)"
  using alike_readBounded [of p c s addStateName maxAddStateBytes] alike_readBounded [of p c c addStateName maxAddStateBytes]
  by (cases "fst (readBoundedRegular p addStateName maxAddStateBytes c)") (auto simp: acceptedDir_def withValue_def alike_def)

lemma alike_metadata: "alike p c s \<Longrightarrow> loadEnvelopeMetadata x p i s = (fst (loadEnvelopeMetadata x p i c), s)"
  using alike_readBounded [of p c s metaName maxEnvelopeMetadata] alike_readBounded [of p c c metaName maxEnvelopeMetadata]
  by (cases "fst (readBoundedRegular p metaName maxEnvelopeMetadata c)") (auto simp: loadEnvelopeMetadata_def alike_def)

lemma alike_variants: "alike p c s \<Longrightarrow> verifyVariants x f bs pos whole s = (fst (verifyVariants x f bs pos whole c), s)"
  by (induction bs arbitrary: pos whole) (auto simp: alike_def bindE_def Let_def)

lemma alike_verify: "alike p c s \<Longrightarrow> verifyEnvelopeBodyHandle x f e s = (fst (verifyEnvelopeBodyHandle x f e c), s)"
proof -
  assume a: "alike p c s"
  then have c: "alike p c c" by (simp add: alike_def)
  note v = alike_variants [OF a, of x f "Bodies e" 0 "[]"] alike_variants [OF c, of x f "Bodies e" 0 "[]"]
  have o: "outcomes c = []" "outcomes s = []" "fileV s = fileV c" using a by (auto simp: alike_def)
  show ?thesis
  proof (cases "Bodies e = []")
    case True
    then show ?thesis using o
      by (auto simp: verifyEnvelopeBodyHandle_def verifyBodyHandle_def copyExactBody_def thenE_def errOf_def withValue_def bindE_def Let_def
          split: option.split)
  next
    case False
    obtain r where r: "fst (verifyVariants x f (Bodies e) 0 [] c) = r" by simp
    have "verifyVariants x f (Bodies e) 0 [] s = (r, s)" "verifyVariants x f (Bodies e) 0 [] c = (r, c)" using v r by simp_all
    then show ?thesis using o False
      by (cases r) (auto simp: verifyEnvelopeBodyHandle_def thenE_def errOf_def withValue_def)
  qed
qed

lemma alike_body: "alike p c s \<Longrightarrow> checkBody x p e s = (fst (checkBody x p e c), s)"
proof -
  assume a: "alike p c s"
  then have c: "alike p c c" by (simp add: alike_def)
  show ?thesis
  proof (cases "lookupFile p bodyName c")
    case None
    then show ?thesis using a by (auto simp: checkBody_def openRegular_def sysStatFile_def bindE_def alike_def)
  next
    case (Some f)
    have "openRegular p bodyName s = (Inr f, s)" "openRegular p bodyName c = (Inr f, c)"
      using a Some by (auto intro: openRegular_pass simp: alike_def)
    then show ?thesis using alike_verify [OF a, of x f e] alike_verify [OF c, of x f e] a
      by (cases "fst (verifyEnvelopeBodyHandle x f e c)") (auto simp: checkBody_def alike_def)
  qed
qed

lemma alike_loadDir: "alike p c s \<Longrightarrow> loadDir x p i s = (fst (loadDir x p i c), s)"
proof -
  assume a: "alike p c s"
  then have c: "alike p c c" by (simp add: alike_def)
  show ?thesis using alike_metadata [OF a, of x i] alike_metadata [OF c, of x i] alike_body [OF a, of x] alike_body [OF c, of x]
    by (cases "fst (loadEnvelopeMetadata x p i c)") (auto simp: loadDir_def bindE_def)
qed

text \<open>What was loaded as accepted is loaded, and carries its name and the length of its body.\<close>

lemma accepted_loads:
  assumes "loadAcceptedDir x p i c = (Inr e, t)" "outcomes c = []"
  shows "acceptedDir p c = (None, c)" "loadDir x p i c = (Inr e, c)"
proof -
  have c: "alike p c c" using assms(2) by (simp add: alike_def)
  obtain r where r: "acceptedDir p c = (r, c)" using alike_accepted [OF c] by simp
  then have "r = None" using assms by (auto simp: loadAcceptedDir_def loadAcceptedMetadata_def bindE_def sysStat_def split: option.splits if_splits)
  with r show "acceptedDir p c = (None, c)" by simp
  then have "loadDir x p i c = loadAcceptedDir x p i c"
    by (simp add: loadAcceptedDir_def loadAcceptedMetadata_def loadDir_def)
  then show "loadDir x p i c = (Inr e, c)" using alike_loadDir [OF c, of x i] assms(1) by simp
qed

definition bodyBytes :: "fsys \<Rightarrow> string \<Rightarrow> int" where
  "bodyBytes c j = (case lookupFile (dirReady, j) bodyName c of None \<Rightarrow> 0 | Some f \<Rightarrow> int (length (fileV c f)))"

lemma loadDir_size:
  assumes "loadDir x (dirReady, j) j s = (Inr e, t)" "outcomes s = []" "fileV s = fileV c"
    "lookupFile (dirReady, j) bodyName s = lookupFile (dirReady, j) bodyName c"
  shows "ID e = j" "Size e = bodyBytes c j" "t = s" "ValidateID j = None"
proof -
  have a: "alike (dirReady, j) s s" using assms(2) by (simp add: alike_def)
  obtain m where m: "loadEnvelopeMetadata x (dirReady, j) j s = (m, s)" using alike_metadata [OF a] by metis
  have b: "checkBody x (dirReady, j) e s = (fst (checkBody x (dirReady, j) e s), s)" for e using alike_body [OF a] .
  obtain e0 where e0: "m = Inr e0" "checkBody x (dirReady, j) e0 s = (Inr e, t)"
    using assms(1) m by (cases m) (auto simp: loadDir_def bindE_def)
  then show t: "t = s" using b [of e0] by simp
  obtain f s1 where f: "openRegular (dirReady, j) bodyName s = (Inr f, s1)" and e: "e = e0" "int (length (fileV s1 f)) = Size e"
    using e0(2) by (auto simp: checkBody_def split: prod.splits sum.splits if_splits option.splits)
  have "lookupFile (dirReady, j) bodyName s = Some f" "s1 = s"
    using f assms(2) by (auto simp: openRegular_def openRegularFromInfo_def sysStatFile_def sysOpen_def bindE_def split: option.splits if_splits)
  then show "Size e = bodyBytes c j" using e(2) assms(3,4) by (simp add: bodyBytes_def)
  have "decodeEnvelopeMetadata x raw j = Inr e \<Longrightarrow> ID e = j \<and> ValidateID j = None" for raw
    by (auto simp: decodeEnvelopeMetadata_def split: option.splits if_splits prod.splits elim!: validateEnvelope_ok)
  then show "ID e = j" "ValidateID j = None"
    using m e0(1) e(1) by (auto simp: loadEnvelopeMetadata_def split: prod.splits sum.splits if_splits)
qed


subsection \<open>One entry\<close>

text \<open>What the recovery of one entry may do to the queue: it blocks or accounts and schedules that
  entry, and no other.\<close>

definition entryStep :: "int \<Rightarrow> string \<Rightarrow> Queue \<Rightarrow> Queue \<Rightarrow> bool" where
  "entryStep b j q q' \<longleftrightarrow> qbytes q \<le> qbytes q' \<and> qbytes q' \<le> qbytes q + b \<and> qcount q \<le> qcount q' \<and> qcount q' \<le> qcount q + 1 \<and>
     (\<forall>k. k \<noteq> j \<longrightarrow> (k \<in> set (blocked q') \<longleftrightarrow> k \<in> set (blocked q)) \<and>
        mget (accounted q') k = mget (accounted q) k \<and> mget (scheduled q') k = mget (scheduled q) k)"

lemma bodyBytes_nonneg [simp]: "0 \<le> bodyBytes c j"
  by (simp add: bodyBytes_def split: option.split)

lemma entryStep_reports:
  assumes "0 \<le> b"
  shows "entryStep b j q q" "entryStep b j q (recordQuarantineFailure j e q)" "entryStep b j q (recordBlocked j e q)"
    "entryStep b j q (recordTransientBlocked j e q)" "entryStep b j q (reportCorrupt m es q)" "entryStep b j q (reportWarning m es q)"
  using assms by (auto simp: entryStep_def recordQuarantineFailure_def recordBlocked_def recordTransientBlocked_def
      reportCorrupt_def reportWarning_def blockID_def)

definition goodStep :: "fsys \<Rightarrow> string set \<Rightarrow> string \<Rightarrow> world \<Rightarrow> world \<Rightarrow> bool" where
  "goodStep c L j w w' \<longleftrightarrow> viewOf c L (snd w') \<and> entryStep (bodyBytes c j) j (fst w) (fst w')"

lemma goodStep_putAside:
  assumes "viewOf c L (snd w)" "p = (dirReady, k) \<and> k \<notin> L \<or> fst p \<in> {dirTmp, dirDead, dirDSN}"
  shows "goodStep c L j w (putAside stamp j p nm m cs w)"
proof (cases "quarantineDir p nm (stamp nm) (snd w)")
  case (Pair r t)
  have "viewOf c L t" by (rule viewOf_quarantine [OF assms(1) Pair assms(2)])
  then show ?thesis using Pair entryStep_reports [of "bodyBytes c j" j "fst w"]
    by (auto simp: putAside_def goodStep_def split: option.split)
qed

lemma noteAdded_fits:
  assumes "0 \<le> qbytes q" "0 \<le> Size e" "qbytes q + Size e \<le> max_int64" "qcount q < max_int64"
  obtains q1 where "noteAddedLocked e q = (True, q1)" "entryStep (Size e) (ID e) q q1" "blocked q1 = blocked q"
    "mget (accounted q) (ID e) = None \<Longrightarrow> mget (accounted q1) (ID e) = Some (accountEntry e)" "scheduled q1 = scheduled q"
proof -
  have "checkedAddInt64 (qbytes q) (Size e) = Some (qbytes q + Size e)"
    using assms(1-3) by (simp add: checkedAddInt64_def int64_defs)
  note nal = this noteAddedLocked_def Let_def setUsage_def
  have "noteAddedLocked e q = (True, snd (noteAddedLocked e q))" using assms(4) by (simp add: nal)
  moreover have "entryStep (Size e) (ID e) q (snd (noteAddedLocked e q))" using assms(2,4) by (auto simp: nal entryStep_def mget_mput)
  moreover have "blocked (snd (noteAddedLocked e q)) = blocked q"
    using assms(4) by (simp add: nal)
  moreover have "mget (accounted (snd (noteAddedLocked e q))) (ID e) = Some (accountEntry e)" if "mget (accounted q) (ID e) = None"
    using that assms(4) by (simp add: nal mget_mput)
  moreover have "scheduled (snd (noteAddedLocked e q)) = scheduled q" using assms(4) by (simp add: nal)
  ultimately show ?thesis by (rule that)
qed

lemma schedule_step: "0 \<le> b \<Longrightarrow> entryStep b (ID e) q (snd (scheduleLocked e q))"
  by (auto simp: scheduleLocked_def entryStep_def Let_def mget_mput)

lemma goodStep_admit:
  assumes "viewOf c L s" "ID e = j" "Size e = bodyBytes c j" "0 \<le> qbytes q" "qbytes q + bodyBytes c j \<le> max_int64" "qcount q < max_int64"
  shows "goodStep c L j (q, s) (admitReady stamp j e (q, s))"
proof -
  obtain q1 where q1: "noteAddedLocked e q = (True, q1)" "entryStep (Size e) (ID e) q q1"
    by (rule noteAdded_fits [of q e]) (use assms in simp_all)
  moreover have "entryStep 0 (ID e) q1 (snd (scheduleLocked e q1))" by (rule schedule_step) simp
  ultimately show ?thesis using assms(1-3) by (auto simp: goodStep_def admitReady_def entryStep_def scheduleLocked_def Let_def)
qed


text \<open>Room in the accounts for the entry to come.\<close>

definition roomFor :: "int \<Rightarrow> Queue \<Rightarrow> bool" where
  "roomFor b q \<longleftrightarrow> 0 \<le> qbytes q \<and> qbytes q + b \<le> max_int64 \<and> qcount q < max_int64"

lemma goodStep_admit':
  assumes "viewOf c L s" "ID e = j" "Size e = bodyBytes c j" "roomFor (bodyBytes c j) q"
  shows "goodStep c L j (q, s) (admitReady stamp j e (q, s))" "goodStep c L j (q, s) (admitReady stamp j e (reportCorrupt m es q, s))"
proof -
  show "goodStep c L j (q, s) (admitReady stamp j e (q, s))"
    by (rule goodStep_admit) (use assms in \<open>simp_all add: roomFor_def\<close>)
  have "goodStep c L j (reportCorrupt m es q, s) (admitReady stamp j e (reportCorrupt m es q, s))"
    by (rule goodStep_admit) (use assms in \<open>simp_all add: roomFor_def reportCorrupt_def\<close>)
  then show "goodStep c L j (q, s) (admitReady stamp j e (reportCorrupt m es q, s))"
    by (simp add: goodStep_def entryStep_def reportCorrupt_def)
qed

lemma goodStep_blocks:
  "viewOf c L s \<Longrightarrow> goodStep c L j (q, s) (recordTransientBlocked j e q, s)"
  "viewOf c L s \<Longrightarrow> goodStep c L j (q, s) (recordBlocked j e q, s)"
  "viewOf c L s \<Longrightarrow> goodStep c L j (q, s) (recordQuarantineFailure j e q, s)"
  "viewOf c L s \<Longrightarrow> goodStep c L j (q, s) (q, s)"
  by (simp_all add: goodStep_def entryStep_reports)

lemma goodStep_state: "goodStep c L j (q, s) w \<longleftrightarrow> goodStep c L j (q, t) w"
  by (simp add: goodStep_def)

lemma goodStep_checkDead:
  assumes "viewOf c L s" "j \<notin> L" "ID e = j" "Size e = bodyBytes c j" "roomFor (bodyBytes c j) q"
  shows "goodStep c L j (q, s) (checkDead x stamp j e (q, s))"
proof -
  obtain r s1 where s1: "loadAcceptedDir x (dirDead, j) j s = (r, s1)" by fastforce
  have v1: "viewOf c L s1" using viewOf_same [OF shown.loadedAccepted assms(1), of x "(dirDead, j)" j] s1 by simp
  obtain r2 s2 where s2: "quarantineDir (dirDead, j) (j @ ''-invalid-dead'') (stamp (j @ ''-invalid-dead'')) s1 = (r2, s2)" by fastforce
  have v2: "viewOf c L s2" by (rule viewOf_quarantine [OF v1 s2]) simp
  have p: "goodStep c L j (q, s1) (putAside stamp j (dirReady, j) nm m cs (q, s1))" for nm m cs
    by (rule goodStep_putAside [where k = j]) (use v1 assms(2) in simp_all)
  note g = p goodStep_blocks [OF v1] goodStep_blocks [OF v2] goodStep_admit' [OF v1 assms(3-5)] goodStep_admit' [OF v2 assms(3-5)]
  have "goodStep c L j (q, s1) (checkDead x stamp j e (q, s)) \<or> goodStep c L j (q, s2) (checkDead x stamp j e (q, s))"
    using s1 s2 g by (cases r; cases r2) (auto simp: checkDead_def)
  then show ?thesis using goodStep_state by blast
qed

lemma goodStep_loadEntry:
  assumes "viewOf c L s" "j \<notin> L" "roomFor (bodyBytes c j) q" "lookupFile (dirReady, j) bodyName s = lookupFile (dirReady, j) bodyName c"
  shows "goodStep c L j (q, s) (loadEntry x stamp j (q, s))"
proof -
  obtain r s1 where s1: "loadDir x (dirReady, j) j s = (r, s1)" by fastforce
  have v1: "viewOf c L s1" using viewOf_same [OF shown.loaded assms(1), of x "(dirReady, j)" j] s1 by simp
  have "goodStep c L j (q, s1) (loadEntry x stamp j (q, s))"
  proof (cases r)
    case (Inl err)
    have "goodStep c L j (q, s1) (putAside stamp j (dirReady, j) nm m cs (q, s1))" for nm m cs
      by (rule goodStep_putAside [where k = j]) (use v1 assms(2) in simp_all)
    then show ?thesis using s1 Inl goodStep_blocks [OF v1] by (simp add: loadEntry_def)
  next
    case (Inr e)
    have "ID e = j" "Size e = bodyBytes c j"
      using loadDir_size [of x j s e s1 c] s1 Inr assms(1,4) by (auto simp: viewOf_def)
    then show ?thesis using s1 Inr goodStep_checkDead [OF v1 assms(2) _ _ assms(3)] by (simp add: loadEntry_def)
  qed
  then show ?thesis using goodStep_state by blast
qed

lemma metaNames_distinct [simp]: "bodyName \<noteq> reviveMetaName" "bodyName \<noteq> metaName"
  by (simp_all add: bodyName_def reviveMetaName_def metaName_def)

lemma goodStep_completeRevive:
  assumes "viewOf c (insert j L) s" "treeNames c" "j \<notin> L" "roomFor (bodyBytes c j) q"
  shows "goodStep c L j (q, s) (completeRevive x stamp j (q, s))"
proof -
  obtain r s1 where s1: "sysStatFile (dirReady, j) reviveMetaName s = (r, s1)" by fastforce
  have v1: "viewOf c (insert j L) s1" using viewOf_same [OF shown.looks(2) assms(1), of "(dirReady, j)" reviveMetaName] s1 by simp
  then have w1: "viewOf c L s1" by (rule viewOf_mono) auto
  have l1: "lookupFile (dirReady, j) bodyName s1 = lookupFile (dirReady, j) bodyName c" using viewOf_file [OF v1] by simp
  obtain m s2 where s2: "moveStateFile (dirReady, j) reviveMetaName metaName s1 = (m, s2)" by fastforce
  have v2: "viewOf c L s2" by (rule viewOf_moveStateFile [OF v1 assms(2,3) s2])
  have l2: "lookupFile (dirReady, j) bodyName s2 = lookupFile (dirReady, j) bodyName c"
    by (rule viewOf_moveStateFile [OF v1 assms(2,3) s2]) simp_all
  have "goodStep c L j (q, s2) (completeRevive x stamp j (q, s)) \<or> goodStep c L j (q, s1) (completeRevive x stamp j (q, s))"
    using s1 s2 goodStep_loadEntry [OF w1 assms(3,4) l1] goodStep_loadEntry [OF v2 assms(3,4) l2]
      goodStep_blocks [OF w1] goodStep_blocks [OF v2]
    by (cases r) (auto simp: completeRevive_def split: prod.split option.split bool.split)
  then show ?thesis using goodStep_state by blast
qed

lemma goodStep_loadReadyOne:
  assumes "viewOf c (insert j L) s" "treeNames c" "j \<notin> L" "roomFor (bodyBytes c j) q"
  shows "goodStep c L j (q, s) (loadReadyOne x stamp j (q, s))"
proof -
  have w: "viewOf c L s" using assms(1) by (rule viewOf_mono) auto
  obtain r s1 where s1: "acceptedDir (dirReady, j) s = (r, s1)" by fastforce
  have v1: "viewOf c (insert j L) s1" using viewOf_same [OF shown.accepted assms(1), of "(dirReady, j)"] s1 by simp
  then have w1: "viewOf c L s1" by (rule viewOf_mono) auto
  have p: "goodStep c L j (q, t) (putAside stamp j (dirReady, j) nm m cs (q, t))" if "viewOf c L t" for t nm m cs
    by (rule goodStep_putAside [where k = j]) (use that assms(3) in simp_all)
  have "goodStep c L j (q, s) (loadReadyOne x stamp j (q, s)) \<or> goodStep c L j (q, s1) (loadReadyOne x stamp j (q, s))"
    using s1 p [OF w] p [OF w1] goodStep_blocks [OF w] goodStep_blocks [OF w1] goodStep_completeRevive [OF v1 assms(2-4)]
    by (cases r) (auto simp: loadReadyOne_def Let_def)
  then show ?thesis using goodStep_state by blast
qed


text \<open>The entry that was accepted is scheduled when its turn comes.\<close>

lemma missing_dead:
  "outcomes s = [] \<Longrightarrow> lookupEntry p s = None \<Longrightarrow> loadAcceptedDir x p i s = (Inl notExist, s)"
  by (simp add: loadAcceptedDir_def loadAcceptedMetadata_def acceptedDir_def readBoundedRegular_def sysStatFile_def sysStat_def
      lookupFile_def bindE_def withValue_def notExist_def)

lemma admit_schedules:
  assumes "roomFor (Size e) q" "0 \<le> Size e" "ID e \<notin> set (blocked q)" "mget (accounted q) (ID e) = None" "mget (scheduled q) (ID e) = None"
  shows "\<exists>q' ref. admitReady stamp (ID e) e (q, s) = (q', s) \<and> mget (scheduled q') (ID e) = Some (ref, cloneEnvelope e)"
proof -
  obtain q1 where q1: "noteAddedLocked e q = (True, q1)" "blocked q1 = blocked q" "scheduled q1 = scheduled q"
    and a: "mget (accounted q1) (ID e) = Some (accountEntry e)"
    by (rule noteAdded_fits [of q e]) (use assms in \<open>auto simp: roomFor_def\<close>)
  have "schedulable q1 e" using q1 a assms(3,5) by (simp add: schedulable_def accountEntry_def)
  then show ?thesis using q1(1) by (simp add: admitReady_def scheduleLocked_def Let_def mget_mput)
qed

definition waiting :: "string \<Rightarrow> Queue \<Rightarrow> bool" where
  "waiting i q \<longleftrightarrow> i \<notin> set (blocked q) \<and> mget (accounted q) i = None \<and> mget (scheduled q) i = None"

definition awaits :: "string \<Rightarrow> Envelope \<Rightarrow> Queue \<Rightarrow> bool" where
  "awaits i e q \<longleftrightarrow> (\<exists>ref. mget (scheduled q) i = Some (ref, cloneEnvelope e))"

text \<open>What the crash left of an accepted entry: it loads, and nothing else bears its name.\<close>

definition loadable :: "ext \<Rightarrow> string \<Rightarrow> Envelope \<Rightarrow> fsys \<Rightarrow> bool" where
  "loadable x i e c \<longleftrightarrow> outcomes c = [] \<and> fst (loadAcceptedDir x (dirReady, i) i c) = Inr e \<and>
     lookupEntry (dirTmp, i) c = None \<and> lookupEntry (dirDead, i) c = None \<and> lookupFile (dirReady, i) reviveMetaName c = None"

lemma loadReadyOne_own:
  assumes "viewOf c L s" "i \<in> L" "loadable x i e c" "roomFor (bodyBytes c i) q" "waiting i q"
  shows "\<exists>q'. loadReadyOne x stamp i (q, s) = (q', s) \<and> awaits i e q'"
proof -
  have c: "outcomes c = []" and l: "loadAcceptedDir x (dirReady, i) i c = (Inr e, snd (loadAcceptedDir x (dirReady, i) i c))"
    using assms(3) by (auto simp: loadable_def intro: prod_eqI)
  note a = viewOf_alike [OF assms(1) c assms(2)]
  note ld = accepted_loads [OF l c]
  have acc: "acceptedDir (dirReady, i) s = (None, s)" using alike_accepted [OF a] ld(1) by simp
  have load: "loadDir x (dirReady, i) i s = (Inr e, s)" using alike_loadDir [OF a, of x i] ld(2) by simp
  have o: "outcomes s = []" using a by (simp add: alike_def)
  have e: "ID e = i" "Size e = bodyBytes c i" "ValidateID i = None" using loadDir_size [OF ld(2) c] by auto
  have rev: "sysStatFile (dirReady, i) reviveMetaName s = (Inl notExist, s)"
    using o a assms(3) by (simp add: sysStatFile_def alike_def loadable_def)
  have "lookupEntry (dirDead, i) s = None" using assms(1,3) by (auto simp: viewOf_def fewer_def loadable_def)
  then have dead: "loadAcceptedDir x (dirDead, i) i s = (Inl notExist, s)" by (rule missing_dead [OF o])
  have "loadReadyOne x stamp i (q, s) = admitReady stamp i e (q, s)"
    using acc load rev dead e(3) assms(5)
    by (simp add: loadReadyOne_def completeRevive_def loadEntry_def checkDead_def waiting_def notExist_def)
  moreover have "\<exists>q' ref. admitReady stamp (ID e) e (q, s) = (q', s) \<and> mget (scheduled q') (ID e) = Some (ref, cloneEnvelope e)"
    by (rule admit_schedules) (use e assms(4,5) in \<open>simp_all add: waiting_def\<close>)
  ultimately show ?thesis using e(1) by (auto simp: awaits_def)
qed

subsection \<open>The whole spool\<close>

definition loading :: "fsys \<Rightarrow> string \<Rightarrow> Envelope \<Rightarrow> string list \<Rightarrow> world \<Rightarrow> bool" where
  "loading c i e ns w \<longleftrightarrow> viewOf c (set ns) (snd w) \<and> 0 \<le> qbytes (fst w) \<and>
     qbytes (fst w) + sum_list (map (bodyBytes c) ns) \<le> max_int64 \<and> qcount (fst w) + int (length ns) \<le> max_int64 \<and>
     (if i \<in> set ns then waiting i (fst w) else awaits i e (fst w))"

lemma loading_step:
  assumes "loading c i e (j # ns) w" "j \<notin> set ns" "loadable x i e c" "treeNames c"
  shows "loading c i e ns (loadReadyOne x stamp j w)"
proof -
  obtain q s where w: "w = (q, s)" by fastforce
  obtain q' s' where w': "loadReadyOne x stamp j (q, s) = (q', s')" by fastforce
  have "0 \<le> sum_list (map (bodyBytes c) ns)" by (rule sum_list_nonneg) auto
  then have room: "roomFor (bodyBytes c j) q" using assms(1) w by (auto simp: loading_def roomFor_def)
  have v: "viewOf c (insert j (set ns)) s" using assms(1) w by (simp add: loading_def)
  have g: "goodStep c (set ns) j (q, s) (q', s')" using goodStep_loadReadyOne [OF v assms(4,2) room] w' by metis
  have "if i \<in> set ns then waiting i q' else awaits i e q'"
  proof (cases "i = j")
    case True
    have "waiting i q" using assms(1) w True by (simp add: loading_def)
    then have "\<exists>q'. loadReadyOne x stamp i (q, s) = (q', s) \<and> awaits i e q'"
      by (intro loadReadyOne_own [OF v _ assms(3)]) (use room True in simp_all)
    then show ?thesis using True assms(2) w' by auto
  next
    case False
    then show ?thesis using assms(1) w g by (auto simp: loading_def goodStep_def entryStep_def waiting_def awaits_def split: if_splits)
  qed
  then show ?thesis using assms(1) w w' g by (auto simp: loading_def goodStep_def entryStep_def)
qed

lemma loading_all:
  assumes "loading c i e ns w" "distinct ns" "loadable x i e c" "treeNames c"
  shows "awaits i e (fst (forNames (loadReadyOne x stamp) ns w))"
  using assms
proof (induction ns arbitrary: w)
  case (Cons j ns)
  then show ?case using loading_step [OF Cons.prems(1) _ Cons.prems(3,4)] by simp
qed (simp add: loading_def)


lemma insertName_set: "set (insertName n ns) = insert n (set ns)" "distinct (insertName n ns) \<longleftrightarrow> n \<notin> set ns \<and> distinct ns"
  by (induction ns) auto

lemma sortNames_set [simp]: "set (sortNames ns) = set ns" "distinct (sortNames ns) = distinct ns"
  by (induction ns) (auto simp: insertName_set)

lemma readNs_names:
  assumes "sysReadNs d s = (r, t)" "outcomes s = []" "rootV s d"
  obtains ns where "r = Inr ns" "t = s" "distinct ns" "set ns = {n. lookupEntry (d, n) s \<noteq> None}"
  using assms that by (auto simp: sysReadNs_def lookupEntry_def map_of_eq_None_iff)

text \<open>The steps before the entries are read leave the accounts empty and the ID free.\<close>

definition prepared :: "fsys \<Rightarrow> string \<Rightarrow> world \<Rightarrow> bool" where
  "prepared c i w \<longleftrightarrow> viewOf c UNIV (snd w) \<and> waiting i (fst w) \<and> qbytes (fst w) = 0 \<and> qcount (fst w) = 0"

lemma prepared_reports:
  assumes "prepared c i (q, s)" "j \<noteq> i"
  shows "prepared c i (recordTransientBlocked j e q, s)" "prepared c i (reportWarning m es q, s)"
  using assms by (auto simp: prepared_def waiting_def recordTransientBlocked_def reportWarning_def blockID_def)

lemma prepared_putAside:
  assumes "prepared c i w" "j \<noteq> i" "fst p \<in> {dirTmp, dirDead, dirDSN}"
  shows "prepared c i (putAside stamp j p nm m cs w)"
proof (cases "quarantineDir p nm (stamp nm) (snd w)")
  case (Pair r t)
  have "viewOf c UNIV t" by (rule viewOf_quarantine [OF _ Pair, where j = j]) (use assms in \<open>auto simp: prepared_def\<close>)
  then show ?thesis using Pair assms(1,2)
    by (auto simp: putAside_def prepared_def waiting_def recordQuarantineFailure_def reportCorrupt_def blockID_def split: option.split)
qed

lemma prepared_same: "prepared c i (q, s) \<Longrightarrow> sameView s t \<Longrightarrow> prepared c i (q, t)"
  using viewOf_same by (auto simp: prepared_def)

lemma forNames_keeps: "P w \<Longrightarrow> (\<And>n w. n \<in> set ns \<Longrightarrow> P w \<Longrightarrow> P (f n w)) \<Longrightarrow> P (forNames f ns w)"
  by (induction ns arbitrary: w) auto

lemma recoverTmp_prepared:
  assumes "prepared c i (q, c)" "loadable x i e c"
  shows "\<exists>w1. recoverTmp stamp (q, c) = (None, w1) \<and> prepared c i w1"
proof -
  have v: "outcomes c = []" "rootV c dirTmp" using assms(1) by (auto simp: prepared_def viewOf_def)
  obtain ns where ns: "sysReadNs dirTmp c = (Inr ns, c)" "set ns = {n. lookupEntry (dirTmp, n) c \<noteq> None}"
    using readNs_names [OF _ v] by (metis surj_pair)
  let ?f = "\<lambda>i. putAside stamp i (dirTmp, i) (i @ ''-uncommitted'') (''tmp '' @ i @ '': interrupted uncommitted add'') []"
  obtain q1 s1 where w1: "forNames ?f ns (q, c) = (q1, s1)" by fastforce
  have "i \<notin> set ns" using ns(2) assms(2) by (simp add: loadable_def)
  then have "prepared c i (forNames ?f ns (q, c))"
    using assms(1) by (intro forNames_keeps [where P = "prepared c i"]) (auto intro!: prepared_putAside)
  then have p: "prepared c i (q1, s1)" using w1 by simp
  then have "outcomes s1 = []" by (simp add: prepared_def viewOf_def)
  then obtain s2 where s2: "diskSyncNs dirTmp s1 = (None, s2)" by (simp add: diskSyncNs_def sysSyncNs_def errOf_def)
  then have "prepared c i (q1, s2)" using prepared_same [OF p] shown_sync(1) [of s1 dirTmp] by simp
  then show ?thesis using ns(1) w1 s2 by (simp add: recoverTmp_def)
qed

lemma cleanTrash_prepared: "prepared c i (q, s) \<Longrightarrow> treeNames c \<Longrightarrow> prepared c i (q, snd (cleanTrash s))"
  by (auto simp: prepared_def viewOf_cleanTrash)

lemma recoverDSN_empty:
  assumes "prepared c i (q, s)" "\<And>n. lookupEntry (dirDSN, n) c = None"
  shows "recoverDSN x stamp (q, s) = (None, q, s)"
proof -
  have v: "outcomes s = []" "rootV s dirDSN" and f: "fewer c s dirDSN" using assms(1) by (auto simp: prepared_def viewOf_def)
  have none: "lookupEntry (dirDSN, n) s = None" for n using f assms(2) by (auto simp: fewer_def)
  obtain ns where "sysReadNs dirDSN s = (Inr ns, s)" "set ns = {n. lookupEntry (dirDSN, n) s \<noteq> None}"
    using readNs_names [OF _ v] by (metis surj_pair)
  then show ?thesis using none by (simp add: recoverDSN_def)
qed

lemma validateDeadOne_prepared:
  assumes "prepared c i w" "j \<noteq> i"
  shows "prepared c i (validateDeadOne x stamp j w)"
proof -
  obtain q s where w: "w = (q, s)" by fastforce
  obtain r s1 where s1: "errOf (loadAcceptedDir x (dirDead, j) j s) = (r, s1)" by fastforce
  then have "sameView s s1" using shown.loadedAccepted [of s x "(dirDead, j)" j] shown.errOfR by (metis snd_conv)
  then have p: "prepared c i (q, s1)" using assms(1) w prepared_same by blast
  show ?thesis using assms w s1 p prepared_reports [OF p assms(2)] prepared_putAside [OF p assms(2), of "(dirDead, j)"]
      prepared_putAside [OF assms, of "(dirDead, j)"] prepared_reports [of c i q s j]
    by (auto simp: validateDeadOne_def split: option.split)
qed

lemma validateDead_prepared:
  assumes "prepared c i (q, s)" "loadable x i e c"
  shows "prepared c i (validateDead x stamp (q, s))"
proof -
  have v: "outcomes s = []" "rootV s dirDead" and f: "fewer c s dirDead" using assms(1) by (auto simp: prepared_def viewOf_def)
  obtain ns where ns: "sysReadNs dirDead s = (Inr ns, s)" "set ns = {n. lookupEntry (dirDead, n) s \<noteq> None}"
    using readNs_names [OF _ v] by (metis surj_pair)
  have "i \<notin> set ns" using ns(2) f assms(2) by (auto simp: fewer_def loadable_def)
  then have "prepared c i (forNames (validateDeadOne x stamp) ns (q, s))"
    using assms(1) by (intro forNames_keeps [where P = "prepared c i"]) (auto intro!: validateDeadOne_prepared)
  then show ?thesis using ns(1) by (simp add: validateDead_def)
qed

text \<open>The accounts have room for everything under \<open>ready/\<close>.\<close>

definition fits :: "fsys \<Rightarrow> bool" where
  "fits c \<longleftrightarrow> (let ns = remdups (mkeys (nsV c dirReady)) in sum_list (map (bodyBytes c) ns) \<le> max_int64 \<and> int (length ns) \<le> max_int64)"

lemma loadReady_awaits:
  assumes "prepared c i (q, s)" "loadable x i e c" "treeNames c" "fits c"
  shows "\<exists>w. loadReady x stamp (q, s) = (None, w) \<and> awaits i e (fst w)"
proof -
  have v: "outcomes s = []" "rootV s dirReady" and vw: "viewOf c UNIV s" using assms(1) by (auto simp: prepared_def viewOf_def)
  obtain ns where ns: "sysReadNs dirReady s = (Inr ns, s)" "distinct ns" "set ns = {n. lookupEntry (dirReady, n) s \<noteq> None}"
    using readNs_names [OF _ v] by (metis surj_pair)
  have same: "lookupEntry (dirReady, n) s = lookupEntry (dirReady, n) c" for n using vw by (simp add: viewOf_def)
  have keys: "set ns = set (remdups (mkeys (nsV c dirReady)))"
    using ns(3) [unfolded same] by (auto simp: lookupEntry_def map_of_eq_None_iff)
  have "sum_list (map (bodyBytes c) ns) = sum (bodyBytes c) (set ns)" using ns(2) by (rule sum_list_distinct_conv_sum_set)
  also have "\<dots> = sum_list (map (bodyBytes c) (remdups (mkeys (nsV c dirReady))))"
    unfolding keys by (rule sum_list_distinct_conv_sum_set [symmetric]) simp
  finally have sum: "sum_list (map (bodyBytes c) ns) \<le> max_int64" using assms(4) by (simp add: fits_def Let_def)
  have "length ns = length (remdups (mkeys (nsV c dirReady)))"
    using keys ns(2) by (metis distinct_card distinct_remdups)
  then have len: "int (length ns) \<le> max_int64" using assms(4) by (simp add: fits_def Let_def)
  have "lookupEntry (dirReady, i) c \<noteq> None"
    using assms(2) missing_dead [of c "(dirReady, i)" x i] by (metis Inl_Inr_False fst_conv loadable_def)
  then have "i \<in> set ns" using ns(3) same by simp
  then have "loading c i e ns (q, s)" using assms(1) sum len viewOf_mono [OF vw, of "set ns"] by (simp add: loading_def prepared_def)
  from loading_all [OF this ns(2) assms(2,3)] show ?thesis using ns(1) by (simp add: loadReady_def)
qed

lemma recoverSpool_awaits:
  assumes "prepared c i (q, c)" "loadable x i e c" "treeNames c" "fits c" "\<And>n. lookupEntry (dirDSN, n) c = None"
  shows "\<exists>w. recoverSpool x stamp (q, c) = (None, w) \<and> awaits i e (fst w)"
proof -
  obtain q1 s1 where w1: "recoverTmp stamp (q, c) = (None, q1, s1)" and p1: "prepared c i (q1, s1)"
    using recoverTmp_prepared [OF assms(1,2)] by (metis surj_pair)
  obtain terr s2 where s2: "cleanTrash s1 = (terr, s2)" by fastforce
  let ?q2 = "case terr of None \<Rightarrow> q1 | Some e \<Rightarrow> reportWarning ''trash cleanup'' [e] q1"
  have "prepared c i (q1, s2)" using cleanTrash_prepared [OF p1 assms(3)] s2 by simp
  then have p2: "prepared c i (?q2, s2)" by (auto simp: prepared_def waiting_def reportWarning_def split: option.split)
  have p3: "prepared c i (validateDead x stamp (?q2, s2))" by (rule validateDead_prepared [OF p2 assms(2)])
  obtain q3 s3 where w3: "validateDead x stamp (?q2, s2) = (q3, s3)" by fastforce
  obtain w where "loadReady x stamp (q3, s3) = (None, w)" "awaits i e (fst w)"
    using loadReady_awaits [OF _ assms(2-4)] p3 w3 by metis
  then show ?thesis using w1 s2 w3 recoverDSN_empty [OF p2 assms(5), of x stamp] by (cases terr) (simp_all add: recoverSpool_def)
qed


subsection \<open>Properties\<close>

text \<open>A spool that holds one accepted message.\<close>

definition sampleLeft :: fsys where
  "sampleLeft = (emptyFS [])\<lparr>nsV := (\<lambda>d. if d = dirReady then [(''m1'', 0)] else []),
     dirV := (\<lambda>i. if i = 0 then [(addStateName, 1), (bodyName, 2), (metaName, 3)] else []),
     fileV := (\<lambda>f. if f = 1 then addAccepted else if f = 2 then ''abcde'' else ''m'')\<rparr>"

lemma sampleLeft_fields [simp]: "outcomes sampleLeft = []" "rootV sampleLeft d"
    "nsV sampleLeft d = (if d = dirReady then [(''m1'', 0)] else [])"
    "dirV sampleLeft i = (if i = 0 then [(addStateName, 1), (bodyName, 2), (metaName, 3)] else [])"
    "fileV sampleLeft f = (if f = 1 then addAccepted else if f = 2 then ''abcde'' else ''m'')"
  by (simp_all add: sampleLeft_def emptyFS_def)

lemma sampleLeft_files: "lookupFile (dirReady, ''m1'') addStateName sampleLeft = Some 1"
    "lookupFile (dirReady, ''m1'') bodyName sampleLeft = Some 2" "lookupFile (dirReady, ''m1'') metaName sampleLeft = Some 3"
    "lookupFile (dirReady, ''m1'') reviveMetaName sampleLeft = None"
  by (simp_all add: lookupFile_def lookupEntry_def addStateName_def bodyName_def metaName_def reviveMetaName_def)

lemma sampleLeft_load: "fst (loadAcceptedDir sampleExt (dirReady, ''m1'') ''m1'' sampleLeft) = Inr sampleStored"
proof -
  have d: "decodeEnvelopeMetadata sampleExt ''m'' ''m1'' = Inr sampleStored" "int (length ''m'') \<le> maxEnvelopeMetadata"
    using decode_stored [OF sampleExt_ok sampleAccepted_text sample_input(5,3)] by (simp_all add: sampleStored_def)
  have b: "Bodies sampleStored = Bodies sampleSubmission" "Size sampleStored = 5" "BodyDigest sampleStored = sampleDigest"
    by (simp_all add: sampleStored_def) (simp add: sampleSubmission_valid, simp add: sampleSubmission_def)
  have v: "verifyBodyData sampleExt sampleStored ''abcde'' = None" using sampleBodies_ok b(1) by (simp add: verifyBodyData_def)
  have t: "validateBodies 5 0 (Bodies sampleSubmission) = Inr 5" by code_simp
  have "loadAcceptedDir sampleExt (dirReady, ''m1'') ''m1'' sampleLeft = (Inr sampleStored, sampleLeft)"
    by (rule loadAcceptedDir_pass [OF _ sampleLeft_files(1) _ sampleLeft_files(2) _ sampleLeft_files(3) _ d(1), where dat = "''abcde''"])
      (use b d(2) v t in \<open>simp_all add: max_int64_def bodyDigest_def sampleDigest_def sampleHash_def\<close>)
  then show ?thesis by simp
qed

lemma sampleLeft_ok: "loadable sampleExt ''m1'' sampleStored sampleLeft" "treeNames sampleLeft" "fits sampleLeft"
    "lookupEntry (dirDSN, n) sampleLeft = None"
  using sampleLeft_load
  by (auto simp: loadable_def sampleLeft_files lookupEntry_def treeNames_def fits_def bodyBytes_def max_int64_def split: if_splits)



end
