(* ===== verification/DeliverErrors.thy ===== *)
theory DeliverErrors
  imports Errors Storage
begin

text \<open>
  Errors of the delivery, \<open>src/internal/deliver/errors.go\<close> and the error type of \<open>response.go\<close>: the
  package's sentinels, a negative SMTP reply, a DNS error with its not-found flag, a network error, an
  error of the queue, and errors that wrap others. Where the code builds an error with
  \<open>fmt.Errorf\<close> its text is kept, since texts end up in what is stored about recipients.
\<close>

datatype dsentinel =
    errBodyTooShort | errBodyTooLong | errNullMX | errNoSuchDomain | errSMTPUTF8Unsupported | err8BITMIMEUnsupported
  | errTLSRequired | errTLSFailed | errNoUsableIP | errPrivateDestination | errAttemptTimeout | errLifetime
  | errSMTPResponseTooLarge

datatype derror =
    Delivery dsentinel
  | SMTPError int string string
  | DNSError bool string
  | NetError string
  | QueueError gerror
  | DWrap string "derror list"

fun sentinelText :: "dsentinel \<Rightarrow> string" where
  "sentinelText errBodyTooShort = ''queued body shorter than envelope size''"
| "sentinelText errBodyTooLong = ''queued body longer than envelope size''"
| "sentinelText errNullMX = ''domain does not accept mail (null MX)''"
| "sentinelText errNoSuchDomain = ''recipient domain does not exist''"
| "sentinelText errSMTPUTF8Unsupported = ''destination does not support SMTPUTF8''"
| "sentinelText err8BITMIMEUnsupported = ''destination does not support 8BITMIME''"
| "sentinelText errTLSRequired = ''TLS required but STARTTLS not available''"
| "sentinelText errTLSFailed = ''STARTTLS failed; refusing plaintext downgrade''"
| "sentinelText errNoUsableIP = ''no usable destination address''"
| "sentinelText errPrivateDestination = ''destination address is not publicly routable''"
| "sentinelText errAttemptTimeout = ''delivery attempt timeout exceeded''"
| "sentinelText errLifetime = ''maximum queue lifetime exceeded''"
| "sentinelText errSMTPResponseTooLarge = ''SMTP response exceeds size limit''"

text \<open>\<open>err.Error()\<close>; the texts of queue errors are a parameter.\<close>

fun errorText :: "(gerror \<Rightarrow> string) \<Rightarrow> derror \<Rightarrow> string" where
  "errorText qt (Delivery s) = sentinelText s"
| "errorText qt (SMTPError c enhanced msg) = formatInt c @ '' '' @ msg"
| "errorText qt (DNSError _ m) = m"
| "errorText qt (NetError m) = m"
| "errorText qt (QueueError g) = qt g"
| "errorText qt (DWrap m _) = m"

text \<open>\<open>errors.Is\<close> with one of the package's sentinels.\<close>

fun isDelivery :: "derror \<Rightarrow> dsentinel \<Rightarrow> bool" where
  "isDelivery (Delivery t) s \<longleftrightarrow> t = s"
| "isDelivery (DWrap m es) s \<longleftrightarrow> list_ex (\<lambda>e. isDelivery e s) es"
| "isDelivery _ s \<longleftrightarrow> False"

text \<open>\<open>errors.AsType[*SMTPError]\<close> and \<open>errors.AsType[*net.DNSError]\<close>: the first of the tree.\<close>

fun asSMTP :: "derror \<Rightarrow> (int \<times> string \<times> string) option" and asSMTPs :: "derror list \<Rightarrow> (int \<times> string \<times> string) option" where
  "asSMTP (SMTPError c e m) = Some (c, e, m)"
| "asSMTP (DWrap m es) = asSMTPs es"
| "asSMTP (Delivery s) = None"
| "asSMTP (DNSError b m) = None"
| "asSMTP (NetError m) = None"
| "asSMTP (QueueError g) = None"
| "asSMTPs [] = None"
| "asSMTPs (e # es) = (case asSMTP e of Some r \<Rightarrow> Some r | None \<Rightarrow> asSMTPs es)"

fun asDNS :: "derror \<Rightarrow> bool option" and asDNSs :: "derror list \<Rightarrow> bool option" where
  "asDNS (DNSError b m) = Some b"
| "asDNS (DWrap m es) = asDNSs es"
| "asDNS (Delivery s) = None"
| "asDNS (SMTPError c e m) = None"
| "asDNS (NetError m) = None"
| "asDNS (QueueError g) = None"
| "asDNSs [] = None"
| "asDNSs (e # es) = (case asDNS e of Some r \<Rightarrow> Some r | None \<Rightarrow> asDNSs es)"

text \<open>The queue errors of the tree, for the checks of \<open>queue/errors.go\<close>.\<close>

fun queueErrors :: "derror \<Rightarrow> gerror list" where
  "queueErrors (QueueError g) = [g]"
| "queueErrors (DWrap m es) = concat (map queueErrors es)"
| "queueErrors _ = []"

definition isCorruptionD :: "derror \<Rightarrow> bool" where
  "isCorruptionD e = list_ex (\<lambda>g. IsCorruption (Some g)) (queueErrors e)"

end
