(* ===== verification/Response.thy ===== *)
theory Response
  imports DeliverErrors
begin

text \<open>
  Replies of SMTP servers and the diagnostics kept of them, \<open>src/internal/deliver/response.go\<close>, with
  the parts of \<open>strings\<close>, \<open>unicode\<close> and \<open>unicode/utf8\<close> it calls.
\<close>

definition maxSMTPResponseBytes :: int where
  "maxSMTPResponseBytes = 65536"

definition maxDiagnosticBytes :: nat where
  "maxDiagnosticBytes = 1024"

definition maxResponseRead :: int where
  "maxResponseRead = 1024"

subsection \<open>Runes\<close>

text \<open>\<open>utf8.AppendRune\<close> of a Unicode scalar value.\<close>

definition isScalar :: "nat \<Rightarrow> bool" where
  "isScalar r \<longleftrightarrow> r < 0xD800 \<or> 0xE000 \<le> r \<and> r < 0x110000"

definition encodeRune :: "nat \<Rightarrow> string" where
  "encodeRune r =
     (if r < 0x80 then [char_of r]
      else if r < 0x800 then [char_of (192 + r div 64), char_of (128 + r mod 64)]
      else if r < 0x10000 then [char_of (224 + r div 4096), char_of (128 + r div 64 mod 64), char_of (128 + r mod 64)]
      else [char_of (240 + r div 262144), char_of (128 + r div 4096 mod 64), char_of (128 + r div 64 mod 64), char_of (128 + r mod 64)])"

text \<open>\<open>strings.ToValidUTF8\<close> with U+FFFD, as the runes of the result: a run of invalid bytes becomes one.\<close>

fun validRunes :: "bool \<Rightarrow> (nat \<times> bool) list \<Rightarrow> nat list" where
  "validRunes bad [] = []"
| "validRunes bad ((r, ok) # rs) =
     (if ok then r # validRunes False rs else if bad then validRunes True rs else runeError # validRunes True rs)"

text \<open>\<open>unicode.IsControl\<close>, and the categories Cf, Zl and Zp.\<close>

definition isControl :: "nat \<Rightarrow> bool" where
  "isControl r \<longleftrightarrow> r < 32 \<or> 127 \<le> r \<and> r < 160"

definition formatRanges :: "(nat \<times> nat) list" where
  "formatRanges =
     [(0xad, 0xad), (0x600, 0x605), (0x61c, 0x61c), (0x6dd, 0x6dd), (0x70f, 0x70f), (0x890, 0x891), (0x8e2, 0x8e2), (0x180e, 0x180e),
      (0x200b, 0x200f), (0x202a, 0x202e), (0x2060, 0x2064), (0x2066, 0x206f), (0xfeff, 0xfeff), (0xfff9, 0xfffb), (0x110bd, 0x110bd),
      (0x110cd, 0x110cd), (0x13430, 0x1343f), (0x1bca0, 0x1bca3), (0x1d173, 0x1d17a), (0xe0001, 0xe0001), (0xe0020, 0xe007f)]"

definition isFormat :: "nat \<Rightarrow> bool" where
  "isFormat r \<longleftrightarrow> list_ex (\<lambda>(lo, hi). lo \<le> r \<and> r \<le> hi) formatRanges \<or> r = 0x2028 \<or> r = 0x2029"

definition isHidden :: "nat \<Rightarrow> bool" where
  "isHidden r \<longleftrightarrow> isControl r \<or> isFormat r"

text \<open>The loop of \<open>normalizeDiagnostic\<close>; \<open>b\<close> is what the builder holds.\<close>

fun normalizeRunes :: "nat list \<Rightarrow> bool \<Rightarrow> string \<Rightarrow> string" where
  "normalizeRunes [] space b = b"
| "normalizeRunes (r # rs) space b =
     (if isHidden r then normalizeRunes rs True b
      else
        (let b1 = (if space \<and> length b > 0 \<and> length b < maxDiagnosticBytes then b @ '' '' else b)
         in if length b1 + length (encodeRune r) > maxDiagnosticBytes then b1
            else normalizeRunes rs False (b1 @ encodeRune r)))"

definition normalizeDiagnostic :: "string \<Rightarrow> string" where
  "normalizeDiagnostic s = trimSpace (normalizeRunes (validRunes False (runes s)) False [])"

subsection \<open>Codes\<close>

text \<open>Go's division truncates towards zero.\<close>

definition goDiv :: "int \<Rightarrow> int \<Rightarrow> int" where
  "goDiv a b = (if a < 0 then - ((- a) div b) else a div b)"

definition enhancedPart :: "string \<Rightarrow> bool" where
  "enhancedPart p \<longleftrightarrow> 1 \<le> length p \<and> length p \<le> 3 \<and> list_all is_digit p"

definition parseEnhancedCode :: "int \<Rightarrow> string \<Rightarrow> string" where
  "parseEnhancedCode c message =
     (let field = fst (cut (CHR '' '') (trimSpace message))
      in case splitOn (CHR ''.'') field of
           [[k], a, b] \<Rightarrow>
             if code k < 50 \<or> code k > 53 \<or> int (code k) - 48 \<noteq> goDiv c 100 then ''''
             else if k \<noteq> CHR ''2'' \<and> k \<noteq> CHR ''4'' \<and> k \<noteq> CHR ''5'' then ''''
             else if enhancedPart a \<and> enhancedPart b then field else ''''
         | _ \<Rightarrow> '''')"

definition smtpCode :: "derror \<Rightarrow> int" where
  "smtpCode e = (case asSMTP e of Some (c, _, _) \<Rightarrow> c | None \<Rightarrow> 0)"

definition smtpEnhancedCode :: "derror \<Rightarrow> string" where
  "smtpEnhancedCode e = (case asSMTP e of Some (_, x, _) \<Rightarrow> x | None \<Rightarrow> '''')"

definition permanent :: "derror \<Rightarrow> bool" where
  "permanent e \<longleftrightarrow> 500 \<le> smtpCode e \<and> smtpCode e < 600"

definition describe :: "(gerror \<Rightarrow> string) \<Rightarrow> derror \<Rightarrow> string" where
  "describe qt e =
     (case asSMTP e of
        Some (c, _, m) \<Rightarrow> normalizeDiagnostic (formatInt c @ '' '' @ m)
      | None \<Rightarrow> normalizeDiagnostic (errorText qt e))"

subsection \<open>Extensions\<close>

definition upper_char :: "char \<Rightarrow> char" where
  "upper_char c = (if is_lower c then char_of (code c - 32) else c)"

definition toUpper :: "string \<Rightarrow> string" where
  "toUpper s = map upper_char s"

fun extensionLines :: "string list \<Rightarrow> (string, string) gmap \<Rightarrow> (string, string) gmap" where
  "extensionLines [] x = x"
| "extensionLines (l # ls) x =
     (let line = trimSpace l
      in if line = '''' then extensionLines ls x
         else (let (nm, param) = cut (CHR '' '') line in extensionLines ls (mput (toUpper nm) param x)))"

definition parseExtensions :: "string list \<Rightarrow> (string, string) gmap" where
  "parseExtensions ls = extensionLines (drop 1 ls) []"

subsection \<open>The size of a reply\<close>

record boundedResponseConn =
  remainingBytes :: int
  exceeded :: bool

definition resetBound :: "boundedResponseConn \<Rightarrow> boundedResponseConn" where
  "resetBound c = c\<lparr>remainingBytes := maxSMTPResponseBytes + 1, exceeded := False\<rparr>"

text \<open>\<open>Read\<close> into a buffer of \<open>len\<close> bytes; \<open>conn\<close> is what the connection answers to a read of at
  most so many bytes: how many it gave, and an error. The result is how many bytes were read and the error.\<close>

definition boundedRead :: "int \<Rightarrow> (int \<Rightarrow> int \<times> derror option) \<Rightarrow> boundedResponseConn \<Rightarrow> (int \<times> derror option) \<times> boundedResponseConn" where
  "boundedRead len conn c =
     (if remainingBytes c \<le> 0 then ((0, Some (Delivery errSMTPResponseTooLarge)), c)
      else
        (let cap = min len (min (remainingBytes c) maxResponseRead);
             (n, err) = conn cap;
             left = remainingBytes c - n;
             c1 = c\<lparr>remainingBytes := left, exceeded := (exceeded c \<or> left = 0)\<rparr>
         in if err = None \<and> left = 0 then ((n, Some (Delivery errSMTPResponseTooLarge)), c1) else ((n, err), c1)))"

end
