(* ===== verification/Response_Props.thy ===== *)
theory Response_Props
  imports Response
begin

text \<open>
  What is kept of a reply is safe to store and to print: it is valid UTF-8 of bounded length without
  control or format characters.
\<close>

subsection \<open>Encoding and decoding runes\<close>

lemma code_char_of [simp]: "n < 256 \<Longrightarrow> code (char_of n) = n"
  by (simp add: code_def)

lemma decode_encode:
  assumes "isScalar r"
  shows "decodeRune (encodeRune r @ s) = (r, length (encodeRune r))"
proof -
  consider "r < 0x80" | "0x80 \<le> r" "r < 0x800" | "0x800 \<le> r" "r < 0x10000" | "0x10000 \<le> r" "r < 0x110000"
    using assms by (force simp: isScalar_def)
  then show ?thesis
  proof cases
    case 2
    have a: "r div 64 < 32" "2 \<le> r div 64" using 2 by linarith+
    have d: "r div 64 * 64 + r mod 64 = r" "r mod 64 < 64" by simp_all
    have c: "code (char_of (192 + r div 64)) = 192 + r div 64" "code (char_of (128 + r mod 64)) = 128 + r mod 64"
      using a by (intro code_char_of; simp)+
    have n: "\<not> r < 0x80" "r < 0x800" using 2 by auto
    show ?thesis using a d by (simp only: encodeRune_def n if_False if_True append.simps decodeRune.simps c inRange_def) auto
  next
    case 3
    have a: "r div 4096 < 16" "r div 64 mod 64 < 64" "r mod 64 < 64" using 3 by auto
    have "r div 64 div 64 = r div 4096" by (simp add: div_mult2_eq [symmetric])
    then have "r = r div 64 * 64 + r mod 64" "r div 64 = r div 4096 * 64 + r div 64 mod 64"
      using div_mult_mod_eq [of r 64] div_mult_mod_eq [of "r div 64" 64] by simp_all
    then have d: "r div 4096 * 4096 + r div 64 mod 64 * 64 + r mod 64 = r" by linarith
    have lo: "32 \<le> r div 64 mod 64" if "r div 4096 = 0" using that 3 by auto
    have hi: "r div 64 mod 64 < 32" if "r div 4096 = 13"
    proof -
      have "r < 0xD800" using assms that by (auto simp: isScalar_def)
      then have "r div 64 < 864" by linarith
      moreover have "r div 64 div 64 = 13" using that by (simp add: div_mult2_eq [symmetric])
      then have "r div 64 = 832 + r div 64 mod 64" using div_mult_mod_eq [of "r div 64" 64] by simp
      ultimately show ?thesis by linarith
    qed
    have c: "code (char_of (224 + r div 4096)) = 224 + r div 4096" "code (char_of (128 + r div 64 mod 64)) = 128 + r div 64 mod 64"
      "code (char_of (128 + r mod 64)) = 128 + r mod 64" using a by (intro code_char_of; simp)+
    have n: "\<not> r < 0x80" "\<not> r < 0x800" "r < 0x10000" using 3 by auto
    show ?thesis using a d lo hi by (simp only: encodeRune_def n if_False if_True append.simps decodeRune.simps c inRange_def) auto
  next
    case 4
    have a: "r div 262144 < 5" "r div 4096 mod 64 < 64" "r div 64 mod 64 < 64" "r mod 64 < 64" using 4 by auto
    have e: "r div 64 div 64 = r div 4096" "r div 4096 div 64 = r div 262144" by (simp_all add: div_mult2_eq [symmetric])
    have "r = r div 64 * 64 + r mod 64" "r div 64 = r div 4096 * 64 + r div 64 mod 64" "r div 4096 = r div 262144 * 64 + r div 4096 mod 64"
      using div_mult_mod_eq [of r 64] div_mult_mod_eq [of "r div 64" 64] div_mult_mod_eq [of "r div 4096" 64] e by simp_all
    then have d: "r div 262144 * 262144 + r div 4096 mod 64 * 4096 + r div 64 mod 64 * 64 + r mod 64 = r" by linarith
    have lo: "16 \<le> r div 4096 mod 64" if "r div 262144 = 0" using that 4 by auto
    have hi: "r div 4096 mod 64 < 16" if "r div 262144 = 4" using that 4(2) d by linarith
    have c: "code (char_of (240 + r div 262144)) = 240 + r div 262144" "code (char_of (128 + r div 4096 mod 64)) = 128 + r div 4096 mod 64"
      "code (char_of (128 + r div 64 mod 64)) = 128 + r div 64 mod 64" "code (char_of (128 + r mod 64)) = 128 + r mod 64"
      using a by (intro code_char_of; simp)+
    have n: "\<not> r < 0x80" "\<not> r < 0x800" "\<not> r < 0x10000" using 4 by auto
    have m: "k mod 64 \<le> 63" for k :: nat using mod_less_divisor [of 64 k] by linarith
    show ?thesis using a d lo hi by (simp only: encodeRune_def n if_False if_True append.simps decodeRune.simps c inRange_def) (auto simp: m)
  qed (simp add: encodeRune_def)
qed

lemma encodeRune_lead:
  assumes "isScalar r"
  obtains c t where "encodeRune r = c # t" "code c < 128 \<longleftrightarrow> t = []" "\<not> inRange 128 191 c" "list_all (inRange 128 191) t" "length t \<le> 3"
proof -
  have b: "r < 0x110000" using assms by (auto simp: isScalar_def)
  have tail: "inRange 128 191 (char_of (128 + k mod 64))" for k :: nat
  proof -
    have "code (char_of (128 + k mod 64)) = 128 + k mod 64" by (intro code_char_of) simp
    then show ?thesis by (simp add: inRange_def)
  qed
  have lead: "code (char_of n) = n" "192 \<le> n \<Longrightarrow> \<not> inRange 128 191 (char_of n)" if "n < 256" for n
    using that by (simp_all add: inRange_def)
  have "r < 0x800 \<Longrightarrow> 192 + r div 64 < 256" "r < 0x10000 \<Longrightarrow> 224 + r div 4096 < 256" "240 + r div 262144 < 256" using b by linarith+
  note l = this [THEN lead(1)] this [THEN lead(2)]
  consider "r < 0x80" | "\<not> r < 0x80" "r < 0x800" | "\<not> r < 0x80" "\<not> r < 0x800" "r < 0x10000"
    | "\<not> r < 0x80" "\<not> r < 0x800" "\<not> r < 0x10000" by blast
  then show ?thesis
  proof cases
    case 1
    then show ?thesis using that [of "char_of r" "[]"] by (simp add: encodeRune_def inRange_def)
  next
    case 2
    then show ?thesis using l(1,4) that [of "char_of (192 + r div 64)" "[char_of (128 + r mod 64)]"]
      by (simp add: encodeRune_def tail)
  next
    case 3
    then show ?thesis using l(2,5) that [of "char_of (224 + r div 4096)" "[char_of (128 + r div 64 mod 64), char_of (128 + r mod 64)]"]
      by (simp add: encodeRune_def tail)
  next
    case 4
    then show ?thesis using l(3,6)
        that [of "char_of (240 + r div 262144)" "[char_of (128 + r div 4096 mod 64), char_of (128 + r div 64 mod 64), char_of (128 + r mod 64)]"]
      by (simp add: encodeRune_def tail)
  qed
qed

definition encodeRunes :: "nat list \<Rightarrow> string" where
  "encodeRunes rs = concat (map encodeRune rs)"

lemma encodeRunes_simps [simp]: "encodeRunes [] = []" "encodeRunes (r # rs) = encodeRune r @ encodeRunes rs"
    "encodeRunes (rs @ qs) = encodeRunes rs @ encodeRunes qs"
  by (simp_all add: encodeRunes_def)

lemma runes_encode: "list_all isScalar rs \<Longrightarrow> runes (encodeRunes rs) = map (\<lambda>r. (r, True)) rs"
proof (induction rs)
  case (Cons r rs)
  then have r: "isScalar r" by simp
  obtain c t where e: "encodeRune r = c # t" "code c < 128 \<longleftrightarrow> t = []" by (rule encodeRune_lead [OF r]) blast
  have "decodeRune (c # t @ encodeRunes rs) = (r, Suc (length t))" using decode_encode [OF r, of "encodeRunes rs"] e by simp
  then show ?case using Cons e by (auto simp: Let_def)
qed simp

lemma trimLeft_encode: "list_all isScalar rs \<Longrightarrow> trimLeftSpace (encodeRunes rs) = encodeRunes (dropWhile isSpaceRune rs)"
proof (induction rs)
  case (Cons r rs)
  then have r: "isScalar r" by simp
  obtain c t where e: "encodeRune r = c # t" by (rule encodeRune_lead [OF r]) blast
  have "decodeRune (c # t @ encodeRunes rs) = (r, Suc (length t))" using decode_encode [OF r, of "encodeRunes rs"] e by simp
  then show ?case using Cons e by (simp add: Let_def)
qed simp

lemma decodeLast_encode:
  assumes "isScalar r"
  shows "decodeLastRune (p @ encodeRune r) = (r, length (encodeRune r))"
proof -
  obtain c t where e: "encodeRune r = c # t" "code c < 128 \<longleftrightarrow> t = []" "\<not> inRange 128 191 c" "list_all (inRange 128 191) t" "length t \<le> 3"
    by (rule encodeRune_lead [OF assms])
  show ?thesis
  proof (cases "t = []")
    case True
    then have "decodeRune [c] = (r, 1)" using decode_encode [OF assms, of "[]"] e by simp
    then show ?thesis using e True by (auto simp: decodeLastRune_def)
  next
    case False
    let ?s = "p @ c # t"
    have "inRange 128 191 (last t)" using e(4) last_in_set [OF False] by (simp add: list_all_iff)
    then have l: "\<not> code (last ?s) < 128" using False by (simp add: inRange_def)
    have "takeWhile (inRange 128 191) (take 3 (drop 1 (rev ?s))) = drop 1 (rev t)"
    proof -
      have "drop 1 (rev ?s) = drop 1 (rev t) @ c # rev p" using False by (cases t rule: rev_cases) simp_all
      then have "take 3 (drop 1 (rev ?s)) = drop 1 (rev t) @ c # take (2 - length (drop 1 (rev t))) (rev p)"
        using e(5) False by (cases t rule: rev_cases) (auto simp: take_Cons' numeral_3_eq_3 numeral_2_eq_2)
      moreover have "\<forall>x \<in> set (drop 1 (rev t)). inRange 128 191 x" using e(4) by (auto simp: list_all_iff dest: in_set_dropD)
      ultimately show ?thesis using e(3) by (simp add: takeWhile_tail)
    qed
    then have "lastRuneStart ?s = length p"
      using e(5) False by (cases t rule: rev_cases) (auto simp: lastRuneStart_def Let_def)
    moreover have "decodeRune (c # t) = (r, length (c # t))" using decode_encode [OF assms, of "[]"] e(1) by simp
    ultimately show ?thesis using e(1) l by (simp add: decodeLastRune_def Let_def)
  qed
qed

lemma trimRight_encode: "list_all isScalar rs \<Longrightarrow> trimRightSpace (encodeRunes rs) = encodeRunes (rev (dropWhile isSpaceRune (rev rs)))"
proof (induction rs rule: rev_induct)
  case (snoc r rs)
  then have r: "isScalar r" by simp
  obtain c t where e: "encodeRune r = c # t" by (rule encodeRune_lead [OF r]) blast
  obtain d u where u: "encodeRunes rs @ encodeRune r = d # u" using e by (cases "encodeRunes rs") auto
  have "decodeLastRune (d # u) = (r, length (encodeRune r))" using decodeLast_encode [OF r, of "encodeRunes rs"] u by simp
  moreover have "take (length (d # u) - length (encodeRune r)) (d # u) = encodeRunes rs" unfolding u [symmetric] by simp
  ultimately show ?case using snoc u by (simp add: Let_def)
qed simp

lemma trim_encode:
  assumes "list_all isScalar rs"
  shows "trimSpace (encodeRunes rs) = encodeRunes (rev (dropWhile isSpaceRune (rev (dropWhile isSpaceRune rs))))"
proof -
  have "list_all isScalar (dropWhile isSpaceRune rs)" using assms by (auto simp: list_all_iff dest: set_dropWhileD)
  then show ?thesis using assms by (simp add: trimSpace_def trimLeft_encode trimRight_encode)
qed


subsection \<open>Diagnostics\<close>

lemma decodeRune_scalar: "isScalar (fst (decodeRune s))"
proof (cases s)
  case (Cons a t)
  have e1: "isScalar (code a)" if "code a < 128" using that by (simp add: isScalar_def)
  have e2: "isScalar ((code a - 192) * 64 + (code b - 128))" if "inRange 194 223 a" "inRange 128 191 b" for b
    using that by (auto simp: isScalar_def inRange_def)
  have err: "isScalar runeError" by (simp add: isScalar_def runeError_def)
  have e3: "isScalar ((code a - 224) * 4096 + (code b - 128) * 64 + (code c - 128))"
    if "inRange 224 239 a" "inRange (if code a = 224 then 160 else 128) (if code a = 237 then 159 else 191) b" "inRange 128 191 c" for b c
  proof (cases "code a < 237")
    case True
    then show ?thesis using that by (auto simp: isScalar_def inRange_def)
  next
    case False
    then show ?thesis using that by (cases "code a = 237") (auto simp: isScalar_def inRange_def)
  qed
  have e4: "isScalar ((code a - 240) * 262144 + (code b - 128) * 4096 + (code c - 128) * 64 + (code d - 128))"
    if "inRange 240 244 a" "inRange (if code a = 240 then 144 else 128) (if code a = 244 then 143 else 191) b" "inRange 128 191 c" "inRange 128 191 d" for b c d
    using that by (cases "code a = 240"; cases "code a = 244") (auto simp: isScalar_def inRange_def)
  have ifI: "(k \<Longrightarrow> isScalar (fst p)) \<Longrightarrow> (\<not> k \<Longrightarrow> isScalar (fst q)) \<Longrightarrow> isScalar (fst (if k then p else q))" for k and p q :: "nat \<times> nat"
    by simp
  have caseI: "isScalar (fst p) \<Longrightarrow> (\<And>h u. isScalar (fst (f h u))) \<Longrightarrow> isScalar (fst (case l of [] \<Rightarrow> p | h # u \<Rightarrow> f h u))"
    for p :: "nat \<times> nat" and f and l :: string by (cases l) simp_all
  show ?thesis unfolding Cons decodeRune.simps by (intro ifI caseI) (simp_all add: e1 e2 err e3 e4)
qed (simp add: isScalar_def runeError_def)

lemma runes_scalar: "list_all (\<lambda>p. isScalar (fst p)) (runes s)"
proof (induction s rule: runes.induct)
  case (2 c s)
  then show ?case using decodeRune_scalar [of "c # s"]
    by (cases "decodeRune (c # s)") (simp add: Let_def del: decodeRune.simps)
qed simp

lemma validRunes_scalar: "list_all (\<lambda>p. isScalar (fst p)) rs \<Longrightarrow> list_all isScalar (validRunes bad rs)"
  by (induction bad rs rule: validRunes.induct) (auto simp: isScalar_def runeError_def)

definition cleanText :: "nat list \<Rightarrow> bool" where
  "cleanText rs \<longleftrightarrow> list_all (\<lambda>r. isScalar r \<and> \<not> isHidden r) rs"

lemma space_clean: "encodeRune 32 = '' ''" "isScalar 32" "\<not> isHidden 32"
  by (simp_all add: encodeRune_def isScalar_def isHidden_def isControl_def isFormat_def formatRanges_def) code_simp

lemma normalizeRunes_clean:
  "list_all isScalar rs \<Longrightarrow> cleanText qs \<Longrightarrow> length (encodeRunes qs) \<le> maxDiagnosticBytes \<Longrightarrow>
   \<exists>out. normalizeRunes rs space (encodeRunes qs) = encodeRunes out \<and> cleanText out \<and> length (encodeRunes out) \<le> maxDiagnosticBytes"
proof (induction rs arbitrary: qs space)
  case (Cons r rs)
  show ?case
  proof (cases "isHidden r")
    case True
    then show ?thesis using Cons by simp
  next
    case False
    let ?b = "encodeRunes qs"
    let ?qs = "if space \<and> length ?b > 0 \<and> length ?b < maxDiagnosticBytes then qs @ [32] else qs"
    have b1: "(if space \<and> length ?b > 0 \<and> length ?b < maxDiagnosticBytes then ?b @ '' '' else ?b) = encodeRunes ?qs"
      by (simp add: space_clean)
    have q: "cleanText ?qs" "length (encodeRunes ?qs) \<le> maxDiagnosticBytes"
      using Cons.prems space_clean by (auto simp: cleanText_def)
    show ?thesis
    proof (cases "length (encodeRunes ?qs) + length (encodeRune r) > maxDiagnosticBytes")
      case True
      then show ?thesis using False q b1 by (auto simp: Let_def simp del: encodeRunes_simps)
    next
      case fit: False
      have "cleanText (?qs @ [r])" "length (encodeRunes (?qs @ [r])) \<le> maxDiagnosticBytes"
        using q(1) Cons.prems(1) False fit by (auto simp: cleanText_def)
      from Cons.IH [OF _ this, of False] Cons.prems(1)
      have "\<exists>out. normalizeRunes rs False (encodeRunes ?qs @ encodeRune r) = encodeRunes out \<and> cleanText out \<and> length (encodeRunes out) \<le> maxDiagnosticBytes"
        by simp
      then show ?thesis using False fit by (simp only: normalizeRunes.simps Let_def b1 if_False)
    qed
  qed
qed auto

text \<open>C37: diagnostics are safe to store and to print. Whatever a server answers, the normalized
  text is valid UTF-8 of at most 1024 bytes and contains no control, format or line separator
  characters, so no reply can inject a line into a report or a log.\<close>

theorem diagnostic_safe:
  "utf8Valid (normalizeDiagnostic s) \<and> length (normalizeDiagnostic s) \<le> 1024 \<and>
   list_all (\<lambda>(r, ok). ok \<and> \<not> isHidden r) (runes (normalizeDiagnostic s))"
proof -
  have v: "list_all isScalar (validRunes False (runes s))" by (rule validRunes_scalar [OF runes_scalar])
  obtain out where out: "normalizeRunes (validRunes False (runes s)) False (encodeRunes []) = encodeRunes out" "cleanText out"
      "length (encodeRunes out) \<le> maxDiagnosticBytes"
    using normalizeRunes_clean [OF v, of "[]" False] by (auto simp: cleanText_def)
  let ?t = "rev (dropWhile isSpaceRune (rev (dropWhile isSpaceRune out)))"
  have sc: "list_all isScalar out" using out(2) by (auto simp: cleanText_def list_all_iff)
  have n: "normalizeDiagnostic s = encodeRunes ?t" using out(1) trim_encode [OF sc] by (simp add: normalizeDiagnostic_def)
  have sub: "set ?t \<subseteq> set out" by (auto dest!: set_dropWhileD)
  then have ct: "list_all isScalar ?t" "list_all (\<lambda>r. \<not> isHidden r) ?t" using out(2) by (auto simp: cleanText_def list_all_iff)
  have len: "length (encodeRunes (dropWhile P rs)) \<le> length (encodeRunes rs)" for P rs by (induction rs) auto
  have rv: "length (encodeRunes (rev rs)) = length (encodeRunes rs)" for rs by (induction rs) auto
  have "length (encodeRunes ?t) \<le> length (encodeRunes out)" using len rv by (metis order_trans)
  then have "length (normalizeDiagnostic s) \<le> 1024" using out(3) n by (simp add: maxDiagnosticBytes_def)
  moreover have r: "runes (normalizeDiagnostic s) = map (\<lambda>r. (r, True)) ?t" unfolding n by (rule runes_encode [OF ct(1)])
  ultimately show ?thesis using ct(2) by (simp add: utf8Valid_def list_all_iff)
qed

end
