(* ===== verification/Netpolicy.thy ===== *)
theory Netpolicy
  imports Prelude "HOL-Library.Word" "HOL-Library.Product_Lexorder"
begin

unbundle bit_operations_syntax

text \<open>
  Addresses that outbound connections may not use, \<open>src/internal/netpolicy/address.go\<close>, with the
  parts of \<open>net/netip\<close> it calls. An address is a \<open>net.IP\<close>, a slice of bytes, and becomes
  a \<open>netip.Addr\<close> when it has 4 or 16 of them.
\<close>

type_synonym ip = "8 word list"

datatype addr = V4 "32 word" | V6 "128 word"

definition bigEndian :: "ip \<Rightarrow> 'a::len word" where
  "bigEndian bs = fold (\<lambda>b acc. push_bit 8 acc OR ucast b) bs 0"

definition AddrFromSlice :: "ip \<Rightarrow> addr option" where
  "AddrFromSlice bs = (if length bs = 4 then Some (V4 (bigEndian bs)) else if length bs = 16 then Some (V6 (bigEndian bs)) else None)"

text \<open>An IPv4-mapped IPv6 address is the IPv4 address.\<close>

fun Unmap :: "addr \<Rightarrow> addr" where
  "Unmap (V4 w) = V4 w"
| "Unmap (V6 w) = (if drop_bit 32 w = 0xFFFF then V4 (ucast w) else V6 w)"

text \<open>\<open>Prefix.Contains\<close>: addresses of the two families never match.\<close>

fun containsAddr :: "addr \<times> nat \<Rightarrow> addr \<Rightarrow> bool" where
  "containsAddr (V4 p, bits) (V4 w) = (drop_bit (32 - bits) (w XOR p) = 0)"
| "containsAddr (V6 p, bits) (V6 w) = ((w XOR p) AND push_bit (128 - bits) (- 1) = 0)"
| "containsAddr _ _ = False"

definition v4 :: "nat \<Rightarrow> nat \<Rightarrow> nat \<Rightarrow> nat \<Rightarrow> addr" where
  "v4 a b c d = V4 (of_nat (((a * 256 + b) * 256 + c) * 256 + d))"

text \<open>An IPv6 address from its leading groups.\<close>

definition v6 :: "nat list \<Rightarrow> addr" where
  "v6 gs = V6 (push_bit (16 * (8 - length gs)) (of_nat (fold (\<lambda>g acc. acc * 65536 + g) gs 0)))"

definition restrictedPrefixes :: "(addr \<times> nat) list" where
  "restrictedPrefixes =
     [(v4 0 0 0 0, 8), (v4 10 0 0 0, 8), (v4 100 64 0 0, 10), (v4 127 0 0 0, 8), (v4 169 254 0 0, 16), (v4 172 16 0 0, 12),
      (v4 192 0 0 0, 24), (v4 192 0 2 0, 24), (v4 192 31 196 0, 24), (v4 192 52 193 0, 24), (v4 192 88 99 0, 24),
      (v4 192 168 0 0, 16), (v4 192 175 48 0, 24), (v4 198 18 0 0, 15), (v4 198 51 100 0, 24), (v4 203 0 113 0, 24),
      (v4 224 0 0 0, 4), (v4 240 0 0 0, 4),
      (v6 [], 128), (v6 [0, 0, 0, 0, 0, 0, 0, 1], 128), (v6 [0x64, 0xff9b], 96), (v6 [0x64, 0xff9b, 1], 48), (v6 [0x100], 64),
      (v6 [0x100, 0, 0, 1], 64), (v6 [0x2001], 23), (v6 [0x2001, 0xdb8], 32), (v6 [0x2002], 16), (v6 [0x2620, 0x4f, 0x8000], 48),
      (v6 [0x3fff], 20), (v6 [0x5f00], 16), (v6 [0xfc00], 7), (v6 [0xfec0], 10), (v6 [0xfe80], 10), (v6 [0xff00], 8)]"

definition Restricted :: "ip \<Rightarrow> bool" where
  "Restricted i =
     (case AddrFromSlice i of
        None \<Rightarrow> True
      | Some a \<Rightarrow> list_ex (\<lambda>p. containsAddr p (Unmap a)) restrictedPrefixes)"

subsection \<open>Order\<close>

text \<open>\<open>Addr.Compare\<close>: IPv4 first, then by value.\<close>

fun addrKey :: "addr \<Rightarrow> nat \<times> nat" where
  "addrKey (V4 w) = (32, unat w)"
| "addrKey (V6 w) = (128, unat w)"

lemma addrKey_inj: "addrKey a = addrKey b \<Longrightarrow> a = b"
  by (cases a; cases b) (auto simp: word_unat_eq_iff)

instantiation addr :: linorder
begin

definition less_eq_addr :: "addr \<Rightarrow> addr \<Rightarrow> bool" where
  "less_eq_addr a b \<longleftrightarrow> addrKey a \<le> addrKey b"

definition less_addr :: "addr \<Rightarrow> addr \<Rightarrow> bool" where
  "less_addr a b \<longleftrightarrow> addrKey a < addrKey b"

instance
  by standard (auto simp: less_eq_addr_def less_addr_def addrKey_inj intro: addrKey_inj)

end


subsection \<open>Reference\<close>

text \<open>A prefix holds the addresses that agree with it in their leading bits.\<close>

lemma drop_bit_xor_zero: "drop_bit n (w XOR p) = 0 \<longleftrightarrow> drop_bit n w = drop_bit n (p :: 'a::len word)"
  by (auto simp: bit_eq_iff bit_simps)

lemma unat_drop_bit: "unat (drop_bit n w) = unat w div 2 ^ n"
  by (metis drop_bit_eq_div unat_drop_bit_eq)

lemma contains_v4: "containsAddr (V4 p, bits) (V4 w) \<longleftrightarrow> unat w div 2 ^ (32 - bits) = unat p div 2 ^ (32 - bits)"
  unfolding containsAddr.simps drop_bit_xor_zero by (simp only: word_unat_eq_iff [of "drop_bit _ w"] unat_drop_bit)

text \<open>The value of the bytes in base 256.\<close>

definition bytesValue :: "ip \<Rightarrow> nat" where
  "bytesValue bs = fold (\<lambda>b n. n * 256 + unat b) bs 0"

lemma bytesValue_snoc: "bytesValue (bs @ [b]) = bytesValue bs * 256 + unat b"
  by (simp add: bytesValue_def)

lemma bigEndian_snoc: "bigEndian (bs @ [b]) = push_bit 8 (bigEndian bs) OR ucast b"
  by (simp add: bigEndian_def)

lemma octet: "unat (x :: 8 word) < 256"
  using unsigned_less [of x, where ?'a = nat] by simp

lemma bytesValue_less: "bytesValue bs < 256 ^ length bs"
proof (induction bs rule: rev_induct)
  case (snoc b bs)
  then have "bytesValue bs * 256 + 256 \<le> 256 ^ length bs * 256" by linarith
  then show ?case using octet [of b] by (simp add: bytesValue_snoc)
qed (simp add: bytesValue_def)

lemma unat_bigEndian: "8 * length bs \<le> LENGTH('a) \<Longrightarrow> unat (bigEndian bs :: 'a::len word) = bytesValue bs"
proof (induction bs rule: rev_induct)
  case (snoc b bs)
  let ?acc = "bigEndian bs :: 'a word"
  have "push_bit 8 ?acc AND ucast b = 0"
    by (rule bit_word_eqI) (auto simp: bit_simps dest: bit_imp_le_length)
  then have e: "bigEndian (bs @ [b]) = push_bit 8 ?acc + ucast b" by (simp add: bigEndian_snoc disjunctive_add_eq_or)
  have "bytesValue (bs @ [b]) < 256 ^ length (bs @ [b])" by (rule bytesValue_less)
  also have "(256 :: nat) ^ length (bs @ [b]) = 2 ^ (8 * length (bs @ [b]))" by (subst power_mult) simp
  also have "\<dots> \<le> 2 ^ LENGTH('a)" using snoc.prems by (intro power_increasing) simp_all
  finally have fit: "bytesValue bs * 256 + unat b < 2 ^ LENGTH('a)" by (simp only: bytesValue_snoc)
  have p: "unat (push_bit 8 ?acc) = bytesValue bs * 256"
    using snoc fit by (simp only: unsigned_push_bit_eq) (simp add: push_bit_eq_mult take_bit_nat_eq_self)
  have u: "unat (ucast b :: 'a word) = unat b"
    using fit by (simp add: unsigned_ucast_eq take_bit_nat_eq_self)
  show ?case using fit by (simp add: e unat_word_ariths p u bytesValue_snoc)
qed (simp add: bytesValue_def bigEndian_def)

lemma unat_v4: "unat (bigEndian [a, b, c, d] :: 32 word) = ((unat a * 256 + unat b) * 256 + unat c) * 256 + unat d"
  by (simp add: unat_bigEndian bytesValue_def)

lemma octets_div:
  fixes a b c d :: nat
  assumes "b < 256" "c < 256" "d < 256"
  defines "n \<equiv> ((a * 256 + b) * 256 + c) * 256 + d"
  shows "n div 256 = (a * 256 + b) * 256 + c" "n div 65536 = a * 256 + b" "n div 131072 = (a * 256 + b) div 2"
    "n div 1048576 = (a * 256 + b) div 16" "n div 4194304 = (a * 256 + b) div 64" "n div 16777216 = a" "n div 268435456 = a div 16"
proof -
  have s: "(x * 256 + y) div 256 = x" if "y < 256" for x y :: nat using that by simp
  have d: "m div (k * l) = m div k div l" for m k l :: nat by (rule div_mult2_eq)
  show 1: "n div 256 = (a * 256 + b) * 256 + c" unfolding n_def by (rule s [OF assms(3)])
  show 2: "n div 65536 = a * 256 + b" using d [of n 256 256] 1 s [OF assms(2)] by simp
  show "n div 131072 = (a * 256 + b) div 2" "n div 1048576 = (a * 256 + b) div 16" "n div 4194304 = (a * 256 + b) div 64"
    using d [of n 65536 2] d [of n 65536 16] d [of n 65536 64] 2 by simp_all
  show 3: "n div 16777216 = a" using d [of n 65536 256] 2 s [OF assms(1)] by simp
  show "n div 268435456 = a div 16" using d [of n 16777216 16] 3 by simp
qed

lemma div_range: "0 < k \<Longrightarrow> (x :: nat) div k = m \<longleftrightarrow> m * k \<le> x \<and> x < m * k + k"
  by (metis add.commute div_nat_eqI div_times_less_eq_dividend dividend_less_div_times mult.commute mult_Suc)

lemma contains_v4_const:
  "n < 2 ^ 32 \<Longrightarrow> containsAddr (V4 (of_nat n), bits) (V4 w) \<longleftrightarrow> unat w div 2 ^ (32 - bits) = n div 2 ^ (32 - bits)"
  by (simp add: contains_v4 unsigned_of_nat take_bit_nat_eq_self del: containsAddr.simps)

text \<open>The restricted IPv4 addresses, by their octets.\<close>

definition restrictedOctets :: "nat \<Rightarrow> nat \<Rightarrow> nat \<Rightarrow> bool" where
  "restrictedOctets a b c \<longleftrightarrow> a = 0 \<or> a = 10 \<or> a = 100 \<and> 64 \<le> b \<and> b < 128 \<or> a = 127 \<or> a = 169 \<and> b = 254 \<or>
     a = 172 \<and> 16 \<le> b \<and> b < 32 \<or> a = 192 \<and> b = 0 \<and> c = 0 \<or> a = 192 \<and> b = 0 \<and> c = 2 \<or> a = 192 \<and> b = 31 \<and> c = 196 \<or>
     a = 192 \<and> b = 52 \<and> c = 193 \<or> a = 192 \<and> b = 88 \<and> c = 99 \<or> a = 192 \<and> b = 168 \<or> a = 192 \<and> b = 175 \<and> c = 48 \<or>
     a = 198 \<and> 18 \<le> b \<and> b < 20 \<or> a = 198 \<and> b = 51 \<and> c = 100 \<or> a = 203 \<and> b = 0 \<and> c = 113 \<or> 224 \<le> a"

lemma prefix_octets:
  fixes a b c :: nat
  assumes "a < 256" "b < 256" "c < 256"
  shows "(a * 256 + b) div 64 = 401 \<longleftrightarrow> a = 100 \<and> 64 \<le> b \<and> b < 128"
    "(a * 256 + b) div 16 = 2753 \<longleftrightarrow> a = 172 \<and> 16 \<le> b \<and> b < 32"
    "(a * 256 + b) div 2 = 25353 \<longleftrightarrow> a = 198 \<and> 18 \<le> b \<and> b < 20"
    "a div 16 = 14 \<or> a div 16 = 15 \<longleftrightarrow> 224 \<le> a"
proof -
  have "(a * 256 + b) div 64 = 401 \<longleftrightarrow> 25664 \<le> a * 256 + b \<and> a * 256 + b < 25728" by (simp add: div_range)
  also have "\<dots> \<longleftrightarrow> a = 100 \<and> 64 \<le> b \<and> b < 128" using assms(2) by presburger
  finally show "(a * 256 + b) div 64 = 401 \<longleftrightarrow> a = 100 \<and> 64 \<le> b \<and> b < 128" .
  have "(a * 256 + b) div 16 = 2753 \<longleftrightarrow> 44048 \<le> a * 256 + b \<and> a * 256 + b < 44064" by (simp add: div_range)
  also have "\<dots> \<longleftrightarrow> a = 172 \<and> 16 \<le> b \<and> b < 32" using assms(2) by presburger
  finally show "(a * 256 + b) div 16 = 2753 \<longleftrightarrow> a = 172 \<and> 16 \<le> b \<and> b < 32" .
  have "(a * 256 + b) div 2 = 25353 \<longleftrightarrow> 50706 \<le> a * 256 + b \<and> a * 256 + b < 50708" by (simp add: div_range)
  also have "\<dots> \<longleftrightarrow> a = 198 \<and> 18 \<le> b \<and> b < 20" using assms(2) by presburger
  finally show "(a * 256 + b) div 2 = 25353 \<longleftrightarrow> a = 198 \<and> 18 \<le> b \<and> b < 20" .
  show "a div 16 = 14 \<or> a div 16 = 15 \<longleftrightarrow> 224 \<le> a" using assms(1) by (simp add: div_range) linarith
qed

lemma octets_eq:
  fixes a b c x y z :: nat
  assumes "b < 256" "c < 256" "y < 256" "z < 256"
  shows "a * 256 + b = x * 256 + y \<longleftrightarrow> a = x \<and> b = y"
    "(a * 256 + b) * 256 + c = (x * 256 + y) * 256 + z \<longleftrightarrow> a = x \<and> b = y \<and> c = z"
proof -
  have e: "p * 256 + q = r * 256 + s \<longleftrightarrow> p = r \<and> q = s" if "q < 256" "s < 256" for p q r s :: nat
  proof
    assume eq: "p * 256 + q = r * 256 + s"
    then have "(p * 256 + q) div 256 = (r * 256 + s) div 256" by simp
    then have "p = r" using that by simp
    with eq show "p = r \<and> q = s" by simp
  qed simp
  show "a * 256 + b = x * 256 + y \<longleftrightarrow> a = x \<and> b = y" using e assms by simp
  show "(a * 256 + b) * 256 + c = (x * 256 + y) * 256 + z \<longleftrightarrow> a = x \<and> b = y \<and> c = z"
    unfolding e [OF assms(2,4)] e [OF assms(1,3)] by blast
qed

lemma contains_v4_div:
  assumes "unat w = n"
  shows "a < 256 \<Longrightarrow> b < 256 \<Longrightarrow> c < 256 \<Longrightarrow> d < 256 \<Longrightarrow> containsAddr (v4 a b c d, bits) (V4 w) \<longleftrightarrow>
    n div 2 ^ (32 - bits) = (((a * 256 + b) * 256 + c) * 256 + d) div 2 ^ (32 - bits)"
    and "\<not> containsAddr (v6 gs, bits) (V4 w)"
  using assms by (simp_all add: v4_def v6_def contains_v4_const del: containsAddr.simps(1) of_nat_add of_nat_mult)

lemma restricted_v4: "Restricted [a, b, c, d] \<longleftrightarrow> restrictedOctets (unat a) (unat b) (unat c)"
proof -
  define n where "n = unat (bigEndian [a, b, c, d] :: 32 word)"
  note dv = octets_div [of "unat b" "unat c" "unat d" "unat a", OF octet octet octet, folded unat_v4, folded n_def]
  note pf = prefix_octets [of "unat a" "unat b" "unat c", OF octet octet octet]
  note eq = octets_eq [of "unat b" "unat c", OF octet octet, of _ _ "unat a"]
  have e2: "unat a * 256 + unat b = x * 256 + y \<longleftrightarrow> unat a = x \<and> unat b = y" if "y < 256" for x y
    using eq(1) [of y 0 x] that by simp
  have e3: "(unat a * 256 + unat b) * 256 + unat c = (x * 256 + y) * 256 + z \<longleftrightarrow> unat a = x \<and> unat b = y \<and> unat c = z"
    if "y < 256" "z < 256" for x y z using eq(2) [of y z x] that by simp
  have "Restricted [a, b, c, d] \<longleftrightarrow> list_ex (\<lambda>p. containsAddr p (V4 (bigEndian [a, b, c, d]))) restrictedPrefixes"
    by (simp add: Restricted_def AddrFromSlice_def)
  also have "\<dots> \<longleftrightarrow> restrictedOctets (unat a) (unat b) (unat c)"
    using pf e2 [of 254 169] e2 [of 168 192] e3 [of 0 0 192] e3 [of 0 2 192] e3 [of 31 196 192] e3 [of 52 193 192] e3 [of 88 99 192]
      e3 [of 175 48 192] e3 [of 51 100 198] e3 [of 0 113 203]
    by (simp add: restrictedPrefixes_def contains_v4_div [OF n_def [symmetric]] dv restrictedOctets_def del: containsAddr.simps)
  finally show ?thesis .
qed


text \<open>The mapped form of an IPv4 address.\<close>

definition mapped :: "ip \<Rightarrow> ip" where
  "mapped bs = replicate 10 0 @ [255, 255] @ bs"

lemma low_word:
  "(ucast (push_bit 8 (push_bit 8 (push_bit 8 (push_bit 8 k OR ucast a) OR ucast b) OR ucast c) OR ucast (d :: 8 word) :: 128 word) :: 32 word) =
     push_bit 8 (push_bit 8 (push_bit 8 (ucast (a :: 8 word)) OR ucast (b :: 8 word)) OR ucast (c :: 8 word)) OR ucast d"
  by (rule bit_word_eqI) (auto simp: bit_simps)

lemma bigEndian_mapped:
  "drop_bit 32 (bigEndian (mapped [a, b, c, d]) :: 128 word) = 0xFFFF"
  "ucast (bigEndian (mapped [a, b, c, d]) :: 128 word) = (bigEndian [a, b, c, d] :: 32 word)"
proof -
  have "fold (\<lambda>b acc. push_bit 8 acc OR ucast b) (replicate 10 (0 :: 8 word)) 0 = (0 :: 128 word)"
    by (simp add: eval_nat_numeral)
  then have m: "(bigEndian (mapped [a, b, c, d]) :: 128 word) =
      push_bit 8 (push_bit 8 (push_bit 8 (push_bit 8 0xFFFF OR ucast a) OR ucast b) OR ucast c) OR ucast d"
    by (simp add: bigEndian_def mapped_def)
  have v: "(bigEndian [a, b, c, d] :: 32 word) = push_bit 8 (push_bit 8 (push_bit 8 (ucast a) OR ucast b) OR ucast c) OR ucast d"
    by (simp add: bigEndian_def)
  show "drop_bit 32 (bigEndian (mapped [a, b, c, d]) :: 128 word) = 0xFFFF"
    unfolding m by (rule bit_word_eqI) (auto simp: bit_simps dest: bit_imp_le_length)
  show "ucast (bigEndian (mapped [a, b, c, d]) :: 128 word) = (bigEndian [a, b, c, d] :: 32 word)"
    unfolding m v by (rule low_word)
qed

subsection \<open>Groups\<close>

text \<open>An IPv6 address as its eight 16-bit groups, and the value of a list of groups.\<close>

fun groups :: "ip \<Rightarrow> nat list" where
  "groups (a # b # bs) = (unat a * 256 + unat b) # groups bs"
| "groups _ = []"

definition groupsValue :: "nat list \<Rightarrow> nat" where
  "groupsValue gs = fold (\<lambda>g acc. acc * 65536 + g) gs 0"

abbreviation areGroups :: "nat list \<Rightarrow> bool" where
  "areGroups gs \<equiv> list_all (\<lambda>g. g < 65536) gs"

lemma groupsValue_snoc [simp]: "groupsValue (gs @ [g]) = groupsValue gs * 65536 + g" "groupsValue [] = 0"
  by (simp_all add: groupsValue_def)

lemma groupsValue_append: "groupsValue (gs @ hs) = groupsValue gs * 65536 ^ length hs + groupsValue hs"
  by (induction hs rule: rev_induct) (simp_all flip: append_assoc add: algebra_simps)

lemma groupsValue_less: "areGroups gs \<Longrightarrow> groupsValue gs < 65536 ^ length gs"
proof (induction gs rule: rev_induct)
  case (snoc g gs)
  then have "groupsValue gs * 65536 + 65536 \<le> 65536 ^ length gs * 65536" by simp
  then show ?case using snoc.prems by simp
qed simp

lemma groupsValue_inj:
  "areGroups gs \<Longrightarrow> areGroups hs \<Longrightarrow> length gs = length hs \<Longrightarrow> groupsValue gs = groupsValue hs \<longleftrightarrow> gs = hs"
proof (induction gs arbitrary: hs rule: rev_induct)
  case (snoc g gs)
  then obtain hs' h where h: "hs = hs' @ [h]" by (metis length_0_conv snoc_eq_iff_butlast)
  have e: "p * 65536 + q = r * 65536 + s \<longleftrightarrow> p = r \<and> q = s" if "q < 65536" "s < 65536" for p q r s :: nat
  proof
    assume eq: "p * 65536 + q = r * 65536 + s"
    then have "(p * 65536 + q) div 65536 = (r * 65536 + s) div 65536" by simp
    then have "p = r" using that by simp
    with eq show "p = r \<and> q = s" by simp
  qed simp
  show ?case using snoc h e by auto
qed simp

text \<open>The leading bits of a value are leading groups and the leading bits of the next.\<close>

lemma groupsValue_div:
  assumes "areGroups gs" "k < length gs" "r \<le> 16"
  shows "groupsValue gs div 2 ^ (16 * (length gs - k) - r) = groupsValue (take k gs) * 2 ^ r + gs ! k div 2 ^ (16 - r)"
proof -
  let ?t = "drop (Suc k) gs"
  have t: "areGroups ?t" "gs ! k < 65536" using assms by (auto simp: list_all_iff dest: in_set_dropD)
  have l: "length ?t = length gs - Suc k" by simp
  have "gs = take k gs @ [gs ! k] @ ?t" using assms(2) by (simp add: id_take_nth_drop [symmetric])
  then have "groupsValue gs = (groupsValue (take k gs) * 65536 + gs ! k) * 65536 ^ length ?t + groupsValue ?t"
    by (metis append_assoc groupsValue_append groupsValue_snoc(1))
  moreover have "groupsValue ?t < 65536 ^ length ?t" by (rule groupsValue_less [OF t(1)])
  ultimately have d: "groupsValue gs div 65536 ^ length ?t = groupsValue (take k gs) * 65536 + gs ! k" by simp
  have p: "(2::nat) ^ (16 * (length gs - k) - r) = 65536 ^ length ?t * 2 ^ (16 - r)"
  proof -
    have "16 * (length gs - k) - r = 16 * length ?t + (16 - r)" using assms(2,3) l by linarith
    then have "(2::nat) ^ (16 * (length gs - k) - r) = (2 ^ 16) ^ length ?t * 2 ^ (16 - r)" by (simp only: power_add power_mult)
    then show ?thesis by simp
  qed
  have q: "(65536::nat) = 2 ^ r * 2 ^ (16 - r)" using assms(3) by (simp flip: power_add)
  have "groupsValue gs div 2 ^ (16 * (length gs - k) - r) = (groupsValue (take k gs) * 65536 + gs ! k) div 2 ^ (16 - r)"
    unfolding p div_mult2_eq d ..
  also have "\<dots> = groupsValue (take k gs) * 2 ^ r + gs ! k div 2 ^ (16 - r)"
    unfolding q by (simp add: mult.assoc [symmetric])
  finally show ?thesis .
qed

lemma div_pow_less: "(g::nat) < 65536 \<Longrightarrow> r \<le> 16 \<Longrightarrow> g div 2 ^ (16 - r) < 2 ^ r"
proof -
  assume "g < 65536" "r \<le> 16"
  then have "g < 2 ^ (16 - r) * 2 ^ r" by (simp flip: power_add)
  then show ?thesis by (simp add: less_mult_imp_div_less mult.commute)
qed

lemma groupsValue_prefix:
  assumes "areGroups gs" "areGroups hs" "length hs = length gs" "k < length gs" "r \<le> 16"
  defines "n \<equiv> 16 * (length gs - k) - r"
  shows "groupsValue gs div 2 ^ n = groupsValue hs div 2 ^ n \<longleftrightarrow>
    take k gs = take k hs \<and> gs ! k div 2 ^ (16 - r) = hs ! k div 2 ^ (16 - r)"
proof -
  have g: "gs ! k div 2 ^ (16 - r) < 2 ^ r" "hs ! k div 2 ^ (16 - r) < 2 ^ r"
    using assms by (auto intro!: div_pow_less simp: list_all_length)
  have e: "p * m + x = q * m + y \<longleftrightarrow> p = q \<and> x = y" if "x < m" "y < m" for p q x y m :: nat
  proof
    assume eq: "p * m + x = q * m + y"
    then have "(p * m + x) div m = (q * m + y) div m" by simp
    then have "p = q" using that by simp
    with eq show "p = q \<and> x = y" by simp
  qed simp
  have "areGroups (take k gs)" "areGroups (take k hs)" using assms(1,2) by (auto simp: list_all_iff dest: in_set_takeD)
  then have "groupsValue (take k gs) = groupsValue (take k hs) \<longleftrightarrow> take k gs = take k hs" using assms(3) by (intro groupsValue_inj) simp_all
  moreover have "groupsValue gs div 2 ^ n = groupsValue (take k gs) * 2 ^ r + gs ! k div 2 ^ (16 - r)"
    "groupsValue hs div 2 ^ n = groupsValue (take k hs) * 2 ^ r + hs ! k div 2 ^ (16 - r)"
    unfolding n_def using groupsValue_div [OF assms(1,4,5)] groupsValue_div [OF assms(2) _ assms(5), of k] assms(3,4) by simp_all
  ultimately show ?thesis using e [OF g] by simp
qed

lemma groups_bytes: "even (length i) \<Longrightarrow> groupsValue (groups i) = bytesValue i \<and> length (groups i) = length i div 2 \<and> areGroups (groups i)"
proof -
  have v: "fold (\<lambda>b n. n * 256 + unat b) bs n = n * 256 ^ length bs + bytesValue bs" for bs :: ip and n
    unfolding bytesValue_def by (induction bs rule: rev_induct) (simp_all add: algebra_simps)
  show "even (length i) \<Longrightarrow> ?thesis"
  proof (induction i rule: groups.induct)
    case (1 a b bs)
    then have IH: "groupsValue (groups bs) = bytesValue bs" "length (groups bs) = length bs div 2" "areGroups (groups bs)" by simp_all
    have "groupsValue (groups (a # b # bs)) = (unat a * 256 + unat b) * 65536 ^ length (groups bs) + bytesValue bs"
      using groupsValue_append [of "[unat a * 256 + unat b]" "groups bs"] IH(1) by (simp add: groupsValue_def)
    also have "(65536::nat) ^ length (groups bs) = 256 ^ length bs"
    proof -
      have "length bs = 2 * length (groups bs)" using 1 IH(2) by simp
      then show ?thesis by (simp add: power_mult)
    qed
    also have "(unat a * 256 + unat b) * 256 ^ length bs + bytesValue bs = bytesValue (a # b # bs)"
      using v [of bs "unat a * 256 + unat b"] by (simp add: bytesValue_def)
    finally have "groupsValue (groups (a # b # bs)) = bytesValue (a # b # bs)" .
    moreover have "unat a * 256 + unat b < 65536" using octet [of a] octet [of b] by linarith
    ultimately show ?case using IH by simp
  qed (simp_all add: bytesValue_def)
qed

text \<open>A prefix holds the addresses whose leading groups are those of the prefix.\<close>

lemma masked_zero: "w AND push_bit n (- 1) = 0 \<longleftrightarrow> drop_bit n (w :: 'a::len word) = 0"
proof
  assume a: "w AND push_bit n (- 1) = 0"
  have "\<not> bit w (n + m)" for m
    using arg_cong [OF a, where f = "\<lambda>x. bit x (n + m)"] bit_imp_le_length [of w "n + m"] by (auto simp: bit_simps)
  then show "drop_bit n w = 0" by (auto simp: bit_simps intro: bit_word_eqI)
next
  assume a: "drop_bit n w = 0"
  show "w AND push_bit n (- 1) = 0"
  proof (rule bit_word_eqI)
    fix m
    have "n \<le> m \<Longrightarrow> \<not> bit w m" using arg_cong [OF a, where f = "\<lambda>x. bit x (m - n)"] by (simp add: bit_simps)
    then show "bit (w AND push_bit n (- 1)) m = bit 0 m" by (cases "n \<le> m") (auto simp: bit_simps)
  qed
qed

lemma contains_v6: "containsAddr (V6 p, bits) (V6 w) \<longleftrightarrow> unat w div 2 ^ (128 - bits) = unat p div 2 ^ (128 - bits)"
  unfolding containsAddr.simps masked_zero drop_bit_xor_zero by (simp only: word_unat_eq_iff [of "drop_bit _ w"] unat_drop_bit)

lemma unat_v6:
  assumes "areGroups ps" "length ps \<le> 8"
  shows "\<exists>p. v6 ps = V6 p \<and> unat p = groupsValue (ps @ replicate (8 - length ps) 0)"
proof -
  have z: "groupsValue (replicate n 0) = 0" for n
    by (induction n) (simp_all flip: replicate_append_same)
  have "areGroups (ps @ replicate (8 - length ps) 0)" using assms(1) by (auto simp: list_all_iff)
  from groupsValue_less [OF this] have "groupsValue (ps @ replicate (8 - length ps) 0) < 65536 ^ 8" using assms(2) by simp
  then have b: "groupsValue ps * 65536 ^ (8 - length ps) < 2 ^ 128" by (simp add: groupsValue_append z)
  have "(2 :: 128 word) ^ (16 * (8 - length ps)) = of_nat (65536 ^ (8 - length ps))" by (simp add: power_mult)
  then have "(push_bit (16 * (8 - length ps)) (of_nat (groupsValue ps)) :: 128 word) = of_nat (groupsValue ps * 65536 ^ (8 - length ps))"
    by (simp add: push_bit_eq_mult)
  moreover have "unat (of_nat (groupsValue ps * 65536 ^ (8 - length ps)) :: 128 word) = groupsValue ps * 65536 ^ (8 - length ps)"
    using b by (simp add: unsigned_of_nat take_bit_nat_eq_self del: of_nat_mult of_nat_power)
  ultimately have "unat (push_bit (16 * (8 - length ps)) (of_nat (groupsValue ps)) :: 128 word) = groupsValue ps * 65536 ^ (8 - length ps)"
    by simp
  then show ?thesis by (auto simp: v6_def groupsValue_def [symmetric] groupsValue_append z)
qed

lemma contains_groups:
  assumes "unat w = groupsValue gs" "areGroups gs" "length gs = 8" "areGroups ps" "length ps \<le> 8" "bits = 16 * k + r" "k < 8" "r \<le> 16"
  shows "containsAddr (v6 ps, bits) (V6 w) \<longleftrightarrow>
    take k gs = take k (ps @ replicate (8 - length ps) 0) \<and> gs ! k div 2 ^ (16 - r) = (ps @ replicate (8 - length ps) 0) ! k div 2 ^ (16 - r)"
proof -
  let ?ps = "ps @ replicate (8 - length ps) 0"
  obtain p where p: "v6 ps = V6 p" "unat p = groupsValue ?ps" using unat_v6 [OF assms(4,5)] by blast
  have "areGroups ?ps" "length ?ps = length gs" using assms(3,4,5) by (auto simp: list_all_iff)
  from groupsValue_prefix [OF assms(2) this, of k r] have
    "groupsValue gs div 2 ^ (128 - bits) = groupsValue ?ps div 2 ^ (128 - bits) \<longleftrightarrow>
     take k gs = take k ?ps \<and> gs ! k div 2 ^ (16 - r) = ?ps ! k div 2 ^ (16 - r)"
  proof -
    have "16 * (length gs - k) - r = 128 - bits" using assms(3,6-8) by simp
    then show ?thesis using \<open>\<lbrakk>k < length gs; r \<le> 16\<rbrakk> \<Longrightarrow> _\<close> assms(3,7,8) by simp
  qed
  then show ?thesis using p assms(1) by (simp add: contains_v6 del: containsAddr.simps)
qed

text \<open>The restricted IPv6 addresses, by their groups.\<close>

fun restrictedGroups :: "nat list \<Rightarrow> bool" where
  "restrictedGroups [a, b, c, d, e, f, g, h] \<longleftrightarrow>
     [a, b, c, d, e, f, g] = replicate 7 0 \<and> h \<le> 1 \<or>
     a = 0x64 \<and> b = 0xff9b \<and> [c, d, e, f] = replicate 4 0 \<or> a = 0x64 \<and> b = 0xff9b \<and> c = 1 \<or>
     a = 0x100 \<and> b = 0 \<and> c = 0 \<and> d \<le> 1 \<or>
     a = 0x2001 \<and> (b < 0x200 \<or> b = 0xdb8) \<or> a = 0x2002 \<or> a = 0x2620 \<and> b = 0x4f \<and> c = 0x8000 \<or>
     a = 0x3fff \<and> b < 0x1000 \<or> a = 0x5f00 \<or> 0xfc00 \<le> a \<and> a < 0xfe00 \<or> 0xfe80 \<le> a"
| "restrictedGroups _ \<longleftrightarrow> False"

lemma eight: "length gs = 8 \<Longrightarrow> \<exists>a b c d e f g h. gs = [a, b, c, d, e, f, g, h]"
  by (auto simp: eval_nat_numeral length_Suc_conv)

lemma prefix_groups:
  fixes a b :: nat
  assumes "a < 65536"
  shows "a div 512 = 126 \<longleftrightarrow> 0xfc00 \<le> a \<and> a < 0xfe00" "a div 64 = 1019 \<or> a div 64 = 1018 \<or> a div 256 = 255 \<longleftrightarrow> 0xfe80 \<le> a"
    "b div 512 = 0 \<longleftrightarrow> b < 0x200" "b div 4096 = 0 \<longleftrightarrow> b < 0x1000"
  using assms by (auto simp: div_range)

lemma zeros:
  "replicate 8 (0::nat) = [0, 0, 0, 0, 0, 0, 0, 0]" "replicate 7 (0::nat) = [0, 0, 0, 0, 0, 0, 0]" "replicate 6 (0::nat) = [0, 0, 0, 0, 0, 0]"
  "replicate 5 (0::nat) = [0, 0, 0, 0, 0]" "replicate 4 (0::nat) = [0, 0, 0, 0]"
  by (simp_all add: eval_nat_numeral)

lemma restricted_v6:
  assumes "length i = 16" "take 6 (groups i) \<noteq> [0, 0, 0, 0, 0, 0xffff]"
  shows "Restricted i \<longleftrightarrow> restrictedGroups (groups i)"
proof -
  define w where "w = (bigEndian i :: 128 word)"
  have gs: "unat w = groupsValue (groups i)" "areGroups (groups i)" "length (groups i) = 8"
    using groups_bytes [of i] assms(1) by (simp_all add: w_def unat_bigEndian)
  obtain a b c d e f g h where i: "groups i = [a, b, c, d, e, f, g, h]" using eight [OF gs(3)] by blast
  have un: "Unmap (V6 w) = V6 w"
  proof -
    have "groupsValue (groups i) div 2 ^ (16 * (8 - 5) - 16) = groupsValue [0, 0, 0, 0, 0, 0xffff, 0, 0] div 2 ^ (16 * (8 - 5) - 16) \<longleftrightarrow>
        take 5 (groups i) = [0, 0, 0, 0, 0] \<and> groups i ! 5 = 0xffff"
      using groupsValue_prefix [OF gs(2), of "[0, 0, 0, 0, 0, 0xffff, 0, 0]" 5 16] gs(3) by simp
    then have "unat w div 2 ^ 32 \<noteq> 65535" using assms(2) by (auto simp: gs(1) i groupsValue_def)
    then have "unat (drop_bit 32 w) \<noteq> unat (0xFFFF :: 128 word)" by (simp only: unat_drop_bit) simp
    then have "drop_bit 32 w \<noteq> 0xFFFF" by metis
    then show ?thesis by simp
  qed
  have C: "areGroups ps \<Longrightarrow> length ps \<le> 8 \<Longrightarrow> bits = 16 * k + r \<Longrightarrow> k < 8 \<Longrightarrow> r \<le> 16 \<Longrightarrow> containsAddr (v6 ps, bits) (V6 w) \<longleftrightarrow>
      take k (groups i) = take k (ps @ replicate (8 - length ps) 0) \<and>
      groups i ! k div 2 ^ (16 - r) = (ps @ replicate (8 - length ps) 0) ! k div 2 ^ (16 - r)" for ps bits k r
    by (rule contains_groups [OF gs])
  have "Restricted i \<longleftrightarrow> list_ex (\<lambda>p. containsAddr p (V6 w)) restrictedPrefixes"
    using assms(1) un by (simp add: Restricted_def AddrFromSlice_def w_def)
  also have "\<dots> \<longleftrightarrow> restrictedGroups (groups i)"
  proof -
    have p:
      "containsAddr (v6 [], 128) (V6 w) \<longleftrightarrow> a = 0 \<and> b = 0 \<and> c = 0 \<and> d = 0 \<and> e = 0 \<and> f = 0 \<and> g = 0 \<and> h = 0"
      "containsAddr (v6 [0, 0, 0, 0, 0, 0, 0, 1], 128) (V6 w) \<longleftrightarrow> a = 0 \<and> b = 0 \<and> c = 0 \<and> d = 0 \<and> e = 0 \<and> f = 0 \<and> g = 0 \<and> h = 1"
      "containsAddr (v6 [0x64, 0xff9b], 96) (V6 w) \<longleftrightarrow> a = 0x64 \<and> b = 0xff9b \<and> c = 0 \<and> d = 0 \<and> e = 0 \<and> f = 0"
      "containsAddr (v6 [0x64, 0xff9b, 1], 48) (V6 w) \<longleftrightarrow> a = 0x64 \<and> b = 0xff9b \<and> c = 1"
      "containsAddr (v6 [0x100], 64) (V6 w) \<longleftrightarrow> a = 0x100 \<and> b = 0 \<and> c = 0 \<and> d = 0"
      "containsAddr (v6 [0x100, 0, 0, 1], 64) (V6 w) \<longleftrightarrow> a = 0x100 \<and> b = 0 \<and> c = 0 \<and> d = 1"
      "containsAddr (v6 [0x2001], 23) (V6 w) \<longleftrightarrow> a = 0x2001 \<and> b div 512 = 0"
      "containsAddr (v6 [0x2001, 0xdb8], 32) (V6 w) \<longleftrightarrow> a = 0x2001 \<and> b = 0xdb8"
      "containsAddr (v6 [0x2002], 16) (V6 w) \<longleftrightarrow> a = 0x2002"
      "containsAddr (v6 [0x2620, 0x4f, 0x8000], 48) (V6 w) \<longleftrightarrow> a = 0x2620 \<and> b = 0x4f \<and> c = 0x8000"
      "containsAddr (v6 [0x3fff], 20) (V6 w) \<longleftrightarrow> a = 0x3fff \<and> b div 4096 = 0"
      "containsAddr (v6 [0x5f00], 16) (V6 w) \<longleftrightarrow> a = 0x5f00"
      "containsAddr (v6 [0xfc00], 7) (V6 w) \<longleftrightarrow> a div 512 = 126"
      "containsAddr (v6 [0xfec0], 10) (V6 w) \<longleftrightarrow> a div 64 = 1019"
      "containsAddr (v6 [0xfe80], 10) (V6 w) \<longleftrightarrow> a div 64 = 1018"
      "containsAddr (v6 [0xff00], 8) (V6 w) \<longleftrightarrow> a div 256 = 255"
      using C [of "[]" 128 7 16]
        C [of "[0, 0, 0, 0, 0, 0, 0, 1]" 128 7 16]
        C [of "[0x64, 0xff9b]" 96 5 16]
        C [of "[0x64, 0xff9b, 1]" 48 2 16]
        C [of "[0x100]" 64 3 16]
        C [of "[0x100, 0, 0, 1]" 64 3 16]
        C [of "[0x2001]" 23 1 7]
        C [of "[0x2001, 0xdb8]" 32 1 16]
        C [of "[0x2002]" 16 0 16]
        C [of "[0x2620, 0x4f, 0x8000]" 48 2 16]
        C [of "[0x3fff]" 20 1 4]
        C [of "[0x5f00]" 16 0 16]
        C [of "[0xfc00]" 7 0 7]
        C [of "[0xfec0]" 10 0 10]
        C [of "[0xfe80]" 10 0 10]
        C [of "[0xff00]" 8 0 8]
      by (simp_all only: i) (simp_all add: zeros)
    have q: "containsAddr (v4 x y z t, n) (V6 w) = False" for x y z t n by (simp add: v4_def)
    have l: "a < 65536" "b < 65536" using gs(2) by (simp_all add: i)
    have le: "n \<le> 1 \<longleftrightarrow> n = 0 \<or> n = 1" for n :: nat by auto
    show ?thesis
      unfolding restrictedPrefixes_def list_ex_Cons_iff list_ex_Nil_iff p q i restrictedGroups.simps prefix_groups(1) [OF l(1)]
        prefix_groups(3,4) [OF l(2)] prefix_groups(2) [OF l(1), symmetric] zeros list.inject le
      by argo
  qed
  finally show ?thesis .
qed

subsection \<open>Property\<close>

text \<open>C36: the address policy is the one its table says, for both families. An IPv4 address, in its 4-byte or
  its IPv4-mapped 16-byte form, is restricted exactly when its octets lie in one of the listed
  ranges; any other 16-byte address exactly when its 16-bit groups do; anything that is not an
  address is restricted.\<close>

theorem restricted_exact:
  "(Restricted [a, b, c, d] \<longleftrightarrow> restrictedOctets (unat a) (unat b) (unat c)) \<and>
   Restricted (mapped [a, b, c, d]) = Restricted [a, b, c, d] \<and>
   (length i = 16 \<and> take 6 (groups i) \<noteq> [0, 0, 0, 0, 0, 0xffff] \<longrightarrow> (Restricted i \<longleftrightarrow> restrictedGroups (groups i))) \<and>
   (length i \<notin> {4, 16} \<longrightarrow> Restricted i)"
proof -
  have "Restricted (mapped [a, b, c, d]) = Restricted [a, b, c, d]"
    by (simp add: Restricted_def AddrFromSlice_def mapped_def bigEndian_mapped [unfolded mapped_def, simplified])
  moreover have "length i \<notin> {4, 16} \<longrightarrow> Restricted i" by (simp add: Restricted_def AddrFromSlice_def)
  ultimately show ?thesis using restricted_v4 restricted_v6 by blast
qed

text \<open>A link-local address and a public one.\<close>

definition sampleV6 :: "8 word \<Rightarrow> 8 word \<Rightarrow> ip" where
  "sampleV6 x y = [x, y, 0, 0, 0, 0, 0, 0, 0, 0, 0, 0, 0, 0, 0, 1]"

theorem restricted_exact_witness:
  "Restricted [127, 0, 0, 1] \<and> Restricted (mapped [169, 254, 169, 254]) \<and> \<not> Restricted (mapped [8, 8, 8, 8]) \<and> Restricted [1] \<and>
   Restricted (sampleV6 0xfe 0x80) \<and> \<not> Restricted (sampleV6 0x26 0x06)"
proof -
  have l: "length (sampleV6 x y) = 16" for x y by (simp add: sampleV6_def)
  have g: "groups (sampleV6 0xfe 0x80) = [0xfe80, 0, 0, 0, 0, 0, 0, 1]" "groups (sampleV6 0x26 0x06) = [0x2606, 0, 0, 0, 0, 0, 0, 1]"
    by (simp_all add: sampleV6_def)
  have "Restricted [127, 0, 0, 1]" "Restricted [1]" using restricted_exact [of 127 0 0 1 "[1]"] by (simp_all add: restrictedOctets_def)
  moreover have "Restricted (mapped [169, 254, 169, 254])" "Restricted (sampleV6 0xfe 0x80)"
    using restricted_exact [of 169 254 169 254 "sampleV6 0xfe 0x80"] l g by (simp_all add: restrictedOctets_def)
  moreover have "\<not> Restricted (mapped [8, 8, 8, 8])" "\<not> Restricted (sampleV6 0x26 0x06)"
    using restricted_exact [of 8 8 8 8 "sampleV6 0x26 0x06"] l g by (simp_all add: restrictedOctets_def zeros)
  ultimately show ?thesis by blast
qed

end
