(* ===== verification/Discovery.thy ===== *)
theory Discovery
  imports DeliverErrors Netpolicy
begin

text \<open>
  Finding the hosts of a domain and their addresses, \<open>src/internal/deliver/discovery.go\<close>. The
  resolver is a parameter, and so are the two random orders; an address is a \<open>net.IP\<close>. The text of
  an address (\<open>ip.String()\<close>), which keys the allowlist, is represented by what it determines: the
  address with IPv4-mapped forms unmapped, or the bytes when they are no address.
\<close>

record MX =
  Host :: string
  Pref :: "16 word"

record resolver =
  LookupMX :: "string \<Rightarrow> derror + MX option list"
  LookupNetIP :: "string \<Rightarrow> string \<Rightarrow> derror + ip list"

type_synonym ipText = "addr + ip"

record discoveryCfg =
  AllowPrivateDestinations :: bool
  allowlist :: "ipText list"
  BindIPv4 :: string
  BindIPv6 :: string
  maxMX :: nat
  maxIP :: nat
  orderIPs :: "ip list \<Rightarrow> ip list"
  orderMX :: "MX list \<Rightarrow> MX list"

record mxCandidate =
  chost :: string
  cips :: "ip list option"

definition ipString :: "ip \<Rightarrow> ipText" where
  "ipString i = (case AddrFromSlice i of None \<Rightarrow> Inr i | Some a \<Rightarrow> Inl (Unmap a))"

text \<open>\<open>Addr.AsSlice\<close>.\<close>

definition byteAt :: "nat \<Rightarrow> nat \<Rightarrow> 8 word" where
  "byteAt n k = of_nat (n div 256 ^ k)"

fun AsSlice :: "addr \<Rightarrow> ip" where
  "AsSlice (V4 w) = map (byteAt (unat w)) (rev [0..<4])"
| "AsSlice (V6 w) = map (byteAt (unat w)) (rev [0..<16])"

definition lookupNetwork :: "discoveryCfg \<Rightarrow> string" where
  "lookupNetwork d =
     (let has4 = BindIPv4 d \<noteq> '''' \<or> BindIPv6 d = ''''; has6 = BindIPv6 d \<noteq> ''''
      in if has4 \<and> has6 then ''ip'' else if has6 \<and> \<not> has4 then ''ip6'' else ''ip4'')"

definition allowlisted :: "discoveryCfg \<Rightarrow> ip \<Rightarrow> bool" where
  "allowlisted d i = (ipString i \<in> set (allowlist d))"

definition checkDestination :: "discoveryCfg \<Rightarrow> ip \<Rightarrow> derror option" where
  "checkDestination d i =
     (if AllowPrivateDestinations d then None
      else if allowlisted d i then None
      else if Restricted i then Some (DWrap ''destination address is not publicly routable'' [Delivery errPrivateDestination])
      else None)"

text \<open>The loop over the answers: the last refusal, and the distinct addresses in order.\<close>

fun collectIPs :: "discoveryCfg \<Rightarrow> ip list \<Rightarrow> derror option \<Rightarrow> addr list \<Rightarrow> derror option \<times> addr list" where
  "collectIPs d [] disallowed ordered = (disallowed, ordered)"
| "collectIPs d (i # is) disallowed ordered =
     (case checkDestination d i of
        Some err \<Rightarrow> collectIPs d is (Some err) ordered
      | None \<Rightarrow>
          (case AddrFromSlice i of
             None \<Rightarrow> collectIPs d is disallowed ordered
           | Some a \<Rightarrow>
               if Unmap a \<in> set ordered then collectIPs d is disallowed ordered
               else collectIPs d is disallowed (ordered @ [Unmap a])))"

definition lookupHostIPs :: "discoveryCfg \<Rightarrow> resolver \<Rightarrow> string \<Rightarrow> derror + ip list" where
  "lookupHostIPs d r host =
     (case LookupNetIP r (lookupNetwork d) host of
        Inl err \<Rightarrow> Inl err
      | Inr addrs \<Rightarrow>
          (case collectIPs d addrs None [] of
             (Some err, []) \<Rightarrow> Inl err
           | (_, ordered) \<Rightarrow> Inr (take (maxIP d) (orderIPs d (map AsSlice (sort ordered))))))"

subsection \<open>Hosts\<close>

text \<open>The sort by preference and name; records that compare equal name the same host.\<close>

fun strCompareLe :: "string \<Rightarrow> string \<Rightarrow> bool" where
  "strCompareLe [] ys = True"
| "strCompareLe (x # xs) [] = False"
| "strCompareLe (x # xs) (y # ys) = (code x < code y \<or> x = y \<and> strCompareLe xs ys)"

definition mxLe :: "MX \<Rightarrow> MX \<Rightarrow> bool" where
  "mxLe a b \<longleftrightarrow> unat (Pref a) < unat (Pref b) \<or> Pref a = Pref b \<and> strCompareLe (toLower (Host a)) (toLower (Host b))"

fun insertMX :: "MX \<Rightarrow> MX list \<Rightarrow> MX list" where
  "insertMX m [] = [m]"
| "insertMX m (n # ns) = (if mxLe m n then m # n # ns else n # insertMX m ns)"

fun sortMX :: "MX list \<Rightarrow> MX list" where
  "sortMX [] = []"
| "sortMX (m # ms) = insertMX m (sortMX ms)"

text \<open>Each run of equal preference is put in a random order of its own.\<close>

function rotateGroups :: "(MX list \<Rightarrow> MX list) \<Rightarrow> MX list \<Rightarrow> MX list" where
  "rotateGroups f [] = []"
| "rotateGroups f (m # ms) =
     f (m # takeWhile (\<lambda>n. Pref n = Pref m) ms) @ rotateGroups f (dropWhile (\<lambda>n. Pref n = Pref m) ms)"
  by pat_completeness auto

termination
  by (relation "measure (length \<circ> snd)") (auto simp: le_imp_less_Suc length_dropWhile_le)

definition trimSuffixDot :: "string \<Rightarrow> string" where
  "trimSuffixDot s = (if s \<noteq> [] \<and> last s = CHR ''.'' then butlast s else s)"

definition mxHost :: "MX \<Rightarrow> string" where
  "mxHost m = toLower (trimSuffixDot (Host m))"

text \<open>The candidates: the first occurrence of each name, up to the cap.\<close>

fun pickHosts :: "nat \<Rightarrow> MX list \<Rightarrow> string list \<Rightarrow> string list" where
  "pickHosts cap [] hs = hs"
| "pickHosts cap (m # ms) hs =
     (let h = mxHost m
      in if h \<noteq> '''' \<and> h \<noteq> ''.''
         then if h \<in> set hs then pickHosts cap ms hs
              else if length (hs @ [h]) = cap then hs @ [h] else pickHosts cap ms (hs @ [h])
         else pickHosts cap ms hs)"

fun validMX :: "MX option list \<Rightarrow> MX list option" where
  "validMX [] = Some []"
| "validMX (None # rs) = validMX rs"
| "validMX (Some m # rs) = (if Host m = ''.'' then None else map_option (Cons m) (validMX rs))"

definition implicitMX :: "discoveryCfg \<Rightarrow> resolver \<Rightarrow> string \<Rightarrow> bool \<Rightarrow> derror + mxCandidate list" where
  "implicitMX d r domain mxNotFound =
     (case lookupHostIPs d r domain of
        Inl lookupErr \<Rightarrow> Inl (if mxNotFound \<and> asDNS lookupErr = Some True then Delivery errNoSuchDomain else lookupErr)
      | Inr ips \<Rightarrow> Inr [\<lparr>chost = domain, cips = Some ips\<rparr>])"

definition hosts :: "discoveryCfg \<Rightarrow> resolver \<Rightarrow> string \<Rightarrow> derror + mxCandidate list" where
  "hosts d r domain =
     (case LookupMX r domain of
        Inl err \<Rightarrow> if asDNS err \<noteq> Some True then Inl err else implicitMX d r domain True
      | Inr [] \<Rightarrow> implicitMX d r domain False
      | Inr records \<Rightarrow>
          (case validMX records of
             None \<Rightarrow> Inl (Delivery errNullMX)
           | Some valid \<Rightarrow>
               (case pickHosts (maxMX d) (rotateGroups (orderMX d) (sortMX valid)) [] of
                  [] \<Rightarrow> Inl (Delivery errNullMX)
                | hs \<Rightarrow> Inr (map (\<lambda>h. \<lparr>chost = h, cips = None\<rparr>) hs))))"


subsection \<open>Addresses and their bytes\<close>

lemma fold_bytes:
  "fold (\<lambda>b m. m * 256 + unat b) (map (byteAt n) (rev [0..<k])) acc = acc * 256 ^ k + n mod 256 ^ k"
proof (induction k arbitrary: acc)
  case (Suc k)
  have "unat (byteAt n k) = n div 256 ^ k mod 256" by (simp add: byteAt_def unsigned_of_nat take_bit_eq_mod)
  moreover have "n mod 256 ^ Suc k = (n div 256 ^ k mod 256) * 256 ^ k + n mod 256 ^ k"
    using mod_mult2_eq [of n "256 ^ k" 256] by (metis mult.commute power_Suc)
  ultimately show ?case by (simp add: Suc.IH) (simp add: algebra_simps)
qed simp

text \<open>An address is read back from its bytes.\<close>

lemma AddrFromSlice_AsSlice [simp]: "AddrFromSlice (AsSlice a) = Some a"
proof (cases a)
  case (V4 w)
  have "unat (bigEndian (AsSlice a) :: 32 word) = unat w"
    using unsigned_less [of w, where ?'a = nat] by (simp add: V4 unat_bigEndian bytesValue_def fold_bytes del: upt_rec_numeral)
  then show ?thesis by (simp add: AddrFromSlice_def V4 word_unat_eq_iff del: upt_rec_numeral)
next
  case (V6 w)
  have "unat (bigEndian (AsSlice a) :: 128 word) = unat w"
    using unsigned_less [of w, where ?'a = nat] by (simp add: V6 unat_bigEndian bytesValue_def fold_bytes del: upt_rec_numeral)
  then show ?thesis by (simp add: AddrFromSlice_def V6 word_unat_eq_iff del: upt_rec_numeral)
qed

lemma Unmap_idem [simp]: "Unmap (Unmap a) = Unmap a"
  by (cases a) auto

lemma ipString_AsSlice: "ipString (AsSlice (Unmap a)) = Inl (Unmap a)"
  by (simp add: ipString_def)

text \<open>Whether a destination is allowed depends on its text only.\<close>

lemma Restricted_text: "ipString i = ipString j \<Longrightarrow> Restricted i = Restricted j"
  by (auto simp: ipString_def Restricted_def split: option.splits)

lemma checkDestination_text: "ipString i = ipString j \<Longrightarrow> checkDestination d i = checkDestination d j"
  using Restricted_text [of i j] by (simp add: checkDestination_def allowlisted_def)

definition allowedAddr :: "discoveryCfg \<Rightarrow> ip set \<Rightarrow> addr \<Rightarrow> bool" where
  "allowedAddr d S a \<longleftrightarrow> (\<exists>i \<in> S. ipString i = Inl a \<and> checkDestination d i = None)"

lemma collectIPs_ok:
  "collectIPs d is dis ord = (dis', ord') \<Longrightarrow> distinct ord \<Longrightarrow> list_all (allowedAddr d S) ord \<Longrightarrow> set is \<subseteq> S \<Longrightarrow>
   distinct ord' \<and> list_all (allowedAddr d S) ord'"
proof (induction "is" arbitrary: dis ord)
  case (Cons i "is")
  show ?case
  proof (cases "checkDestination d i = None \<and> AddrFromSlice i \<noteq> None")
    case True
    then obtain a where a: "AddrFromSlice i = Some a" by auto
    have "allowedAddr d S (Unmap a)" unfolding allowedAddr_def
      by (rule bexI [of _ i]) (use True a Cons.prems(4) in \<open>simp_all add: ipString_def\<close>)
    then show ?thesis using Cons.prems True a Cons.IH [of dis ord] Cons.IH [of dis "ord @ [Unmap a]"]
      by (cases "Unmap a \<in> set ord") simp_all
  next
    case False
    then show ?thesis using Cons.prems Cons.IH by (cases "checkDestination d i") auto
  qed
qed simp

subsection \<open>Property\<close>

text \<open>C34: only permitted addresses are dialled. Every address a lookup returns is one of the
  resolver's answers (up to the mapped form) and passes the destination policy: private destinations are allowed, or it is
  on the allowlist, or it is publicly routable. There are no duplicates, and at most the configured number.\<close>

theorem lookup_addresses_permitted:
  assumes "lookupHostIPs d r host = Inr ips" "\<And>xs. mset (orderIPs d xs) = mset xs"
  shows "distinct ips \<and> length ips \<le> maxIP d \<and> (\<exists>addrs. LookupNetIP r (lookupNetwork d) host = Inr addrs \<and>
    (\<forall>i \<in> set ips. (AllowPrivateDestinations d \<or> allowlisted d i \<or> \<not> Restricted i) \<and> (\<exists>j \<in> set addrs. ipString j = ipString i)))"
proof -
  obtain addrs dis ord where a: "LookupNetIP r (lookupNetwork d) host = Inr addrs" "collectIPs d addrs None [] = (dis, ord)"
    and ips: "ips = take (maxIP d) (orderIPs d (map AsSlice (sort ord)))"
    using assms(1) by (auto simp: lookupHostIPs_def split: sum.splits prod.splits list.splits option.splits)
  have c: "distinct ord" "\<forall>a \<in> set ord. \<exists>i \<in> set addrs. ipString i = Inl a \<and> checkDestination d i = None"
    using collectIPs_ok [OF a(2), of "set addrs"] by (auto simp: list_all_iff allowedAddr_def)
  have "inj AsSlice" by (metis AddrFromSlice_AsSlice injI option.inject)
  then have "distinct (map AsSlice (sort ord))" using c(1) by (simp add: distinct_map inj_on_def)
  then have "distinct (orderIPs d (map AsSlice (sort ord)))" using assms(2) by (metis mset_eq_imp_distinct_iff)
  moreover have "set ips \<subseteq> AsSlice ` set ord"
  proof -
    have "set (orderIPs d xs) = set xs" for xs using assms(2) by (metis set_mset_mset)
    then show ?thesis unfolding ips by (metis image_set set_sort set_take_subset)
  qed
  moreover have "(AllowPrivateDestinations d \<or> allowlisted d (AsSlice b) \<or> \<not> Restricted (AsSlice b)) \<and>
      (\<exists>j \<in> set addrs. ipString j = ipString (AsSlice b))" if b: "b \<in> set ord" for b
  proof -
    obtain j where j: "j \<in> set addrs" "ipString j = Inl b" "checkDestination d j = None" using c(2) b by blast
    have "b = Unmap b" using j(2) by (auto simp: ipString_def split: option.splits)
    then have s: "ipString (AsSlice b) = ipString j" using j(2) ipString_AsSlice [of b] by simp
    then have "checkDestination d (AsSlice b) = None" using checkDestination_text j(3) by metis
    then show ?thesis using j(1) s by (auto simp: checkDestination_def split: if_splits)
  qed
  ultimately have "\<forall>i \<in> set ips. (AllowPrivateDestinations d \<or> allowlisted d i \<or> \<not> Restricted i) \<and> (\<exists>j \<in> set addrs. ipString j = ipString i)"
    by blast
  then show ?thesis using a(1) \<open>distinct (orderIPs d (map AsSlice (sort ord)))\<close> by (auto simp: ips)
qed


definition sampleDiscovery :: discoveryCfg where
  "sampleDiscovery =
     \<lparr>AllowPrivateDestinations = False, allowlist = [], BindIPv4 = [], BindIPv6 = [], maxMX = 2, maxIP = 1,
      orderIPs = (\<lambda>xs. xs), orderMX = (\<lambda>xs. xs)\<rparr>"

definition sampleResolver :: resolver where
  "sampleResolver =
     \<lparr>LookupMX = (\<lambda>_. Inr [Some \<lparr>Host = ''b.example.'', Pref = 20\<rparr>, Some \<lparr>Host = ''A.example.'', Pref = 10\<rparr>, None,
        Some \<lparr>Host = ''a.example.'', Pref = 30\<rparr>, Some \<lparr>Host = ''c.example.'', Pref = 30\<rparr>]),
      LookupNetIP = (\<lambda>_ _. Inr [[10, 0, 0, 1], [8, 8, 8, 8], [8, 8, 8, 8]])\<rparr>"

lemma sample_lookup: "lookupHostIPs sampleDiscovery sampleResolver ''a.example'' = Inr [[8, 8, 8, 8]]"
proof -
  have a: "AddrFromSlice [8, 8, 8, 8] = Some (V4 134744072)" by (simp add: AddrFromSlice_def bigEndian_def)
  have "[0..<4] = [0, 1, 2, 3]" by (simp add: upt_rec eval_nat_numeral)
  then have "AsSlice (V4 134744072) = [8, 8, 8, 8]" by (simp add: byteAt_def)
  then show ?thesis
    by (simp add: lookupHostIPs_def sampleDiscovery_def sampleResolver_def checkDestination_def allowlisted_def restricted_v4
        restrictedOctets_def a del: AsSlice.simps)
qed

theorem lookup_addresses_permitted_witness:
  "lookupHostIPs sampleDiscovery sampleResolver ''a.example'' = Inr [[8, 8, 8, 8]] \<and> \<not> Restricted [8, 8, 8, 8]"
proof -
  have "\<And>xs. mset (orderIPs sampleDiscovery xs) = mset xs" by (simp add: sampleDiscovery_def)
  from lookup_addresses_permitted [OF sample_lookup this]
  have "\<not> Restricted [8, 8, 8, 8]" by (auto simp: sampleDiscovery_def allowlisted_def)
  then show ?thesis using sample_lookup by simp
qed

subsection \<open>The order of hosts\<close>

text \<open>The most preferred record of a host.\<close>

definition bestPref :: "MX list \<Rightarrow> string \<Rightarrow> nat" where
  "bestPref ms h = Min ((\<lambda>m. unat (Pref m)) ` {m \<in> set ms. mxHost m = h})"

lemma insertMX_set: "mset (insertMX m ms) = add_mset m (mset ms)"
  by (induction ms) auto

lemma sortMX_mset: "mset (sortMX ms) = mset ms"
  by (induction ms) (simp_all add: insertMX_set)

abbreviation byPref :: "MX list \<Rightarrow> bool" where
  "byPref ms \<equiv> sorted_wrt (\<lambda>a b. unat (Pref a) \<le> unat (Pref b)) ms"

lemma insertMX_sorted: "byPref ms \<Longrightarrow> byPref (insertMX m ms)"
proof (induction ms)
  case (Cons n ns)
  have s: "set (insertMX m ns) = insert m (set ns)" using insertMX_set [of m ns] by (metis set_mset_add_mset_insert set_mset_mset)
  have "unat (Pref n) \<le> unat (Pref m)" if "\<not> mxLe m n" using that by (auto simp: mxLe_def)
  moreover have "unat (Pref m) \<le> unat (Pref n)" if "mxLe m n" using that by (auto simp: mxLe_def)
  ultimately show ?case using Cons s by force
qed simp

lemma sortMX_sorted: "byPref (sortMX ms)"
  by (induction ms) (simp_all add: insertMX_sorted)

lemma rotateGroups_mset: "(\<And>xs. mset (f xs) = mset xs) \<Longrightarrow> mset (rotateGroups f ms) = mset ms"
proof (induction f ms rule: rotateGroups.induct)
  case (2 f m ms)
  have "mset ms = mset (takeWhile (\<lambda>n. Pref n = Pref m) ms) + mset (dropWhile (\<lambda>n. Pref n = Pref m) ms)"
    by (metis mset_append takeWhile_dropWhile_id)
  then show ?case using 2 by simp
qed simp

lemma rotateGroups_sorted: "(\<And>xs. mset (f xs) = mset xs) \<Longrightarrow> byPref ms \<Longrightarrow> byPref (rotateGroups f ms)"
proof (induction f ms rule: rotateGroups.induct)
  case (2 f m ms)
  let ?g = "m # takeWhile (\<lambda>n. Pref n = Pref m) ms" and ?r = "dropWhile (\<lambda>n. Pref n = Pref m) ms"
  have "set (f ?g) = set ?g" "set (rotateGroups f ?r) = set ?r"
    using 2(2) rotateGroups_mset [OF 2(2)] by (metis set_mset_mset)+
  then have g: "\<forall>x \<in> set (f ?g). Pref x = Pref m" and r: "\<forall>x \<in> set (rotateGroups f ?r). unat (Pref m) \<le> unat (Pref x)"
    using 2(3) by (auto dest: set_takeWhileD set_dropWhileD)
  have same: "\<forall>x \<in> set xs. Pref x = Pref m \<Longrightarrow> byPref xs" for xs by (induction xs) auto
  have "byPref (takeWhile (\<lambda>n. Pref n = Pref m) ms @ ?r)" using 2(3) by simp
  then have "byPref ?r" unfolding sorted_wrt_append by blast
  then have "byPref (rotateGroups f ?r)" using 2(1,2) by blast
  moreover have "byPref (f ?g)" by (rule same [OF g])
  moreover have "\<forall>x \<in> set (f ?g). \<forall>y \<in> set (rotateGroups f ?r). unat (Pref x) \<le> unat (Pref y)" using g r by metis
  ultimately show ?case unfolding rotateGroups.simps sorted_wrt_append by blast
qed simp


definition usableHost :: "string \<Rightarrow> bool" where
  "usableHost h \<longleftrightarrow> h \<noteq> '''' \<and> h \<noteq> ''.''"

text \<open>What holds of the hosts picked from the records \<open>pre\<close>, out of all records \<open>pre @ rest\<close>.\<close>

definition picked :: "MX list \<Rightarrow> MX list \<Rightarrow> string list \<Rightarrow> bool" where
  "picked pre rest hs \<longleftrightarrow> distinct hs \<and> sorted (map (bestPref (pre @ rest)) hs) \<and>
     set hs = {h. usableHost h \<and> h \<in> mxHost ` set pre}"

lemma bestPref_first:
  assumes "byPref (pre @ m # rest)" "mxHost m \<notin> mxHost ` set pre"
  shows "bestPref (pre @ m # rest) (mxHost m) = unat (Pref m)"
  unfolding bestPref_def
proof (rule Min_eqI)
  show "unat (Pref m) \<le> y" if "y \<in> (\<lambda>m. unat (Pref m)) ` {k \<in> set (pre @ m # rest). mxHost k = mxHost m}" for y
    using that assms by (auto simp: sorted_wrt_append rev_image_eqI)
qed auto

lemma bestPref_le: "m \<in> set ms \<Longrightarrow> mxHost m = h \<Longrightarrow> bestPref ms h \<le> unat (Pref m)"
  unfolding bestPref_def by (rule Min_le) auto

lemma bestPref_mem:
  assumes "h \<in> mxHost ` set ms"
  obtains m where "m \<in> set ms" "mxHost m = h" "bestPref ms h = unat (Pref m)"
proof -
  have "bestPref ms h \<in> (\<lambda>m. unat (Pref m)) ` {m \<in> set ms. mxHost m = h}"
    unfolding bestPref_def by (rule Min_in) (use assms in auto)
  then show ?thesis using that by auto
qed

lemma picked_step:
  assumes "picked pre (m # rest) hs" "byPref (pre @ m # rest)"
  shows "picked (pre @ [m]) rest (if usableHost (mxHost m) \<and> mxHost m \<notin> set hs then hs @ [mxHost m] else hs)"
proof (cases "usableHost (mxHost m) \<and> mxHost m \<notin> set hs")
  case True
  then have new: "mxHost m \<notin> mxHost ` set pre" using assms(1) by (auto simp: picked_def)
  have "bestPref (pre @ m # rest) h \<le> unat (Pref m)" if h: "h \<in> set hs" for h
  proof -
    obtain k where "k \<in> set pre" "mxHost k = h" using assms(1) h by (auto simp: picked_def)
    then have "bestPref (pre @ m # rest) h \<le> unat (Pref k)" "unat (Pref k) \<le> unat (Pref m)"
      using bestPref_le [of k "pre @ m # rest" h] assms(2) by (auto simp: sorted_wrt_append)
    then show ?thesis by simp
  qed
  then have "sorted (map (bestPref (pre @ m # rest)) (hs @ [mxHost m]))"
    using assms(1) bestPref_first [OF assms(2) new] by (auto simp: picked_def sorted_append)
  then show ?thesis using assms(1) True by (auto simp: picked_def)
next
  case False
  then show ?thesis using assms(1) by (auto simp: picked_def)
qed

text \<open>The result: the best hosts in order.\<close>

definition bestHosts :: "nat \<Rightarrow> MX list \<Rightarrow> string list \<Rightarrow> bool" where
  "bestHosts cap ms hs \<longleftrightarrow> distinct hs \<and> length hs \<le> cap \<and> sorted (map (bestPref ms) hs) \<and> set hs \<subseteq> {h. usableHost h \<and> h \<in> mxHost ` set ms} \<and>
     (\<forall>h \<in> mxHost ` set ms. usableHost h \<longrightarrow> h \<notin> set hs \<longrightarrow> length hs = cap \<and> (\<forall>k \<in> set hs. bestPref ms k \<le> bestPref ms h))"

lemma pickHosts_best:
  "picked pre rest hs \<Longrightarrow> byPref (pre @ rest) \<Longrightarrow> length hs < cap \<Longrightarrow> bestHosts cap (pre @ rest) (pickHosts cap rest hs)"
proof (induction rest arbitrary: pre hs)
  case (Cons m rest)
  let ?hs = "if usableHost (mxHost m) \<and> mxHost m \<notin> set hs then hs @ [mxHost m] else hs"
  have p: "picked (pre @ [m]) rest ?hs" by (rule picked_step [OF Cons.prems(1,2)])
  show ?case
  proof (cases "length ?hs < cap")
    case True
    have "pickHosts cap (m # rest) hs = pickHosts cap rest ?hs"
      using True by (auto simp: usableHost_def Let_def)
    then show ?thesis using Cons.IH [OF p _ True] Cons.prems(2) by simp
  next
    case False
    then have hs: "?hs = hs @ [mxHost m]" "length ?hs = cap" using Cons.prems(3) by (auto split: if_splits)
    then have r: "pickHosts cap (m # rest) hs = ?hs" by (auto simp: usableHost_def Let_def split: if_splits)
    have "bestPref (pre @ m # rest) k \<le> bestPref (pre @ m # rest) h"
      if h: "h \<in> mxHost ` set (pre @ m # rest)" "usableHost h" "h \<notin> set ?hs" and k: "k \<in> set ?hs" for h k
    proof -
      obtain x where x: "x \<in> set (pre @ m # rest)" "mxHost x = h" "bestPref (pre @ m # rest) h = unat (Pref x)"
        by (rule bestPref_mem [OF h(1)])
      have "x \<in> set rest" using x p h by (auto simp: picked_def)
      moreover obtain y where y: "y \<in> set (pre @ [m])" "mxHost y = k" using p k by (auto simp: picked_def)
      ultimately have "unat (Pref y) \<le> unat (Pref x)" using Cons.prems(2) by (auto simp: sorted_wrt_append)
      then show ?thesis using bestPref_le [of y "pre @ m # rest" k] x y by auto
    qed
    then show ?thesis using p hs(2) r unfolding bestHosts_def by (auto simp: picked_def)
  qed
qed (auto simp: picked_def bestHosts_def)

lemma validMX_set: "validMX rs = Some ms \<Longrightarrow> set ms = {m. Some m \<in> set rs}"
  by (induction rs arbitrary: ms rule: validMX.induct) (auto split: if_splits)

lemma bestPref_cong: "set ms = set ns \<Longrightarrow> bestPref ms = bestPref ns"
  by (simp add: bestPref_def fun_eq_iff)

text \<open>C35: hosts are tried in the order of preference. When a domain has MX records, the
  candidates are distinct usable names, sorted by the most preferred record of each whatever the
  random orders do, at most as many as configured, and a name is left out only when the
  candidates are full and all at least as preferred.\<close>

theorem hosts_by_preference:
  assumes "LookupMX r domain = Inr records" "records \<noteq> []" "hosts d r domain = Inr cs" "0 < maxMX d" "\<And>xs. mset (orderMX d xs) = mset xs"
  shows "bestHosts (maxMX d) (concat (map (\<lambda>m. case m of None \<Rightarrow> [] | Some m \<Rightarrow> [m]) records)) (map chost cs)"
proof -
  let ?ms = "concat (map (\<lambda>m. case m of None \<Rightarrow> [] | Some m \<Rightarrow> [m]) records)"
  obtain valid where v: "validMX records = Some valid"
    and cs: "map chost cs = pickHosts (maxMX d) (rotateGroups (orderMX d) (sortMX valid)) []"
    using assms(1-3) by (cases records) (auto simp: hosts_def comp_def split: option.splits list.splits)
  let ?l = "rotateGroups (orderMX d) (sortMX valid)"
  have "byPref ?l" by (rule rotateGroups_sorted [OF assms(5) sortMX_sorted])
  then have "bestHosts (maxMX d) ?l (pickHosts (maxMX d) ?l [])"
    using pickHosts_best [of "[]" ?l "[]" "maxMX d"] assms(4) by (simp add: picked_def)
  moreover have "set ?l = set ?ms"
  proof -
    have "set ?l = set valid" using rotateGroups_mset [OF assms(5)] sortMX_mset by (metis set_mset_mset)
    then show ?thesis using validMX_set [OF v] by (auto split: option.splits)
  qed
  ultimately show ?thesis unfolding cs bestHosts_def using bestPref_cong [of ?l ?ms] by simp
qed

theorem hosts_by_preference_witness:
  "\<exists>cs. hosts sampleDiscovery sampleResolver ''example'' = Inr cs \<and> map chost cs = [''a.example'', ''b.example''] \<and> sorted (map (bestPref
     [\<lparr>Host = ''b.example.'', Pref = 20\<rparr>, \<lparr>Host = ''A.example.'', Pref = 10\<rparr>, \<lparr>Host = ''a.example.'', Pref = 30\<rparr>, \<lparr>Host = ''c.example.'', Pref = 30\<rparr>])
     (map chost cs))"
proof -
  have h: "hosts sampleDiscovery sampleResolver ''example'' = Inr [\<lparr>chost = ''a.example'', cips = None\<rparr>, \<lparr>chost = ''b.example'', cips = None\<rparr>]"
    by code_simp
  have "\<And>xs. mset (orderMX sampleDiscovery xs) = mset xs" "0 < maxMX sampleDiscovery" by (simp_all add: sampleDiscovery_def)
  from hosts_by_preference [OF _ _ h this(2,1), where records = "[Some \<lparr>Host = ''b.example.'', Pref = 20\<rparr>, Some \<lparr>Host = ''A.example.'', Pref = 10\<rparr>, None,
        Some \<lparr>Host = ''a.example.'', Pref = 30\<rparr>, Some \<lparr>Host = ''c.example.'', Pref = 30\<rparr>]"]
  show ?thesis using h by (simp add: sampleResolver_def bestHosts_def)
qed

end
