(* ===== verification/Client.thy ===== *)
theory Client
  imports Response Discovery
begin

text \<open>
  The SMTP client, \<open>src/internal/deliver/client.go\<close>, and the opening of a session,
  \<open>src/internal/deliver/connect.go\<close>. What the peer will answer is part of the client's state: the
  replies in the order they are read, those after the TLS handshake apart (the reader is replaced then), the
  outcomes of writes, and the outcome of the handshake with and without verification. \<open>csent\<close>
  are the lines written, each with whether it was encrypted; \<open>cbody\<close> the message bytes written after
  \<open>DATA\<close>, \<open>cterminated\<close> whether the terminator was; \<open>cread\<close> the replies read so far, each with
  whether the terminator had been written before it was read. Deadlines are not modelled: a timeout is a failure.
\<close>

text \<open>A reply: its code and its lines joined by newlines; or an error with what had been read of it; or
  one that exceeds the size limit.\<close>

datatype reply = Reply int string | Failed int string derror | TooLarge int

record Client =
  exts :: "(string, string) gmap"
  ctls :: bool
  creplies :: "reply list"
  ctlsReplies :: "reply list"
  cwrites :: "derror option list"
  chandshake :: "bool \<Rightarrow> derror option"
  csent :: "(string \<times> bool) list"
  cbody :: string
  cterminated :: bool
  cread :: "(bool \<times> reply) list"

text \<open>The replies read after the terminator of a message.\<close>

definition finalReplies :: "Client \<Rightarrow> reply list" where
  "finalReplies c = map snd (filter fst (cread c))"

subsection \<open>Reading and writing\<close>

text \<open>\<open>textproto.ReadResponse\<close>: the expected code is a code, a prefix of one, or anything.\<close>

definition expected :: "int \<Rightarrow> int \<Rightarrow> bool" where
  "expected e c =
     (if 1 \<le> e \<and> e < 10 then goDiv c 100 = e else if 10 \<le> e \<and> e < 100 then goDiv c 10 = e
      else if 100 \<le> e \<and> e < 1000 then c = e else True)"

definition smtpError :: "int \<Rightarrow> string \<Rightarrow> derror" where
  "smtpError c m = (let msg = normalizeDiagnostic m in SMTPError c (parseEnhancedCode c msg) msg)"

definition readResponse :: "int \<Rightarrow> Client \<Rightarrow> (derror + int \<times> string) \<times> Client" where
  "readResponse e c =
     (case creplies c of
        [] \<Rightarrow> (Inl (NetError ''EOF''), c)
      | r # rs \<Rightarrow>
          (let c1 = c\<lparr>creplies := rs, cread := cread c @ [(cterminated c, r)]\<rparr>
           in case r of
                TooLarge _ \<Rightarrow> (Inl (Delivery errSMTPResponseTooLarge), c1)
              | Failed n m err \<Rightarrow> (Inl (if n \<noteq> 0 then smtpError n m else err), c1)
              | Reply n m \<Rightarrow> if expected e n then (Inr (n, m), c1) else (Inl (smtpError n m), c1)))"

definition writeLine :: "string \<Rightarrow> Client \<Rightarrow> derror option \<times> Client" where
  "writeLine line c =
     (case cwrites c of
        Some err # ws \<Rightarrow> (Some err, c\<lparr>cwrites := ws\<rparr>)
      | ws \<Rightarrow> (None, c\<lparr>cwrites := tl ws, csent := csent c @ [(line, ctls c)]\<rparr>))"

definition smtpCmd :: "int \<Rightarrow> string \<Rightarrow> Client \<Rightarrow> derror option \<times> Client" where
  "smtpCmd e line c =
     (case writeLine line c of
        (Some err, c1) \<Rightarrow> (Some err, c1)
      | (None, c1) \<Rightarrow> (case readResponse e c1 of (Inl err, c2) \<Rightarrow> (Some err, c2) | (Inr _, c2) \<Rightarrow> (None, c2)))"

subsection \<open>Commands\<close>

definition Greet :: "Client \<Rightarrow> derror option \<times> Client" where
  "Greet c = (case readResponse 220 c of (Inl err, c1) \<Rightarrow> (Some err, c1) | (Inr _, c1) \<Rightarrow> (None, c1))"

definition EHLO :: "string \<Rightarrow> Client \<Rightarrow> derror option \<times> Client" where
  "EHLO hostname c =
     (case writeLine (''EHLO '' @ hostname) c of
        (Some err, c1) \<Rightarrow> (Some err, c1)
      | (None, c1) \<Rightarrow>
          (case readResponse 250 c1 of
             (Inl err, c2) \<Rightarrow> (Some err, c2)
           | (Inr (_, m), c2) \<Rightarrow> (None, c2\<lparr>exts := parseExtensions (splitOn (CHR 0x0A) m)\<rparr>)))"

definition HELO :: "string \<Rightarrow> Client \<Rightarrow> derror option \<times> Client" where
  "HELO hostname c =
     (case smtpCmd 250 (''HELO '' @ hostname) c of
        (Some err, c1) \<Rightarrow> (Some err, c1)
      | (None, c1) \<Rightarrow> (None, c1\<lparr>exts := []\<rparr>))"

definition Extension :: "Client \<Rightarrow> string \<Rightarrow> bool" where
  "Extension c nm = (mget (exts c) (toUpper nm) \<noteq> None)"

definition StartTLS :: "bool \<Rightarrow> Client \<Rightarrow> derror option \<times> Client" where
  "StartTLS skipVerify c =
     (case smtpCmd 220 ''STARTTLS'' c of
        (Some err, c1) \<Rightarrow> (Some err, c1)
      | (None, c1) \<Rightarrow>
          (case chandshake c1 skipVerify of
             Some err \<Rightarrow> (Some err, c1)
           | None \<Rightarrow> (None, c1\<lparr>ctls := True, exts := [], creplies := ctlsReplies c1\<rparr>)))"

record MailOpts =
  OptSize :: int
  OptUTF8 :: bool
  OptEightBit :: bool

definition Mail :: "string \<Rightarrow> MailOpts \<Rightarrow> Client \<Rightarrow> derror option \<times> Client" where
  "Mail from opts c =
     (if OptEightBit opts \<and> mget (exts c) ''8BITMIME'' = None then (Some (Delivery err8BITMIMEUnsupported), c)
      else if OptUTF8 opts \<and> mget (exts c) ''SMTPUTF8'' = None then (Some (Delivery errSMTPUTF8Unsupported), c)
      else
        smtpCmd 250
          (''MAIL FROM:<'' @ from @ ''>'' @ (if OptEightBit opts then '' BODY=8BITMIME'' else '''') @
           (if OptSize opts > 0 \<and> mget (exts c) ''SIZE'' \<noteq> None then '' SIZE='' @ formatInt (OptSize opts) else '''') @
           (if OptUTF8 opts then '' SMTPUTF8'' else '''')) c)"

definition rcptLine :: "string \<Rightarrow> string" where
  "rcptLine addr = ''RCPT TO:<'' @ addr @ ''>''"

definition Rcpt :: "string \<Rightarrow> Client \<Rightarrow> derror option \<times> Client" where
  "Rcpt addr c = smtpCmd 25 (rcptLine addr) c"

fun rcptWrites :: "string list \<Rightarrow> Client \<Rightarrow> derror option \<times> Client" where
  "rcptWrites [] c = (None, c)"
| "rcptWrites (a # as) c = (case writeLine (rcptLine a) c of (Some err, c1) \<Rightarrow> (Some err, c1) | (None, c1) \<Rightarrow> rcptWrites as c1)"

fun rcptReads :: "nat \<Rightarrow> Client \<Rightarrow> (derror option list \<times> derror option) \<times> Client" where
  "rcptReads 0 c = (([], None), c)"
| "rcptReads (Suc n) c =
     (case readResponse 25 c of
        (Inl err, c1) \<Rightarrow>
          if smtpCode err = 0 then (([Some err], Some err), c1)
          else (let ((rs, be), c2) = rcptReads n c1 in ((Some err # rs, be), c2))
      | (Inr _, c1) \<Rightarrow> (let ((rs, be), c2) = rcptReads n c1 in ((None # rs, be), c2)))"

definition RcptBatch :: "string list \<Rightarrow> Client \<Rightarrow> (derror option list \<times> derror option) \<times> Client" where
  "RcptBatch as c = (case rcptWrites as c of (Some err, c1) \<Rightarrow> (([], Some err), c1) | (None, c1) \<Rightarrow> rcptReads (length as) c1)"

definition Data :: "Client \<Rightarrow> derror option \<times> Client" where
  "Data c = smtpCmd 354 ''DATA'' c"

text \<open>A piece of the body is written, or the write fails.\<close>

definition dataWrite :: "string \<Rightarrow> Client \<Rightarrow> derror option \<times> Client" where
  "dataWrite p c =
     (case cwrites c of
        Some err # ws \<Rightarrow> (Some err, c\<lparr>cwrites := ws\<rparr>)
      | ws \<Rightarrow> (None, c\<lparr>cwrites := tl ws, cbody := cbody c @ p\<rparr>))"

text \<open>Closing the writer: the terminator, then the final reply.\<close>

definition dataClose :: "Client \<Rightarrow> (derror + string) \<times> Client" where
  "dataClose c =
     (case cwrites c of
        Some err # ws \<Rightarrow> (Inl err, c\<lparr>cwrites := ws\<rparr>)
      | ws \<Rightarrow>
          (case readResponse 250 (c\<lparr>cwrites := tl ws, cterminated := True\<rparr>) of
             (Inl err, c1) \<Rightarrow> (Inl err, c1)
           | (Inr (n, m), c1) \<Rightarrow> (Inr (formatInt n @ '' '' @ m), c1)))"

definition Quit :: "Client \<Rightarrow> Client" where
  "Quit c = snd (writeLine ''QUIT'' c)"

subsection \<open>Sessions\<close>

record outboundTLS =
  requireSTARTTLS :: bool
  insecureSkipVerify :: bool
  allowPlaintext :: bool

record tlsConfig =
  TLSMode :: string
  AllowPlaintext :: "bool option"
  RequireValidMXTLSCert :: bool

definition PlaintextAllowed :: "tlsConfig \<Rightarrow> bool" where
  "PlaintextAllowed t =
     (if TLSMode t = ''required'' then False else (case AllowPlaintext t of Some b \<Rightarrow> b | None \<Rightarrow> False))"

definition InsecureTLSAllowed :: "tlsConfig \<Rightarrow> bool" where
  "InsecureTLSAllowed t =
     (if TLSMode t = ''opportunistic_insecure'' then True
      else TLSMode t = ''opportunistic'' \<and> \<not> RequireValidMXTLSCert t)"

definition effectiveTLS :: "tlsConfig \<Rightarrow> outboundTLS" where
  "effectiveTLS t =
     \<lparr>requireSTARTTLS = (TLSMode t = ''required'' \<or> \<not> PlaintextAllowed t), insecureSkipVerify = InsecureTLSAllowed t,
      allowPlaintext = (PlaintextAllowed t \<and> TLSMode t \<noteq> ''required'')\<rparr>"

definition NewClient :: "Client \<Rightarrow> Client" where
  "NewClient c = c\<lparr>exts := [], ctls := False, csent := [], cbody := [], cterminated := False, cread := []\<rparr>"

text \<open>The session after a dial that succeeded.\<close>

definition openSession :: "string \<Rightarrow> outboundTLS \<Rightarrow> bool \<Rightarrow> Client \<Rightarrow> derror + Client" where
  "openSession hostname policy noExtensions c0 =
     (case Greet c0 of
        (Some err, _) \<Rightarrow> Inl err
      | (None, c1) \<Rightarrow>
          (case EHLO hostname c1 of
             (Some err, c2) \<Rightarrow>
               if \<not> allowPlaintext policy \<or> \<not> noExtensions \<or> smtpCode err \<notin> {500, 502, 504} then Inl err
               else (case HELO hostname c2 of (Some err', _) \<Rightarrow> Inl err' | (None, c3) \<Rightarrow> Inr c3)
           | (None, c2) \<Rightarrow>
               if \<not> Extension c2 ''STARTTLS''
               then (if requireSTARTTLS policy \<or> \<not> allowPlaintext policy then Inl (Delivery errTLSRequired) else Inr c2)
               else
                 (case StartTLS (insecureSkipVerify policy) c2 of
                    (Some err, _) \<Rightarrow> Inl (DWrap (sentinelText errTLSFailed @ '': '' @ errorText (\<lambda>_. []) err) [Delivery errTLSFailed])
                  | (None, c3) \<Rightarrow>
                      (case EHLO hostname c3 of (Some err, _) \<Rightarrow> Inl err | (None, c4) \<Rightarrow> Inr c4))))"

definition dialAndSession :: "string \<Rightarrow> tlsConfig \<Rightarrow> (ip \<Rightarrow> derror + Client) \<Rightarrow> bool \<Rightarrow> ip \<Rightarrow> derror + Client" where
  "dialAndSession hostname t dial noExtensions i =
     (case dial i of
        Inl err \<Rightarrow> Inl err
      | Inr conn \<Rightarrow> openSession hostname (effectiveTLS t) noExtensions (NewClient conn))"

fun tryIPs :: "(ip \<Rightarrow> derror + Client) \<Rightarrow> ip list \<Rightarrow> derror \<Rightarrow> derror + Client" where
  "tryIPs session [] e = Inl e"
| "tryIPs session (i # is) e = (case session i of Inr c \<Rightarrow> Inr c | Inl err \<Rightarrow> tryIPs session is err)"

definition connect ::
  "discoveryCfg \<Rightarrow> resolver \<Rightarrow> string \<Rightarrow> tlsConfig \<Rightarrow> (ip \<Rightarrow> derror + Client) \<Rightarrow> mxCandidate \<Rightarrow> bool \<Rightarrow> derror + Client" where
  "connect d r hostname t dial candidate noExtensions =
     (case (case cips candidate of None \<Rightarrow> lookupHostIPs d r (chost candidate) | Some ips \<Rightarrow> Inr ips) of
        Inl err \<Rightarrow> Inl err
      | Inr ips \<Rightarrow> tryIPs (dialAndSession hostname t dial noExtensions) ips (Delivery errNoUsableIP))"

subsection \<open>Property\<close>

lemma readResponse_keeps: "readResponse e c = (r, c1) \<Longrightarrow> ctls c1 = ctls c \<and> chandshake c1 = chandshake c"
  by (auto simp: readResponse_def Let_def split: list.splits reply.splits if_splits)

lemma writeLine_keeps: "writeLine l c = (r, c1) \<Longrightarrow> ctls c1 = ctls c \<and> chandshake c1 = chandshake c"
  by (auto simp: writeLine_def split: list.splits option.splits)

lemma smtpCmd_keeps: "smtpCmd e l c = (r, c1) \<Longrightarrow> ctls c1 = ctls c \<and> chandshake c1 = chandshake c"
  unfolding smtpCmd_def by (auto split: prod.splits option.splits sum.splits dest!: readResponse_keeps writeLine_keeps)

lemma EHLO_keeps: "EHLO h c = (r, c1) \<Longrightarrow> ctls c1 = ctls c \<and> chandshake c1 = chandshake c"
  unfolding EHLO_def by (auto split: prod.splits option.splits sum.splits dest!: readResponse_keeps writeLine_keeps)

lemma HELO_keeps: "HELO h c = (r, c1) \<Longrightarrow> ctls c1 = ctls c"
  unfolding HELO_def by (auto split: prod.splits option.splits dest!: smtpCmd_keeps)

lemma Greet_keeps: "Greet c = (r, c1) \<Longrightarrow> ctls c1 = ctls c \<and> chandshake c1 = chandshake c"
  unfolding Greet_def by (auto split: prod.splits sum.splits dest!: readResponse_keeps)

lemma StartTLS_keeps: "StartTLS v c = (None, c1) \<Longrightarrow> ctls c1 \<and> chandshake c v = None"
  by (auto simp: StartTLS_def split: prod.splits option.splits dest!: smtpCmd_keeps)

lemma openSession_tls:
  assumes "openSession h pol ne c0 = Inr c" "\<not> ctls c0"
  shows "if ctls c then chandshake c0 (insecureSkipVerify pol) = None else allowPlaintext pol"
  using assms unfolding openSession_def
  by (auto split: prod.splits option.splits if_splits dest!: StartTLS_keeps EHLO_keeps HELO_keeps Greet_keeps)

lemma tryIPs_some: "tryIPs session is e = Inr c \<Longrightarrow> \<exists>i \<in> set is. session i = Inr c"
  by (induction "is" arbitrary: e) (auto split: sum.splits)

text \<open>C32: encryption is never given up. A session that is established is encrypted unless the
  configuration allows plaintext: in mode \<open>required\<close>, or whenever plaintext is not explicitly
  allowed, every session is encrypted, whatever the server answers. An encrypted session was
  opened with a server whose handshake passed with verification, unless the configuration says not to verify.\<close>

theorem tls_enforced:
  assumes "connect d r hostname t dial candidate noExt = Inr c"
  shows "(ctls c \<or> TLSMode t \<noteq> ''required'' \<and> AllowPlaintext t = Some True) \<and>
    (ctls c \<longrightarrow> (\<exists>i conn. dial i = Inr conn \<and> (chandshake conn False = None \<or>
       TLSMode t = ''opportunistic_insecure'' \<or> TLSMode t = ''opportunistic'' \<and> \<not> RequireValidMXTLSCert t)))"
proof -
  obtain ips e where "tryIPs (dialAndSession hostname t dial noExt) ips e = Inr c"
    using assms by (auto simp: connect_def split: sum.splits option.splits)
  then obtain i where "dialAndSession hostname t dial noExt i = Inr c" using tryIPs_some by blast
  then obtain conn where c: "dial i = Inr conn" "openSession hostname (effectiveTLS t) noExt (NewClient conn) = Inr c"
    by (auto simp: dialAndSession_def split: sum.splits)
  have "\<not> ctls (NewClient conn)" "chandshake (NewClient conn) = chandshake conn" by (simp_all add: NewClient_def)
  with openSession_tls [OF c(2)] have s: "if ctls c then chandshake conn (insecureSkipVerify (effectiveTLS t)) = None else allowPlaintext (effectiveTLS t)"
    by (simp split: if_splits)
  have "allowPlaintext (effectiveTLS t) \<Longrightarrow> TLSMode t \<noteq> ''required'' \<and> AllowPlaintext t = Some True"
    by (auto simp: effectiveTLS_def PlaintextAllowed_def split: if_splits option.splits)
  moreover have "insecureSkipVerify (effectiveTLS t) \<Longrightarrow> TLSMode t = ''opportunistic_insecure'' \<or> TLSMode t = ''opportunistic'' \<and> \<not> RequireValidMXTLSCert t"
    by (auto simp: effectiveTLS_def InsecureTLSAllowed_def split: if_splits)
  ultimately show ?thesis using s c(1) by (cases "insecureSkipVerify (effectiveTLS t)") (auto split: if_splits)
qed

text \<open>A server that offers STARTTLS, and one that does not.\<close>

definition sampleServer :: "bool \<Rightarrow> Client" where
  "sampleServer offers =
     \<lparr>exts = [], ctls = False,
      creplies = [Reply 220 ''mx'', Reply 250 (if offers then ''mx'' @ [CHR 0x0A] @ ''STARTTLS'' else ''mx''), Reply 220 ''go''],
      ctlsReplies = [Reply 250 ''mx'', Reply 250 ''ok'', Reply 250 ''ok'', Reply 354 ''go'', Reply 250 ''queued''], cwrites = [],
      chandshake = (\<lambda>skip. None), csent = [], cbody = [], cterminated = False, cread = []\<rparr>"

definition sampleTLS :: tlsConfig where
  "sampleTLS = \<lparr>TLSMode = ''required'', AllowPlaintext = None, RequireValidMXTLSCert = True\<rparr>"

theorem tls_enforced_witness:
  "\<exists>c. connect sampleDiscovery sampleResolver ''me'' sampleTLS (\<lambda>_. Inr (sampleServer True)) \<lparr>chost = ''mx'', cips = Some [[8, 8, 8, 8]]\<rparr> True = Inr c \<and>
    ctls c"
proof -
  have "case connect sampleDiscovery sampleResolver ''me'' sampleTLS (\<lambda>_. Inr (sampleServer True)) \<lparr>chost = ''mx'', cips = Some [[8, 8, 8, 8]]\<rparr> True of
      Inl _ \<Rightarrow> False | Inr _ \<Rightarrow> True" by code_simp
  then obtain c where c: "connect sampleDiscovery sampleResolver ''me'' sampleTLS (\<lambda>_. Inr (sampleServer True)) \<lparr>chost = ''mx'', cips = Some [[8, 8, 8, 8]]\<rparr> True = Inr c"
    by (auto split: sum.splits)
  from tls_enforced [OF c] show ?thesis using c by (auto simp: sampleTLS_def)
qed

end
