(* ===== verification/Body.thy ===== *)
theory Body
  imports Delivery Add_Live
begin

text \<open>
  Streaming a stored body, the readers of \<open>src/internal/queue/body.go\<close>. A reader hands out the bytes
  as they are read and checks the digest of what it handed out before it reports the end. \<open>source\<close> is what is
  left of the file or of the section of it that is read, \<open>hashed\<close> what has been hashed. How many
  bytes a read returns, or its failure, comes from outside.
\<close>

record trackedReader =
  source :: string
  remaining :: int
  tdigest :: string
  hashed :: string
  whole :: bool
  verified :: bool

text \<open>A read of the file returns at least one byte, or reports the end, or fails.\<close>

datatype fileRead = Bytes nat | ReadFails gerror

datatype readEnd = More | EOF | ReadError gerror

definition fileBytes :: "fileRead \<Rightarrow> int \<Rightarrow> string \<Rightarrow> string \<times> readEnd" where
  "fileBytes ev len src =
     (case ev of
        ReadFails g \<Rightarrow> ([], ReadError g)
      | Bytes k \<Rightarrow> if src = [] then ([], EOF) else (take (min (max 1 k) (nat len)) src, More))"

definition finishRead :: "ext \<Rightarrow> trackedReader \<Rightarrow> (string \<times> readEnd) \<times> trackedReader" where
  "finishRead x r =
     (if bodyDigest x (hashed r) \<noteq> tdigest r then (([], ReadError (corruptionf ''body digest mismatch'')), r)
      else (([], EOF), r\<lparr>verified := True\<rparr>))"

definition readerRead :: "ext \<Rightarrow> fileRead \<Rightarrow> int \<Rightarrow> trackedReader \<Rightarrow> (string \<times> readEnd) \<times> trackedReader" where
  "readerRead x ev len r =
     (if verified r then (([], EOF), r)
      else if remaining r = 0
      then (if whole r
            then (case fileBytes ev 1 (source r) of
                    (_, ReadError g) \<Rightarrow> (([], ReadError g), r)
                  | (_, More) \<Rightarrow> (([], ReadError (corruptionf ''body size mismatch while reading: body grew'')), r)
                  | (_, EOF) \<Rightarrow> finishRead x r)
            else finishRead x r)
      else
        (let (dat, st) = fileBytes ev (min len (remaining r)) (source r);
             r1 = r\<lparr>source := drop (length dat) (source r), hashed := hashed r @ dat, remaining := remaining r - int (length dat)\<rparr>
         in if st = EOF \<and> remaining r1 \<noteq> 0
            then ((dat, ReadError (corruptionf ''body size mismatch while reading: bytes missing'')), r1)
            else ((dat, st), r1)))"

definition openBody :: "ext \<Rightarrow> entry \<Rightarrow> Envelope \<Rightarrow> fsys \<Rightarrow> (gerror + nat) \<times> fsys" where
  "openBody x p env s =
     bindE (openRegular p bodyName s) (\<lambda>f s1.
     if int (length (fileV s1 f)) \<noteq> Size env then (Inl (corruptionf ''body size mismatch''), s1)
     else
       bindE (sysTouch s1) (\<lambda>_ s2.
       if int (length (fileV s2 f)) \<noteq> Size env then (Inl (corruptionf ''body size mismatch''), s2)
       else
         (case verifyEnvelopeBodyHandle x f env s2 of
            (Some e, s3) \<Rightarrow> (Inl e, s3)
          | (None, s3) \<Rightarrow> (Inr f, s3))))"

definition openAcceptedBody :: "ext \<Rightarrow> entry \<Rightarrow> string \<Rightarrow> fsys \<Rightarrow> (gerror + Envelope \<times> nat) \<times> fsys" where
  "openAcceptedBody x p expectID s =
     bindE (loadAcceptedMetadata x p expectID s) (\<lambda>env s1.
     bindE (openBody x p env s1) (\<lambda>f s2. (Inr (env, f), s2)))"

text \<open>The section a recipient's variant occupies; \<open>None\<close> for an invalid index.\<close>

definition variantReader :: "Envelope \<Rightarrow> string \<Rightarrow> int \<Rightarrow> trackedReader option" where
  "variantReader env dat bodyIndex =
     (if Bodies env \<noteq> []
      then (if bodyIndex < 0 \<or> bodyIndex \<ge> int (length (Bodies env)) then None
            else
              (let b = Bodies env ! nat bodyIndex
               in Some \<lparr>source = take (nat (BodySize b)) (drop (nat (Offset b)) dat), remaining = BodySize b,
                    tdigest = Digest b, hashed = [], whole = False, verified = False\<rparr>))
      else if bodyIndex \<noteq> 0 then None
      else Some \<lparr>source = dat, remaining = Size env, tdigest = BodyDigest env, hashed = [], whole = True, verified = False\<rparr>)"

text \<open>The operation ends when the reader is closed.\<close>

definition ReaderVariant :: "ext \<Rightarrow> string \<Rightarrow> int \<Rightarrow> Queue \<Rightarrow> fsys \<Rightarrow> (gerror + trackedReader) \<times> Queue \<times> fsys" where
  "ReaderVariant x i bodyIndex q s =
     (case beginOperation q of
        (Some err, q1) \<Rightarrow> (Inl err, q1, s)
      | (None, q1) \<Rightarrow>
          (case ValidateID i of
             Some err \<Rightarrow> (Inl err, endOperation q1, s)
           | None \<Rightarrow>
               (case openAcceptedBody x (dirReady, i) i s of
                  (Inl err, s1) \<Rightarrow> (Inl err, endOperation q1, s1)
                | (Inr (env, f), s1) \<Rightarrow>
                    (case variantReader env (fileV s1 f) bodyIndex of
                       None \<Rightarrow> (Inl (Msg ''invalid message body index''), endOperation q1, s1)
                     | Some r \<Rightarrow> (Inr r, q1, s1)))))"

definition closeReader :: "Queue \<Rightarrow> Queue" where
  "closeReader q = endOperation q"

definition readBodyFromFile :: "ext \<Rightarrow> nat \<Rightarrow> int \<Rightarrow> string \<Rightarrow> fsys \<Rightarrow> (gerror + string) \<times> fsys" where
  "readBodyFromFile x f expected digest s =
     bindE (copyExactBody f expected s) (\<lambda>body s1.
     if bodyDigest x body \<noteq> digest then (Inl (corruptionf ''body digest mismatch''), s1) else (Inr body, s1))"

text \<open>\<open>ReadBody\<close> of a queue that is not read-only: the message awaiting delivery, or the dead letter.\<close>

definition readBodyAt :: "ext \<Rightarrow> entry \<Rightarrow> string \<Rightarrow> fsys \<Rightarrow> (gerror + string) \<times> fsys" where
  "readBodyAt x p i s =
     bindE (openAcceptedBody x p i s) (\<lambda>(env, f) s1.
     bindE (readBodyFromFile x f (Size env) (BodyDigest env) s1) (\<lambda>body s2. (firstBodyVariant x env body, s2)))"

definition ReadBody :: "ext \<Rightarrow> string \<Rightarrow> Queue \<Rightarrow> fsys \<Rightarrow> (gerror + string) \<times> Queue \<times> fsys" where
  "ReadBody x i q s =
     (case beginOperation q of
        (Some err, q1) \<Rightarrow> (Inl err, q1, s)
      | (None, q1) \<Rightarrow>
          (case ValidateID i of
             Some err \<Rightarrow> (Inl err, endOperation q1, s)
           | None \<Rightarrow>
               (case openAcceptedBody x (dirReady, i) i s of
                  (Inr (env, f), s1) \<Rightarrow>
                    (case bindE (readBodyFromFile x f (Size env) (BodyDigest env) s1) (\<lambda>body s2. (firstBodyVariant x env body, s2)) of
                       (res, s2) \<Rightarrow> (res, endOperation q1, s2))
                | (Inl err, s1) \<Rightarrow>
                    if \<not> errors_Is err OsErrNotExist then (Inl err, endOperation q1, s1)
                    else (case readBodyAt x (dirDead, i) i s1 of (res, s2) \<Rightarrow> (res, endOperation q1, s2)))))"

subsection \<open>Reading to the end\<close>

text \<open>All reads of a reader until it reports an end, with buffers of any size: what was handed out and
  how it ended. The events run out only when nothing was read for good, which is a failure.\<close>

fun readAll :: "ext \<Rightarrow> (fileRead \<times> int) list \<Rightarrow> trackedReader \<Rightarrow> string \<times> readEnd" where
  "readAll x [] r = ([], More)"
| "readAll x ((ev, len) # evs) r =
     (case readerRead x ev len r of
        ((dat, More), r1) \<Rightarrow> (let (rest, st) = readAll x evs r1 in (dat @ rest, st))
      | ((dat, st), r1) \<Rightarrow> (dat, st))"


lemma fileBytes_prefix: "fileBytes ev len src = (dat, st) \<Longrightarrow> dat @ drop (length dat) src = src \<and> length dat \<le> nat len"
proof -
  have "take n src @ drop (length (take n src)) src = src" for n
    by (cases "n \<le> length src") simp_all
  then show "fileBytes ev len src = (dat, st) \<Longrightarrow> ?thesis"
    by (auto simp: fileBytes_def simp del: length_take split: fileRead.splits if_splits) simp
qed

lemma fileBytes_more: "fileBytes ev len src = (dat, More) \<Longrightarrow> 0 < len \<Longrightarrow> dat \<noteq> []"
  by (auto simp: fileBytes_def split: fileRead.splits if_splits)

text \<open>What a read does: it hands out the next bytes and hashes them.\<close>

lemma readerRead_step:
  assumes "readerRead x ev len r = ((dat, st), r1)" "0 \<le> remaining r"
  shows "source r = dat @ source r1 \<and> hashed r1 = hashed r @ dat \<and> remaining r = int (length dat) + remaining r1 \<and>
    tdigest r1 = tdigest r \<and> 0 \<le> remaining r1"
proof (cases "verified r \<or> remaining r = 0")
  case True
  then show ?thesis using assms by (auto simp: readerRead_def finishRead_def split: if_splits prod.splits readEnd.splits)
next
  case False
  obtain d e where d: "fileBytes ev (min len (remaining r)) (source r) = (d, e)" by fastforce
  have "d @ drop (length d) (source r) = source r" "length d \<le> nat (remaining r)"
    using fileBytes_prefix [OF d] by auto
  then show ?thesis using assms False d by (auto simp: readerRead_def Let_def split: if_splits)
qed

lemma readerRead_end:
  assumes "readerRead x ev len r = ((dat, EOF), r1)" "\<not> verified r" "0 \<le> remaining r"
  shows "dat = [] \<and> remaining r1 = 0 \<and> bodyDigest x (hashed r1) = tdigest r1"
proof (cases "remaining r = 0")
  case True
  then show ?thesis using assms by (auto simp: readerRead_def finishRead_def split: if_splits prod.splits readEnd.splits)
next
  case False
  then show ?thesis using assms by (auto simp: readerRead_def Let_def fileBytes_def split: if_splits fileRead.splits)
qed

lemma readerRead_more: "readerRead x ev len r = ((dat, More), r1) \<Longrightarrow> \<not> verified r1"
  by (auto simp: readerRead_def finishRead_def Let_def split: if_splits prod.splits readEnd.splits)

lemma readAll_verified:
  assumes "readAll x evs r = (dat, EOF)" "\<not> verified r" "0 \<le> remaining r"
  shows "bodyDigest x (hashed r @ dat) = tdigest r \<and> int (length dat) = remaining r \<and> take (length dat) (source r) = dat"
  using assms
proof (induction evs arbitrary: r dat)
  case (Cons p evs)
  obtain ev len where p: "p = (ev, len)" by fastforce
  obtain d st r1 where r1: "readerRead x ev len r = ((d, st), r1)" by (metis prod.collapse)
  note s = readerRead_step [OF r1 Cons.prems(3)]
  show ?case
  proof (cases st)
    case More
    obtain rest where rest: "readAll x evs r1 = (rest, EOF)" "dat = d @ rest"
      using Cons.prems(1) p r1 More by (auto split: prod.splits)
    have "\<not> verified r1" using r1 More readerRead_more by simp
    from Cons.IH [OF rest(1) this] s show ?thesis using rest(2) by auto
  next
    case EOF
    then show ?thesis using readerRead_end [OF r1 [unfolded EOF] Cons.prems(2,3)] r1 s Cons.prems(1) p by auto
  next
    case (ReadError g)
    then show ?thesis using Cons.prems(1) p r1 by simp
  qed
qed simp

subsection \<open>Property\<close>

text \<open>C33: a reader reports the end of a body only after all of it was handed out and its digest
  was found to be the recorded one, however the reads were cut into pieces; what was handed out is the stored section.\<close>

theorem reader_verifies:
  assumes "variantReader env dat i = Some r" "readAll x evs r = (out, EOF)" "0 \<le> Size env" "\<forall>b \<in> set (Bodies env). 0 \<le> BodySize b"
  shows "bodyDigest x out = tdigest r \<and> int (length out) = remaining r \<and> out = take (nat (remaining r)) (source r)"
proof -
  have "0 \<le> remaining r" "\<not> verified r" "hashed r = []"
    using assms by (auto simp: variantReader_def Let_def split: if_splits)
  with readAll_verified [OF assms(2)] show ?thesis by (metis append_Nil nat_int)
qed

theorem reader_verifies_witness:
  "\<exists>r. variantReader sampleSubmission ''abcde'' 1 = Some r \<and> readAll sampleExt [(Bytes 1, 5), (Bytes 9, 5), (Bytes 0, 1)] r = (''de'', EOF) \<and>
    bodyDigest sampleExt ''de'' = tdigest r"
proof -
  obtain r where r: "variantReader sampleSubmission ''abcde'' 1 = Some r"
    by (simp add: variantReader_def sampleSubmission_def)
  have e: "readAll sampleExt [(Bytes 1, 5), (Bytes 9, 5), (Bytes 0, 1)] r = (''de'', EOF)"
  proof -
    have "readAll sampleExt [(Bytes 1, 5), (Bytes 9, 5), (Bytes 0, 1)] (the (variantReader sampleSubmission ''abcde'' 1)) = (''de'', EOF)"
      by code_simp
    then show ?thesis using r by simp
  qed
  have "0 \<le> Size sampleSubmission" "\<forall>b \<in> set (Bodies sampleSubmission). 0 \<le> BodySize b" by (simp_all add: sampleSubmission_def)
  from reader_verifies [OF r e this] show ?thesis using r e by auto
qed

end
