(* ===== verification/Send.thy ===== *)
theory Send
  imports Client Body
begin

text \<open>
  Handing a message to one host, \<open>src/internal/deliver/send.go\<close>, and to the hosts of a domain in
  turn, \<open>src/internal/deliver/domain.go\<close>, with the updates of recipients of \<open>outcome.go\<close>. The
  outside world of one group of recipients is the record \<open>sendEnv\<close>: the resolver, the servers behind the
  addresses, how the reads of the body go, and when the context is found cancelled (before a host is tried, and
  while waiting for global capacity). Debug traces and log lines are left out.
\<close>

record sendEnv =
  sext :: ext
  stext :: "gerror \<Rightarrow> string"
  sdisc :: discoveryCfg
  sres :: resolver
  shostname :: string
  stlsCfg :: tlsConfig
  sdial :: "string \<Rightarrow> ip \<Rightarrow> derror + Client"
  sreads :: "string \<Rightarrow> (fileRead \<times> int) list"
  scancelled :: "string \<Rightarrow> bool"
  snoGlobal :: "string \<Rightarrow> bool"

definition ctxError :: derror where
  "ctxError = NetError ''context canceled''"

definition panicD :: derror where
  "panicD = NetError ''panic: index out of range''"

subsection \<open>Recipients\<close>

definition updateRecipient :: "(Recipient \<Rightarrow> Recipient) \<Rightarrow> Envelope \<Rightarrow> nat \<Rightarrow> Envelope" where
  "updateRecipient f e i = e\<lparr>Recipients := (Recipients e)[i := f (Recipients e ! i)]\<rparr>"

definition updateRecipients :: "(Recipient \<Rightarrow> Recipient) \<Rightarrow> nat list \<Rightarrow> Envelope \<Rightarrow> Envelope" where
  "updateRecipients f is e = fold (\<lambda>i e. updateRecipient f e i) is e"

definition reject :: "nat list \<Rightarrow> string \<Rightarrow> Envelope \<Rightarrow> Envelope" where
  "reject indexes detail e = updateRecipients (\<lambda>r. r\<lparr>RStatus := StatusFailed, Detail := normalizeDiagnostic detail\<rparr>) indexes e"

definition rejectSMTP :: "(gerror \<Rightarrow> string) \<Rightarrow> nat list \<Rightarrow> derror \<Rightarrow> Envelope \<Rightarrow> Envelope" where
  "rejectSMTP qt indexes err e =
     updateRecipients (\<lambda>r. r\<lparr>RStatus := StatusFailed, Detail := describe qt err, Code := smtpCode err, EnhancedCode := smtpEnhancedCode err\<rparr>)
       indexes e"

definition pendingOf :: "Envelope \<Rightarrow> nat list \<Rightarrow> nat list" where
  "pendingOf e indexes = filter (\<lambda>i. RStatus (Recipients e ! i) = StatusPending) indexes"

subsection \<open>The transaction\<close>

fun rcptEach :: "string list \<Rightarrow> Client \<Rightarrow> derror option list \<times> Client" where
  "rcptEach [] c = ([], c)"
| "rcptEach (a # as) c = (let (r, c1) = Rcpt a c; (rs, c2) = rcptEach as c1 in (r # rs, c2))"

text \<open>The results of \<open>RCPT\<close>: who was accepted, and the temporary failures.\<close>

fun rcptOutcome :: "(gerror \<Rightarrow> string) \<Rightarrow> (nat \<times> derror option) list \<Rightarrow> Envelope \<Rightarrow> nat list \<times> string list \<times> Envelope" where
  "rcptOutcome qt [] e = ([], [], e)"
| "rcptOutcome qt ((i, r) # rs) e =
     (case r of
        None \<Rightarrow> (let (acc, temp, e1) = rcptOutcome qt rs e in (i # acc, temp, e1))
      | Some err \<Rightarrow>
          if permanent err then rcptOutcome qt rs (rejectSMTP qt [i] err e)
          else
            (let e1 = updateRecipient (\<lambda>r. r\<lparr>Detail := describe qt err\<rparr>) e i;
                 note = Recipient.Address (Recipients e1 ! i) @ '': '' @ Detail (Recipients e1 ! i);
                 (acc, temp, e2) = rcptOutcome qt rs e1
             in (acc, note # temp, e2)))"

definition strJoin :: "string \<Rightarrow> string list \<Rightarrow> string" where
  "strJoin sep xs = (case xs of [] \<Rightarrow> [] | y # ys \<Rightarrow> y @ concat (map (\<lambda>z. sep @ z) ys))"

definition temporaryError :: "string list \<Rightarrow> derror" where
  "temporaryError temp = NetError (''temporary RCPT failures: '' @ strJoin ''; '' temp)"

text \<open>\<open>io.Copy(dw, io.LimitReader(reader, limit))\<close>: the bytes written and the error. A list of reads that
  ends too early stands for a read that fails.\<close>

fun copyBody :: "ext \<Rightarrow> (fileRead \<times> int) list \<Rightarrow> int \<Rightarrow> trackedReader \<Rightarrow> Client \<Rightarrow> (int \<times> derror option) \<times> Client" where
  "copyBody x [] lim r c = ((0, if lim \<le> 0 then None else Some (NetError ''read'')), c)"
| "copyBody x ((ev, len) # evs) lim r c =
     (if lim \<le> 0 then ((0, None), c)
      else
        (case readerRead x ev (min len lim) r of
           ((dat, st), r1) \<Rightarrow>
             (case (if dat = [] then (None, c) else dataWrite dat c) of
                (Some err, c1) \<Rightarrow> ((0, Some err), c1)
              | (None, c1) \<Rightarrow>
                  (case st of
                     EOF \<Rightarrow> ((int (length dat), None), c1)
                   | ReadError g \<Rightarrow> ((int (length dat), Some (QueueError g)), c1)
                   | More \<Rightarrow>
                       (let ((n, err), c2) = copyBody x evs (lim - int (length dat)) r1 c1
                        in ((int (length dat) + n, err), c2))))))"

type_synonym sendResult = "(bool \<times> derror option) \<times> Envelope \<times> Client"

text \<open>From \<open>DATA\<close> to the final reply.\<close>

definition sendData ::
  "sendEnv \<Rightarrow> string \<Rightarrow> int \<Rightarrow> trackedReader \<Rightarrow> nat list \<Rightarrow> string list \<Rightarrow> Envelope \<Rightarrow> Client \<Rightarrow> sendResult" where
  "sendData d host messageSize r accepted temporary e c =
     (case Data c of
        (Some err, c1) \<Rightarrow>
          if permanent err then ((True, None), rejectSMTP (stext d) accepted err e, c1) else ((False, Some err), e, c1)
      | (None, c1) \<Rightarrow>
          (case copyBody (sext d) (sreads d host) (messageSize + 1) r c1 of
             ((written, Some err), c2) \<Rightarrow> ((False, Some err), e, c2)
           | ((written, None), c2) \<Rightarrow>
               if written \<noteq> messageSize
               then ((False, Some (if written < messageSize
                        then DWrap (sentinelText errBodyTooShort @ '': got '' @ formatInt written @ '', want '' @ formatInt messageSize)
                               [Delivery errBodyTooShort]
                        else DWrap (sentinelText errBodyTooLong @ '': got at least '' @ formatInt written @ '', want '' @ formatInt messageSize)
                               [Delivery errBodyTooLong])), e, c2)
               else
                 (case dataClose c2 of
                    (Inl err, c3) \<Rightarrow>
                      if permanent err then ((True, None), rejectSMTP (stext d) accepted err e, c3) else ((False, Some err), e, c3)
                  | (Inr rep, c3) \<Rightarrow>
                      (let e1 = updateRecipients
                             (\<lambda>r. r\<lparr>RStatus := StatusSent, Detail := normalizeDiagnostic (host @ '': '' @ rep)\<rparr>) accepted e;
                           c4 = Quit c3
                       in if temporary \<noteq> [] then ((False, Some (temporaryError temporary)), e1, c4) else ((True, None), e1, c4)))))"

definition sendSession ::
  "sendEnv \<Rightarrow> string \<Rightarrow> int \<Rightarrow> bool \<Rightarrow> int \<Rightarrow> nat list \<Rightarrow> Envelope \<Rightarrow> Client \<Rightarrow> Queue \<Rightarrow> fsys \<Rightarrow> sendResult \<times> Queue \<times> fsys" where
  "sendSession d host messageSize eightBit body indexes e c q s =
     (if SMTPUTF8 e \<and> \<not> Extension c ''SMTPUTF8'' then (((False, Some (Delivery errSMTPUTF8Unsupported)), e, Quit c), q, s)
      else if eightBit \<and> \<not> Extension c ''8BITMIME'' then (((False, Some (Delivery err8BITMIMEUnsupported)), e, Quit c), q, s)
      else
        (case Mail (Sender e) \<lparr>OptSize = messageSize, OptUTF8 = SMTPUTF8 e, OptEightBit = eightBit\<rparr> c of
           (Some err, c1) \<Rightarrow>
             if isDelivery err errSMTPUTF8Unsupported \<or> isDelivery err err8BITMIMEUnsupported then (((False, Some err), e, Quit c1), q, s)
             else if permanent err then (((True, None), rejectSMTP (stext d) indexes err e, c1), q, s)
             else (((False, Some err), e, c1), q, s)
         | (None, c1) \<Rightarrow>
             (let pend = pendingOf e indexes;
                  addrs = map (\<lambda>i. Recipient.Address (Recipients e ! i)) pend;
                  ((results, batchErr), c2) =
                    (if Extension c1 ''PIPELINING'' \<and> length pend > 1 then RcptBatch addrs c1
                     else (let (rs, c2) = rcptEach addrs c1 in ((rs, None), c2)));
                  (accepted, temporary, e1) = rcptOutcome (stext d) (zip pend results) e
              in case batchErr of
                   Some err \<Rightarrow> (((False, Some err), e1, c2), q, s)
                 | None \<Rightarrow>
                     if accepted = []
                     then (if temporary \<noteq> [] then (((False, Some (temporaryError temporary)), e1, Quit c2), q, s)
                           else (((True, None), e1, Quit c2), q, s))
                     else
                       (case ReaderVariant (sext d) (ID e) body q s of
                          (Inl g, q1, s1) \<Rightarrow> (((False, Some (QueueError g)), e1, c2), q1, s1)
                        | (Inr r, q1, s1) \<Rightarrow> (sendData d host messageSize r accepted temporary e1 c2, closeReader q1, s1)))))"

definition send ::
  "sendEnv \<Rightarrow> Envelope \<Rightarrow> mxCandidate \<Rightarrow> int \<Rightarrow> nat list \<Rightarrow> Queue \<Rightarrow> fsys \<Rightarrow> ((bool \<times> derror option) \<times> Envelope \<times> Client option) \<times> Queue \<times> fsys" where
  "send d e candidate body indexes q s =
     (case (MessageSize e (hd indexes), MessageEightBit e (hd indexes)) of
        (Some messageSize, Some eightBit) \<Rightarrow>
          (case connect (sdisc d) (sres d) (shostname d) (stlsCfg d) (sdial d (chost candidate)) candidate (\<not> SMTPUTF8 e \<and> \<not> eightBit) of
             Inl err \<Rightarrow> (((False, Some err), e, None), q, s)
           | Inr c \<Rightarrow>
               (case sendSession d (chost candidate) messageSize eightBit body indexes e c q s of
                  ((res, e1, c1), q1, s1) \<Rightarrow> ((res, e1, Some c1), q1, s1)))
      | _ \<Rightarrow> (((False, Some panicD), e, None), q, s))"

subsection \<open>The hosts of a domain\<close>

record domainState =
  lastErr :: "derror option"
  sawEligible :: bool
  sawRetryable :: bool
  capabilityOnly :: bool
  sawUTF8CapErr :: bool
  sawEightBitCapErr :: bool

definition capabilityDetail :: "bool \<Rightarrow> bool \<Rightarrow> string" where
  "capabilityDetail needUTF8 needEight =
     (if needUTF8 \<and> needEight then sentinelText errSMTPUTF8Unsupported @ ''; '' @ sentinelText err8BITMIMEUnsupported
      else if needUTF8 then sentinelText errSMTPUTF8Unsupported
      else if needEight then sentinelText err8BITMIMEUnsupported
      else ''required SMTP capability missing'')"

definition firstErr :: "derror \<Rightarrow> domainState \<Rightarrow> domainState" where
  "firstErr err st = (if lastErr st = None then st\<lparr>lastErr := Some err\<rparr> else st)"

text \<open>What the outcome of one host says about the domain.\<close>

definition noteOutcome :: "derror option \<Rightarrow> domainState \<Rightarrow> domainState" where
  "noteOutcome res st =
     (case res of
        None \<Rightarrow> st\<lparr>capabilityOnly := False, sawRetryable := True\<rparr>
      | Some err \<Rightarrow>
          (let st1 = st\<lparr>sawEligible := True\<rparr>
           in if isDelivery err errSMTPUTF8Unsupported then firstErr err (st1\<lparr>sawUTF8CapErr := True\<rparr>)
              else if isDelivery err err8BITMIMEUnsupported then firstErr err (st1\<lparr>sawEightBitCapErr := True\<rparr>)
              else if isDelivery err errPrivateDestination then firstErr err (st1\<lparr>capabilityOnly := False\<rparr>)
              else st1\<lparr>capabilityOnly := False, sawRetryable := True, lastErr := Some err\<rparr>))"

text \<open>The loop over the candidates: \<open>Inl\<close> when it returns from within, with the error or none.\<close>

fun tryHosts ::
  "sendEnv \<Rightarrow> int \<Rightarrow> nat list \<Rightarrow> mxCandidate list \<Rightarrow> domainState \<Rightarrow> Envelope \<Rightarrow> Queue \<Rightarrow> fsys \<Rightarrow>
   (derror option + domainState) \<times> Envelope \<times> Queue \<times> fsys" where
  "tryHosts d body indexes [] st e q s = (Inr st, e, q, s)"
| "tryHosts d body indexes (m # ms) st e q s =
     (if scancelled d (chost m) \<or> snoGlobal d (chost m) then (Inl (Some ctxError), e, q, s)
      else
        (case send d e m body indexes q s of
           (((True, _), e1, _), q1, s1) \<Rightarrow> (Inl None, e1, q1, s1)
         | (((False, res), e1, _), q1, s1) \<Rightarrow> tryHosts d body indexes ms (noteOutcome res st) e1 q1 s1))"

definition domainVerdict :: "sendEnv \<Rightarrow> nat list \<Rightarrow> domainState \<Rightarrow> Envelope \<Rightarrow> derror option \<times> Envelope" where
  "domainVerdict d indexes st e =
     (if sawEligible st \<and> capabilityOnly st \<and> (sawUTF8CapErr st \<or> sawEightBitCapErr st)
      then (None, reject indexes (capabilityDetail (sawUTF8CapErr st) (sawEightBitCapErr st)) e)
      else
        (case lastErr st of
           None \<Rightarrow> (Some (NetError ''no usable MX host''), e)
         | Some err \<Rightarrow>
             if \<not> sawRetryable st \<and> isDelivery err errPrivateDestination
             then (None, reject indexes (errorText (stext d) err) e)
             else (Some err, e)))"

definition deliverDomain ::
  "sendEnv \<Rightarrow> Envelope \<Rightarrow> string \<Rightarrow> int \<Rightarrow> nat list \<Rightarrow> Queue \<Rightarrow> fsys \<Rightarrow> derror option \<times> Envelope \<times> Queue \<times> fsys" where
  "deliverDomain d e domain body indexes q s =
     (case hosts (sdisc d) (sres d) domain of
        Inl err \<Rightarrow>
          if isDelivery err errNullMX \<or> isDelivery err errNoSuchDomain
          then (None, reject indexes (errorText (stext d) err) e, q, s)
          else (Some err, e, q, s)
      | Inr ms \<Rightarrow>
          (case tryHosts d body indexes ms
                  \<lparr>lastErr = None, sawEligible = False, sawRetryable = False, capabilityOnly = True,
                   sawUTF8CapErr = False, sawEightBitCapErr = False\<rparr> e q s of
             (Inl res, e1, q1, s1) \<Rightarrow> (res, e1, q1, s1)
           | (Inr st, e1, q1, s1) \<Rightarrow> (case domainVerdict d indexes st e1 of (res, e2) \<Rightarrow> (res, e2, q1, s1))))"

end
