(* ===== verification/Notice.thy ===== *)
theory Notice
  imports Recovery
begin

text \<open>
  Delivery notices in the queue, \<open>src/internal/queue/dsn.go\<close>: a notice is staged under \<open>dsn/\<close>, accepted,
  linked from the metadata of the message it reports on, and only then moved to \<open>ready/\<close> and scheduled.
  Deferred calls run last in, first out: the cleanup of the stage, the reservation, the ownership of
  both IDs, the operation.
\<close>

subsection \<open>Publication\<close>

text \<open>The staged or published notice, whether it was moved now, and the error.\<close>

type_synonym publication = "Envelope option \<times> bool \<times> gerror option"

definition publishStagedDSN :: "ext \<Rightarrow> Envelope \<Rightarrow> Envelope \<Rightarrow> fsys \<Rightarrow> publication \<times> fsys" where
  "publishStagedDSN x expectedSource dsn s =
     (let src = (dirReady, DSNSourceID dsn); stage = (dirDSN, ID dsn);
          failed = (\<lambda>err s. ((None, False, Some err), s))
      in case diskSyncEntry src s of
           (Some err, s1) \<Rightarrow> failed err s1
         | (None, s1) \<Rightarrow>
             (case loadAcceptedDir x src (DSNSourceID dsn) s1 of
                (Inl err, s2) \<Rightarrow> failed err s2
              | (Inr durable, s2) \<Rightarrow>
                  if Incarnation durable \<noteq> DSNSourceIncarnation dsn \<or> DSNGeneration durable \<noteq> DSNGeneration dsn \<or> DSNIDLink durable \<noteq> ID dsn
                  then failed (idConflict ''source DSN link changed'') s2
                  else if Incarnation durable \<noteq> Incarnation expectedSource \<or> Revision durable \<noteq> Revision expectedSource
                  then failed (idConflict ''source metadata changed before DSN publication'') s2
                  else
                    (case sysStat stage s2 of
                       (Inl err, s3) \<Rightarrow>
                         if \<not> errors_Is err OsErrNotExist then failed err s3
                         else
                           (case loadAcceptedDir x (dirReady, ID dsn) (ID dsn) s3 of
                              (Inr existing, s4) \<Rightarrow>
                                if \<not> sameDSNIdentity existing dsn \<or> DSNSourceRevision existing \<noteq> Revision durable
                                then failed (idConflict ''published DSN identity changed'') s4
                                else ((Some existing, False, None), s4)
                            | (Inl readyErr, s4) \<Rightarrow>
                                if \<not> errors_Is readyErr OsErrNotExist then failed readyErr s4 else ((None, False, None), s4))
                     | (Inr _, s3) \<Rightarrow>
                         (case loadAcceptedDir x stage (ID dsn) s3 of
                            (Inl err, s4) \<Rightarrow> failed err s4
                          | (Inr staged, s4) \<Rightarrow>
                              if \<not> sameDSNIdentity staged dsn \<or> DSNSourceRevision staged \<noteq> Revision durable
                              then failed (idConflict ''staged DSN identity mismatch'') s4
                              else
                                (case moveState stage (dirReady, ID dsn) s4 of
                                   ((moved, err), s5) \<Rightarrow>
                                     if err \<noteq> None \<and> \<not> moved then ((None, False, err), s5) else ((Some staged, True, err), s5))))))"

text \<open>A published notice is accounted and scheduled, and both IDs are given up.\<close>

definition publishNotice :: "Envelope \<Rightarrow> Envelope \<Rightarrow> string \<Rightarrow> Queue \<Rightarrow> Queue" where
  "publishNotice accountedAs scheduledAs source q =
     (let (_, q1) = noteAddedLocked accountedAs q;
          (_, q2) = scheduleLocked scheduledAs (releaseTransition (ID scheduledAs) (releaseTransition source q1))
      in signal q2)"

subsection \<open>Staging\<close>

text \<open>\<open>disk.MkdirDurable\<close> of an entry: made, its directory synced, and taken back when that fails.\<close>

definition mkdirStage :: "entry \<Rightarrow> fsys \<Rightarrow> gerror option \<times> fsys" where
  "mkdirStage p s =
     (case sysStat p s of
        (Inr _, s1) \<Rightarrow> thenE (diskSyncNs (fst p) s1) (\<lambda>s2. errOf (sysTouch s2))
      | (Inl e, s1) \<Rightarrow>
          if \<not> errors_Is e OsErrNotExist then (Some e, s1)
          else
            thenE (ensureDurableDir (fst p) s1) (\<lambda>s2.
            thenE (diskMkdir p s2) (\<lambda>s3.
            case diskSyncNs (fst p) s3 of
              (Some err, s4) \<Rightarrow> (Some err, snd (sysRmdir p s4))
            | (None, s4) \<Rightarrow> (None, s4))))"

definition stageDSN :: "string \<Rightarrow> string \<Rightarrow> string \<Rightarrow> fsys \<Rightarrow> gerror option \<times> fsys" where
  "stageDSN i dat meta s =
     (let stage = (dirDSN, i)
      in thenE (diskWrite stage addStateName addPending s) (\<lambda>s.
         thenE (diskWrite stage bodyName dat s) (\<lambda>s.
         thenE (diskWrite stage metaName meta s) (\<lambda>s.
         thenE (diskSyncEntry stage s) (\<lambda>s.
         acceptAdd stage s)))))"

text \<open>The ID must be free, but for a stage that was never linked: that one is removed.\<close>

definition clearStage :: "opInput \<Rightarrow> string \<Rightarrow> Queue \<Rightarrow> fsys \<Rightarrow> gerror option \<times> Queue \<times> fsys" where
  "clearStage inp i q s =
     (case sysStat (dirDSN, i) s of
        (Inr _, s1) \<Rightarrow>
          (let (measured, s2) = AllocatedBytes (dirDSN, i) s1
           in case thenE (RemoveAll (dirDSN, i) s2) (\<lambda>s3. diskSyncNs dirDSN s3) of
                (Some err, s4) \<Rightarrow> (Some err, q, s4)
              | (None, s4) \<Rightarrow> (None, removePhysical (measuredBytes inp measured) q, s4))
      | (Inl err, s1) \<Rightarrow> if \<not> errors_Is err OsErrNotExist then (Some err, q, s1) else (None, q, s1))"

definition absent :: "spoolDir \<Rightarrow> string \<Rightarrow> fsys \<Rightarrow> gerror option \<times> fsys" where
  "absent d i s =
     (case sysStat (d, i) s of
        (Inr _, s1) \<Rightarrow> (Some (idConflict (i @ '' already exists'')), s1)
      | (Inl err, s1) \<Rightarrow> if \<not> errors_Is err OsErrNotExist then (Some err, s1) else (None, s1))"

text \<open>What is left of the physical reservation, and the queue.\<close>

definition commitHeld :: "int \<Rightarrow> int \<times> Queue \<Rightarrow> int \<times> Queue" where
  "commitHeld n hq =
     (let (held, q) = hq
      in if n \<le> 0 \<or> held = 0 then hq else (held - min n held, commitPhysicalLocked (min n held) q))"

definition noticePhysical :: "int \<Rightarrow> int \<Rightarrow> int \<Rightarrow> int option" where
  "noticePhysical bodySize metaLen linkedLen =
     (case checkedAddInt64 (estimatePersistentEntryAllocation bodySize metaLen) (AllocationSize 0) of
        None \<Rightarrow> None
      | Some p \<Rightarrow> checkedAddInt64 p (replaceHold linkedLen))"


subsection \<open>The operation\<close>

definition noticeRelease :: "Envelope \<Rightarrow> int \<times> Queue \<Rightarrow> Queue" where
  "noticeRelease dsn hq = releaseReserveLocked (Size dsn) (fst hq) [] (snd hq)"

text \<open>After the reservation of \<open>physical\<close> bytes: whether the IDs are still owned, the error, the
  source, the queue and the spool. A stage that is accepted stays for a retry or the recovery.\<close>

definition noticeLinked ::
  "ext \<Rightarrow> Envelope \<Rightarrow> Envelope \<Rightarrow> Envelope \<Rightarrow> Envelope \<Rightarrow> int \<Rightarrow> int \<times> Queue \<Rightarrow> fsys \<Rightarrow> bool \<times> gerror option \<times> Envelope \<times> Queue \<times> fsys" where
  "noticeLinked x source durable linked dsn linkedLen hq s =
     (let (retained, storeErr, linked1, q1, s1) = storeReadyDSNLink x linked (snd hq) s;
          hq1 = (if retained then commitHeld (AllocationSize linkedLen) (fst hq, q1) else (fst hq, q1))
      in case storeErr of
           Some err \<Rightarrow>
             (let (held, q2) = commitHeld (AllocationSize 0) hq1;
                  q3 = q2\<lparr>requeues := mput (ID source) (requeuesOf q2 (ID source) @ [cloneEnvelope durable]) (requeues q2)\<rparr>
              in (True, Some err, source, noticeRelease dsn (held, q3), s1))
         | None \<Rightarrow>
             (case publishStagedDSN x linked1 dsn s1 of
                ((staged, moved, err), s2) \<Rightarrow>
                  if err \<noteq> None \<and> \<not> moved
                  then (True, err, source, noticeRelease dsn (commitHeld (AllocationSize 0) hq1), s2)
                  else
                    (case staged of
                       None \<Rightarrow> (True, Some panicError, source, noticeRelease dsn hq1, s2)
                     | Some st \<Rightarrow>
                         (False, err, source\<lparr>DSNIDLink := ID dsn, Revision := Revision linked1\<rparr>,
                          publishNotice st dsn (ID source) (noticeRelease dsn hq1), s2))))"

definition noticeReserved ::
  "ext \<Rightarrow> Envelope \<Rightarrow> Envelope \<Rightarrow> Envelope \<Rightarrow> Envelope \<Rightarrow> string \<Rightarrow> string \<Rightarrow> int \<Rightarrow> int \<Rightarrow> Queue \<Rightarrow> fsys \<Rightarrow>
   bool \<times> gerror option \<times> Envelope \<times> Queue \<times> fsys" where
  "noticeReserved x source durable linked dsn dat meta linkedLen physical q s =
     (let persistent = estimatePersistentEntryAllocation (Size dsn) (int (length meta))
      in case mkdirStage (dirDSN, ID dsn) s of
           (Some err, s1) \<Rightarrow> (True, Some err, source, noticeRelease dsn (physical, q), s1)
         | (None, s1) \<Rightarrow>
             (case stageDSN (ID dsn) dat meta s1 of
                (Some err, s2) \<Rightarrow>
                  (let (removeErr, s3) = RemoveAll (dirDSN, ID dsn) s2; (syncErr, s4) = diskSyncNs dirDSN s3
                   in (True, Some err, source,
                       noticeRelease dsn
                         (if removeErr \<noteq> None \<or> syncErr \<noteq> None then commitHeld (wrap64 (persistent + AllocationSize 0)) (physical, q)
                          else (physical, q)), s4))
              | (None, s2) \<Rightarrow> noticeLinked x source durable linked dsn linkedLen (commitHeld persistent (physical, q)) s2))"

text \<open>After the checks of the stored source: validation, the estimate, the free ID.\<close>

definition noticeFresh ::
  "ext \<Rightarrow> opInput \<Rightarrow> Envelope \<Rightarrow> Envelope \<Rightarrow> Envelope \<Rightarrow> string \<Rightarrow> Queue \<Rightarrow> fsys \<Rightarrow> bool \<times> gerror option \<times> Envelope \<times> Queue \<times> fsys" where
  "noticeFresh x inp source durable dsn dat q s =
     (let failed = (\<lambda>err. (True, Some err, source, q, s))
      in if Revision durable \<noteq> Revision source then failed (idConflict ''source metadata changed'')
         else
           (case incrementRevision (Revision durable) of
              Inl err \<Rightarrow> failed err
            | Inr expectedSourceRevision \<Rightarrow>
                (let (verr, dsn1) = validateEnvelope (toASCII x) (hexdigest x) (dsn\<lparr>DSNSourceRevision := expectedSourceRevision\<rparr>);
                     (lerr, linked) = validateEnvelope (toASCII x) (hexdigest x) ((cloneEnvelope source)\<lparr>DSNIDLink := ID dsn\<rparr>)
                 in case firstErr [verr, verifyBodyData x dsn1 dat] of
                      Some err \<Rightarrow> failed err
                    | None \<Rightarrow>
                        (case marshalEnvelope x dsn1 of
                           Inl err \<Rightarrow> failed err
                         | Inr meta \<Rightarrow>
                             (case lerr of
                                Some err \<Rightarrow> failed err
                              | None \<Rightarrow>
                                  (case marshalEnvelope x linked of
                                     Inl err \<Rightarrow> failed err
                                   | Inr linkedMeta \<Rightarrow>
                                       (case noticePhysical (Size dsn1) (int (length meta)) (int (length linkedMeta)) of
                                          None \<Rightarrow> failed (Sentinel ErrSpoolFull)
                                        | Some physical \<Rightarrow>
                                            (case thenE (absent dirReady (ID dsn1) s) (\<lambda>s1. absent dirDead (ID dsn1) s1) of
                                               (Some err, s1) \<Rightarrow> (True, Some err, source, q, s1)
                                             | (None, s1) \<Rightarrow>
                                                 (case clearStage inp (ID dsn1) q s1 of
                                                    (Some err, q1, s2) \<Rightarrow> (True, Some err, source, q1, s2)
                                                  | (None, q1, s2) \<Rightarrow>
                                                      (case reserveLocked (opFree inp) (Size dsn1) physical True True [] q1 of
                                                         (Some err, q2) \<Rightarrow> (True, Some err, source, q2, s2)
                                                       | (None, q2) \<Rightarrow>
                                                           noticeReserved x source durable linked dsn1 dat meta (int (length linkedMeta)) physical q2 s2))))))))))"

text \<open>The source is linked already: its notice is published if that has not happened.\<close>

definition noticeAgain ::
  "ext \<Rightarrow> Envelope \<Rightarrow> Envelope \<Rightarrow> Envelope \<Rightarrow> Queue \<Rightarrow> fsys \<Rightarrow> bool \<times> gerror option \<times> Envelope \<times> Queue \<times> fsys" where
  "noticeAgain x source durable dsn q s =
     (if DSNIDLink durable \<noteq> ID dsn then (True, Some (idConflict ''source links another notice''), source, q, s)
      else
        (case publishStagedDSN x durable dsn s of
           ((staged, published, err), s1) \<Rightarrow>
             (let q1 = (case staged of Some st \<Rightarrow> if published then publishNotice st st (ID source) q else q | None \<Rightarrow> q)
              in case err of
                   Some er \<Rightarrow> (\<not> published, Some er, source, q1, s1)
                 | None \<Rightarrow> (\<not> published, None, source\<lparr>DSNIDLink := ID dsn, Revision := Revision durable\<rparr>, q1, s1))))"

definition noticeOwned ::
  "ext \<Rightarrow> opInput \<Rightarrow> Envelope \<Rightarrow> Envelope \<Rightarrow> string \<Rightarrow> Queue \<Rightarrow> fsys \<Rightarrow> bool \<times> gerror option \<times> Envelope \<times> Queue \<times> fsys" where
  "noticeOwned x inp source dsn dat q s =
     (if ID source \<in> set (blocked q) \<or> ID dsn \<in> set (blocked q)
      then (True, Some (idConflict ''DSN source or destination is blocked by unresolved corruption''), source, q, s)
      else
        (case loadAcceptedDir x (dirReady, ID source) (ID source) s of
           (Inl err, s1) \<Rightarrow> (True, Some err, source, q, s1)
         | (Inr durable, s1) \<Rightarrow>
             (let conflict = (\<lambda>m. (True, Some (idConflict m), source, q, s1))
              in if DSNGeneration durable \<noteq> DSNGeneration source then conflict ''source DSN generation changed''
                 else if Incarnation durable \<noteq> Incarnation source then conflict ''source incarnation changed''
                 else if Size durable \<noteq> Size source \<or> BodyDigest durable \<noteq> BodyDigest source then conflict ''source body identity changed''
                 else if \<not> sameMessageContent durable source then conflict ''source message identity changed''
                 else if DSNIDLink durable \<noteq> [] then noticeAgain x source durable dsn q s1
                 else noticeFresh x inp source durable dsn dat q s1)))"

definition noticePrecheck :: "ext \<Rightarrow> Envelope \<Rightarrow> Envelope \<Rightarrow> gerror option" where
  "noticePrecheck x source dsn =
     (case ValidateID (ID source) of
        Some err \<Rightarrow> Some err
      | None \<Rightarrow>
          if DSNSourceID dsn \<noteq> ID source \<or> DSNSourceIncarnation dsn \<noteq> Incarnation source \<or> DSNGeneration dsn \<noteq> DSNGeneration source \<or>
             ID dsn \<noteq> DSNID (hexdigest x) (ID source) (Incarnation source) (DSNGeneration source)
          then Some (idConflict ''DSN identity mismatch'')
          else if DSNSourceID source \<noteq> [] then Some (Msg ''cannot generate a DSN for a DSN'')
          else if Pending source \<noteq> 0 then Some (Msg ''cannot generate a DSN while recipients are pending'')
          else if Failed source = 0 then Some (Msg ''cannot generate a DSN without failed recipients'')
          else None)"

definition AddDSN ::
  "ext \<Rightarrow> opInput \<Rightarrow> gerror + string \<Rightarrow> Envelope option \<Rightarrow> Envelope option \<Rightarrow> string \<Rightarrow> Queue \<Rightarrow> fsys \<Rightarrow>
   gerror option \<times> Envelope option \<times> Queue \<times> fsys" where
  "AddDSN x inp freshInc source0 dsn0 dat q s =
     (case beginOperation q of
        (Some err, q1) \<Rightarrow> (Some err, source0, q1, s)
      | (None, q1) \<Rightarrow>
          (let failed = (\<lambda>err q. (Some err, source0, endOperation q, s))
           in case rejectReadOnly q1 of
                Some err \<Rightarrow> failed err q1
              | None \<Rightarrow>
                  (case (source0, dsn0) of
                     (Some source, Some dsn1) \<Rightarrow>
                       (case noticePrecheck x source dsn1 of
                          Some err \<Rightarrow> failed err q1
                        | None \<Rightarrow>
                            (case (if Incarnation dsn1 = [] then freshInc else Inr (Incarnation dsn1)) of
                               Inl err \<Rightarrow> failed err q1
                             | Inr inc \<Rightarrow>
                                 (let dsn = dsn1\<lparr>Incarnation := inc, Revision := 1, Size := int (length dat), BodyDigest := bodyDigest x dat\<rparr>;
                                      ids = [ID source, ID dsn]
                                  in case beginTransitions ids q1 of
                                       (Some err, q2) \<Rightarrow> failed err q2
                                     | (None, q2) \<Rightarrow>
                                         (case startMutation (opTime inp) (opUsage inp) q2 of
                                            (Some err, q3) \<Rightarrow> failed err (endTransitions ids q3)
                                          | (None, q3) \<Rightarrow>
                                              (let (owned, err, source1, q4, s1) = noticeOwned x inp source dsn dat q3 s
                                               in (err, Some source1, endOperation (if owned then endTransitions ids q4 else q4), s1))))))
                   | _ \<Rightarrow> failed (Msg ''missing DSN envelope'') q1)))"

end
