(* ===== verification/Report.thy ===== *)
theory Report
  imports Send Notice
begin

text \<open>
  Delivery notices, \<open>src/internal/deliver/dsn.go\<close>: what is read back of the message, the report that is
  built of it, and its hand-over to the queue. The boundary, the DKIM signer and the rendering of times are
  arguments.
\<close>

subsection \<open>Parts of a report\<close>

definition dsnOriginalLimit :: int where
  "dsnOriginalLimit = 262144"

definition generatedDSNOwner :: string where
  "generatedDSNOwner = CHR 0x00 # ''generated-dsn''"

definition crlf :: string where
  "crlf = [CHR 0x0D, CHR 0x0A]"

definition hasHighOctet :: "string \<Rightarrow> bool" where
  "hasHighOctet s = list_ex (\<lambda>c. code c \<ge> 128) s"

definition failedOf :: "Envelope \<Rightarrow> Recipient list" where
  "failedOf e = filter (\<lambda>r. RStatus r = StatusFailed) (Recipients e)"

definition dsnReportUTF8 :: "Envelope \<Rightarrow> bool" where
  "dsnReportUTF8 e =
     (if SMTPUTF8 e \<or> hasHighOctet (Sender e) then True
      else list_ex (\<lambda>r. RStatus r = StatusFailed \<and> (hasHighOctet (Recipient.Address r) \<or> hasHighOctet (Detail r))) (Recipients e))"

definition dsnStatus :: "Recipient \<Rightarrow> string" where
  "dsnStatus r =
     (if EnhancedCode r \<noteq> [] \<and> parseEnhancedCode (Code r) (EnhancedCode r) = EnhancedCode r then EnhancedCode r
      else
        (let class = goDiv (Code r) 100
         in if class = 4 \<or> class = 5 then formatInt class @ ''.0.0'' else ''5.0.0''))"

text \<open>The loop that drops bytes until the text is valid.\<close>

function truncateValid :: "string \<Rightarrow> string" where
  "truncateValid s = (if utf8Valid s then s else truncateValid (butlast s))"
  by pat_completeness auto

termination
proof (relation "measure length")
  fix s :: string
  assume "\<not> utf8Valid s"
  then have "s \<noteq> []" by (auto simp: utf8Valid_def)
  then show "(butlast s, s) \<in> measure length" by simp
qed simp

declare truncateValid.simps [simp del]

definition sanitizeHeader :: "string \<Rightarrow> string" where
  "sanitizeHeader s0 =
     (let s = map (\<lambda>c. if c = CHR 0x0D \<or> c = CHR 0x0A then CHR '' '' else c) s0
      in if length s > 200 then truncateValid (take 200 s) else s)"

subsection \<open>The report\<close>

definition humanText :: "string \<Rightarrow> Recipient list \<Rightarrow> string" where
  "humanText hostname failed =
     ''This is the mail system at host '' @ hostname @ ''.'' @ crlf @ crlf @
     ''I'' @ [CHR 0x27] @ ''m sorry to have to inform you that your message could not'' @ crlf @
     ''be delivered to one or more recipients.'' @ crlf @ crlf @
     concat (map (\<lambda>r. ''<'' @ Recipient.Address r @ ''>: '' @ Detail r @ crlf) failed)"

definition recipientReport :: "string \<Rightarrow> Recipient \<Rightarrow> string" where
  "recipientReport addressType r =
     crlf @ ''Final-Recipient: '' @ addressType @ ''; '' @ Recipient.Address r @ crlf @
     ''Action: failed'' @ crlf @
     ''Status: '' @ dsnStatus r @ crlf @
     (if Detail r \<noteq> [] then ''Diagnostic-Code: smtp; '' @ sanitizeHeader (Detail r) @ crlf else [])"

definition statusReport :: "string \<Rightarrow> string \<Rightarrow> string \<Rightarrow> string \<Rightarrow> Recipient list \<Rightarrow> string" where
  "statusReport hostname arrival i addressType failed =
     ''Reporting-MTA: dns; '' @ hostname @ crlf @
     ''Arrival-Date: '' @ arrival @ crlf @
     ''X-Original-Envelope-ID: '' @ i @ crlf @
     concat (map (recipientReport addressType) failed)"

text \<open>\<open>bytes.Index\<close> of a blank line, as the position after the blank line.\<close>

fun headerEnd :: "string \<Rightarrow> nat option" where
  "headerEnd [] = None"
| "headerEnd (c # s) =
     (if hasPrefix (c # s) (crlf @ crlf) then Some 4 else map_option Suc (headerEnd s))"

definition originalPart :: "string \<Rightarrow> string" where
  "originalPart original =
     (let orig = (if original = [] then crlf else original)
      in if int (length orig) > dsnOriginalLimit
         then (case headerEnd orig of Some k \<Rightarrow> take k orig | None \<Rightarrow> orig)
         else orig)"

definition endLine :: "string \<Rightarrow> string" where
  "endLine s = (if hasSuffix s crlf then s else s @ crlf)"

text \<open>\<open>buildDSN\<close>: \<open>now\<close> is the rendering of the current time, \<open>rfc1123z\<close> renders the arrival.\<close>

definition buildDSN ::
  "ext \<Rightarrow> (gtime \<Rightarrow> string) \<Rightarrow> string \<Rightarrow> gerror + string \<Rightarrow> string \<Rightarrow> Envelope \<Rightarrow> string \<Rightarrow> gerror + string" where
  "buildDSN x rfc1123z now freshBoundary hostname0 e original =
     (case DomainOf (toASCII x) (Sender e) of
        Inl err \<Rightarrow> Inl (Wrap ''dsn sender domain'' [err])
      | Inr domain \<Rightarrow>
          (let hostname = (if hostname0 = [] then ''localhost'' else hostname0)
           in case freshBoundary of
                Inl err \<Rightarrow> Inl err
              | Inr boundary \<Rightarrow>
                  (let failed = failedOf e; global = dsnReportUTF8 e;
                       reportType = (if global then ''global-delivery-status'' else ''delivery-status'');
                       statusMediaType = (if global then ''message/global-delivery-status'' else ''message/delivery-status'');
                       addressType = (if global then ''utf-8'' else ''rfc822'');
                       originalMediaType = (if global then ''message/global'' else ''message/rfc822'');
                       msgID = ''<'' @ DSNID (hexdigest x) (ID e) (Incarnation e) (DSNGeneration e) @ ''@'' @ hostname @ ''>''
                   in if failed = [] then Inl (Msg ''no failed recipients for DSN'')
                      else Inr (
                        ''From: Mail Delivery System <MAILER-DAEMON@'' @ domain @ ''>'' @ crlf @
                        ''To: <'' @ Sender e @ ''>'' @ crlf @
                        ''Subject: Undelivered Mail Returned to Sender'' @ crlf @
                        ''Date: '' @ now @ crlf @
                        ''Message-ID: '' @ msgID @ crlf @
                        ''MIME-Version: 1.0'' @ crlf @
                        ''Content-Type: multipart/report; report-type='' @ reportType @ '';'' @ crlf @ [CHR 0x09] @ ''boundary='' @ [CHR 0x22] @ boundary @ [CHR 0x22] @ crlf @
                        ''Auto-Submitted: auto-replied'' @ crlf @ crlf @
                        ''--'' @ boundary @ crlf @
                        ''Content-Type: text/plain; charset=utf-8'' @ crlf @
                        ''Content-Disposition: inline'' @ crlf @
                        ''Content-Transfer-Encoding: 8bit'' @ crlf @ crlf @
                        endLine (humanText hostname failed) @
                        crlf @ ''--'' @ boundary @ crlf @
                        ''Content-Type: '' @ statusMediaType @ crlf @
                        ''Content-Description: Delivery report'' @ crlf @ crlf @
                        endLine (statusReport hostname (rfc1123z (Created e)) (ID e) addressType failed) @
                        crlf @ ''--'' @ boundary @ crlf @
                        ''Content-Type: '' @ originalMediaType @ crlf @
                        ''Content-Description: Undelivered Message'' @ crlf @ crlf @
                        endLine (originalPart original) @
                        crlf @ ''--'' @ boundary @ ''--'' @ crlf))))"

subsection \<open>Handing a notice to the queue\<close>

text \<open>What a notice takes from outside besides the inputs of the queue's operation.\<close>

record noticeEnv =
  nreads :: "(fileRead \<times> int) list"
  nboundary :: "gerror + string"
  nrfc1123z :: "gtime \<Rightarrow> string"
  nsigner :: "(string \<Rightarrow> string \<Rightarrow> gerror + string) option"
  nnow :: gtime
  nincarnation :: "gerror + string"
  nop :: opInput

text \<open>\<open>io.ReadAll(io.LimitReader(r, limit))\<close>: a list of reads that ends too early stands for a read that fails.\<close>

fun readLimited :: "ext \<Rightarrow> (fileRead \<times> int) list \<Rightarrow> int \<Rightarrow> trackedReader \<Rightarrow> gerror + string" where
  "readLimited x [] lim r = (if lim \<le> 0 then Inr [] else Inl (Msg ''read''))"
| "readLimited x ((ev, len) # evs) lim r =
     (if lim \<le> 0 then Inr []
      else
        (case readerRead x ev (min len lim) r of
           ((dat, EOF), r1) \<Rightarrow> Inr dat
         | ((dat, ReadError g), r1) \<Rightarrow> Inl g
         | ((dat, More), r1) \<Rightarrow>
             (case readLimited x evs (lim - int (length dat)) r1 of Inl g \<Rightarrow> Inl g | Inr rest \<Rightarrow> Inr (dat @ rest))))"

definition readDSNOriginal :: "ext \<Rightarrow> (fileRead \<times> int) list \<Rightarrow> trackedReader \<Rightarrow> gerror + string" where
  "readDSNOriginal x evs r =
     (case readLimited x evs (dsnOriginalLimit + 1) r of
        Inl g \<Rightarrow> Inl g
      | Inr original \<Rightarrow>
          if int (length original) \<le> dsnOriginalLimit then Inr original
          else
            (case headerEnd original of
               Some k \<Rightarrow> Inr (take k original)
             | None \<Rightarrow> Inr (take (nat dsnOriginalLimit) original)))"

definition firstFailedBody :: "Envelope \<Rightarrow> int" where
  "firstFailedBody e = (case failedOf e of [] \<Rightarrow> 0 | r # _ \<Rightarrow> BodyIndex r)"

definition noticeEnvelope :: "ext \<Rightarrow> gtime \<Rightarrow> string \<Rightarrow> bool \<Rightarrow> Envelope \<Rightarrow> Envelope" where
  "noticeEnvelope x now domain eightBit e =
     \<lparr>ID = DSNID (hexdigest x) (ID e) (Incarnation e) (DSNGeneration e), Incarnation = [], Revision = 0,
      Username = generatedDSNOwner, Sender = [],
      Recipients = [\<lparr>Address = Sender e, Domain = domain, BodyIndex = 0, RStatus = StatusPending, Detail = [], Code = 0, EnhancedCode = []\<rparr>],
      Bodies = [], Size = 0, Created = now, Attempts = 0, NextAttempt = now, LastError = [], SMTPUTF8 = dsnReportUTF8 e,
      EightBit = eightBit, BodyDigest = [], DSNIDLink = [], DSNSourceID = ID e, DSNSourceIncarnation = Incarnation e,
      DSNSourceRevision = 0, DSNGeneration = DSNGeneration e, PreferredDomain = [], index = 0\<rparr>"

definition ensureDSN ::
  "ext \<Rightarrow> string \<Rightarrow> noticeEnv \<Rightarrow> Envelope \<Rightarrow> Queue \<Rightarrow> fsys \<Rightarrow> gerror option \<times> Envelope \<times> Queue \<times> fsys" where
  "ensureDSN x hostname n e q s =
     (if DSNIDLink e \<noteq> [] \<or> DSNSourceID e \<noteq> [] \<or> Sender e = [] then (None, e, q, s)
      else if Envelope.Failed e = 0 then (None, e, q, s)
      else
        (case ReaderVariant x (ID e) (firstFailedBody e) q s of
           (Inl g, q1, s1) \<Rightarrow> (Some g, e, q1, s1)
         | (Inr r, q1, s1) \<Rightarrow>
             (let q2 = closeReader q1
              in case readDSNOriginal x (nreads n) r of
                   Inl g \<Rightarrow> (Some g, e, q2, s1)
                 | Inr body \<Rightarrow>
                     (case DomainOf (toASCII x) (Sender e) of
                        Inl err \<Rightarrow> (Some (Wrap ''dsn recipient domain'' [err]), e, q2, s1)
                      | Inr domain \<Rightarrow>
                          (case buildDSN x (nrfc1123z n) (nrfc1123z n (nnow n)) (nboundary n) hostname e body of
                             Inl err \<Rightarrow> (Some err, e, q2, s1)
                           | Inr msg \<Rightarrow>
                               (case (case nsigner n of
                                        None \<Rightarrow> Inr msg
                                      | Some sign \<Rightarrow>
                                          (case sign (''MAILER-DAEMON@'' @ domain) msg of
                                             Inl err \<Rightarrow> Inl (Wrap ''dsn dkim'' [err]) | Inr sig \<Rightarrow> Inr (sig @ msg))) of
                                  Inl err \<Rightarrow> (Some err, e, q2, s1)
                                | Inr message \<Rightarrow>
                                    (case AddDSN x (nop n) (nincarnation n) (Some e)
                                            (Some (noticeEnvelope x (nnow n) domain (hasHighOctet message) e)) message q2 s1 of
                                       (err, e1, q3, s2) \<Rightarrow> (err, (case e1 of Some e1 \<Rightarrow> e1 | None \<Rightarrow> e), q3, s2))))))))"

end
