(* ===== verification/Report_Props.thy ===== *)
theory Report_Props
  imports Report
begin

text \<open>
  Reports can be read back: whatever the servers answered and the recipients are called, the
  machine-readable part lists exactly the failed recipients with their status codes.
\<close>

subsection \<open>Lines\<close>

definition noBreaks :: "string \<Rightarrow> bool" where
  "noBreaks s \<longleftrightarrow> CHR 0x0D \<notin> set s \<and> CHR 0x0A \<notin> set s"

lemma noBreaks_append [simp]: "noBreaks (s @ t) \<longleftrightarrow> noBreaks s \<and> noBreaks t"
  by (auto simp: noBreaks_def)

lemma noBreaks_Cons [simp]: "noBreaks (c # s) \<longleftrightarrow> c \<noteq> CHR 0x0D \<and> c \<noteq> CHR 0x0A \<and> noBreaks s" "noBreaks []"
  by (auto simp: noBreaks_def)

definition stripCR :: "string \<Rightarrow> string" where
  "stripCR l = (if l \<noteq> [] \<and> last l = CHR 0x0D then butlast l else l)"

definition textLines :: "string \<Rightarrow> string list" where
  "textLines s = map stripCR (splitOn (CHR 0x0A) s)"

lemma textLines_crlf: "noBreaks l \<Longrightarrow> textLines (l @ crlf @ rest) = l # textLines rest"
proof -
  assume l: "noBreaks l"
  have "splitOn (CHR 0x0A) ((l @ [CHR 0x0D]) @ CHR 0x0A # rest) = splitOn (CHR 0x0A) (l @ [CHR 0x0D]) @ splitOn (CHR 0x0A) rest"
    by (rule splitOn_append)
  moreover have "splitOn (CHR 0x0A) (l @ [CHR 0x0D]) = [l @ [CHR 0x0D]]" using l by (intro splitOn_none) (auto simp: noBreaks_def)
  ultimately show ?thesis by (simp add: textLines_def crlf_def stripCR_def)
qed

subsection \<open>Fields\<close>

text \<open>A reader of the report: after each \<open>Final-Recipient\<close> come the action and the status.\<close>

definition recipientField :: "string \<Rightarrow> string" where
  "recipientField t = ''Final-Recipient: '' @ t @ ''; ''"

fun reportFields :: "string \<Rightarrow> string list \<Rightarrow> (string \<times> string) list" where
  "reportFields t (a # b # c # ls) =
     (if hasPrefix a (recipientField t) then (drop (length (recipientField t)) a, drop 8 c) # reportFields t ls
      else reportFields t (b # c # ls))"
| "reportFields t ls = []"

lemma reportFields_skip: "\<not> hasPrefix a (recipientField t) \<Longrightarrow> reportFields t (a # ls) = reportFields t ls"
  by (cases ls rule: list.exhaust; cases "tl ls") auto

lemma hasPrefix_append [simp]: "hasPrefix (p @ s) p"
  by (simp add: hasPrefix_def)

lemma notField [simp]: "\<not> hasPrefix [] (recipientField t)" "\<not> hasPrefix (CHR ''D'' # s) (recipientField t)"
    "\<not> hasPrefix (CHR ''R'' # s) (recipientField t)" "\<not> hasPrefix (CHR ''A'' # s) (recipientField t)" "\<not> hasPrefix (CHR ''X'' # s) (recipientField t)"
  by (simp_all add: hasPrefix_def recipientField_def)

lemma truncateValid_ok: "utf8Valid (truncateValid s) \<and> set (truncateValid s) \<subseteq> set s \<and> length (truncateValid s) \<le> length s"
proof (induction s rule: truncateValid.induct)
  case (1 s)
  show ?case
  proof (cases "utf8Valid s")
    case True
    then show ?thesis by (simp add: truncateValid.simps)
  next
    case False
    then have "truncateValid s = truncateValid (butlast s)" by (subst truncateValid.simps) simp
    with 1 [OF False] show ?thesis by (auto dest: in_set_butlastD)
  qed
qed

lemma sanitizeHeader_ok: "noBreaks (sanitizeHeader s) \<and> length (sanitizeHeader s) \<le> 200"
proof -
  let ?m = "map (\<lambda>c. if c = CHR 0x0D \<or> c = CHR 0x0A then CHR '' '' else c) s"
  have m: "noBreaks ?m" by (auto simp: noBreaks_def)
  have t: "set (truncateValid (take 200 ?m)) \<subseteq> set ?m" "length (truncateValid (take 200 ?m)) \<le> 200"
    using truncateValid_ok [of "take 200 ?m"] set_take_subset [of 200 ?m] by (auto simp: subset_iff)
  then have "noBreaks (truncateValid (take 200 ?m))" using m unfolding noBreaks_def by blast
  then show ?thesis using m t(2) unfolding sanitizeHeader_def Let_def by simp
qed

lemma splitOn_chars: "c \<in> set s \<Longrightarrow> c = d \<or> (\<exists>w \<in> set (splitOn d s). c \<in> set w)"
  by (induction s) (auto split: list.splits if_splits)

lemma enhancedPart_chars: "enhancedPart p \<Longrightarrow> c \<in> set p \<Longrightarrow> is_digit c"
  by (auto simp: enhancedPart_def list_all_iff)

lemma parseEnhanced_chars:
  assumes "parseEnhancedCode n m = f" "f \<noteq> []" "c \<in> set f"
  shows "c = CHR ''.'' \<or> is_digit c"
proof -
  obtain k a b where s: "splitOn (CHR ''.'') f = [[k], a, b]" "k = CHR ''2'' \<or> k = CHR ''4'' \<or> k = CHR ''5''" "enhancedPart a" "enhancedPart b"
    using assms(1,2) by (auto simp: parseEnhancedCode_def Let_def split: list.splits if_splits)
  have "is_digit k" using s(2) by (auto simp: is_digit_def code_def)
  with splitOn_chars [OF assms(3), of "CHR ''.''"] s enhancedPart_chars show ?thesis by auto
qed

lemma dsnStatus_line: "noBreaks (dsnStatus r)"
proof (cases "EnhancedCode r \<noteq> [] \<and> parseEnhancedCode (Code r) (EnhancedCode r) = EnhancedCode r")
  case True
  then have "c \<in> set (EnhancedCode r) \<Longrightarrow> c = CHR ''.'' \<or> is_digit c" for c
    using parseEnhanced_chars by blast
  from this [of "CHR 0x0D"] this [of "CHR 0x0A"] have "noBreaks (EnhancedCode r)"
    unfolding noBreaks_def by (auto simp: is_digit_def code_def)
  then show ?thesis using True by (simp add: dsnStatus_def)
next
  case False
  have "formatInt 4 = ''4''" "formatInt 5 = ''5''" by code_simp+
  then show ?thesis using False unfolding dsnStatus_def by (auto simp: Let_def)
qed

lemma fields_of_recipient:
  assumes "noBreaks t" "noBreaks (Recipient.Address r)"
  shows "reportFields t (textLines (recipientReport t r @ rest)) = (Recipient.Address r, dsnStatus r) # reportFields t (textLines rest)"
proof -
  let ?f = "recipientField t @ Recipient.Address r"
  let ?d = "''Diagnostic-Code: smtp; '' @ sanitizeHeader (Detail r)"
  have nb: "noBreaks ?f" "noBreaks ''Action: failed''" "noBreaks (''Status: '' @ dsnStatus r)" "noBreaks ?d"
    using assms dsnStatus_line sanitizeHeader_ok by (simp_all add: recipientField_def)
  have "recipientReport t r @ rest = [] @ crlf @ ?f @ crlf @ ''Action: failed'' @ crlf @ (''Status: '' @ dsnStatus r) @ crlf @
      (if Detail r \<noteq> [] then ?d @ crlf @ rest else rest)"
    by (simp add: recipientReport_def recipientField_def)
  then have "textLines (recipientReport t r @ rest) = [] # ?f # ''Action: failed'' # (''Status: '' @ dsnStatus r) #
      (if Detail r \<noteq> [] then ?d # textLines rest else textLines rest)"
    using nb by (simp only: textLines_crlf noBreaks_Cons(2) split: if_split) simp
  then show ?thesis by (simp add: reportFields_skip del: append.simps append_assoc) (simp add: reportFields_skip)
qed

lemma fields_of_recipients:
  assumes "noBreaks t" "\<forall>r \<in> set rs. noBreaks (Recipient.Address r)"
  shows "reportFields t (textLines (concat (map (recipientReport t) rs))) = map (\<lambda>r. (Recipient.Address r, dsnStatus r)) rs"
proof -
  have "textLines [] = [[]]" by (simp add: textLines_def stripCR_def)
  then show ?thesis using assms by (induction rs) (simp_all add: fields_of_recipient)
qed

subsection \<open>Property\<close>

text \<open>C31: the machine-readable part of a notice can be read back. It names exactly the failed
  recipients, in order, each with its status, whatever the diagnostics contain: no reply of a
  server can add a field or another recipient to the report.\<close>

theorem dsn_report_roundtrip:
  assumes "noBreaks hostname" "noBreaks arrival" "noBreaks i" "noBreaks t" "\<forall>r \<in> set failed. noBreaks (Recipient.Address r)"
  shows "reportFields t (textLines (statusReport hostname arrival i t failed)) = map (\<lambda>r. (Recipient.Address r, dsnStatus r)) failed"
proof -
  let ?a = "''Reporting-MTA: dns; '' @ hostname" and ?b = "''Arrival-Date: '' @ arrival" and ?c = "''X-Original-Envelope-ID: '' @ i"
  have "statusReport hostname arrival i t failed = ?a @ crlf @ ?b @ crlf @ ?c @ crlf @ concat (map (recipientReport t) failed)"
    by (simp add: statusReport_def)
  moreover have "noBreaks ?a" "noBreaks ?b" "noBreaks ?c" using assms by simp_all
  ultimately have "textLines (statusReport hostname arrival i t failed) = ?a # ?b # ?c # textLines (concat (map (recipientReport t) failed))"
    by (simp only: textLines_crlf)
  then show ?thesis using fields_of_recipients [OF assms(4,5)] by (simp add: reportFields_skip del: reportFields.simps)
qed

definition sampleFailed :: Recipient where
  "sampleFailed = \<lparr>Address = ''bob@example.com'', Domain = ''example.com'', BodyIndex = 0, RStatus = StatusFailed,
     Detail = ''550 no'' @ crlf @ ''Status: 2.0.0'', Code = 550, EnhancedCode = ''5.1.1''\<rparr>"

theorem dsn_report_roundtrip_witness:
  "reportFields ''rfc822'' (textLines (statusReport ''mx.example.org'' ''Mon'' ''m1'' ''rfc822'' [sampleFailed])) = [(''bob@example.com'', ''5.1.1'')]"
proof -
  have "dsnStatus sampleFailed = ''5.1.1''" by code_simp
  then show ?thesis
    using dsn_report_roundtrip [of "''mx.example.org''" "''Mon''" "''m1''" "''rfc822''" "[sampleFailed]"] by (simp add: sampleFailed_def)
qed

end
