(* ===== verification/Slots.thy ===== *)
theory Slots
  imports Prelude "HOL-Library.Multiset"
begin

text \<open>
  Limiters that hand out slots per key: the concurrency of deliveries per domain and per owner,
  \<open>src/internal/deliver/limiter.go\<close>, and the connections per address and in total,
  \<open>src/internal/smtpd/connlimit.go\<close>. The interface \<open>slot_limiter\<close> states what both promise; what
  holds in every interleaving of their clients is proved once over it.
\<close>

subsection \<open>Deliveries per key\<close>

record domainLimiter =
  limit :: int
  slots :: "(string, int) gmap"

definition newDomainLimiter :: "int \<Rightarrow> domainLimiter" where
  "newDomainLimiter n = \<lparr>limit = (if n < 1 then 1 else n), slots = []\<rparr>"

definition tryAcquire :: "string \<Rightarrow> domainLimiter \<Rightarrow> bool \<times> domainLimiter" where
  "tryAcquire d l =
     (if d = '''' then (True, l)
      else
        (case mget (slots l) d of
           None \<Rightarrow> (True, l\<lparr>slots := mput d 1 (slots l)\<rparr>)
         | Some h \<Rightarrow> if h \<ge> limit l then (False, l) else (True, l\<lparr>slots := mput d (h + 1) (slots l)\<rparr>)))"

text \<open>The result is whether a slot was given back, which is when \<open>onRelease\<close> is called.\<close>

definition releaseSlot :: "string \<Rightarrow> domainLimiter \<Rightarrow> bool \<times> domainLimiter" where
  "releaseSlot d l =
     (case mget (slots l) d of
        None \<Rightarrow> (False, l)
      | Some h \<Rightarrow> (True, l\<lparr>slots := (if h - 1 \<le> 0 then mdel d (slots l) else mput d (h - 1) (slots l))\<rparr>))"

definition available :: "string \<Rightarrow> domainLimiter \<Rightarrow> bool" where
  "available d l = (if d = '''' then True else (case mget (slots l) d of None \<Rightarrow> True | Some h \<Rightarrow> h < limit l))"

subsection \<open>Connections\<close>

record connectionLimiter =
  global :: int
  perIP :: int
  cactive :: int
  cbyIP :: "(string, int) gmap"

definition newConnectionLimiter :: "int \<Rightarrow> int \<Rightarrow> connectionLimiter" where
  "newConnectionLimiter g p =
     \<lparr>global = (if g \<le> 0 then 256 else g), perIP = (if p \<le> 0 then 16 else p), cactive = 0, cbyIP = []\<rparr>"

definition connsOf :: "connectionLimiter \<Rightarrow> string \<Rightarrow> int" where
  "connsOf l ip = (case mget (cbyIP l) ip of None \<Rightarrow> 0 | Some n \<Rightarrow> n)"

definition acquire :: "string \<Rightarrow> connectionLimiter \<Rightarrow> bool \<times> connectionLimiter" where
  "acquire ip l =
     (if cactive l \<ge> global l then (False, l)
      else if connsOf l ip \<ge> perIP l then (False, l)
      else (True, l\<lparr>cactive := cactive l + 1, cbyIP := mput ip (connsOf l ip + 1) (cbyIP l)\<rparr>))"

definition release :: "string \<Rightarrow> connectionLimiter \<Rightarrow> connectionLimiter" where
  "release ip l =
     (let a = cactive l - 1; n = connsOf l ip - 1
      in l\<lparr>cactive := (if a < 0 then 0 else a), cbyIP := (if n \<le> 0 then mdel ip (cbyIP l) else mput ip n (cbyIP l))\<rparr>)"

subsection \<open>The interface\<close>

text \<open>\<open>usage\<close> is what the limiter believes to be held under a key; \<open>fits\<close> says whether
  one more may be granted when \<open>M\<close> is held.\<close>

locale slot_limiter =
  fixes grab :: "'k \<Rightarrow> 's \<Rightarrow> bool \<times> 's" and free :: "'k \<Rightarrow> 's \<Rightarrow> 's"
    and usage :: "'k multiset \<Rightarrow> 's \<Rightarrow> bool" and allowed :: "'k multiset \<Rightarrow> 's \<Rightarrow> 'k \<Rightarrow> bool"
  assumes grab_exact: "usage M s \<Longrightarrow> fst (grab k s) \<longleftrightarrow> allowed M s k"
    and grab_usage: "usage M s \<Longrightarrow> fst (grab k s) \<Longrightarrow> usage (add_mset k M) (snd (grab k s))"
    and grab_refused: "\<not> fst (grab k s) \<Longrightarrow> snd (grab k s) = s"
    and free_usage: "usage (add_mset k M) s \<Longrightarrow> usage M (free k s)"
    and allowed_stable: "allowed M (snd (grab k s)) = allowed M s" "allowed M (free k s) = allowed M s"
begin

text \<open>Any interleaving of clients, each of which gives back what it was granted.\<close>

inductive runs :: "'s \<Rightarrow> 'k multiset \<Rightarrow> 's \<Rightarrow> bool" for s0 where
  start: "runs s0 {#} s0"
| granted: "runs s0 M s \<Longrightarrow> grab k s = (True, s') \<Longrightarrow> runs s0 (add_mset k M) s'"
| refused: "runs s0 M s \<Longrightarrow> grab k s = (False, s') \<Longrightarrow> runs s0 M s'"
| returned: "runs s0 (add_mset k M) s \<Longrightarrow> runs s0 M (free k s)"

lemma runs_usage: "runs s0 M s \<Longrightarrow> usage {#} s0 \<Longrightarrow> usage M s \<and> allowed N s = allowed N s0"
proof (induction rule: runs.induct)
  case (granted M s k s')
  then show ?case using grab_usage [of M s k] allowed_stable(1) [of N k s] by simp
next
  case (refused M s k s')
  then show ?case using grab_refused [of k s] by simp
next
  case (returned k M s)
  then show ?case using free_usage allowed_stable(2) by simp
qed simp

lemma never_leaks:
  assumes "runs s0 M s" "usage {#} s0"
  shows "fst (grab k s) \<longleftrightarrow> allowed M s0 k"
  using grab_exact [of M s k] runs_usage [OF assms] by simp

text \<open>What every grant keeps holds of whatever is held.\<close>

lemma bounded:
  assumes "runs s0 M s" "usage {#} s0" "P {#}" and grow: "\<And>N k. P N \<Longrightarrow> allowed N s0 k \<Longrightarrow> P (add_mset k N)"
    and shrink: "\<And>N k. P (add_mset k N) \<Longrightarrow> P N"
  shows "P M"
  using assms(1)
proof (induction rule: runs.induct)
  case (granted M s k s')
  have "allowed M s0 k" using never_leaks [OF granted.hyps(1) assms(2)] granted.hyps(2) by (metis fst_conv)
  then show ?case using granted.IH grow by blast
next
  case (returned k M s)
  then show ?case using shrink by blast
qed (use assms(3) in simp_all)

end

subsection \<open>Both limiters keep it\<close>

text \<open>A delivery without a pending domain takes no slot, so only named keys count.\<close>

definition domainUsage :: "string multiset \<Rightarrow> domainLimiter \<Rightarrow> bool" where
  "domainUsage M l \<longleftrightarrow> 1 \<le> limit l \<and> (\<forall>d. d \<noteq> '''' \<longrightarrow> mget (slots l) d = (if d \<in># M then Some (int (count M d)) else None)) \<and>
     mget (slots l) '''' = None"

definition domainAllowed :: "string multiset \<Rightarrow> domainLimiter \<Rightarrow> string \<Rightarrow> bool" where
  "domainAllowed M l d \<longleftrightarrow> d = '''' \<or> int (count M d) < limit l"

lemma tryAcquire_limit [simp]: "limit (snd (tryAcquire d l)) = limit l"
  by (simp add: tryAcquire_def split: option.split)

lemma releaseSlot_limit [simp]: "limit (snd (releaseSlot d l)) = limit l"
  by (simp add: releaseSlot_def split: option.split)

lemma domainUsage_none: "domainUsage M l \<Longrightarrow> mget (slots l) k = None \<Longrightarrow> k \<noteq> [] \<Longrightarrow> count M k = 0"
  by (metis domainUsage_def not_in_iff option.distinct(1))

interpretation domain_slots: slot_limiter tryAcquire "\<lambda>d l. snd (releaseSlot d l)" domainUsage domainAllowed
proof
  show "fst (tryAcquire k s) \<longleftrightarrow> domainAllowed M s k" if "domainUsage M s" for M s k
    using that by (auto simp: tryAcquire_def domainAllowed_def domainUsage_def not_in_iff)
  show "domainUsage (add_mset k M) (snd (tryAcquire k s))" if "domainUsage M s" "fst (tryAcquire k s)" for M s k
    using that domainUsage_none [OF that(1), of k]
    by (cases "k = []"; cases "mget (slots s) k") (auto simp: tryAcquire_def domainUsage_def mget_mput split: if_splits)
  show "domainUsage M (snd (releaseSlot k s))" if "domainUsage (add_mset k M) s" for M s k
  proof (cases "k = []")
    case True
    have "mget (slots s) d = (if d \<in># M then Some (int (count M d)) else None)" if "d \<noteq> []" for d
      using \<open>domainUsage (add_mset k M) s\<close> that True by (simp add: domainUsage_def)
    then show ?thesis using that True by (simp add: releaseSlot_def domainUsage_def)
  next
    case False
    then have "mget (slots s) k = Some (int (count M k) + 1)" using that by (simp add: domainUsage_def)
    then show ?thesis using that False
      by (simp add: releaseSlot_def domainUsage_def mget_mput mget_mdel not_in_iff [symmetric])
  qed
qed (auto simp: tryAcquire_def domainAllowed_def split: option.splits if_splits)

definition connUsage :: "string multiset \<Rightarrow> connectionLimiter \<Rightarrow> bool" where
  "connUsage M l \<longleftrightarrow> 1 \<le> perIP l \<and> cactive l = int (size M) \<and>
     (\<forall>ip. mget (cbyIP l) ip = (if ip \<in># M then Some (int (count M ip)) else None))"

definition connAllowed :: "string multiset \<Rightarrow> connectionLimiter \<Rightarrow> string \<Rightarrow> bool" where
  "connAllowed M l ip \<longleftrightarrow> int (size M) < global l \<and> int (count M ip) < perIP l"

lemma connsOf_usage: "connUsage M l \<Longrightarrow> connsOf l ip = int (count M ip)"
  by (simp add: connUsage_def connsOf_def not_in_iff)

interpretation conns: slot_limiter acquire release connUsage connAllowed
proof
  show "fst (acquire k s) \<longleftrightarrow> connAllowed M s k" if "connUsage M s" for M s k
    using that connsOf_usage [OF that] by (auto simp: acquire_def connAllowed_def connUsage_def)
  show "connUsage (add_mset k M) (snd (acquire k s))" if "connUsage M s" "fst (acquire k s)" for M s k
    using that connsOf_usage [OF that(1)] by (auto simp: acquire_def connUsage_def mget_mput split: if_splits)
  show "connUsage M (release k s)" if "connUsage (add_mset k M) s" for M s k
    using that connsOf_usage [OF that] by (auto simp: release_def Let_def connUsage_def mget_mput mget_mdel not_in_iff [symmetric])
qed (auto simp: acquire_def release_def Let_def connAllowed_def)

subsection \<open>Properties\<close>

text \<open>C38: the delivery limits are exact and leak nothing. In every interleaving of deliveries that
  give back what they took, a domain or owner is granted a slot if and only if fewer than the limit are held, and
  never more than the limit are held.\<close>

theorem delivery_slots_exact:
  assumes "domain_slots.runs (newDomainLimiter n) M l" "d \<noteq> ''''"
  shows "(fst (tryAcquire d l) \<longleftrightarrow> int (count M d) < max 1 n) \<and> int (count M d) \<le> max 1 n \<and> (available d l \<longleftrightarrow> fst (tryAcquire d l))"
proof -
  let ?l0 = "newDomainLimiter n"
  have u: "domainUsage {#} ?l0" and lim: "limit ?l0 = max 1 n" by (auto simp: domainUsage_def newDomainLimiter_def)
  have "fst (tryAcquire d l) \<longleftrightarrow> int (count M d) < max 1 n"
    using domain_slots.never_leaks [OF assms(1) u, of d] assms(2) lim by (simp add: domainAllowed_def)
  moreover have "int (count M d) \<le> max 1 n"
    by (rule domain_slots.bounded [OF assms(1) u, where P = "\<lambda>M. int (count M d) \<le> max 1 n"])
      (use assms(2) lim in \<open>auto simp: domainAllowed_def split: if_splits\<close>)
  moreover have "available d l \<longleftrightarrow> fst (tryAcquire d l)" using assms(2) by (auto simp: available_def tryAcquire_def split: option.split)
  ultimately show ?thesis by blast
qed

theorem delivery_slots_exact_witness:
  "\<not> fst (tryAcquire ''a'' (snd (tryAcquire ''a'' (newDomainLimiter 1))))"
proof -
  have "domain_slots.runs (newDomainLimiter 1) {#''a''#} (snd (tryAcquire ''a'' (newDomainLimiter 1)))"
    by (rule domain_slots.granted [OF domain_slots.start]) (simp add: tryAcquire_def newDomainLimiter_def)
  from delivery_slots_exact [OF this, of "''a''"] show ?thesis by simp
qed

text \<open>C39: the connection limits are exact and leak nothing. In every interleaving of connections,
  each closed at most once, an address is admitted if and only if fewer connections than allowed are open in total
  and from it, and neither bound is ever exceeded.\<close>

theorem connection_limits_exact:
  assumes "conns.runs (newConnectionLimiter g p) M l" "0 < g" "0 < p"
  shows "(fst (acquire ip l) \<longleftrightarrow> int (size M) < g \<and> int (count M ip) < p) \<and> int (size M) \<le> g \<and> int (count M ip) \<le> p"
proof -
  let ?l0 = "newConnectionLimiter g p"
  have u: "connUsage {#} ?l0" using assms(3) by (auto simp: connUsage_def newConnectionLimiter_def)
  have lim: "global ?l0 = g" "perIP ?l0 = p" using assms by (simp_all add: newConnectionLimiter_def)
  have "fst (acquire ip l) \<longleftrightarrow> int (size M) < g \<and> int (count M ip) < p"
    using conns.never_leaks [OF assms(1) u, of ip] lim by (simp add: connAllowed_def)
  moreover have "int (size M) \<le> g \<and> int (count M ip) \<le> p"
    by (rule conns.bounded [OF assms(1) u, where P = "\<lambda>M. int (size M) \<le> g \<and> int (count M ip) \<le> p"])
      (use assms(2,3) lim in \<open>auto simp: connAllowed_def split: if_splits\<close>)
  ultimately show ?thesis by blast
qed

theorem connection_limits_exact_witness:
  "\<not> fst (acquire ''a'' (snd (acquire ''a'' (newConnectionLimiter 2 1)))) \<and>
   fst (acquire ''b'' (snd (acquire ''a'' (newConnectionLimiter 2 1))))"
proof -
  have r: "conns.runs (newConnectionLimiter 2 1) {#''a''#} (snd (acquire ''a'' (newConnectionLimiter 2 1)))"
    by (rule conns.granted [OF conns.start]) (simp add: acquire_def newConnectionLimiter_def connsOf_def)
  show ?thesis using connection_limits_exact [OF r, of "''a''"] connection_limits_exact [OF r, of "''b''"] by simp
qed

end
