(* ===== verification/Attempt.thy ===== *)
theory Attempt
  imports Report Slots
begin

text \<open>
  One delivery attempt from admission to outcome: \<open>src/internal/deliver/admission.go\<close>,
  \<open>outcome.go\<close>, \<open>attempt.go\<close> and the loop of \<open>run.go\<close>. What the limiters and the parked messages are is the
  record \<open>Deliverer\<close>, with the slots that other attempts hold; the clock, the contexts and what other attempts do to the
  limiters before a group, during it and at the end are the record \<open>attemptEnv\<close>: lists of slots they ask for
  and give back, run on the same limiters. Log lines are left out.
\<close>

subsection \<open>Admission\<close>

datatype admissionKind = admissionUser | admissionDomain

record admissionWait =
  wenvelope :: Envelope
  wkind :: admissionKind
  wkey :: string

record Deliverer =
  dusers :: domainLimiter
  ddomains :: domainLimiter
  dparked :: "admissionWait list"
  dothers :: "(admissionKind \<times> string) list"

type_synonym dworld = "Deliverer \<times> Queue"

fun takeWaiting :: "admissionKind \<Rightarrow> string \<Rightarrow> admissionWait list \<Rightarrow> (Envelope option \<times> admissionWait list)" where
  "takeWaiting k key [] = (None, [])"
| "takeWaiting k key (w # ws) =
     (if wkind w \<noteq> k \<or> wkey w \<noteq> key then (let (e, rest) = takeWaiting k key ws in (e, w # rest))
      else (Some (wenvelope w), ws))"

definition limiterOf :: "admissionKind \<Rightarrow> Deliverer \<Rightarrow> domainLimiter" where
  "limiterOf k d = (if k = admissionDomain then ddomains d else dusers d)"

definition wakeAdmission :: "admissionKind \<Rightarrow> string \<Rightarrow> dworld \<Rightarrow> dworld" where
  "wakeAdmission k key w =
     (let (d, q) = w
      in if \<not> available key (limiterOf k d) then w
         else
           (case takeWaiting k key (dparked d) of
              (envelope, rest) \<Rightarrow>
                (d\<lparr>dparked := rest\<rparr>, (case envelope of None \<Rightarrow> q | Some e \<Rightarrow> Requeue e q))))"

definition parkAdmission :: "Envelope \<Rightarrow> admissionKind \<Rightarrow> string \<Rightarrow> dworld \<Rightarrow> dworld" where
  "parkAdmission e k key w =
     (let (d, q) = w; e1 = (if k = admissionDomain then e\<lparr>PreferredDomain := key\<rparr> else e)
      in wakeAdmission k key (d\<lparr>dparked := dparked d @ [\<lparr>wenvelope = e1, wkind = k, wkey = key\<rparr>]\<rparr>, q))"

definition requeueParked :: "dworld \<Rightarrow> dworld" where
  "requeueParked w = (let (d, q) = w in (d\<lparr>dparked := []\<rparr>, fold (\<lambda>p q. Requeue (wenvelope p) q) (dparked d) q))"

text \<open>A slot that is given back calls \<open>onRelease\<close>.\<close>

definition releaseOwnerSlot :: "string \<Rightarrow> dworld \<Rightarrow> dworld" where
  "releaseOwnerSlot owner w =
     (let (d, q) = w; (given, l) = releaseSlot owner (dusers d); w1 = (d\<lparr>dusers := l\<rparr>, q)
      in if given then wakeAdmission admissionUser owner w1 else w1)"

definition releaseDomainSlot :: "string \<Rightarrow> dworld \<Rightarrow> dworld" where
  "releaseDomainSlot domain w =
     (let (d, q) = w; (given, l) = releaseSlot domain (ddomains d); w1 = (d\<lparr>ddomains := l\<rparr>, q)
      in if given then wakeAdmission admissionDomain domain w1 else w1)"

text \<open>Other attempts on the same limiters: one asks for a slot, which it holds when it is granted, or gives
  back a slot that one of them holds, which wakes a parked message.\<close>

datatype slotEvent = Takes admissionKind string | Gives admissionKind string

fun otherStep :: "slotEvent \<Rightarrow> dworld \<Rightarrow> dworld" where
  "otherStep (Takes k key) w =
     (let (d, q) = w
      in case tryAcquire key (limiterOf k d) of
           (False, _) \<Rightarrow> w
         | (True, l) \<Rightarrow>
             (let d1 = d\<lparr>dothers := (k, key) # dothers d\<rparr>
              in (if k = admissionDomain then d1\<lparr>ddomains := l\<rparr> else d1\<lparr>dusers := l\<rparr>, q)))"
| "otherStep (Gives k key) w =
     (let (d, q) = w; w1 = (d\<lparr>dothers := remove1 (k, key) (dothers d)\<rparr>, q)
      in if (k, key) \<notin> set (dothers d) then w
         else if k = admissionDomain then releaseDomainSlot key w1 else releaseOwnerSlot key w1)"

definition otherSteps :: "slotEvent list \<Rightarrow> dworld \<Rightarrow> dworld" where
  "otherSteps evs w = fold otherStep evs w"

definition nextPendingDomain :: "Envelope \<Rightarrow> string" where
  "nextPendingDomain e =
     (if PreferredDomain e \<noteq> [] \<and> list_ex (\<lambda>r. RStatus r = StatusPending \<and> Domain r = PreferredDomain e) (Recipients e)
      then PreferredDomain e
      else (case filter (\<lambda>r. RStatus r = StatusPending) (Recipients e) of [] \<Rightarrow> [] | r # _ \<Rightarrow> Domain r))"

definition deliveryOwner :: "Envelope \<Rightarrow> string" where
  "deliveryOwner e = (if DSNSourceID e \<noteq> [] then generatedDSNOwner else Username e)"

subsection \<open>Times\<close>

record deliverCfg =
  lifetime :: duration
  initial :: duration
  maximum :: duration
  attemptTO :: duration
  MaxAttempts :: int
  hostName :: string

fun backoffLoop :: "nat \<Rightarrow> duration \<Rightarrow> duration \<Rightarrow> duration" where
  "backoffLoop 0 most delay = delay"
| "backoffLoop (Suc n) most delay =
     (if delay \<ge> most \<or> delay > goDiv most 2 then most else backoffLoop n most (wrap64 (delay * 2)))"

text \<open>\<open>random\<close> is the value of \<open>rand.Int64N(spread)\<close>.\<close>

definition backoff :: "deliverCfg \<Rightarrow> int \<Rightarrow> int \<Rightarrow> duration" where
  "backoff cfg attempts random =
     (let delay = backoffLoop (nat (attempts - 1)) (maximum cfg) (initial cfg); spread = goDiv delay 5
      in if spread \<le> 0 then delay
         else
           (let delta = wrap64 (random - goDiv delay 10)
            in if delta > 0 \<and> delay > wrap64 (maximum cfg - delta) then maximum cfg
               else (let delay = wrap64 (delay + delta) in if delay > maximum cfg then maximum cfg else delay)))"

subsection \<open>Outcomes\<close>

definition lifetimeDetail :: string where
  "lifetimeDetail = ''maximum queue lifetime exceeded''"

definition exhaustedDetail :: string where
  "exhaustedDetail = ''delivery attempts exhausted''"

definition terminalEnhancedCode :: string where
  "terminalEnhancedCode = ''5.4.7''"

definition wrapQueue :: "string \<Rightarrow> gerror option \<Rightarrow> derror option" where
  "wrapQueue m err = (case err of None \<Rightarrow> None | Some g \<Rightarrow> Some (DWrap m [QueueError g]))"

type_synonym outcomeResult = "derror option \<times> Envelope \<times> Queue \<times> fsys"

definition failTerminal :: "ext \<Rightarrow> deliverCfg \<Rightarrow> noticeEnv \<Rightarrow> opInput \<Rightarrow> Envelope \<Rightarrow> Queue \<Rightarrow> fsys \<Rightarrow> outcomeResult" where
  "failTerminal x cfg n inp e q s =
     (case ensureDSN x (hostName cfg) n e q s of
        (Some err, e1, q1, s1) \<Rightarrow> (wrapQueue (''dsn '' @ ID e) (Some err), e1, q1, s1)
      | (None, e1, q1, s1) \<Rightarrow>
          (case Bury x inp (Some e1) q1 s1 of
             (err, e2, q2, s2) \<Rightarrow> (wrapQueue (''bury '' @ ID e) err, (case e2 of Some e2 \<Rightarrow> e2 | None \<Rightarrow> e1), q2, s2)))"

text \<open>Every recipient that is still pending fails with the given text, unless its own is to be kept.\<close>

definition failPending :: "bool \<Rightarrow> string \<Rightarrow> Envelope \<Rightarrow> Envelope" where
  "failPending keepDetail detail e =
     e\<lparr>Recipients := map (\<lambda>r. if RStatus r = StatusPending
        then r\<lparr>RStatus := StatusFailed, Detail := (if keepDetail \<and> Detail r \<noteq> [] then Detail r else detail), Code := 554,
          EnhancedCode := terminalEnhancedCode\<rparr> else r) (Recipients e)\<rparr>"

definition expirePending :: "ext \<Rightarrow> deliverCfg \<Rightarrow> noticeEnv \<Rightarrow> opInput \<Rightarrow> Envelope \<Rightarrow> Queue \<Rightarrow> fsys \<Rightarrow> outcomeResult" where
  "expirePending x cfg n inp e q s = failTerminal x cfg n inp ((failPending False lifetimeDetail e)\<lparr>LastError := lifetimeDetail\<rparr>) q s"

definition countStatus :: "string \<Rightarrow> Envelope \<Rightarrow> int" where
  "countStatus st e = int (length (filter (\<lambda>r. RStatus r = st) (Recipients e)))"

definition complete :: "ext \<Rightarrow> deliverCfg \<Rightarrow> noticeEnv \<Rightarrow> opInput \<Rightarrow> Envelope \<Rightarrow> Queue \<Rightarrow> fsys \<Rightarrow> outcomeResult" where
  "complete x cfg n inp e q s =
     (if countStatus StatusSent e = 0 \<and> countStatus StatusFailed e > 0 then failTerminal x cfg n inp e q s
      else
        (case ensureDSN x (hostName cfg) n e q s of
           (Some err, e1, q1, s1) \<Rightarrow> (wrapQueue (''dsn '' @ ID e) (Some err), e1, q1, s1)
         | (None, e1, q1, s1) \<Rightarrow>
             (case Finish x inp (Some e1) q1 s1 of
                (Some err, q2, s2) \<Rightarrow>
                  if errors_Is err ErrCleanup then (None, e1, q2, s2) else (wrapQueue (''finish '' @ ID e) (Some err), e1, q2, s2)
              | (None, q2, s2) \<Rightarrow> (None, e1, q2, s2))))"


subsection \<open>Groups\<close>

type_synonym groupKey = "string \<times> int"

fun addGroup :: "groupKey \<Rightarrow> nat \<Rightarrow> (groupKey \<times> nat list) list \<Rightarrow> (groupKey \<times> nat list) list" where
  "addGroup key i [] = [(key, [i])]"
| "addGroup key i ((k, is) # gs) = (if k = key then (k, is @ [i]) # gs else (k, is) # addGroup key i gs)"

definition groupRecipients :: "Envelope \<Rightarrow> (groupKey \<times> nat list) list" where
  "groupRecipients e =
     fold (\<lambda>i gs. let r = Recipients e ! i
             in if RStatus r \<noteq> StatusPending then gs else addGroup (Domain r, BodyIndex r) i gs)
       [0..<length (Recipients e)] []"

text \<open>The first group of the admitted domain goes to the front; the others keep their order.\<close>

fun pullDomain :: "string \<Rightarrow> (groupKey \<times> nat list) list \<Rightarrow> ((groupKey \<times> nat list) \<times> (groupKey \<times> nat list) list) option" where
  "pullDomain d [] = None"
| "pullDomain d (g # gs) =
     (if fst (fst g) = d then Some (g, gs)
      else (case pullDomain d gs of None \<Rightarrow> None | Some (h, rest) \<Rightarrow> Some (h, g # rest)))"

definition frontGroup :: "string \<Rightarrow> (groupKey \<times> nat list) list \<Rightarrow> (groupKey \<times> nat list) list" where
  "frontGroup admitted gs =
     (if admitted \<noteq> [] \<and> length gs > 1 \<and> fst (fst (hd gs)) \<noteq> admitted
      then (case pullDomain admitted (tl gs) of None \<Rightarrow> gs | Some (g, rest) \<Rightarrow> g # hd gs # rest)
      else gs)"

subsection \<open>The attempt\<close>

datatype ctxCause = causeNone | causeCancelled | causeAttemptTimeout | causeLifetime

record attemptEnv =
  aext :: ext
  asend :: "nat \<Rightarrow> sendEnv"
  acancelled :: bool
  aexpireNow :: gtime
  astart :: gtime
  astop :: "nat \<Rightarrow> bool"
  aafter :: "nat \<Rightarrow> bool"
  aothers :: "nat \<Rightarrow> slotEvent list"
  aduring :: "nat \<Rightarrow> slotEvent list"
  alater :: "slotEvent list"
  acause :: ctxCause
  aend :: gtime
  aparent :: bool
  anext :: gtime
  arandom :: int
  anotice :: noticeEnv
  aop :: opInput

record groupState =
  gheld :: string
  genv :: Envelope
  gworld :: dworld
  gfs :: fsys
  gdiag :: "string list"

definition restoreDetails :: "nat list \<Rightarrow> string list \<Rightarrow> Envelope \<Rightarrow> Envelope" where
  "restoreDetails indexes previous e =
     fold (\<lambda>(i, det) e. updateRecipient (\<lambda>r. if RStatus r = StatusPending then r\<lparr>Detail := det\<rparr> else r) e i) (zip indexes previous) e"

definition noteDetail :: "nat list \<Rightarrow> string \<Rightarrow> Envelope \<Rightarrow> Envelope" where
  "noteDetail indexes detail e =
     updateRecipients (\<lambda>r. if RStatus r = StatusPending \<and> Detail r = [] then r\<lparr>Detail := detail\<rparr> else r) indexes e"

text \<open>One group with its domain's slot held: the slot is given back; \<open>Inl\<close> ends the attempt with
  corruption, \<open>Inr\<close> says whether the loop goes on.\<close>

definition deliverGroup :: "attemptEnv \<Rightarrow> nat \<Rightarrow> groupKey \<Rightarrow> nat list \<Rightarrow> groupState \<Rightarrow> (derror + bool) \<times> groupState" where
  "deliverGroup a k key indexes g =
     (let domain = fst key; e = genv g; previous = map (\<lambda>i. Detail (Recipients e ! i)) indexes;
          (d, q) = gworld g;
          (err, e1, q1, s1) = deliverDomain (asend a k) e domain (snd key) indexes q (gfs g);
          g1 = g\<lparr>gheld := [], genv := e1, gworld := releaseDomainSlot domain (otherSteps (aduring a k) (d, q1)), gfs := s1\<rparr>
      in case err of
           None \<Rightarrow> if aafter a k then (Inr False, g1\<lparr>genv := restoreDetails indexes previous e1\<rparr>) else (Inr True, g1)
         | Some er \<Rightarrow>
             if isCorruptionD er then (Inl er, g1)
             else if aafter a k then (Inr False, g1\<lparr>genv := restoreDetails indexes previous e1\<rparr>)
             else
               (let detail = normalizeDiagnostic (domain @ '': '' @ errorText (stext (asend a k)) er)
                in (Inr True, g1\<lparr>gdiag := gdiag g @ [detail], genv := noteDetail indexes detail e1\<rparr>)))"

text \<open>The loop over the groups: corruption, or the domain that was at its limit (empty when none was).\<close>

fun runGroups :: "attemptEnv \<Rightarrow> nat \<Rightarrow> (groupKey \<times> nat list) list \<Rightarrow> groupState \<Rightarrow> (derror + string) \<times> groupState" where
  "runGroups a k [] g = (Inr [], g)"
| "runGroups a k ((key, indexes) # gs) g0 =
     (if astop a k then (Inr [], g0)
      else
        (let g = g0\<lparr>gworld := otherSteps (aothers a k) (gworld g0)\<rparr>;
             domain = fst key;
             (granted, g1) =
               (if gheld g \<noteq> domain
                then (case tryAcquire domain (ddomains (fst (gworld g))) of
                        (False, _) \<Rightarrow> (False, g)
                      | (True, l) \<Rightarrow> (True, g\<lparr>gheld := domain, gworld := ((fst (gworld g))\<lparr>ddomains := l\<rparr>, snd (gworld g))\<rparr>))
                else (True, g))
         in if \<not> granted then (Inr domain, g1)
            else
              (case deliverGroup a k key indexes g1 of
                 (Inl er, g2) \<Rightarrow> (Inl er, g2)
               | (Inr False, g2) \<Rightarrow> (Inr [], g2)
               | (Inr True, g2) \<Rightarrow> runGroups a (Suc k) gs g2)))"

text \<open>What ended the attempt, and the deadline.\<close>

definition attemptDeadline :: "deliverCfg \<Rightarrow> attemptEnv \<Rightarrow> Envelope \<Rightarrow> gtime \<times> ctxCause" where
  "attemptDeadline cfg a e =
     (if astart a + attemptTO cfg < Created e + lifetime cfg then (astart a + attemptTO cfg, causeAttemptTimeout)
      else (Created e + lifetime cfg, causeLifetime))"

definition outcomeCause :: "deliverCfg \<Rightarrow> attemptEnv \<Rightarrow> Envelope \<Rightarrow> ctxCause" where
  "outcomeCause cfg a e =
     (let (deadline, cause) = attemptDeadline cfg a e
      in if acause a = causeNone \<and> \<not> aend a < deadline then cause else acause a)"

definition nextAttempt :: "deliverCfg \<Rightarrow> attemptEnv \<Rightarrow> Envelope \<Rightarrow> gtime" where
  "nextAttempt cfg a e =
     (let t = anext a + backoff cfg (Attempts e) (arandom a) in if Created e + lifetime cfg < t then Created e + lifetime cfg else t)"

definition queueResult :: "string \<Rightarrow> gerror option \<times> Envelope option \<times> Queue \<times> fsys \<Rightarrow> Envelope \<Rightarrow> Deliverer \<Rightarrow> derror option \<times> Envelope \<times> dworld \<times> fsys" where
  "queueResult m r e d = (case r of (err, e1, q1, s1) \<Rightarrow> (wrapQueue m err, (case e1 of Some e1 \<Rightarrow> e1 | None \<Rightarrow> e), (d, q1), s1))"

text \<open>The switch at the end of an attempt.\<close>

definition concludeAttempt ::
  "deliverCfg \<Rightarrow> attemptEnv \<Rightarrow> string \<Rightarrow> Envelope \<Rightarrow> dworld \<Rightarrow> fsys \<Rightarrow> derror option \<times> Envelope \<times> dworld \<times> fsys" where
  "concludeAttempt cfg a blockedDomain e w s =
     (let (d, q) = w; x = aext a; cause = outcomeCause cfg a e; onQueue = (\<lambda>(err, e1, q1, s1). (err, e1, (d, q1), s1))
      in if Pending e = 0 then onQueue (complete x cfg (anotice a) (aop a) e q s)
         else if aparent a
         then (let e1 = e\<lparr>Attempts := Attempts e - 1, NextAttempt := anext a\<rparr>
               in queueResult (''retry canceled '' @ ID e) (Retry x (aop a) (Some e1) q s) e1 d)
         else if cause = causeLifetime then onQueue (expirePending x cfg (anotice a) (aop a) e q s)
         else if blockedDomain \<noteq> []
         then
           (case queueResult (''defer '' @ ID e @ '' for domain capacity'')
                   (RetryDeferred x (aop a) (Some (e\<lparr>NextAttempt := anext a\<rparr>)) q s) (e\<lparr>NextAttempt := anext a\<rparr>) d of
              (Some err, e1, w1, s1) \<Rightarrow> (Some err, e1, w1, s1)
            | (None, e1, w1, s1) \<Rightarrow> (None, e1, parkAdmission e1 admissionDomain blockedDomain w1, s1))
         else if Attempts e \<ge> MaxAttempts cfg then onQueue (failTerminal x cfg (anotice a) (aop a) (failPending True exhaustedDetail e) q s)
         else
           (let e1 = e\<lparr>NextAttempt := nextAttempt cfg a e\<rparr> in queueResult (''retry '' @ ID e) (Retry x (aop a) (Some e1) q s) e1 d))"

definition attemptBody ::
  "deliverCfg \<Rightarrow> attemptEnv \<Rightarrow> string \<Rightarrow> Envelope \<Rightarrow> dworld \<Rightarrow> fsys \<Rightarrow> string \<times> derror option \<times> Envelope \<times> dworld \<times> fsys" where
  "attemptBody cfg a admitted e w s =
     (if acancelled a then (admitted, None, e, (fst w, Requeue e (snd w)), s)
      else if \<not> aexpireNow a < Created e + lifetime cfg
      then (case expirePending (aext a) cfg (anotice a) (aop a) e (snd w) s of (err, e1, q1, s1) \<Rightarrow> (admitted, err, e1, (fst w, q1), s1))
      else
        (let e1 = e\<lparr>Attempts := Attempts e + 1, LastError := [], PreferredDomain := []\<rparr>;
             gs = frontGroup admitted (groupRecipients e1)
         in case runGroups a 0 gs \<lparr>gheld = admitted, genv = e1, gworld = w, gfs = s, gdiag = []\<rparr> of
              (Inl er, g) \<Rightarrow> (gheld g, Some er, genv g, gworld g, gfs g)
            | (Inr blockedDomain, g) \<Rightarrow>
                (let diags = gdiag g @ (if outcomeCause cfg a (genv g) = causeAttemptTimeout then [sentinelText errAttemptTimeout] else []);
                     e2 = (genv g)\<lparr>LastError := normalizeDiagnostic (strJoin ''; '' diags)\<rparr>
                 in case concludeAttempt cfg a blockedDomain e2 (gworld g) (gfs g) of
                      (err, e3, w1, s1) \<Rightarrow> (gheld g, err, e3, w1, s1))))"

text \<open>The deferred releases: a domain that is still held, then the owner.\<close>

definition attemptAdmitted ::
  "deliverCfg \<Rightarrow> attemptEnv \<Rightarrow> string \<Rightarrow> string \<Rightarrow> Envelope \<Rightarrow> dworld \<Rightarrow> fsys \<Rightarrow> derror option \<times> Envelope \<times> dworld \<times> fsys" where
  "attemptAdmitted cfg a owner admitted e w s =
     (case attemptBody cfg a admitted e w s of
        (held, err, e1, w1, s1) \<Rightarrow>
          (let w2 = otherSteps (alater a) w1; w2 = (if held \<noteq> [] then releaseDomainSlot held w2 else w2)
           in (err, e1, releaseOwnerSlot owner w2, s1)))"

subsection \<open>The loop\<close>

text \<open>What the loop does with a message it was given: it is parked, put back, or started with the slots it holds.\<close>

definition admitMessage :: "bool \<Rightarrow> Envelope \<Rightarrow> dworld \<Rightarrow> (string \<times> string) option \<times> dworld" where
  "admitMessage gotActive e w =
     (let (d, q) = w; owner = deliveryOwner e
      in case tryAcquire owner (dusers d) of
           (False, _) \<Rightarrow> (None, parkAdmission e admissionUser owner w)
         | (True, lu) \<Rightarrow>
             (let d1 = d\<lparr>dusers := lu\<rparr>; domain = nextPendingDomain e
              in case tryAcquire domain (ddomains d1) of
                   (False, _) \<Rightarrow> (None, parkAdmission e admissionDomain domain (releaseOwnerSlot owner (d1, q)))
                 | (True, ld) \<Rightarrow>
                     (let d2 = d1\<lparr>ddomains := ld\<rparr>
                      in if gotActive then (Some (owner, domain), (d2, q))
                         else
                           (let (d3, q3) = releaseOwnerSlot owner (releaseDomainSlot domain (d2, q)) in (None, (d3, Requeue e q3))))))"

definition storageRetryDelay :: duration where
  "storageRetryDelay = 30 * second"

text \<open>The end of an attempt's goroutine: the error that stops the loop, if any.\<close>

definition settleAttempt :: "ext \<Rightarrow> opInput \<Rightarrow> gtime \<Rightarrow> derror option \<Rightarrow> Envelope \<Rightarrow> Queue \<Rightarrow> fsys \<Rightarrow> derror option \<times> Queue \<times> fsys" where
  "settleAttempt x inp now err e q s =
     (case err of
        None \<Rightarrow> (None, q, s)
      | Some er \<Rightarrow>
          (case filter (\<lambda>g. IsCorruption (Some g)) (queueErrors er) of
             g # _ \<Rightarrow>
               (case QuarantineCheckedOut x inp (Some e) (Some g) q s of
                  (Some qe, q1, s1) \<Rightarrow>
                    (if errors_Is qe ErrIDConflict
                     then Some (DWrap (''quarantine '' @ ID e @ '' failed with ambiguous identity'') [er, QueueError qe]) else None, q1, s1)
                | (None, q1, s1) \<Rightarrow> (None, q1, s1))
           | [] \<Rightarrow>
               if list_ex IsStoragePressure (queueErrors er) then (None, RequeueAfter e storageRetryDelay now q, s)
               else (Some er, q, s)))"

end
