(* ===== verification/Send_Props.thy ===== *)
theory Send_Props
  imports Send Recovery_Live
begin

text \<open>
  What handing a message to a host does: who it addresses, whom it marks as sent and on what ground,
  and what becomes of everybody else.
\<close>

subsection \<open>Updates of recipients\<close>

text \<open>The fields of a recipient that delivery never changes.\<close>

definition sameRecipient :: "Recipient \<Rightarrow> Recipient \<Rightarrow> bool" where
  "sameRecipient a b \<longleftrightarrow> Recipient.Address a = Recipient.Address b \<and> Domain a = Domain b \<and> BodyIndex a = BodyIndex b"

text \<open>What one step may do to an envelope: only recipients in \<open>A\<close> are touched, by a change in \<open>R\<close>.\<close>

definition touches :: "nat set \<Rightarrow> (Recipient \<Rightarrow> Recipient \<Rightarrow> bool) \<Rightarrow> Envelope \<Rightarrow> Envelope \<Rightarrow> bool" where
  "touches A R e e1 \<longleftrightarrow>
     e1\<lparr>Recipients := []\<rparr> = e\<lparr>Recipients := []\<rparr> \<and> length (Recipients e1) = length (Recipients e) \<and>
     (\<forall>j < length (Recipients e). if j \<in> A then R (Recipients e ! j) (Recipients e1 ! j) else Recipients e1 ! j = Recipients e ! j)"

lemma touches_refl: "(\<And>r. R r r) \<Longrightarrow> touches A R e e"
  by (simp add: touches_def)

lemma touches_trans:
  "touches A R e e1 \<Longrightarrow> touches B S e1 e2 \<Longrightarrow> (\<And>r. R r r) \<Longrightarrow> (\<And>r. S r r) \<Longrightarrow>
   (\<And>a b c. R a b \<Longrightarrow> S b c \<Longrightarrow> T a c) \<Longrightarrow> touches (A \<union> B) T e e2"
  unfolding touches_def by (simp, metis)

lemma touches_mono: "touches A R e e1 \<Longrightarrow> A \<subseteq> B \<Longrightarrow> (\<And>a b. R a b \<Longrightarrow> S a b) \<Longrightarrow> (\<And>a. S a a) \<Longrightarrow> touches B S e e1"
  unfolding touches_def by (simp, metis subsetD)

lemma updateRecipient_touches: "(\<And>r. R r (f r)) \<Longrightarrow> touches {i} R e (updateRecipient f e i)"
  by (auto simp: touches_def updateRecipient_def nth_list_update)

lemma updateRecipients_touches:
  assumes "\<And>r. R r (f r)" "\<And>r. R r r" "\<And>a b c. R a b \<Longrightarrow> R b c \<Longrightarrow> R a c"
  shows "touches (set is) R e (updateRecipients f is e)"
  unfolding updateRecipients_def
proof (induction "is" arbitrary: e)
  case Nil
  then show ?case using assms(2) by (simp add: touches_refl)
next
  case (Cons i "is")
  have "touches ({i} \<union> set is) R e (fold (\<lambda>i e. updateRecipient f e i) is (updateRecipient f e i))"
    by (rule touches_trans [OF updateRecipient_touches [of R f, OF assms(1)] Cons.IH assms(2) assms(2) assms(3)]) simp_all
  then show ?case by simp
qed


subsection \<open>What a client has said\<close>

text \<open>A step of the protocol that says only lines of \<open>L\<close> and writes no part of a message.\<close>

definition said :: "Client \<Rightarrow> string set" where
  "said c = fst ` set (csent c)"

definition talks :: "string set \<Rightarrow> Client \<Rightarrow> Client \<Rightarrow> bool" where
  "talks L c c1 \<longleftrightarrow> cbody c1 = cbody c \<and> cterminated c1 = cterminated c \<and> said c \<subseteq> said c1 \<and> said c1 \<subseteq> said c \<union> L \<and>
     (\<not> cterminated c \<longrightarrow> finalReplies c1 = finalReplies c)"

lemma talks_refl [simp]: "talks L c c"
  by (simp add: talks_def)

lemma talks_trans: "talks L c c1 \<Longrightarrow> talks L c1 c2 \<Longrightarrow> talks L c c2"
  by (auto simp: talks_def)

lemma talks_mono: "talks L c c1 \<Longrightarrow> L \<subseteq> M \<Longrightarrow> talks M c c1"
  by (auto simp: talks_def)

lemma talks_said: "talks L c c1 \<Longrightarrow> l \<in> said c \<Longrightarrow> l \<in> said c1"
  by (auto simp: talks_def)

named_theorems talking

lemma readResponse_talks [talking]: "readResponse e c = (r, c1) \<Longrightarrow> talks {} c c1"
  by (auto simp: readResponse_def talks_def said_def finalReplies_def Let_def split: list.splits reply.splits if_splits)

lemma writeLine_talks: "writeLine l c = (r, c1) \<Longrightarrow> talks {l} c c1 \<and> (r = None \<longrightarrow> l \<in> said c1)"
  by (auto simp: writeLine_def talks_def said_def finalReplies_def split: list.splits option.splits)

lemma writeThenRead_talks: "writeLine l c = (w, c1) \<Longrightarrow> readResponse e c1 = (r, c2) \<Longrightarrow> talks {l} c c2"
  by (metis empty_subsetI readResponse_talks talks_mono talks_trans writeLine_talks)

lemma smtpCmd_talks [talking]: "smtpCmd e l c = (r, c1) \<Longrightarrow> talks {l} c c1"
  unfolding smtpCmd_def
  by (auto split: prod.splits option.splits sum.splits dest: writeThenRead_talks writeLine_talks)

lemma smtpCmd_said: "smtpCmd e l c = (None, c1) \<Longrightarrow> l \<in> said c1"
  unfolding smtpCmd_def
  by (auto split: prod.splits option.splits sum.splits dest!: writeLine_talks readResponse_talks dest: talks_said)

lemma Greet_talks [talking]: "Greet c = (r, c1) \<Longrightarrow> talks {} c c1"
  unfolding Greet_def by (auto split: prod.splits sum.splits dest: readResponse_talks)

lemma talks_exts [simp]: "talks L c (c1\<lparr>exts := x\<rparr>) = talks L c c1" "talks L c (c1\<lparr>ctls := b\<rparr>) = talks L c c1"
    "talks L c (c1\<lparr>creplies := y\<rparr>) = talks L c c1"
  by (simp_all add: talks_def said_def finalReplies_def)

lemma EHLO_talks [talking]: "EHLO h c = (r, c1) \<Longrightarrow> talks {''EHLO '' @ h} c c1"
  unfolding EHLO_def
  by (auto split: prod.splits option.splits sum.splits dest: writeThenRead_talks writeLine_talks)

lemma HELO_talks [talking]: "HELO h c = (r, c1) \<Longrightarrow> talks {''HELO '' @ h} c c1"
  unfolding HELO_def by (auto split: prod.splits option.splits dest: smtpCmd_talks)

lemma StartTLS_talks [talking]: "StartTLS v c = (r, c1) \<Longrightarrow> talks {''STARTTLS''} c c1"
  unfolding StartTLS_def by (auto split: prod.splits option.splits dest: smtpCmd_talks)

lemma Quit_talks: "talks {''QUIT''} c (Quit c)"
  unfolding Quit_def by (metis writeLine_talks prod.collapse)

lemma Quit_finalReplies [simp]: "finalReplies (Quit c) = finalReplies c"
  by (auto simp: Quit_def writeLine_def finalReplies_def split: list.splits option.splits)

lemma Data_talks [talking]: "Data c = (r, c1) \<Longrightarrow> talks {''DATA''} c c1"
  unfolding Data_def by (rule smtpCmd_talks)

definition mailLines :: "string set" where
  "mailLines = {l. \<exists>m. l = ''MAIL FROM:<'' @ m}"

lemma Mail_talks [talking]: "Mail from opts c = (r, c1) \<Longrightarrow> talks mailLines c c1"
  unfolding Mail_def by (auto split: if_splits simp: mailLines_def intro: talks_mono [OF smtpCmd_talks])

lemma rcptEach_talks:
  "rcptEach as c = (rs, c1) \<Longrightarrow> talks (rcptLine ` set as) c c1 \<and> length rs = length as \<and>
    (\<forall>i < length as. rs ! i = None \<longrightarrow> rcptLine (as ! i) \<in> said c1)"
proof (induction "as" arbitrary: c rs)
  case (Cons a "as")
  obtain r c2 rs' where s: "Rcpt a c = (r, c2)" "rcptEach as c2 = (rs', c1)" "rs = r # rs'"
    using Cons.prems by (auto split: prod.splits)
  have t: "talks {rcptLine a} c c2" "r = None \<Longrightarrow> rcptLine a \<in> said c2"
    using s(1) by (auto simp: Rcpt_def intro: smtpCmd_talks smtpCmd_said)
  note IH = Cons.IH [OF s(2)]
  have "talks (rcptLine ` set (a # as)) c c1"
    using t(1) IH by (auto intro: talks_trans elim!: talks_mono)
  moreover have "r = None \<Longrightarrow> rcptLine a \<in> said c1" using t IH talks_said by blast
  ultimately show ?case using IH s(3) by (auto simp: nth_Cons split: nat.splits)
qed simp

lemma rcptWrites_talks:
  "rcptWrites as c = (w, c1) \<Longrightarrow> talks (rcptLine ` set as) c c1 \<and> (w = None \<longrightarrow> rcptLine ` set as \<subseteq> said c1)"
proof (induction "as" arbitrary: c)
  case (Cons a "as")
  obtain v c2 where v: "writeLine (rcptLine a) c = (v, c2)" by fastforce
  note t = writeLine_talks [OF v]
  show ?case
  proof (cases v)
    case None
    then have "rcptWrites as c2 = (w, c1)" using Cons.prems v by simp
    note IH = Cons.IH [OF this]
    have "talks (rcptLine ` set (a # as)) c c1" using t IH by (auto intro: talks_trans elim!: talks_mono)
    moreover have "rcptLine a \<in> said c1" using t None IH talks_said by blast
    ultimately show ?thesis using IH by auto
  next
    case (Some err)
    then show ?thesis using Cons.prems v t by (auto elim!: talks_mono)
  qed
qed simp

lemma rcptReads_talks: "rcptReads n c = ((rs, be), c1) \<Longrightarrow> talks {} c c1 \<and> length rs \<le> n"
  by (induction n arbitrary: c rs be)
    (fastforce split: prod.splits sum.splits if_splits dest: readResponse_talks intro: talks_trans)+

lemma RcptBatch_talks:
  assumes "RcptBatch as c = ((rs, be), c1)"
  shows "talks (rcptLine ` set as) c c1 \<and> length rs \<le> length as \<and> (rs \<noteq> [] \<longrightarrow> rcptLine ` set as \<subseteq> said c1)"
proof -
  obtain w c2 where w: "rcptWrites as c = (w, c2)" by fastforce
  note t = rcptWrites_talks [OF w]
  show ?thesis
  proof (cases w)
    case None
    then have "rcptReads (length as) c2 = ((rs, be), c1)" using assms w by (simp add: RcptBatch_def)
    note r = rcptReads_talks [OF this]
    have "talks (rcptLine ` set as) c c1" using t r by (meson talks_mono talks_trans empty_subsetI)
    then show ?thesis using t r None talks_said by blast
  qed (use assms w t in \<open>auto simp: RcptBatch_def\<close>)
qed


subsection \<open>Sessions\<close>

definition helloLines :: "string \<Rightarrow> string set" where
  "helloLines h = {''EHLO '' @ h, ''HELO '' @ h, ''STARTTLS''}"

lemma openSession_talks:
  assumes "openSession h pol ne c = Inr c1"
  shows "talks (helloLines h) c c1"
proof -
  obtain g where g: "Greet c = (None, g)"
    using assms by (auto simp: openSession_def split: prod.splits option.splits)
  obtain r1 c2 where r1: "EHLO h g = (r1, c2)" by fastforce
  have t: "talks (helloLines h) c c2"
    using Greet_talks [OF g] EHLO_talks [OF r1] by (auto simp: helloLines_def intro: talks_trans elim!: talks_mono)
  have "c1 = c2 \<or> (\<exists>r. HELO h c2 = (r, c1)) \<or> (\<exists>v r3 c3 r4. StartTLS v c2 = (r3, c3) \<and> EHLO h c3 = (r4, c1))"
    using assms g r1 by (auto simp: openSession_def split: prod.splits option.splits if_splits)
  then have "talks (helloLines h) c2 c1"
    by (auto dest!: talking simp: helloLines_def intro: talks_trans elim!: talks_mono)
  with t show ?thesis by (rule talks_trans)
qed

lemma connect_talks:
  assumes "connect dc r h t dial m ne = Inr c"
  shows "cbody c = [] \<and> \<not> cterminated c \<and> finalReplies c = [] \<and> said c \<subseteq> helloLines h"
proof -
  obtain ips e where "tryIPs (dialAndSession h t dial ne) ips e = Inr c"
    using assms by (auto simp: connect_def split: sum.splits option.splits)
  then obtain i where "dialAndSession h t dial ne i = Inr c" using tryIPs_some by blast
  then obtain conn where "openSession h (effectiveTLS t) ne (NewClient conn) = Inr c"
    by (auto simp: dialAndSession_def split: sum.splits)
  from openSession_talks [OF this] show ?thesis by (auto simp: talks_def said_def finalReplies_def NewClient_def)
qed

subsection \<open>The message\<close>

lemma dataWrite_talks:
  "dataWrite p c = (r, c1) \<Longrightarrow> said c1 = said c \<and> cterminated c1 = cterminated c \<and> finalReplies c1 = finalReplies c \<and> (r = None \<longrightarrow> cbody c1 = cbody c @ p)"
  by (auto simp: dataWrite_def said_def finalReplies_def split: list.splits option.splits)

text \<open>A copy that ends before its limit has handed over the whole verified body.\<close>

lemma copyBody_verified:
  assumes "copyBody x evs lim r c = ((n, res), c1)" "0 \<le> remaining r"
  shows "said c1 = said c \<and> cterminated c1 = cterminated c \<and> finalReplies c1 = finalReplies c \<and>
    (res = None \<and> n < lim \<and> \<not> verified r \<longrightarrow>
       (\<exists>out. cbody c1 = cbody c @ out \<and> n = int (length out) \<and> n = remaining r \<and>
          bodyDigest x (hashed r @ out) = tdigest r \<and> take (length out) (source r) = out))"
  using assms
proof (induction evs arbitrary: lim r c n)
  case Nil
  then show ?case by (auto split: if_splits)
next
  case (Cons p evs)
  obtain ev len where p: "p = (ev, len)" by fastforce
  show ?case
  proof (cases "lim \<le> 0")
    case True
    then show ?thesis using Cons.prems(1) p by auto
  next
    case lim: False
    obtain dat st r1 where r1: "readerRead x ev (min len lim) r = ((dat, st), r1)" by (metis prod.collapse)
    note s = readerRead_step [OF r1 Cons.prems(2)]
    obtain w c2 where w: "(if dat = [] then (None, c) else dataWrite dat c) = (w, c2)" by fastforce
    have t: "said c2 = said c \<and> cterminated c2 = cterminated c \<and> finalReplies c2 = finalReplies c \<and> (w = None \<longrightarrow> cbody c2 = cbody c @ dat)"
      using w dataWrite_talks [of dat c w c2] by (auto split: if_splits)
    show ?thesis
    proof (cases w)
      case (Some err)
      then show ?thesis using Cons.prems(1) p r1 w t lim by auto
    next
      case w0: None
      show ?thesis
      proof (cases st)
        case More
        obtain m where m: "copyBody x evs (lim - int (length dat)) r1 c2 = ((m, res), c1)" "n = int (length dat) + m"
          using Cons.prems(1) p r1 w w0 More lim by (auto split: prod.splits)
        have v: "\<not> verified r1" using r1 More readerRead_more by simp
        from Cons.IH [OF m(1)] s show ?thesis using t w0 m(2) v by auto
      next
        case EOF
        then have "n = int (length dat)" "res = None" "c1 = c2" using Cons.prems(1) p r1 w w0 lim by auto
        then show ?thesis using readerRead_end [OF r1 [unfolded EOF]] s t w0 Cons.prems(2) by auto
      next
        case (ReadError g)
        then show ?thesis using Cons.prems(1) p r1 w w0 lim t by auto
      qed
    qed
  qed
qed

lemma verifyVariants_sizes: "fst (verifyVariants x f bs pos w s) = Inr w' \<Longrightarrow> \<forall>b \<in> set bs. 0 \<le> BodySize b"
  by (induction bs arbitrary: pos w s) (auto simp: bindE_def Let_def split: prod.splits sum.splits if_splits)

lemma openBody_sizes:
  assumes "openBody x p env s = (Inr f, s1)"
  shows "0 \<le> Size env \<and> (\<forall>b \<in> set (Bodies env). 0 \<le> BodySize b)"
proof -
  obtain g s2 where "verifyEnvelopeBodyHandle x g env s2 = (None, s1)" "int (length (fileV s2 g)) = Size env"
    using assms by (auto simp: openBody_def bindE_def split: prod.splits sum.splits option.splits if_splits)
  then show ?thesis
    by (auto simp: verifyEnvelopeBodyHandle_def thenE_def withValue_def split: prod.splits sum.splits option.splits if_splits
      dest: verifyVariants_sizes [OF arg_cong [where f = fst, THEN trans]])
qed

lemma ReaderVariant_fresh:
  assumes "ReaderVariant x i b q s = (Inr r, q1, s1)"
  shows "0 \<le> remaining r \<and> \<not> verified r \<and> hashed r = []"
proof -
  obtain env f s2 where "openBody x (dirReady, i) env s2 = (Inr f, s1)" "variantReader env (fileV s1 f) b = Some r"
    using assms by (auto simp: ReaderVariant_def openAcceptedBody_def bindE_def split: prod.splits sum.splits option.splits)
  with openBody_sizes [OF this(1)] show ?thesis by (auto simp: variantReader_def Let_def split: if_splits)
qed


subsection \<open>The transaction\<close>

text \<open>How a transaction may change a recipient: its address and its message stay, one that is not
  pending keeps its status unless it is set to failed, and nobody becomes pending again.\<close>

definition settles :: "Recipient \<Rightarrow> Recipient \<Rightarrow> bool" where
  "settles a b \<longleftrightarrow> sameRecipient a b \<and> (RStatus a \<noteq> StatusPending \<longrightarrow> RStatus b = RStatus a \<or> RStatus b = StatusFailed)"

lemma settles_refl [simp]: "settles r r"
  by (simp add: settles_def sameRecipient_def)

lemma status_distinct [simp]: "StatusFailed \<noteq> StatusPending" "StatusSent \<noteq> StatusPending" "StatusSent \<noteq> StatusFailed"
    "StatusFailed \<noteq> StatusSent" "StatusPending \<noteq> StatusSent" "StatusPending \<noteq> StatusFailed"
  by (simp_all add: StatusPending_def StatusSent_def StatusFailed_def)

lemma settles_trans: "settles a b \<Longrightarrow> settles b c \<Longrightarrow> settles a c"
  by (auto simp: settles_def sameRecipient_def)

lemma rejectSMTP_touches: "touches (set is) (\<lambda>a b. settles a b \<and> RStatus b \<noteq> StatusSent \<or> b = a) e (rejectSMTP qt is err e)"
  unfolding rejectSMTP_def by (rule updateRecipients_touches) (auto simp: settles_def sameRecipient_def)

lemma reject_touches: "touches (set is) (\<lambda>a b. settles a b \<and> RStatus b \<noteq> StatusSent \<or> b = a) e (reject is det e)"
  unfolding reject_def by (rule updateRecipients_touches) (auto simp: settles_def sameRecipient_def)

text \<open>The change of a recipient that does not send to it.\<close>

abbreviation unsent :: "Recipient \<Rightarrow> Recipient \<Rightarrow> bool" where
  "unsent a b \<equiv> settles a b \<and> (RStatus b = StatusSent \<longrightarrow> RStatus a = StatusSent)"

lemma unsent_trans: "unsent a b \<Longrightarrow> unsent b c \<Longrightarrow> unsent a c"
  using settles_trans by blast

lemma touches_unsent: "touches A (\<lambda>a b. settles a b \<and> RStatus b \<noteq> StatusSent \<or> b = a) e e1 \<Longrightarrow> A \<subseteq> B \<Longrightarrow> touches B unsent e e1"
  by (erule touches_mono) auto

abbreviation refusedOf :: "(nat \<times> derror option) list \<Rightarrow> nat set" where
  "refusedOf rs \<equiv> {i. \<exists>err. (i, Some err) \<in> set rs}"

lemma rcptOutcome_touches:
  "rcptOutcome qt rs e = (acc, tmp, e1) \<Longrightarrow> touches (refusedOf rs) unsent e e1 \<and> set acc \<subseteq> {i. (i, None) \<in> set rs}"
proof (induction qt rs e arbitrary: acc tmp e1 rule: rcptOutcome.induct)
  case (1 qt e)
  then show ?case by (simp add: touches_refl)
next
  case (2 qt i r rs e)
  have step: "touches (refusedOf ((i, Some err) # rs)) unsent e e2"
    if "touches {i} unsent e e'" "touches (refusedOf rs) unsent e' e2" for e' e2 err
  proof -
    have "touches ({i} \<union> refusedOf rs) unsent e e2"
      by (rule touches_trans [OF that]) (auto intro: settles_trans)
    moreover have "refusedOf ((i, Some err) # rs) = {i} \<union> refusedOf rs" by auto
    ultimately show ?thesis by simp
  qed
  show ?case
  proof (cases r)
    case None
    then show ?thesis using 2 by (fastforce split: prod.splits)
  next
    case (Some err)
    show ?thesis
    proof (cases "permanent err")
      case True
      have "touches {i} unsent e (rejectSMTP qt [i] err e)" by (rule touches_unsent [OF rejectSMTP_touches]) simp
      moreover have "rcptOutcome qt rs (rejectSMTP qt [i] err e) = (acc, tmp, e1)" using 2(4) Some True by simp
      ultimately show ?thesis using step 2(2) [OF Some True] Some by fastforce
    next
      case False
      let ?e = "updateRecipient (\<lambda>r. r\<lparr>Detail := describe qt err\<rparr>) e i"
      have "touches {i} unsent e ?e"
        by (rule updateRecipient_touches) (simp add: settles_def sameRecipient_def)
      moreover obtain tmp' where "rcptOutcome qt rs ?e = (acc, tmp', e1)"
        using 2(4) Some False by (auto simp: Let_def split: prod.splits)
      ultimately show ?thesis using step 2(3) [OF Some False refl refl] Some by fastforce
    qed
  qed
qed

text \<open>What a reader held, handed over in full and taken: the only reply to the terminator is \<open>250 m\<close>.\<close>

definition handedOver :: "ext \<Rightarrow> trackedReader \<Rightarrow> int \<Rightarrow> string \<Rightarrow> Client \<Rightarrow> bool" where
  "handedOver x r n m c \<longleftrightarrow> cterminated c \<and> finalReplies c = [Reply 250 m] \<and> int (length (cbody c)) = n \<and> n = remaining r \<and>
     bodyDigest x (cbody c) = tdigest r \<and> cbody c = take (length (cbody c)) (source r)"

definition markSent :: "string \<Rightarrow> string \<Rightarrow> Recipient \<Rightarrow> Recipient" where
  "markSent host m r = r\<lparr>RStatus := StatusSent, Detail := normalizeDiagnostic (host @ '': 250 '' @ m)\<rparr>"

lemma formatInt_250: "formatInt 250 = ''250''"
  by code_simp

lemma dataClose_ok: "dataClose c = (Inr rep, c1) \<Longrightarrow>
    \<exists>m. rep = ''250 '' @ m \<and> cterminated c1 \<and> cbody c1 = cbody c \<and> said c1 = said c \<and> finalReplies c1 = finalReplies c @ [Reply 250 m]"
  by (auto simp: dataClose_def readResponse_def expected_def said_def finalReplies_def Let_def formatInt_250
      split: list.splits option.splits prod.splits sum.splits reply.splits if_splits)

lemma dataClose_said: "dataClose c = (res, c1) \<Longrightarrow> said c1 = said c"
  by (auto simp: dataClose_def readResponse_def said_def Let_def
      split: list.splits option.splits prod.splits sum.splits reply.splits if_splits)

lemma sendData_outcome:
  assumes "sendData d host n r acc tmp e c = (res, e1, c1)" "0 \<le> remaining r" "\<not> verified r" "hashed r = []" "cbody c = []"
    "\<not> cterminated c" "finalReplies c = []"
  shows "said c \<subseteq> said c1 \<and> said c1 \<subseteq> said c \<union> {''DATA'', ''QUIT''} \<and>
    (touches (set acc) unsent e e1 \<or>
     (\<exists>m. handedOver (sext d) r n m c1 \<and> e1 = updateRecipients (markSent host m) acc e))"
proof -
  obtain dr c2 where dr: "Data c = (dr, c2)" by fastforce
  note t2 = Data_talks [OF dr]
  have rej: "touches (set acc) unsent e (rejectSMTP (stext d) acc err e)" for err
    by (rule touches_unsent [OF rejectSMTP_touches]) simp
  show ?thesis
  proof (cases dr)
    case (Some err)
    then show ?thesis using assms(1) dr t2 rej by (auto simp: sendData_def talks_def touches_refl split: if_splits)
  next
    case None
    obtain w cr c3 where cp: "copyBody (sext d) (sreads d host) (n + 1) r c2 = ((w, cr), c3)" by (metis prod.collapse)
    note t3 = copyBody_verified [OF cp assms(2)]
    show ?thesis
    proof (cases "cr = None \<and> w = n")
      case False
      then have "e1 = e \<and> c1 = c3"
        using assms(1) dr None cp by (auto simp: sendData_def Let_def split: option.splits if_splits)
      then show ?thesis using t2 t3 by (auto simp: talks_def touches_refl)
    next
      case True
      obtain out where out: "cbody c3 = out" "n = int (length out)" "n = remaining r" "bodyDigest (sext d) out = tdigest r"
          "take (length out) (source r) = out"
        using t3 True t2 assms(3,4,5) by (auto simp: talks_def)
      obtain cl c4 where cl: "dataClose c3 = (cl, c4)" by fastforce
      show ?thesis
      proof (cases cl)
        case (Inl err)
        then show ?thesis using assms(1) dr None cp True cl t2 t3 rej dataClose_said [OF cl]
          by (auto simp: sendData_def talks_def touches_refl split: if_splits)
      next
        case (Inr rep)
        obtain m where m: "rep = ''250 '' @ m" "cterminated c4" "cbody c4 = cbody c3" "said c4 = said c3"
            "finalReplies c4 = finalReplies c3 @ [Reply 250 m]"
          using dataClose_ok [OF cl [unfolded Inr]] by blast
        have e1: "c1 = Quit c4" "e1 = updateRecipients (markSent host m) acc e"
          using assms(1) dr None cp True cl Inr m(1) by (auto simp: sendData_def Let_def markSent_def [abs_def] split: if_splits)
        have q: "talks {''QUIT''} c4 c1" using e1(1) Quit_talks by simp
        moreover have "finalReplies c1 = [Reply 250 m]" using m(5) e1(1) t2 t3 assms(6,7) by (simp add: talks_def)
        ultimately have "handedOver (sext d) r n m c1" using m out by (simp add: talks_def handedOver_def)
        moreover have "said c \<subseteq> said c1 \<and> said c1 \<subseteq> said c \<union> {''DATA'', ''QUIT''}"
          using q t2 t3 m(4) by (auto simp: talks_def)
        ultimately show ?thesis using e1(2) by blast
      qed
    qed
  qed
qed


definition sessionLines :: "Envelope \<Rightarrow> nat list \<Rightarrow> string set" where
  "sessionLines e indexes = mailLines \<union> {''DATA'', ''QUIT''} \<union>
     rcptLine ` (\<lambda>i. Recipient.Address (Recipients e ! i)) ` set (pendingOf e indexes)"

text \<open>Who is marked, and on what ground.\<close>

definition sentSoundly :: "sendEnv \<Rightarrow> string \<Rightarrow> int \<Rightarrow> int \<Rightarrow> nat list \<Rightarrow> Queue \<Rightarrow> fsys \<Rightarrow> Envelope \<Rightarrow> Envelope \<Rightarrow> Client \<Rightarrow> bool" where
  "sentSoundly d host n body indexes q s e e1 c1 \<longleftrightarrow>
     (\<forall>j < length (Recipients e). RStatus (Recipients e ! j) \<noteq> StatusSent \<and> RStatus (Recipients e1 ! j) = StatusSent \<longrightarrow>
        j \<in> set (pendingOf e indexes) \<and> rcptLine (Recipient.Address (Recipients e ! j)) \<in> said c1 \<and>
        (\<exists>r q2 s2 m. ReaderVariant (sext d) (ID e) body q s = (Inr r, q2, s2) \<and> handedOver (sext d) r n m c1 \<and>
           Recipients e1 ! j = markSent host m (Recipients e ! j)))"

lemma unsent_sound:
  assumes "touches A unsent e e1" "A \<subseteq> B"
  shows "touches B settles e e1 \<and> sentSoundly d host n body indexes q s e e1 c1"
proof -
  have "touches B settles e e1" by (rule touches_mono [OF assms(1) assms(2)]) auto
  moreover have "RStatus (Recipients e ! j) = StatusSent" if "j < length (Recipients e)" "RStatus (Recipients e1 ! j) = StatusSent" for j
    using assms(1) that unfolding touches_def by metis
  ultimately show ?thesis unfolding sentSoundly_def by blast
qed

lemma markSent_touches: "touches (set acc) (\<lambda>a b. b = a \<or> b = markSent host m a) e (updateRecipients (markSent host m) acc e)"
  by (rule updateRecipients_touches) (auto simp: markSent_def sameRecipient_def)

text \<open>The answers to \<open>RCPT\<close>, pipelined or one by one: only pending recipients are named, and an accepted one was.\<close>

lemma rcpts_talk:
  assumes "(if p then RcptBatch as c else (let (rs, c2) = rcptEach as c in ((rs, None), c2))) = ((results, be), c1)"
  shows "talks (rcptLine ` set as) c c1 \<and> length results \<le> length as \<and>
    (\<forall>i < length results. results ! i = None \<longrightarrow> rcptLine (as ! i) \<in> said c1)"
proof (cases p)
  case True
  then have "RcptBatch as c = ((results, be), c1)" using assms by simp
  from RcptBatch_talks [OF this] show ?thesis by fastforce
next
  case False
  then obtain rs where "rcptEach as c = (rs, c1)" "results = rs" using assms by (auto split: prod.splits)
  then show ?thesis using rcptEach_talks by fastforce
qed


lemma zip_accepted:
  assumes "(i, None) \<in> set (zip is rs)" "distinct is"
  shows "i \<in> set is \<and> i \<notin> refusedOf (zip is rs) \<and> (\<exists>k < length rs. k < length is \<and> is ! k = i \<and> rs ! k = None)"
  using assms by (auto simp: set_zip distinct_conv_nth) (metis option.distinct(1))

text \<open>After the recipients were named: the updates that follow are sound.\<close>

lemma sent_after_rcpt:
  assumes r: "rcptOutcome qt (zip (pendingOf e indexes) results) e = (acc, tmp, e1)" and "distinct indexes"
    and said: "\<forall>i < length results. i < length (pendingOf e indexes) \<longrightarrow> results ! i = None \<longrightarrow>
        rcptLine (Recipient.Address (Recipients e ! (pendingOf e indexes ! i))) \<in> said c1"
    and e2: "e2 = updateRecipients (markSent host m) acc e1"
    and h: "ReaderVariant (sext d) (ID e) body q s = (Inr rd, q2, s2)" "handedOver (sext d) rd n m c1"
  shows "touches (set (pendingOf e indexes)) settles e e2 \<and> sentSoundly d host n body indexes q s e e2 c1"
proof -
  let ?p = "pendingOf e indexes"
  have dist: "distinct ?p" using assms(2) by (simp add: pendingOf_def)
  note o = rcptOutcome_touches [OF r]
  have acc: "j \<in> set ?p \<and> j \<notin> refusedOf (zip ?p results) \<and> rcptLine (Recipient.Address (Recipients e ! j)) \<in> said c1"
    if "j \<in> set acc" for j
    using o that zip_accepted [OF _ dist, of j results] said by auto
  have pend: "set ?p \<subseteq> set indexes" "\<And>j. j \<in> set ?p \<Longrightarrow> RStatus (Recipients e ! j) = StatusPending"
    by (auto simp: pendingOf_def)
  have ref: "refusedOf (zip ?p results) \<subseteq> set ?p" by (auto dest: set_zip_leftD)
  have t: "touches (set acc) (\<lambda>a b. b = a \<or> b = markSent host m a) e1 e2"
    unfolding e2 by (rule markSent_touches)
  have j: "(if j \<in> set ?p then settles (Recipients e ! j) (Recipients e2 ! j) else Recipients e2 ! j = Recipients e ! j) \<and>
      (RStatus (Recipients e2 ! j) = StatusSent \<longrightarrow>
         RStatus (Recipients e ! j) = StatusSent \<or> j \<in> set acc \<and> Recipients e2 ! j = markSent host m (Recipients e ! j))"
    if "j < length (Recipients e)" for j
  proof (cases "j \<in> set acc")
    case True
    have "Recipients e1 ! j = Recipients e ! j" using o acc [OF True] that by (auto simp: touches_def)
    moreover have "Recipients e2 ! j = Recipients e1 ! j \<or> Recipients e2 ! j = markSent host m (Recipients e1 ! j)"
      using t True that o by (auto simp: touches_def)
    ultimately show ?thesis using True acc [OF True] pend by (auto simp: settles_def sameRecipient_def markSent_def)
  next
    case False
    then have "Recipients e2 ! j = Recipients e1 ! j" using t that o by (auto simp: touches_def)
    moreover have "if j \<in> refusedOf (zip ?p results) then unsent (Recipients e ! j) (Recipients e1 ! j) else Recipients e1 ! j = Recipients e ! j"
      using o that unfolding touches_def by blast
    ultimately show ?thesis using ref by (auto split: if_splits)
  qed
  have "e2\<lparr>Recipients := []\<rparr> = e\<lparr>Recipients := []\<rparr>" "length (Recipients e2) = length (Recipients e)"
    using o t by (auto simp: touches_def)
  then have "touches (set ?p) settles e e2" unfolding touches_def using j by blast
  moreover have "sentSoundly d host n body indexes q s e e2 c1" unfolding sentSoundly_def using j acc h by blast
  ultimately show ?thesis by blast
qed

text \<open>A sender the server refuses for good: nobody is named, and the whole group is rejected.\<close>

definition senderRefused :: "sendEnv \<Rightarrow> nat list \<Rightarrow> Envelope \<Rightarrow> bool \<times> derror option \<Rightarrow> Envelope \<Rightarrow> bool" where
  "senderRefused d indexes e res e1 \<longleftrightarrow> res = (True, None) \<and> (\<exists>err. permanent err \<and> e1 = rejectSMTP (stext d) indexes err e)"

definition unnamedLines :: "string set" where
  "unnamedLines = mailLines \<union> {''DATA'', ''QUIT''}"

lemma sendSession_outcome:
  assumes s: "sendSession d host n eb body indexes e c q s = ((res, e1, c1), q1, s1)" and "distinct indexes" "cbody c = []"
    "\<not> cterminated c" "finalReplies c = []"
  shows "(touches (set (pendingOf e indexes)) settles e e1 \<or> senderRefused d indexes e res e1 \<and> said c1 \<subseteq> said c \<union> unnamedLines) \<and>
    sentSoundly d host n body indexes q s e e1 c1 \<and> said c1 \<subseteq> said c \<union> sessionLines e indexes"
proof -
  let ?p = "pendingOf e indexes"
  let ?as = "map (\<lambda>i. Recipient.Address (Recipients e ! i)) ?p"
  have rej: "touches (set indexes) unsent e (rejectSMTP (stext d) indexes err e)" for err
    by (rule touches_unsent [OF rejectSMTP_touches]) simp
  have quit: "said (Quit c') \<subseteq> said c' \<union> {''QUIT''}" for c' using Quit_talks [of c'] by (auto simp: talks_def)
  obtain mr c2 where m: "Mail (Sender e) \<lparr>OptSize = n, OptUTF8 = SMTPUTF8 e, OptEightBit = eb\<rparr> c = (mr, c2)" by fastforce
  note t2 = Mail_talks [OF m]
  show ?thesis
  proof (cases "SMTPUTF8 e \<and> \<not> Extension c ''SMTPUTF8'' \<or> eb \<and> \<not> Extension c ''8BITMIME'' \<or> mr \<noteq> None")
    case True
    have o: "(e1 = e \<or> senderRefused d indexes e res e1) \<and> (c1 = Quit c \<or> c1 = Quit c2 \<or> c1 = c2)"
      using s True m by (auto simp: sendSession_def senderRefused_def split: if_splits)
    then have "touches (set indexes) unsent e e1" using rej by (auto simp: touches_refl senderRefused_def)
    moreover have "said c1 \<subseteq> said c \<union> unnamedLines"
      using o t2 quit [of c] quit [of c2] by (auto simp: talks_def unnamedLines_def)
    ultimately show ?thesis using unsent_sound [of "set indexes" e e1 "set indexes"] o
      by (auto simp: unnamedLines_def sessionLines_def touches_refl)
  next
    case False
    then have mr: "mr = None" by simp
    obtain results be c3 where rc: "(if Extension c2 ''PIPELINING'' \<and> length ?p > 1 then RcptBatch ?as c2
        else (let (rs, c3) = rcptEach ?as c2 in ((rs, None), c3))) = ((results, be), c3)" by (metis prod.collapse)
    note t3 = rcpts_talk [OF rc]
    obtain acc tmp e2 where oc: "rcptOutcome (stext d) (zip ?p results) e = (acc, tmp, e2)" by (metis prod.collapse)
    have "refusedOf (zip ?p results) \<subseteq> set ?p" by (auto dest: set_zip_leftD)
    then have t4: "touches (set ?p) unsent e e2"
      using rcptOutcome_touches [OF oc] by (auto elim!: touches_mono)
    have l3: "said c3 \<subseteq> said c \<union> mailLines \<union> rcptLine ` set ?as" using t2 t3 by (auto simp: talks_def)
    consider "e1 = e2" "c1 = c3 \<or> c1 = Quit c3"
      | r q2 s2 where "ReaderVariant (sext d) (ID e) body q s = (Inr r, q2, s2)" "(res, e1, c1) = sendData d host n r acc tmp e2 c3"
      using s False m rc oc mr
      by (auto simp: sendSession_def Let_def split: option.splits if_splits prod.splits sum.splits)
    then show ?thesis
    proof cases
      case 1
      then show ?thesis using unsent_sound [OF t4 subset_refl] l3 quit [of c3] by (auto simp: sessionLines_def)
    next
      case (2 r q2 s2)
      note rv = 2(1) and sd = 2(2)
      have "cbody c3 = []" "\<not> cterminated c3" "finalReplies c3 = []" using t2 t3 assms(3-5) by (simp_all add: talks_def)
      note o = sendData_outcome [OF sd [symmetric] _ _ _ this] ReaderVariant_fresh [OF rv]
      have l: "said c3 \<subseteq> said c1" "said c1 \<subseteq> said c \<union> sessionLines e indexes" using o l3 by (auto simp: sessionLines_def)
      have sd': "\<forall>i < length results. i < length ?p \<longrightarrow> results ! i = None \<longrightarrow>
          rcptLine (Recipient.Address (Recipients e ! (?p ! i))) \<in> said c1"
        using t3 l(1) by auto
      have acc: "set acc \<subseteq> set ?p" using rcptOutcome_touches [OF oc] by (blast dest: set_zip_leftD)
      consider "touches (set acc) unsent e2 e1" | m where "handedOver (sext d) r n m c1" "e1 = updateRecipients (markSent host m) acc e2"
        using o by blast
      then show ?thesis
      proof cases
        case 1
        have "touches (set ?p \<union> set acc) unsent e e1" by (rule touches_trans [OF t4 1]) (auto intro: settles_trans)
        then have "touches (set ?p) unsent e e1" using acc by (simp add: Un_absorb2)
        from unsent_sound [OF this subset_refl] show ?thesis using l(2) by blast
      next
        case 2
        then show ?thesis using sent_after_rcpt [OF oc assms(2) sd' _ rv] l(2) by blast
      qed
    qed
  qed
qed


lemma send_outcome:
  assumes "send d e m body indexes q s = ((res, e1, cl), q1, s1)" "distinct indexes"
  shows "(touches (set (pendingOf e indexes)) settles e e1 \<or> senderRefused d indexes e res e1) \<and>
    (cl = None \<and> e1 = e \<or>
     (\<exists>c n. cl = Some c \<and> sentSoundly d (chost m) n body indexes q s e e1 c \<and> said c \<subseteq> helloLines (shostname d) \<union> sessionLines e indexes \<and>
        (touches (set (pendingOf e indexes)) settles e e1 \<or> said c \<subseteq> helloLines (shostname d) \<union> unnamedLines)))"
proof (cases cl)
  case None
  then have "e1 = e" using assms(1) by (auto simp: send_def split: option.splits sum.splits prod.splits)
  then show ?thesis using None by (simp add: touches_refl)
next
  case (Some c)
  obtain n eb c0 ne where c0: "connect (sdisc d) (sres d) (shostname d) (stlsCfg d) (sdial d (chost m)) m ne = Inr c0"
      "sendSession d (chost m) n eb body indexes e c0 q s = ((res, e1, c), q1, s1)"
    using assms(1) Some by (auto simp: send_def split: option.splits sum.splits prod.splits)
  from connect_talks [OF c0(1)] sendSession_outcome [OF c0(2) assms(2)] Some show ?thesis by blast
qed

lemma rcptLine_session: "rcptLine a \<in> helloLines h \<union> sessionLines e indexes \<Longrightarrow>
    \<exists>i \<in> set indexes. RStatus (Recipients e ! i) = StatusPending \<and> Recipient.Address (Recipients e ! i) = a"
  by (auto simp: helloLines_def sessionLines_def mailLines_def rcptLine_def pendingOf_def)

lemma rcptLine_unnamed: "rcptLine a \<notin> helloLines h \<union> unnamedLines"
  by (auto simp: helloLines_def unnamedLines_def mailLines_def rcptLine_def)

lemma handedOver_body:
  "handedOver x r n m c \<Longrightarrow> cterminated c \<and> finalReplies c = [Reply 250 m] \<and> int (length (cbody c)) = remaining r \<and> cbody c = take (nat (remaining r)) (source r) \<and>
     bodyDigest x (cbody c) = tdigest r"
  unfolding handedOver_def by (metis nat_int)

subsection \<open>Properties\<close>

text \<open>C27: a recipient is marked as sent only when it was. Whatever the servers, the disk and the
  connection do, a recipient that becomes sent was pending and was named in a \<open>RCPT\<close> command; the complete message stored for
  its group was read to the end with the recorded digest and written to the server; and the one reply read after
  the terminator has the code 250. Only the status and the detail of the recipient change, and the
  detail is that reply with the name of the host.\<close>

theorem sent_means_delivered:
  assumes "send d e m body indexes q s = ((res, e1, cl), q1, s1)" "distinct indexes" "j < length (Recipients e)"
    "RStatus (Recipients e ! j) \<noteq> StatusSent" "RStatus (Recipients e1 ! j) = StatusSent"
  shows "j \<in> set indexes \<and> RStatus (Recipients e ! j) = StatusPending \<and>
    (\<exists>c r q2 s2 t. cl = Some c \<and> rcptLine (Recipient.Address (Recipients e ! j)) \<in> fst ` set (csent c) \<and>
       ReaderVariant (sext d) (ID e) body q s = (Inr r, q2, s2) \<and> cterminated c \<and>
       int (length (cbody c)) = remaining r \<and> cbody c = take (nat (remaining r)) (source r) \<and>
       bodyDigest (sext d) (cbody c) = tdigest r \<and> map snd (filter fst (cread c)) = [Reply 250 t] \<and>
       Recipients e1 ! j = (Recipients e ! j)\<lparr>RStatus := StatusSent, Detail := normalizeDiagnostic (chost m @ '': 250 '' @ t)\<rparr>)"
proof -
  obtain c n where c: "cl = Some c" "sentSoundly d (chost m) n body indexes q s e e1 c"
    using send_outcome [OF assms(1,2)] assms(4,5) by auto
  then obtain r q2 s2 t where r: "j \<in> set (pendingOf e indexes)" "rcptLine (Recipient.Address (Recipients e ! j)) \<in> said c"
      "ReaderVariant (sext d) (ID e) body q s = (Inr r, q2, s2)" "handedOver (sext d) r n t c"
      "Recipients e1 ! j = markSent (chost m) t (Recipients e ! j)"
    using assms(3-5) unfolding sentSoundly_def by blast
  have p: "j \<in> set indexes \<and> RStatus (Recipients e ! j) = StatusPending" using r(1) by (simp add: pendingOf_def)
  note h = handedOver_body [OF r(4), unfolded finalReplies_def]
  show ?thesis
    by (intro conjI exI) (fact p [THEN conjunct1] p [THEN conjunct2] c(1) r(2) [unfolded said_def] r(3)
      h [THEN conjunct1] h [THEN conjunct2, THEN conjunct2, THEN conjunct1] h [THEN conjunct2, THEN conjunct2, THEN conjunct2, THEN conjunct1]
      h [THEN conjunct2, THEN conjunct2, THEN conjunct2, THEN conjunct2] h [THEN conjunct2, THEN conjunct1] r(5) [unfolded markSent_def])+
qed



text \<open>Two hosts of one domain: the first accepts the first recipient and defers the second, the other
  refuses the sender.\<close>

definition sampleHost :: "string \<Rightarrow> Client" where
  "sampleHost h =
     (sampleServer True)\<lparr>ctlsReplies :=
        (if h = ''mx1'' then [Reply 250 ''mx'', Reply 250 ''ok'', Reply 250 ''ok'', Reply 450 ''later'', Reply 354 ''go'', Reply 250 ''queued'']
         else [Reply 250 ''mx'', Reply 550 ''no''])\<rparr>"

definition sampleSend :: sendEnv where
  "sampleSend =
     \<lparr>sext = sampleExt, stext = (\<lambda>_. []), sdisc = sampleDiscovery,
      sres = \<lparr>LookupMX = (\<lambda>_. Inr [Some \<lparr>Host = ''mx1'', Pref = 10\<rparr>, Some \<lparr>Host = ''mx2'', Pref = 20\<rparr>]),
              LookupNetIP = (\<lambda>_ _. Inr [[8, 8, 8, 8]])\<rparr>,
      shostname = ''me'', stlsCfg = sampleTLS, sdial = (\<lambda>h _. Inr (sampleHost h)), sreads = (\<lambda>_. [(Bytes 9, 9), (Bytes 0, 1)]),
      scancelled = (\<lambda>_. False), snoGlobal = (\<lambda>_. False)\<rparr>"

definition sampleQueued :: Envelope where
  "sampleQueued = sampleSubmission\<lparr>Recipients :=
     [\<lparr>Address = ''bob@example.com'', Domain = ''example.com'', BodyIndex = 1, RStatus = StatusPending, Detail = [], Code = 0, EnhancedCode = []\<rparr>,
      \<lparr>Address = ''ann@example.com'', Domain = ''example.com'', BodyIndex = 1, RStatus = StatusPending, Detail = [], Code = 0, EnhancedCode = []\<rparr>]\<rparr>"

lemma sampleStored_bodies: "Bodies sampleStored = Bodies sampleSubmission" "Size sampleStored = 5" "BodyDigest sampleStored = sampleDigest"
  by (simp_all add: sampleStored_def) (simp add: sampleSubmission_valid, simp add: sampleSubmission_def)

lemma sample_open: "openAcceptedBody sampleExt (dirReady, ''m1'') ''m1'' sampleLeft = (Inr (sampleStored, 2), sampleLeft)"
proof -
  have c: "outcomes sampleLeft = []" by simp
  have "loadAcceptedMetadata sampleExt (dirReady, ''m1'') ''m1'' sampleLeft = (Inr sampleStored, sampleLeft)"
    using readBoundedRegular_pass [OF c sampleLeft_files(1), of maxAddStateBytes] readBoundedRegular_pass [OF c sampleLeft_files(3), of maxEnvelopeMetadata]
      decode_stored [OF sampleExt_ok sampleAccepted_text sample_input(5,3)]
    by (simp add: loadAcceptedMetadata_def acceptedDir_def withValue_def loadEnvelopeMetadata_def addAccepted_def maxAddStateBytes_def sampleStored_def)
  moreover have "verifyEnvelopeBodyHandle sampleExt 2 sampleStored sampleLeft = (None, sampleLeft)"
  proof (rule verifyEnvelopeBodyHandle_pass)
    show "Bodies sampleStored \<noteq> [] \<longrightarrow> validateBodies (Size sampleStored) 0 (Bodies sampleStored) = Inr (Size sampleStored)"
      unfolding sampleStored_bodies by code_simp
  qed (use sampleBodies_ok in \<open>simp_all add: sampleStored_bodies verifyBodyData_def max_int64_def bodyDigest_def sampleDigest_def sampleHash_def\<close>)
  ultimately show ?thesis
    using openRegular_pass [OF c sampleLeft_files(2)] by (simp add: openAcceptedBody_def openBody_def bindE_def sampleStored_bodies)
qed

lemma sample_reader:
  "ReaderVariant sampleExt ''m1'' 1 (newQueue sampleLimits) sampleLeft =
     (Inr \<lparr>source = ''de'', remaining = 2, tdigest = sampleDigest, hashed = [], whole = False, verified = False\<rparr>,
      snd (beginOperation (newQueue sampleLimits)), sampleLeft)"
proof -
  have o: "fst (beginOperation (newQueue sampleLimits)) = None" by code_simp
  have i: "ValidateID ''m1'' = None" by code_simp
  have v: "variantReader sampleStored ''abcde'' 1 =
      Some \<lparr>source = ''de'', remaining = 2, tdigest = sampleDigest, hashed = [], whole = False, verified = False\<rparr>"
    unfolding variantReader_def sampleStored_bodies by (simp add: sampleSubmission_def)
  show ?thesis using o i by (auto simp: ReaderVariant_def sample_open v split: prod.splits)
qed

lemma sampleSend_fields [simp]: "sext sampleSend = sampleExt" "sdisc sampleSend = sampleDiscovery" "shostname sampleSend = ''me''"
    "stlsCfg sampleSend = sampleTLS" "sdial sampleSend h = (\<lambda>_. Inr (sampleHost h))" "sreads sampleSend h = [(Bytes 9, 9), (Bytes 0, 1)]"
    "\<not> scancelled sampleSend h" "\<not> snoGlobal sampleSend h"
  by (simp_all add: sampleSend_def)

lemma sampleQueued_fields [simp]: "SMTPUTF8 sampleQueued = False" "ID sampleQueued = ''m1''" "Sender sampleQueued = ''alice@example.org''"
    "Bodies sampleQueued = Bodies sampleSubmission"
  by (simp_all add: sampleQueued_def sampleSubmission_def)

text \<open>The session with either host, after the handshake.\<close>

definition sampleConn :: "string \<Rightarrow> Client" where
  "sampleConn h = (sampleHost h)\<lparr>ctls := True, creplies := tl (ctlsReplies (sampleHost h)),
     csent := [(''EHLO me'', False), (''STARTTLS'', False), (''EHLO me'', True)],
     cread := map (Pair False) (take 3 (creplies (sampleHost h)) @ [hd (ctlsReplies (sampleHost h))])\<rparr>"

lemma sample_extensions: "extensionLines [''STARTTLS''] [] = [(''STARTTLS'', '''')]" "toUpper ''STARTTLS'' = ''STARTTLS''"
  by code_simp+

lemma sample_address: "lookupHostIPs sampleDiscovery (sres sampleSend) h = Inr [[8, 8, 8, 8]]"
proof -
  have a: "AddrFromSlice [8, 8, 8, 8] = Some (V4 134744072)" by (simp add: AddrFromSlice_def bigEndian_def)
  have "[0..<4] = [0, 1, 2, 3]" by (simp add: upt_rec eval_nat_numeral)
  then have "AsSlice (V4 134744072) = [8, 8, 8, 8]" by (simp add: byteAt_def)
  then show ?thesis
    by (simp add: lookupHostIPs_def sampleDiscovery_def sampleSend_def checkDestination_def allowlisted_def restricted_v4
        restrictedOctets_def a del: AsSlice.simps)
qed

lemma sample_connect:
  "connect sampleDiscovery (sres sampleSend) ''me'' sampleTLS (\<lambda>_. Inr (sampleHost h)) \<lparr>chost = h, cips = None\<rparr> ne = Inr (sampleConn h)"
  by (simp add: connect_def sample_address dialAndSession_def openSession_def Greet_def EHLO_def readResponse_def writeLine_def Extension_def
     sampleTLS_def effectiveTLS_def PlaintextAllowed_def InsecureTLSAllowed_def
     sampleHost_def sampleServer_def NewClient_def expected_def parseExtensions_def StartTLS_def smtpCmd_def sampleConn_def
     sample_extensions del: extensionLines.simps(2))

lemma sample_send:
  assumes "Bodies e = Bodies sampleSubmission" "\<not> SMTPUTF8 e" "BodyIndex (Recipients e ! 0) = 1" "Recipients e \<noteq> []"
  shows "send sampleSend e \<lparr>chost = h, cips = None\<rparr> 1 [0, 1] q s =
    (case sendSession sampleSend h 2 False 1 [0, 1] e (sampleConn h) q s of ((res, e1, c1), q1, s1) \<Rightarrow> ((res, e1, Some c1), q1, s1))"
proof -
  have "MessageSize e 0 = Some 2" "MessageEightBit e 0 = Some False"
    using assms by (simp_all add: MessageSize_def MessageEightBit_def bodyOf_def sampleSubmission_def)
  then show ?thesis using assms(2) by (simp add: send_def sample_connect)
qed

text \<open>The first host takes the message for the first recipient.\<close>

lemma sampleQueued_recipients: "Recipients sampleQueued =
    [\<lparr>Address = ''bob@example.com'', Domain = ''example.com'', BodyIndex = 1, RStatus = StatusPending, Detail = [], Code = 0, EnhancedCode = []\<rparr>,
     \<lparr>Address = ''ann@example.com'', Domain = ''example.com'', BodyIndex = 1, RStatus = StatusPending, Detail = [], Code = 0, EnhancedCode = []\<rparr>]"
  by (simp add: sampleQueued_def)

lemmas client_defs = Extension_def Mail_def smtpCmd_def writeLine_def readResponse_def expected_def Rcpt_def goDiv_def smtpError_def Let_def
  permanent_def smtpCode_def Data_def dataWrite_def dataClose_def

lemma sample_first:
  "\<exists>c q1 err m t. send sampleSend sampleQueued \<lparr>chost = ''mx1'', cips = None\<rparr> 1 [0, 1] (newQueue sampleLimits) sampleLeft =
     (((False, Some err), updateRecipients (markSent ''mx1'' m) [0] (updateRecipient (\<lambda>r. r\<lparr>Detail := t\<rparr>) sampleQueued 1), Some c), q1, sampleLeft)"
proof -
  have x: "exts (sampleConn ''mx1'') = []" "cwrites (sampleConn ''mx1'') = []"
      "creplies (sampleConn ''mx1'') = [Reply 250 ''ok'', Reply 250 ''ok'', Reply 450 ''later'', Reply 354 ''go'', Reply 250 ''queued'']"
    by (simp_all add: sampleConn_def sampleHost_def sampleServer_def)
  have d: "bodyDigest sampleExt dat = sampleDigest" for dat by (simp add: bodyDigest_def sampleDigest_def sampleHash_def)
  have s: "send sampleSend sampleQueued \<lparr>chost = ''mx1'', cips = None\<rparr> 1 [0, 1] (newQueue sampleLimits) sampleLeft =
    (case sendSession sampleSend ''mx1'' 2 False 1 [0, 1] sampleQueued (sampleConn ''mx1'') (newQueue sampleLimits) sampleLeft of
       ((res, e1, c1), q1, s1) \<Rightarrow> ((res, e1, Some c1), q1, s1))"
    by (rule sample_send) (simp_all add: sampleQueued_recipients)
  show ?thesis unfolding s
    by (simp add: sendSession_def client_defs x pendingOf_def sampleQueued_recipients sample_reader sendData_def
        readerRead_def fileBytes_def finishRead_def d formatInt_250 markSent_def [abs_def])
      blast
qed


lemma sample_sent:
  obtains c q1 err e1 where
    "send sampleSend sampleQueued \<lparr>chost = ''mx1'', cips = None\<rparr> 1 [0, 1] (newQueue sampleLimits) sampleLeft = (((False, Some err), e1, Some c), q1, sampleLeft)"
    "map RStatus (Recipients e1) = [StatusSent, StatusPending]" "Bodies e1 = Bodies sampleSubmission" "\<not> SMTPUTF8 e1"
    "BodyIndex (Recipients e1 ! 0) = 1"
  using sample_first
  by (auto simp: updateRecipients_def updateRecipient_def markSent_def sampleQueued_recipients)

theorem sent_means_delivered_witness:
  "\<exists>res e1 c q1 s1 r q2 s2 t. send sampleSend sampleQueued \<lparr>chost = ''mx1'', cips = None\<rparr> 1 [0, 1] (newQueue sampleLimits) sampleLeft = ((res, e1, Some c), q1, s1) \<and>
     cterminated c \<and> ReaderVariant sampleExt ''m1'' 1 (newQueue sampleLimits) sampleLeft = (Inr r, q2, s2) \<and> int (length (cbody c)) = remaining r \<and>
     map snd (filter fst (cread c)) = [Reply 250 t] \<and> Detail (Recipients e1 ! 0) = normalizeDiagnostic (''mx1: 250 '' @ t)"
proof -
  obtain c q1 err e1 where f: "send sampleSend sampleQueued \<lparr>chost = ''mx1'', cips = None\<rparr> 1 [0, 1] (newQueue sampleLimits) sampleLeft =
      (((False, Some err), e1, Some c), q1, sampleLeft)" "map RStatus (Recipients e1) = [StatusSent, StatusPending]"
    by (rule sample_sent)
  then obtain a as where a: "Recipients e1 = a # as" "RStatus a = StatusSent" by auto
  have "distinct [0::nat, 1]" "0 < length (Recipients sampleQueued)" "RStatus (Recipients sampleQueued ! 0) \<noteq> StatusSent"
      "RStatus (Recipients e1 ! 0) = StatusSent" using a by (simp_all add: sampleQueued_recipients)
  from sent_means_delivered [OF f(1) this] obtain r q2 s2 t where t: "cterminated c" "int (length (cbody c)) = remaining r"
      "ReaderVariant sampleExt ''m1'' 1 (newQueue sampleLimits) sampleLeft = (Inr r, q2, s2)" "map snd (filter fst (cread c)) = [Reply 250 t]"
      "Detail (Recipients e1 ! 0) = normalizeDiagnostic (''mx1: 250 '' @ t)"
    by auto
  show ?thesis by (intro exI conjI) (fact f(1) t)+
qed


text \<open>A refused sender fails the whole group.\<close>

lemma updateRecipients_all:
  assumes "\<And>r. RStatus (f r) = v" "i \<in> set is" "i < length (Recipients e)"
  shows "RStatus (Recipients (updateRecipients f is e) ! i) = v"
  using assms(2,3) unfolding updateRecipients_def
proof (induction "is" arbitrary: e)
  case (Cons k ks)
  have one: "RStatus (Recipients e ! i) = v \<Longrightarrow> RStatus (Recipients (updateRecipient f e k) ! i) = v" for k e
    by (cases "k = i"; cases "i < length (Recipients e)") (auto simp: updateRecipient_def assms(1) list_update_beyond)
  have keep: "RStatus (Recipients e ! i) = v \<Longrightarrow> RStatus (Recipients (fold (\<lambda>i e. updateRecipient f e i) js e) ! i) = v" for js e
    by (induction js arbitrary: e) (simp_all add: one)
  show ?case using Cons keep by (cases "i = k") (auto simp: updateRecipient_def nth_list_update assms(1))
qed simp

lemma sample_refused:
  assumes "Bodies e = Bodies sampleSubmission" "\<not> SMTPUTF8 e" "BodyIndex (Recipients e ! 0) = 1" "Recipients e \<noteq> []"
  shows "\<exists>c q1 s1 e1. send sampleSend e \<lparr>chost = ''mx2'', cips = None\<rparr> 1 [0, 1] q s = (((True, None), e1, Some c), q1, s1) \<and>
    RStatus (Recipients e1 ! 0) = StatusFailed"
proof -
  have x: "exts (sampleConn ''mx2'') = []" "cwrites (sampleConn ''mx2'') = []" "creplies (sampleConn ''mx2'') = [Reply 550 ''no'']"
    by (simp_all add: sampleConn_def sampleHost_def sampleServer_def)
  have "RStatus (Recipients (rejectSMTP qt [0, Suc 0] err e) ! 0) = StatusFailed" for qt err
    unfolding rejectSMTP_def by (rule updateRecipients_all) (use assms(4) in auto)
  then show ?thesis unfolding sample_send [OF assms] using assms(2) by (simp add: sendSession_def client_defs x)
qed

text \<open>C29: a recipient that was sent the message can be reported as failed. The first host takes the
  message for one recipient and defers another; the next host refuses the sender, and the refusal is recorded for
  the whole group, over the recipient that is already marked as sent.\<close>

theorem refused_sender_overwrites_sent:
  "\<exists>err e1 c q1 s1. send sampleSend sampleQueued \<lparr>chost = ''mx1'', cips = None\<rparr> 1 [0, 1] (newQueue sampleLimits) sampleLeft =
       (((False, Some err), e1, Some c), q1, s1) \<and> RStatus (Recipients e1 ! 0) = StatusSent \<and>
     (\<exists>res e2 q2 s2. deliverDomain sampleSend sampleQueued ''example.com'' 1 [0, 1] (newQueue sampleLimits) sampleLeft = (res, e2, q2, s2) \<and>
        RStatus (Recipients e2 ! 0) = StatusFailed)"
proof -
  obtain c q1 err e1 where f: "send sampleSend sampleQueued \<lparr>chost = ''mx1'', cips = None\<rparr> 1 [0, 1] (newQueue sampleLimits) sampleLeft =
      (((False, Some err), e1, Some c), q1, sampleLeft)" "map RStatus (Recipients e1) = [StatusSent, StatusPending]"
    "Bodies e1 = Bodies sampleSubmission" "\<not> SMTPUTF8 e1" "BodyIndex (Recipients e1 ! 0) = 1"
    by (rule sample_sent)
  have "Recipients e1 \<noteq> []" "RStatus (Recipients e1 ! 0) = StatusSent" using f(2) by (cases "Recipients e1"; simp)+
  note r = sample_refused [OF f(3-5) this(1), of q1 sampleLeft]
  have "hosts sampleDiscovery (sres sampleSend) ''example.com'' = Inr [\<lparr>chost = ''mx1'', cips = None\<rparr>, \<lparr>chost = ''mx2'', cips = None\<rparr>]"
    by code_simp
  then show ?thesis using f(1) r \<open>RStatus (Recipients e1 ! 0) = StatusSent\<close> by (fastforce simp: deliverDomain_def)
qed

end
