(* ===== verification/Attempt_Props.thy ===== *)
theory Attempt_Props
  imports Attempt Send_Props
begin

text \<open>
  Delays between attempts, and that an attempt gives back exactly the slots it was admitted with, while other
  attempts take and give back slots of the same limiters.
\<close>

subsection \<open>Delays\<close>

lemma goDiv_nonneg: "0 \<le> a \<Longrightarrow> goDiv a b = a div b"
  by (simp add: goDiv_def)

lemma wrap64_within: "min_int64 \<le> n \<Longrightarrow> n \<le> max_int64 \<Longrightarrow> wrap64 n = n"
  by (simp add: wrap64_def min_int64_def max_int64_def)

lemma backoffLoop_exact:
  assumes "0 < d" "d \<le> m" "m \<le> max_int64"
  shows "backoffLoop n m d = min m (d * 2 ^ n)"
  using assms
proof (induction n arbitrary: d)
  case (Suc n)
  have m: "goDiv m 2 = m div 2" using Suc.prems by (simp add: goDiv_nonneg)
  show ?case
  proof (cases "d \<ge> m \<or> d > m div 2")
    case True
    then have "m \<le> d * 2" using Suc.prems by auto
    also have "d * 2 \<le> d * 2 ^ Suc n" using Suc.prems by simp
    finally show ?thesis using True m by simp
  next
    case False
    then have le: "d * 2 \<le> m" by linarith
    then have "wrap64 (d * 2) = d * 2" using Suc.prems by (intro wrap64_within) (simp_all add: min_int64_def)
    then show ?thesis using False m Suc.IH [of "d * 2"] Suc.prems le by (simp add: mult.assoc)
  qed
qed simp

subsection \<open>Slots\<close>

lemma wakeAdmission_limiters [simp]: "dusers (fst (wakeAdmission k key w)) = dusers (fst w)" "ddomains (fst (wakeAdmission k key w)) = ddomains (fst w)"
    "dothers (fst (wakeAdmission k key w)) = dothers (fst w)"
  by (auto simp: wakeAdmission_def split: prod.splits)

lemma parkAdmission_limiters [simp]: "dusers (fst (parkAdmission e k key w)) = dusers (fst w)" "ddomains (fst (parkAdmission e k key w)) = ddomains (fst w)"
    "dothers (fst (parkAdmission e k key w)) = dothers (fst w)"
  by (auto simp: parkAdmission_def split: prod.splits)

lemma releaseDomainSlot_limiters: "dusers (fst (releaseDomainSlot d w)) = dusers (fst w)"
    "ddomains (fst (releaseDomainSlot d w)) = snd (releaseSlot d (ddomains (fst w)))" "dothers (fst (releaseDomainSlot d w)) = dothers (fst w)"
  by (auto simp: releaseDomainSlot_def Let_def split: prod.splits)

lemma releaseOwnerSlot_limiters: "ddomains (fst (releaseOwnerSlot u w)) = ddomains (fst w)"
    "dusers (fst (releaseOwnerSlot u w)) = snd (releaseSlot u (dusers (fst w)))" "dothers (fst (releaseOwnerSlot u w)) = dothers (fst w)"
  by (auto simp: releaseOwnerSlot_def Let_def split: prod.splits)

text \<open>What the other attempts hold of a limiter.\<close>

definition othersHold :: "admissionKind \<Rightarrow> Deliverer \<Rightarrow> string multiset" where
  "othersHold k d = mset (map snd (filter (\<lambda>p. fst p = k) (dothers d)))"

text \<open>The limiters hold exactly what the others hold, and \<open>U\<close> and \<open>D\<close> besides.\<close>

definition slotsHeld :: "string multiset \<Rightarrow> string multiset \<Rightarrow> Deliverer \<Rightarrow> bool" where
  "slotsHeld U D d \<longleftrightarrow> domainUsage (U + othersHold admissionUser d) (dusers d) \<and> domainUsage (D + othersHold admissionDomain d) (ddomains d)"

lemma slotsHeld_cong: "dusers d1 = dusers d \<Longrightarrow> ddomains d1 = ddomains d \<Longrightarrow> dothers d1 = dothers d \<Longrightarrow> slotsHeld U D d1 = slotsHeld U D d"
  by (simp add: slotsHeld_def othersHold_def)

lemma acquire_usage: "domainUsage M l \<Longrightarrow> tryAcquire key l = (True, l1) \<Longrightarrow> domainUsage (add_mset key M) l1"
  using domain_slots.grab_usage [of M l key] by simp

lemma othersHold_gives:
  assumes "(k, key) \<in> set (dothers d)"
  shows "othersHold j d = (if j = k then {#key#} else {#}) + othersHold j (d\<lparr>dothers := remove1 (k, key) (dothers d)\<rparr>)"
proof -
  obtain R where "mset (dothers d) = add_mset (k, key) R" using assms by (metis multi_member_split set_mset_mset)
  then show ?thesis by (simp add: othersHold_def)
qed

lemma releaseDomainSlot_held:
  "slotsHeld U (add_mset key D) (fst w) \<Longrightarrow> slotsHeld U D (fst (releaseDomainSlot key w))"
  using domain_slots.free_usage [of key "D + othersHold admissionDomain (fst w)" "ddomains (fst w)"]
  by (simp add: slotsHeld_def othersHold_def releaseDomainSlot_limiters)

lemma releaseOwnerSlot_held:
  "slotsHeld (add_mset key U) D (fst w) \<Longrightarrow> slotsHeld U D (fst (releaseOwnerSlot key w))"
  using domain_slots.free_usage [of key "U + othersHold admissionUser (fst w)" "dusers (fst w)"]
  by (simp add: slotsHeld_def othersHold_def releaseOwnerSlot_limiters)

lemma otherStep_held: "slotsHeld U D (fst w) \<Longrightarrow> slotsHeld U D (fst (otherStep ev w))"
proof (induction ev w rule: otherStep.induct)
  case (1 k key w)
  then show ?case
    by (cases k)
      (auto simp: slotsHeld_def othersHold_def limiterOf_def Let_def split: prod.splits bool.splits dest: acquire_usage)
next
  case (2 k key w)
  let ?w = "((fst w)\<lparr>dothers := remove1 (k, key) (dothers (fst w))\<rparr>, snd w)"
  show ?case
  proof (cases "(k, key) \<in> set (dothers (fst w))")
    case True
    note g = othersHold_gives [OF True]
    have "k = admissionDomain \<Longrightarrow> slotsHeld U (add_mset key D) (fst ?w)" "k = admissionUser \<Longrightarrow> slotsHeld (add_mset key U) D (fst ?w)"
      using 2 by (simp_all add: slotsHeld_def g [of admissionUser] g [of admissionDomain])
    then show ?thesis using True releaseDomainSlot_held [of U key D ?w] releaseOwnerSlot_held [of key U D ?w]
      by (cases k) (auto simp: Let_def split: prod.splits)
  qed (use 2 in \<open>auto simp: Let_def split: prod.splits\<close>)
qed

lemma otherSteps_held: "slotsHeld U D (fst w) \<Longrightarrow> slotsHeld U D (fst (otherSteps evs w))"
  unfolding otherSteps_def by (induction evs arbitrary: w) (simp_all add: otherStep_held)

text \<open>What an attempt holds itself: an empty name takes no slot.\<close>

lemma usage_empty_name: "domainUsage (add_mset '''' M) l \<longleftrightarrow> domainUsage M l"
  by (auto simp: domainUsage_def)

definition own :: "string \<Rightarrow> string multiset" where
  "own h = (if h = '''' then {#} else {#h#})"

lemma held_own: "slotsHeld U (own h) d \<longleftrightarrow> slotsHeld U {#h#} d"
  by (simp add: own_def slotsHeld_def usage_empty_name)

lemma deliverGroup_slots:
  assumes "deliverGroup a k key is g = (r, g1)" "slotsHeld U (own (fst key)) (fst (gworld g))"
  shows "gheld g1 = '''' \<and> slotsHeld U {#} (fst (gworld g1))"
proof -
  obtain q1 where "gheld g1 = ''''" "gworld g1 = releaseDomainSlot (fst key) (otherSteps (aduring a k) (fst (gworld g), q1))"
    using assms(1) by (auto simp: deliverGroup_def Let_def split: prod.splits option.splits if_splits)
  then show ?thesis
    using otherSteps_held [of U "{#fst key#}" "(fst (gworld g), q1)"] assms(2) by (simp add: held_own releaseDomainSlot_held)
qed

lemma runGroups_slots:
  "runGroups a k gs g = (r, g1) \<Longrightarrow> slotsHeld U (own (gheld g)) (fst (gworld g)) \<Longrightarrow>
    gheld g = '''' \<or> gs \<noteq> [] \<and> fst (fst (hd gs)) = gheld g \<Longrightarrow> slotsHeld U (own (gheld g1)) (fst (gworld g1))"
proof (induction gs arbitrary: k g)
  case (Cons kg gs)
  obtain key "is" where kg: "kg = (key, is)" by fastforce
  let ?w = "otherSteps (aothers a k) (gworld g)"
  let ?g = "g\<lparr>gworld := ?w\<rparr>" and ?l = "ddomains (fst ?w)"
  show ?case
  proof (cases "astop a k")
    case go: False
    have l: "slotsHeld U (own (gheld g)) (fst ?w)" using Cons.prems(2) by (rule otherSteps_held)
    show ?thesis
    proof (cases "gheld g \<noteq> fst key \<and> \<not> fst (tryAcquire (fst key) ?l)")
      case True
      then have "g1 = ?g" using Cons.prems(1) kg go by (auto simp: Let_def split: prod.splits bool.splits if_splits)
      then show ?thesis using l by simp
    next
      case False
      define g2 where "g2 = (if gheld g \<noteq> fst key
        then ?g\<lparr>gheld := fst key, gworld := ((fst ?w)\<lparr>ddomains := snd (tryAcquire (fst key) ?l)\<rparr>, snd ?w)\<rparr> else ?g)"
      have h: "gheld g \<noteq> fst key \<Longrightarrow> gheld g = ''''" using Cons.prems(3) kg by auto
      have d: "slotsHeld U (own (fst key)) (fst (gworld g2))"
      proof (cases "gheld g = fst key")
        case True
        then show ?thesis using l by (simp add: g2_def)
      next
        case ne: False
        then have "tryAcquire (fst key) ?l = (True, snd (tryAcquire (fst key) ?l))" using False by (metis prod.collapse)
        moreover have "slotsHeld U {#} (fst ?w)" using l h [OF ne] by (simp add: own_def)
        ultimately show ?thesis using ne unfolding held_own by (auto simp: g2_def slotsHeld_def othersHold_def dest: acquire_usage)
      qed
      obtain r3 g3 where g3: "deliverGroup a k key is g2 = (r3, g3)" by fastforce
      have "runGroups a k (kg # gs) g = (case deliverGroup a k key is g2 of (Inl er, g2) \<Rightarrow> (Inl er, g2) | (Inr False, g2) \<Rightarrow> (Inr [], g2) | (Inr True, g2) \<Rightarrow> runGroups a (Suc k) gs g2)"
        using go False kg by (auto simp: Let_def g2_def split: prod.splits bool.splits)
      then have run: "(r, g1) = (case (r3, g3) of (Inl er, g2) \<Rightarrow> (Inl er, g2) | (Inr False, g2) \<Rightarrow> (Inr [], g2) | (Inr True, g2) \<Rightarrow> runGroups a (Suc k) gs g2)"
        using Cons.prems(1) g3 by simp
      have s3: "gheld g3 = ''''" "slotsHeld U (own (gheld g3)) (fst (gworld g3))"
        using deliverGroup_slots [OF g3 d] by (simp_all add: own_def)
      show ?thesis
      proof (cases "r3 = Inr True")
        case True
        then have "runGroups a (Suc k) gs g3 = (r, g1)" using run by simp
        from Cons.IH [OF this s3(2)] s3(1) show ?thesis by simp
      next
        case False
        then have "g1 = g3" using run by (cases r3) (auto split: bool.splits)
        then show ?thesis using s3 by simp
      qed
    qed
  qed (use Cons.prems kg in simp)
qed simp


subsection \<open>Groups\<close>

lemma addGroup_keys: "fst ` set (addGroup key i gs) = insert key (fst ` set gs)"
  by (induction key i gs rule: addGroup.induct) (simp_all add: insert_commute)

lemma groupRecipients_key:
  assumes "r \<in> set (Recipients e)" "RStatus r = StatusPending"
  shows "(Domain r, BodyIndex r) \<in> fst ` set (groupRecipients e)"
proof -
  let ?f = "\<lambda>i gs. let r = Recipients e ! i in if RStatus r \<noteq> StatusPending then gs else addGroup (Domain r, BodyIndex r) i gs"
  have keep: "fst ` set gs \<subseteq> fst ` set (fold ?f is gs)" for "is" gs
  proof (induction "is" arbitrary: gs)
    case (Cons i "is")
    have "fst ` set gs \<subseteq> fst ` set (?f i gs)" by (auto simp: Let_def addGroup_keys)
    then show ?case using Cons [of "?f i gs"] by simp
  qed simp
  have add: "(Domain r, BodyIndex r) \<in> fst ` set (fold ?f is gs)" if "i \<in> set is" "Recipients e ! i = r" for "is" gs i
    using that
  proof (induction "is" arbitrary: gs)
    case (Cons j "is")
    show ?case
    proof (cases "j = i")
      case True
      have "(Domain r, BodyIndex r) \<in> fst ` set (?f i gs)" using Cons.prems assms(2) by (simp add: Let_def addGroup_keys)
      then show ?thesis using True keep [of "?f i gs" "is"] by auto
    qed (use Cons in simp)
  qed simp
  obtain i where "i < length (Recipients e)" "Recipients e ! i = r" using assms(1) by (auto simp: in_set_conv_nth)
  then show ?thesis unfolding groupRecipients_def by (intro add [of i]) auto
qed

lemma pullDomain_some: "h \<in> set gs \<Longrightarrow> fst (fst h) = d \<Longrightarrow> \<exists>g rest. pullDomain d gs = Some (g, rest) \<and> fst (fst g) = d"
  by (induction gs) (fastforce split: option.splits)+

lemma frontGroup_first:
  assumes "d \<in> fst ` fst ` set gs" "d \<noteq> []"
  shows "frontGroup d gs \<noteq> [] \<and> fst (fst (hd (frontGroup d gs))) = d"
proof (cases gs)
  case (Cons g gs')
  show ?thesis
  proof (cases "fst (fst g) = d")
    case False
    then obtain h where "h \<in> set gs'" "fst (fst h) = d" using assms Cons by auto
    then show ?thesis using False assms(2) Cons pullDomain_some [of h gs' d] by (cases gs') (auto simp: frontGroup_def)
  qed (simp add: frontGroup_def Cons)
qed (use assms in simp)

lemma nextPendingDomain_pending:
  "nextPendingDomain e \<noteq> [] \<Longrightarrow> \<exists>r \<in> set (Recipients e). RStatus r = StatusPending \<and> Domain r = nextPendingDomain e"
proof (cases "PreferredDomain e \<noteq> [] \<and> list_ex (\<lambda>r. RStatus r = StatusPending \<and> Domain r = PreferredDomain e) (Recipients e)")
  case True
  then show ?thesis by (auto simp: nextPendingDomain_def list_ex_iff)
next
  case False
  assume ne: "nextPendingDomain e \<noteq> []"
  then obtain r rs where r: "filter (\<lambda>r. RStatus r = StatusPending) (Recipients e) = r # rs"
    using False by (auto simp: nextPendingDomain_def split: list.splits)
  then have "r \<in> set (filter (\<lambda>r. RStatus r = StatusPending) (Recipients e))" by simp
  moreover have "nextPendingDomain e = Domain r" using r False by (auto simp: nextPendingDomain_def)
  ultimately show ?thesis by auto
qed

lemma groupRecipients_cong: "Recipients e1 = Recipients e \<Longrightarrow> groupRecipients e1 = groupRecipients e"
  by (simp add: groupRecipients_def)

lemma admitted_first:
  assumes "admitted = nextPendingDomain e" "admitted \<noteq> []" "Recipients e1 = Recipients e"
  shows "frontGroup admitted (groupRecipients e1) \<noteq> [] \<and> fst (fst (hd (frontGroup admitted (groupRecipients e1)))) = admitted"
proof (rule frontGroup_first)
  obtain r where "r \<in> set (Recipients e1)" "RStatus r = StatusPending" "Domain r = admitted"
    using nextPendingDomain_pending [of e] assms by auto
  then show "admitted \<in> fst ` fst ` set (groupRecipients e1)" using groupRecipients_key [of r e1] by force
qed (rule assms)

subsection \<open>The attempt\<close>

lemma concludeAttempt_limiters:
  "concludeAttempt cfg a b e w s = (err, e1, w1, s1) \<Longrightarrow>
   dusers (fst w1) = dusers (fst w) \<and> ddomains (fst w1) = ddomains (fst w) \<and> dothers (fst w1) = dothers (fst w)"
  by (auto simp: concludeAttempt_def Let_def queueResult_def split: prod.splits if_splits option.splits)

lemma attemptBody_slots:
  assumes b: "attemptBody cfg a admitted e w s = (mine, err, e1, w1, s1)"
    and u: "slotsHeld U (own admitted) (fst w)" and adm: "admitted = nextPendingDomain e"
  shows "slotsHeld U (own mine) (fst w1)"
proof (cases "acancelled a \<or> \<not> aexpireNow a < Created e + lifetime cfg")
  case True
  then have "mine = admitted \<and> fst w1 = fst w" using b by (auto simp: attemptBody_def split: prod.splits if_splits)
  then show ?thesis using u by simp
next
  case False
  define e0 where "e0 = e\<lparr>Attempts := Attempts e + 1, LastError := [], PreferredDomain := []\<rparr>"
  define gs where "gs = frontGroup admitted (groupRecipients e0)"
  define g0 where "g0 = \<lparr>gheld = admitted, genv = e0, gworld = w, gfs = s, gdiag = []\<rparr>"
  obtain r g where g: "runGroups a 0 gs g0 = (r, g)" by fastforce
  have "gheld g0 = [] \<or> gs \<noteq> [] \<and> fst (fst (hd gs)) = gheld g0"
    using admitted_first [OF adm, of e0] by (auto simp: g0_def gs_def e0_def)
  from runGroups_slots [OF g _ this] u have s: "slotsHeld U (own (gheld g)) (fst (gworld g))" by (simp add: g0_def)
  have "mine = gheld g \<and> dusers (fst w1) = dusers (fst (gworld g)) \<and> ddomains (fst w1) = ddomains (fst (gworld g)) \<and>
      dothers (fst w1) = dothers (fst (gworld g))"
    using b False g unfolding attemptBody_def e0_def [symmetric] gs_def [symmetric] g0_def [symmetric] Let_def
    by (auto split: prod.splits sum.splits dest: concludeAttempt_limiters)
  then show ?thesis using s slotsHeld_cong by metis
qed

lemma attemptAdmitted_slots:
  assumes "attemptAdmitted cfg a owner admitted e w s = (err, e1, w1, s1)" "admitted = nextPendingDomain e"
    "slotsHeld {#owner#} {#admitted#} (fst w)"
  shows "slotsHeld {#} {#} (fst w1)"
proof -
  obtain mine w2 where b: "attemptBody cfg a admitted e w s = (mine, err, e1, w2, s1)"
      "w1 = releaseOwnerSlot owner (if mine \<noteq> [] then releaseDomainSlot mine (otherSteps (alater a) w2) else otherSteps (alater a) w2)"
    using assms(1) by (auto simp: attemptAdmitted_def Let_def split: prod.splits)
  have "slotsHeld {#owner#} (own mine) (fst w2)" using attemptBody_slots [OF b(1) _ assms(2)] assms(3) held_own by blast
  then have o: "slotsHeld {#owner#} (own mine) (fst (otherSteps (alater a) w2))" by (rule otherSteps_held)
  show ?thesis unfolding b(2)
    by (rule releaseOwnerSlot_held) (use o in \<open>auto simp: own_def intro!: releaseDomainSlot_held split: if_splits\<close>)
qed

text \<open>Admission takes both slots or none.\<close>

lemma admitMessage_slots:
  assumes "admitMessage got e w = (r, w1)" "slotsHeld {#} {#} (fst w)"
  shows "case r of None \<Rightarrow> slotsHeld {#} {#} (fst w1)
    | Some (owner, admitted) \<Rightarrow> admitted = nextPendingDomain e \<and> slotsHeld {#owner#} {#admitted#} (fst w1)"
proof -
  obtain d q where w: "w = (d, q)" by fastforce
  let ?o = "deliveryOwner e" and ?n = "nextPendingDomain e"
  obtain bu lu where u: "tryAcquire ?o (dusers d) = (bu, lu)" by fastforce
  show ?thesis
  proof (cases bu)
    case False
    then have "r = None" "w1 = parkAdmission e admissionUser ?o w" using assms(1) u w by (auto simp: admitMessage_def)
    then show ?thesis using assms(2) slotsHeld_cong [of "fst w1" "fst w"] by simp
  next
    case bu: True
    define d1 where "d1 = d\<lparr>dusers := lu\<rparr>"
    have h1: "slotsHeld {#?o#} {#} d1"
      using assms(2) u bu w acquire_usage by (fastforce simp: d1_def slotsHeld_def othersHold_def)
    obtain bd ld where dd: "tryAcquire ?n (ddomains d1) = (bd, ld)" by fastforce
    show ?thesis
    proof (cases bd)
      case False
      then have "r = None" "w1 = parkAdmission e admissionDomain ?n (releaseOwnerSlot ?o (d1, q))"
        using assms(1) u w bu dd by (auto simp: admitMessage_def d1_def Let_def)
      then show ?thesis
        using h1 releaseOwnerSlot_held [of ?o "{#}" "{#}" "(d1, q)"] slotsHeld_cong [of "fst w1" "fst (releaseOwnerSlot ?o (d1, q))"] by simp
    next
      case bd: True
      define d2 where "d2 = d1\<lparr>ddomains := ld\<rparr>"
      have h2: "slotsHeld {#?o#} {#?n#} d2"
        using h1 dd bd acquire_usage by (fastforce simp: d2_def slotsHeld_def othersHold_def)
      then have h3: "slotsHeld {#} {#} (fst (releaseOwnerSlot ?o (releaseDomainSlot ?n (d2, q))))"
        by (simp add: releaseOwnerSlot_held releaseDomainSlot_held)
      have "admitMessage got e w = (if got then (Some (?o, ?n), (d2, q))
          else (let (d3, q3) = releaseOwnerSlot ?o (releaseDomainSlot ?n (d2, q)) in (None, (d3, Requeue e q3))))"
        using dd bd by (simp add: admitMessage_def w u bu d1_def d2_def)
      then show ?thesis using assms(1) h2 h3 by (auto split: if_splits prod.splits)
    qed
  qed
qed


subsection \<open>Properties\<close>

text \<open>C40: delays grow exponentially and are bounded. The delay before the next attempt is within a
  tenth of the initial delay doubled after every attempt, capped at the maximum, and never exceeds the maximum;
  no step of the computation overflows.\<close>

theorem backoff_bounds:
  assumes "0 < initial cfg" "initial cfg \<le> maximum cfg" "maximum cfg \<le> max_int64"
    and base: "base = min (maximum cfg) (initial cfg * 2 ^ nat (attempts - 1))" and "0 \<le> random" "random < max 1 (base div 5)"
  shows "base - base div 10 \<le> backoff cfg attempts random \<and> backoff cfg attempts random \<le> base + base div 10 \<and>
    backoff cfg attempts random \<le> maximum cfg"
proof -
  have loop: "backoffLoop (nat (attempts - 1)) (maximum cfg) (initial cfg) = base"
    using backoffLoop_exact [OF assms(1-3)] base by simp
  have b: "0 < base" "base \<le> maximum cfg" using assms(1,2) base by (auto simp: min_def)
  define delta where "delta = random - base div 10"
  show ?thesis
  proof (cases "base div 5 \<le> 0")
    case True
    then show ?thesis using b by (simp add: backoff_def loop goDiv_nonneg Let_def)
  next
    case False
    have d: "delta \<le> base div 10" "- (base div 10) \<le> delta" using assms(5,6) False b by (simp_all add: delta_def)
    have bounds: "base div 10 \<le> base" "0 \<le> base div 10" using b by simp_all
    have w: "wrap64 (random - base div 10) = delta" using d b bounds assms(3)
      by (simp add: delta_def [symmetric] wrap64_within min_int64_def max_int64_def)
    have m: "delta > 0 \<Longrightarrow> wrap64 (maximum cfg - delta) = maximum cfg - delta"
      using d b bounds assms(3) by (intro wrap64_within) (simp_all add: min_int64_def)
    have s: "\<not> (delta > 0 \<and> base > maximum cfg - delta) \<Longrightarrow> wrap64 (base + delta) = base + delta"
      using d b bounds assms(3) by (intro wrap64_within) (auto simp: min_int64_def)
    show ?thesis
      using False d b m s by (cases "delta > 0") (auto simp: backoff_def loop goDiv_nonneg Let_def w)
  qed
qed

definition sampleCfg :: deliverCfg where
  "sampleCfg = \<lparr>lifetime = 1000, initial = 60, maximum = 600, attemptTO = 100, MaxAttempts = 5, hostName = ''mx.example.org''\<rparr>"

theorem backoff_bounds_witness: "216 \<le> backoff sampleCfg 3 7 \<and> backoff sampleCfg 3 7 \<le> 264"
proof -
  have "(240::int) = min (maximum sampleCfg) (initial sampleCfg * 2 ^ nat (3 - 1))" by (simp add: sampleCfg_def)
  from backoff_bounds [OF _ _ _ this, of 7] show ?thesis by (simp add: sampleCfg_def max_int64_def)
qed

text \<open>C30: an attempt gives back exactly what it was admitted with. Before admission the two limiters
  hold exactly the slots other attempts were granted. If the message is not admitted, they still do. If it is, then
  whatever the servers, the disk and the context do, and whatever slots other attempts ask for and give back between
  admission and the attempt (\<open>evs\<close>), before every group, during it and before the deferred releases, after
  the attempt the limiters hold exactly the slots the others hold then: no slot of this attempt leaks, none is given
  back twice, and none of another attempt is given back in its place.\<close>

theorem attempt_returns_slots:
  assumes "admitMessage got e w = (r, w0)"
    "domainUsage (mset (map snd (filter (\<lambda>p. fst p = admissionUser) (dothers (fst w))))) (dusers (fst w))"
    "domainUsage (mset (map snd (filter (\<lambda>p. fst p = admissionDomain) (dothers (fst w))))) (ddomains (fst w))"
    "w1 = (case r of None \<Rightarrow> w0 | Some (owner, admitted) \<Rightarrow>
       (case attemptAdmitted cfg a owner admitted e (otherSteps evs w0) s of (err, e1, w1, s1) \<Rightarrow> w1))"
  shows "domainUsage (mset (map snd (filter (\<lambda>p. fst p = admissionUser) (dothers (fst w1))))) (dusers (fst w1)) \<and>
    domainUsage (mset (map snd (filter (\<lambda>p. fst p = admissionDomain) (dothers (fst w1))))) (ddomains (fst w1))"
proof -
  have held: "slotsHeld {#} {#} d \<longleftrightarrow>
      domainUsage (mset (map snd (filter (\<lambda>p. fst p = admissionUser) (dothers d)))) (dusers d) \<and>
      domainUsage (mset (map snd (filter (\<lambda>p. fst p = admissionDomain) (dothers d)))) (ddomains d)" for d
    by (simp add: slotsHeld_def othersHold_def)
  note adm = admitMessage_slots [OF assms(1)]
  have "slotsHeld {#} {#} (fst w1)"
  proof (cases r)
    case None
    then show ?thesis using adm assms(2-4) held by simp
  next
    case (Some p)
    obtain owner admitted where p: "p = (owner, admitted)" by fastforce
    obtain err e1 w2 s1 where r: "attemptAdmitted cfg a owner admitted e (otherSteps evs w0) s = (err, e1, w2, s1)"
      by (metis prod.collapse)
    have "slotsHeld {#owner#} {#admitted#} (fst (otherSteps evs w0))" "admitted = nextPendingDomain e"
      using adm assms(2,3) held Some p by (auto intro: otherSteps_held)
    from attemptAdmitted_slots [OF r this(2,1)] show ?thesis using assms(4) Some p r by simp
  qed
  then show ?thesis using held by blast
qed

text \<open>A message for two recipients of one domain, with limiters of two slots per key. Another attempt holds a slot of
  the owner and of the domain; a third asks for the domain during the delivery and is refused, then gets a slot of another; and the
  slots of the second are given back at the end.\<close>

definition sampleAttempt :: attemptEnv where
  "sampleAttempt =
     \<lparr>aext = sampleExt, asend = (\<lambda>_. sampleSend), acancelled = False, aexpireNow = 5, astart = 5, astop = (\<lambda>_. False), aafter = (\<lambda>_. False),
      aothers = (\<lambda>_. []), aduring = (\<lambda>_. [Takes admissionDomain ''example.com'', Takes admissionDomain ''example.net'']),
      alater = [Gives admissionDomain ''example.com''], acause = causeNone, aend = 6, aparent = False, anext = 6, arandom = 0,
      anotice = \<lparr>nreads = [], nboundary = Inr ''b'', nrfc1123z = (\<lambda>_. ''Mon''), nsigner = None, nnow = 6, nincarnation = Inr ''i'',
        nop = \<lparr>opTime = 0, opUsage = Inr 0, opFree = None, opStamp = 0, opPartial = 0\<rparr>\<rparr>,
      aop = \<lparr>opTime = 0, opUsage = Inr 0, opFree = None, opStamp = 0, opPartial = 0\<rparr>\<rparr>"

definition sampleWorld :: dworld where
  "sampleWorld =
     (\<lparr>dusers = \<lparr>limit = 2, slots = [(''alice'', 1)]\<rparr>, ddomains = \<lparr>limit = 2, slots = [(''example.com'', 1)]\<rparr>, dparked = [],
       dothers = [(admissionUser, ''alice''), (admissionDomain, ''example.com'')]\<rparr>, newQueue sampleLimits)"

theorem attempt_returns_slots_witness:
  "\<exists>w0 err e1 w1 s1. admitMessage True sampleQueued sampleWorld = (Some (''alice'', ''example.com''), w0) \<and>
     attemptAdmitted sampleCfg sampleAttempt ''alice'' ''example.com'' sampleQueued w0 sampleLeft = (err, e1, w1, s1) \<and>
     domainUsage (mset (map snd (filter (\<lambda>p. fst p = admissionUser) (dothers (fst w1))))) (dusers (fst w1)) \<and>
     domainUsage (mset (map snd (filter (\<lambda>p. fst p = admissionDomain) (dothers (fst w1))))) (ddomains (fst w1))"
proof -
  have own: "deliveryOwner sampleQueued = ''alice''" "nextPendingDomain sampleQueued = ''example.com''"
    by (simp_all add: deliveryOwner_def nextPendingDomain_def sampleQueued_recipients) (simp_all add: sampleQueued_def sampleSubmission_def)
  obtain w0 where w0: "admitMessage True sampleQueued sampleWorld = (Some (''alice'', ''example.com''), w0)"
    by (simp add: admitMessage_def own sampleWorld_def tryAcquire_def Let_def)
  obtain err e1 w1 s1 where r: "attemptAdmitted sampleCfg sampleAttempt ''alice'' ''example.com'' sampleQueued w0 sampleLeft = (err, e1, w1, s1)"
    by (metis prod.collapse)
  have u: "domainUsage {#key#} \<lparr>limit = 2, slots = [(key, 1)]\<rparr>" if "key \<noteq> []" for key using that by (auto simp: domainUsage_def)
  have "domainUsage (mset (map snd (filter (\<lambda>p. fst p = admissionUser) (dothers (fst sampleWorld))))) (dusers (fst sampleWorld))"
      "domainUsage (mset (map snd (filter (\<lambda>p. fst p = admissionDomain) (dothers (fst sampleWorld))))) (ddomains (fst sampleWorld))"
    using u by (simp_all add: sampleWorld_def)
  moreover have "w1 = (case Some (''alice'', ''example.com'') of None \<Rightarrow> w0 | Some (owner, admitted) \<Rightarrow>
      (case attemptAdmitted sampleCfg sampleAttempt owner admitted sampleQueued (otherSteps [] w0) sampleLeft of (err, e1, w1, s1) \<Rightarrow> w1))"
    by (simp add: r otherSteps_def)
  ultimately show ?thesis using attempt_returns_slots [OF w0] w0 r by blast
qed

end
