(* ===== verification/Spec2Isabelle.thy ===== *)
theory Spec2Isabelle
  imports Prelude AuthLimiter_Inv Capacity_Inv Validation_Props Delivery_Durable Recovery_Live
    Response_Props Report_Props Attempt_Props
begin

text \<open>
  A verification library for \<^bold>\<open>outboxd\<close>, an outbound mail server: it accepts messages from
  authenticated users over SMTP, keeps them in a durable spool on disk, and delivers them.

  \<^bold>\<open>Parts of the program and how they interact.\<close> \<open>src/internal/smtpd\<close> serves submissions: it
  limits authentication attempts (\<open>limiter.go\<close>), checks addresses (\<open>src/internal/mailbox\<close>) and
  hands a message to \<open>Queue.AddContext\<close>. \<open>src/internal/queue\<close> is the spool: one directory per
  message under \<open>ready/\<close>, \<open>dead/\<close>, \<open>tmp/\<close>, \<open>dsn/\<close>, \<open>corrupt/\<close> and \<open>trash/\<close>, with a quota, a
  schedule in memory and an in-memory index of what is on disk; it writes through
  \<open>src/internal/disk\<close>. \<open>src/internal/deliver\<close> takes messages with \<open>Next\<close> and ends each attempt
  with \<open>Retry\<close>, \<open>Finish\<close>, \<open>Bury\<close> or \<open>QuarantineCheckedOut\<close>; in between it looks up the hosts of
  each domain, opens SMTP sessions under the TLS policy, hands the message over, and reports
  failures to the sender with \<open>AddDSN\<close>.

  \<^bold>\<open>Theories.\<close> Definitions, in the order they build on each other:
  \<^item> \<open>Prelude\<close>: Go maps as association lists (\<open>mget\<close>, \<open>mput\<close>, \<open>mdel\<close>), \<open>int\<close>/\<open>int64\<close> arithmetic
    with its wrap-around (\<open>wrap64\<close>), times and durations; \<open>GoStrings\<close>: the string functions the
    code calls, on bytes, with UTF-8 decoding; \<open>Errors\<close>: error values as trees with
    \<open>errors.Is\<close> (\<open>queue/errors.go\<close>).
  \<^item> \<open>AuthLimiter\<close>: \<open>smtpd/limiter.go\<close>. \<open>GoHeap\<close>: \<open>container/heap\<close> over a slice with index
    write-back; \<open>Schedule\<close>: \<open>queue/schedule.go\<close>.
  \<^item> \<open>Envelope\<close>: \<open>queue/envelope.go\<close>, \<open>queue/identity.go\<close>; \<open>Mailbox\<close>: \<open>mailbox/mailbox.go\<close>;
    \<open>Validation\<close>: \<open>queue/validation.go\<close>.
  \<^item> \<open>FileSystem\<close>: the spool's file system with failing calls and crashes; \<open>Disk\<close>:
    \<open>disk/disk.go\<close> over it; \<open>QueueState\<close>: the queue record, \<open>queue/capacity.go\<close>, \<open>spool.go\<close>,
    \<open>transitions.go\<close> and the ownership operations of \<open>queue.go\<close>; \<open>Storage\<close>: \<open>queue/storage.go\<close>
    and the verification part of \<open>body.go\<close>; \<open>Add\<close>: \<open>queue/add.go\<close>; \<open>Delivery\<close>:
    \<open>queue/delivery.go\<close>, \<open>Bury\<close> of \<open>dead.go\<close> and \<open>QuarantineCheckedOut\<close>; \<open>Recovery\<close>:
    \<open>queue/recovery.go\<close>; \<open>Body\<close>: the readers of \<open>queue/body.go\<close>; \<open>Notice\<close>: \<open>queue/dsn.go\<close>.
  \<^item> Deliveries: \<open>Slots\<close>: \<open>deliver/limiter.go\<close> and \<open>smtpd/connlimit.go\<close>; \<open>Netpolicy\<close>:
    \<open>netpolicy/address.go\<close>; \<open>DeliverErrors\<close> and \<open>Response\<close>: \<open>deliver/errors.go\<close> and \<open>response.go\<close>;
    \<open>Discovery\<close>: \<open>discovery.go\<close>; \<open>Client\<close>: \<open>client.go\<close> and \<open>connect.go\<close>; \<open>Send\<close>: \<open>send.go\<close> and
    \<open>domain.go\<close>; \<open>Report\<close>: \<open>dsn.go\<close>; \<open>Attempt\<close>: \<open>admission.go\<close>, \<open>outcome.go\<close>, \<open>attempt.go\<close> and
    one round of the loop of \<open>run.go\<close>.

  Proofs: \<open>AuthLimiter_Inv\<close>, \<open>Schedule_Inv\<close>, \<open>Capacity_Inv\<close>, \<open>Validation_Props\<close> for the
  theories they are named after; \<open>FileSystem_Inv\<close> with the interface of relations that runs keep;
  \<open>Add_Durable\<close>, \<open>Recovered\<close>, \<open>Add_Definite\<close>, \<open>Acceptance\<close>, \<open>Add_Live\<close> for \<open>AddContext\<close>;
  \<open>Survival\<close> and \<open>Delivery_Durable\<close> for the operations after acceptance; \<open>Recovery_Live\<close> for opening
  a spool; \<open>Response_Props\<close>, \<open>Send_Props\<close>, \<open>Report_Props\<close>, \<open>Attempt_Props\<close> for deliveries. The other
  theories of the deliveries hold their properties themselves.

  \<^bold>\<open>State and effects.\<close> An operation of the code is a function from its arguments and the states it
  changes (\<open>Queue\<close>, \<open>fsys\<close>, ...) to its results and the states after it; a Go error is a value
  of \<open>gerror option\<close>, and a call with a value returns a sum. Every early return and deferred call
  is a branch. Operations that hold the queue's mutex are single steps; concurrency is the
  interleaving of such steps, which the invariants quantify over (\<open>cap_reach\<close>, the runs of
  \<open>AuthLimiter_Inv\<close>). What comes from outside (clock, random identifiers, free disk space, the
  JSON encoder, SHA-256, the IDNA profile) is an argument, with what the code relies on as named
  hypotheses (\<open>jsonOK\<close>, \<open>idnaOK\<close>). A server is what it will answer: the replies, the outcome of
  the handshake and of every write are part of the client's state, and the theorems hold for all
  of them; the resolver, the contexts and what other attempts do to the limiters are arguments.

  \<^bold>\<open>The file system.\<close> A directory or file has a current state and the list of the states a crash
  may leave it in: all since its last successful sync, each object on its own, and any prefix of
  a write. Each system call takes an outcome from a list: it passes, fails without effect, fails
  after its effect, or writes a part. Theorems hold for every list of outcomes; a crash in the
  middle of an operation is the list that lets every later call fail without effect.

  \<^bold>\<open>What is shown.\<close> The limiter's aggregates equal the sums they stand for in every
  interleaving, lockouts are enforced and bounded. The schedule refines a bag, serves owners in
  turn and reports the exact next wake-up. Quota and spool counters equal what they count, no
  limit is exceeded, and emergency operations keep their reserve. A validated envelope is in
  normal form and its bodies tile the data. An accepted message is durable; a reported failure is
  definite; acceptance succeeds when every call passes. A retry replaces metadata atomically, a
  finished message is gone for good, a buried one is found among the dead letters. Opening a
  queue schedules every intact accepted entry. Limiters count exactly what is held, and an
  attempt gives back exactly its slots. Only permitted addresses are dialled, in the order of
  preference; encryption is never given up; a body is verified as it is read; a recipient is
  marked as sent only when the complete message was handed over and acknowledged, and only pending
  recipients are addressed. Diagnostics are clean text, notices can be read back, delays are
  bounded. Two theorems show defects: a reservation that evicts its own address
  (\<open>auth_self_eviction_breaks_aggregates\<close>) and a refusal of the sender that overwrites recipients who
  were sent the message (\<open>refused_sender_overwrites_sent\<close>).

  \<^bold>\<open>Bounds.\<close> There is no fuel: all loops are structural recursions over finite data, except
  decoding, trimming and truncating text and the rotation of MX groups, which have termination
  proofs by length. Reads of a body that stop coming are a failure.

  \<^bold>\<open>Not modelled.\<close> Sessions of the submission server (\<open>smtpd\<close>: callbacks of a library) and its
  floating-point rate limiter, \<open>rejection\<close>, message rewriting (\<open>message\<close>), cryptography
  (\<open>openpgp\<close>, \<open>sign\<close>, \<open>passwd\<close>, \<open>certs\<close>), DNS checks (\<open>check\<close>, \<open>records\<close>), configuration
  files but for the TLS policy, the command line and the queue operations it calls (listing,
  deleting, pruning, reviving dead letters), the Windows and permission code of \<open>disk\<close>, deadlines of
  connections, and log lines.
\<close>

end
